(* ===== verification/Prelude.thy ===== *)
theory Prelude
  imports Complex_Main "HOL-Library.Sublist"
begin

text \<open>
  Shared vocabulary of the development: the collections of facts the component theories
  add to, Python's string helpers that several components call (\<open>strip\<close>, \<open>lower\<close>, the
  \<open>in\<close> operator), the "pop expired entries off the left end of a deque" loop that the
  restart policy and the HTTP rate limiter both contain, and list facts used throughout.

  A Python \<open>str\<close> is a list of \<open>char\<close> (bytes of its UTF-8 encoding); \<open>strip\<close> and
  \<open>lower\<close> are exact on ASCII text.  Clock readings of \<open>time.monotonic()\<close> are reals.
\<close>

named_theorems store_simps \<open>column-wise effect of the writes of the episode store\<close>
named_theorems inv_intros \<open>operations that keep the invariant of their component\<close>
named_theorems frame_simps \<open>fields an operation does not write\<close>

subsection \<open>Python string helpers\<close>

definition py_space :: "char \<Rightarrow> bool" where
  "py_space c \<longleftrightarrow> (let n = (of_char c :: nat) in n = 32 \<or> (9 \<le> n \<and> n \<le> 13) \<or> (28 \<le> n \<and> n \<le> 31))"

definition strip_by :: "(char \<Rightarrow> bool) \<Rightarrow> string \<Rightarrow> string" where
  "strip_by p s = rev (dropWhile p (rev (dropWhile p s)))"

definition py_strip :: "string \<Rightarrow> string" where
  "py_strip s = strip_by py_space s"

definition lower_char :: "char \<Rightarrow> char" where
  "lower_char c = (let n = (of_char c :: nat) in if 65 \<le> n \<and> n \<le> 90 then char_of (n + 32) else c)"

definition py_lower :: "string \<Rightarrow> string" where
  "py_lower s = map lower_char s"

definition py_in :: "string \<Rightarrow> string \<Rightarrow> bool" where
  "py_in needle hay \<longleftrightarrow> sublist needle hay"

lemma py_in_code [code, simp]:
  "py_in needle [] = (needle = [])"
  "py_in needle (c # cs) = (prefix needle (c # cs) \<or> py_in needle cs)"
  by (auto simp: py_in_def sublist_Cons_right)

lemma py_in_empty [simp]: "py_in [] s"
  by (simp add: py_in_def)

text \<open>SQLite's case-insensitive containment \<open>instr(lower(a), lower(b)) > 0\<close>.\<close>

definition instr_ci :: "string \<Rightarrow> string \<Rightarrow> bool" where
  "instr_ci hay needle \<longleftrightarrow> py_in (py_lower needle) (py_lower hay)"

subsection \<open>Expiring the left end of a deque\<close>

text \<open>\<^verbatim>\<open>while q and q[0] < cutoff: q.popleft()\<close>\<close>

fun pop_older :: "real \<Rightarrow> real list \<Rightarrow> real list" where
  "pop_older cutoff [] = []"
| "pop_older cutoff (t # ts) = (if t < cutoff then pop_older cutoff ts else t # ts)"

lemma pop_older_split: "\<exists>old. ts = old @ pop_older cutoff ts \<and> (\<forall>t \<in> set old. t < cutoff)"
proof (induction ts)
  case Nil
  then show ?case by simp
next
  case (Cons t ts)
  then obtain old where old: "ts = old @ pop_older cutoff ts" "\<forall>t \<in> set old. t < cutoff" by blast
  show ?case
  proof (cases "t < cutoff")
    case True
    with old have "t # ts = (t # old) @ pop_older cutoff (t # ts)" by simp
    with True old(2) show ?thesis by (metis set_ConsD)
  qed simp
qed

lemma pop_older_sorted: "sorted ts \<Longrightarrow> sorted (pop_older cutoff ts)"
  by (induction ts) auto

lemma pop_older_filter: "sorted ts \<Longrightarrow> pop_older cutoff ts = filter (\<lambda>t. cutoff \<le> t) ts"
proof (induction ts)
  case Nil
  then show ?case by simp
next
  case (Cons t ts)
  have "cutoff \<le> t \<Longrightarrow> filter (\<lambda>u. cutoff \<le> u) ts = ts"
    using Cons.prems by (fastforce simp: filter_id_conv)
  with Cons show ?case by simp
qed

lemma pop_older_length: "length (pop_older cutoff ts) \<le> length ts"
  by (induction ts) auto

lemma pop_older_set: "set (pop_older cutoff ts) \<subseteq> set ts"
  by (induction ts) auto

lemma pop_older_mono: "c \<le> d \<Longrightarrow> pop_older d (pop_older c ts) = pop_older d ts"
  by (induction ts) auto

lemma pop_older_idem [simp]: "pop_older c (pop_older c ts) = pop_older c ts"
  by (rule pop_older_mono) simp

subsection \<open>Lists\<close>

lemma subseq_set_mono: "subseq xs ys \<Longrightarrow> set xs \<subseteq> set ys"
  by (induction rule: list_emb.induct) auto

lemma subseq_distinct: "subseq xs ys \<Longrightarrow> distinct ys \<Longrightarrow> distinct xs"
  by (induction rule: list_emb.induct) (auto dest: subseq_set_mono)

lemma distinct_map_filter_mono:
  "distinct (map f (filter P xs)) \<Longrightarrow> (\<And>x. x \<in> set xs \<Longrightarrow> Q x \<Longrightarrow> P x) \<Longrightarrow>
    distinct (map f (filter Q xs))"
  by (induction xs) (auto split: if_splits)

lemma find_SomeD: "find P xs = Some x \<Longrightarrow> x \<in> set xs \<and> P x"
  by (induction xs) (auto split: if_splits)

lemma find_sorted_least:
  "sorted (map f xs) \<Longrightarrow> find P xs = Some x \<Longrightarrow> y \<in> set xs \<Longrightarrow> P y \<Longrightarrow> f x \<le> f y"
  by (induction xs) (auto split: if_splits)

lemma take_sort_key_least:
  assumes "x \<in> set (take n (sort_key f xs))" "y \<in> set xs" "y \<notin> set (take n (sort_key f xs))"
  shows "f x \<le> f y"
proof -
  let ?s = "sort_key f xs"
  have s: "sorted (map f ?s)" by simp
  have "y \<in> set (drop n ?s)"
    using assms(2,3) append_take_drop_id [of n ?s]
    by (metis Un_iff set_append set_sort)
  moreover have "sorted (map f (take n ?s) @ map f (drop n ?s))"
    by (metis append_take_drop_id map_append s)
  ultimately show ?thesis
    using assms(1) by (auto simp: sorted_append)
qed

end
