(* ===== verification/SlidingWindow.thy ===== *)
theory SlidingWindow
  imports Prelude
begin

text \<open>
  The interface two components share: a limiter that keeps a queue of the times it
  admitted something, expires the entries older than its window before it looks, and
  admits only while the queue holds fewer than its capacity.  The restart policy
  (\<open>daemon/falkordb_restart_policy.py\<close>) and the per-address request limiter
  (\<open>daemon/http_search_memory_handler.py\<close>) both promise these laws; what follows from
  them about the admitted times of a whole run is proved here once.
\<close>

text \<open>Any \<open>n + 1\<close> admissions in a row span more than the window \<open>w\<close>.\<close>

definition spread :: "real \<Rightarrow> nat \<Rightarrow> real list \<Rightarrow> bool" where
  "spread w n ts \<longleftrightarrow> (\<forall>i. i + n < length ts \<longrightarrow> ts ! i + w < ts ! (i + n))"

lemma spread_Nil [simp]: "spread w n []"
  by (simp add: spread_def)

lemma spread_snoc:
  assumes "spread w n ts"
    and "n \<le> length ts \<Longrightarrow> 0 < n \<Longrightarrow> ts ! (length ts - n) + w < t"
    and "0 < n"
  shows "spread w n (ts @ [t])"
  unfolding spread_def
proof (intro allI impI)
  fix i assume i: "i + n < length (ts @ [t])"
  show "(ts @ [t]) ! i + w < (ts @ [t]) ! (i + n)"
  proof (cases "i + n < length ts")
    case True
    with assms(1) show ?thesis by (auto simp: spread_def nth_append)
  next
    case False
    with i have "i = length ts - n" "n \<le> length ts" by auto
    with assms(2,3) show ?thesis by (auto simp: nth_append)
  qed
qed

lemma sorted_takeWhile_le: "sorted ts \<Longrightarrow> takeWhile (\<lambda>t. t \<le> c) ts = filter (\<lambda>t. t \<le> (c::real)) ts"
proof (induction ts)
  case (Cons t ts)
  have "\<not> t \<le> c \<Longrightarrow> filter (\<lambda>u. u \<le> c) ts = []"
    using Cons.prems by (force simp: filter_empty_conv)
  with Cons show ?case by simp
qed simp

lemma sorted_dropWhile_ge: "sorted ts \<Longrightarrow> dropWhile (\<lambda>t. t < c) ts = filter (\<lambda>t. (c::real) \<le> t) ts"
proof (induction ts)
  case (Cons t ts)
  have "\<not> t < c \<Longrightarrow> filter (\<lambda>u. c \<le> u) ts = ts"
    using Cons.prems by (force simp: filter_id_conv)
  with Cons show ?case by auto
qed simp

lemma sorted_window:
  assumes "sorted ts"
  shows "filter (\<lambda>t. a \<le> t \<and> t \<le> (b::real)) ts = takeWhile (\<lambda>t. t \<le> b) (dropWhile (\<lambda>t. t < a) ts)"
  using assms by (simp add: sorted_dropWhile_ge sorted_takeWhile_le sorted_wrt_filter conj_commute)

text \<open>What the spread of a sorted list means: a closed interval of the window's length holds
  at most \<open>n\<close> of its entries.\<close>

lemma spread_window_count:
  assumes sp: "spread w n ts" and so: "sorted ts"
  shows "length (filter (\<lambda>t. a \<le> t \<and> t \<le> a + w) ts) \<le> n"
proof (rule ccontr)
  let ?P = "\<lambda>t. a \<le> t \<and> t \<le> a + w"
  let ?ys = "dropWhile (\<lambda>t. t < a) ts"
  let ?k = "length (takeWhile (\<lambda>t. t < a) ts)"
  let ?zs = "takeWhile (\<lambda>t. t \<le> a + w) ?ys"
  assume "\<not> length (filter ?P ts) \<le> n"
  with so have len: "n < length ?zs" by (simp add: sorted_window)
  have in_ts: "?zs ! j = ts ! (?k + j)" if "j < length ?zs" for j
    using that takeWhile_dropWhile_id [of "\<lambda>t. t < a" ts] nth_append_length_plus [of _ ?ys j]
    by (metis takeWhile_nth)
  have "?P (?zs ! j)" if "j < length ?zs" for j
  proof -
    have "?zs ! j \<in> set (filter ?P ts)" using that so by (simp only: sorted_window nth_mem)
    then show ?thesis by simp
  qed
  moreover have "0 < length ?zs" using len by linarith
  ultimately have "a \<le> ts ! ?k" "ts ! (?k + n) \<le> a + w"
    using len in_ts [of 0] in_ts [of n] by (metis add.right_neutral)+
  moreover have "?k + n < length ts"
    using len length_takeWhile_le [of "\<lambda>t. t \<le> a + w" ?ys]
    by (metis add_less_cancel_left length_append order_less_le_trans takeWhile_dropWhile_id)
  ultimately show False
    using sp by (force simp: spread_def)
qed

subsection \<open>The limiter interface\<close>

text \<open>The times a run of events admits.\<close>

fun run_log :: "('e \<Rightarrow> 's \<Rightarrow> 's) \<Rightarrow> ('e \<Rightarrow> 's \<Rightarrow> real option) \<Rightarrow> 'e list \<Rightarrow> 's \<Rightarrow> real list" where
  "run_log step admitted [] s = []"
| "run_log step admitted (e # es) s =
     (case admitted e s of None \<Rightarrow> [] | Some t \<Rightarrow> [t]) @ run_log step admitted es (step e s)"

text \<open>The events read a monotonic clock: each is orderly in itself and starts after the one
  before it ended.\<close>

fun clocked :: "('e \<Rightarrow> bool) \<Rightarrow> ('e \<Rightarrow> real) \<Rightarrow> ('e \<Rightarrow> real) \<Rightarrow> real \<Rightarrow> 'e list \<Rightarrow> bool" where
  "clocked orderly checked ends lo [] = True"
| "clocked orderly checked ends lo (e # es) =
     (orderly e \<and> lo \<le> checked e \<and> clocked orderly checked ends (ends e) es)"

locale window_limiter =
  fixes hits :: "'s \<Rightarrow> real list"
    and cap :: "'s \<Rightarrow> int"
    and step :: "'e \<Rightarrow> 's \<Rightarrow> 's"
    and admitted :: "'e \<Rightarrow> 's \<Rightarrow> real option"
    and orderly :: "'e \<Rightarrow> bool"
    and checked :: "'e \<Rightarrow> real"
    and ends :: "'e \<Rightarrow> real"
    and w :: real
    and inv :: "'s \<Rightarrow> bool"
  assumes cap_step: "inv s \<Longrightarrow> orderly e \<Longrightarrow> cap (step e s) = cap s"
    and inv_step: "inv s \<Longrightarrow> orderly e \<Longrightarrow> inv (step e s)"
    and orderly_ends: "orderly e \<Longrightarrow> checked e \<le> ends e"
    and refuse: "inv s \<Longrightarrow> orderly e \<Longrightarrow> admitted e s = None \<Longrightarrow>
      \<exists>old. hits s = old @ hits (step e s) \<and> (\<forall>t \<in> set old. t < ends e - w)"
    and admit: "inv s \<Longrightarrow> orderly e \<Longrightarrow> admitted e s = Some t \<Longrightarrow>
      hits (step e s) = pop_older (checked e - w) (hits s) @ [t] \<and>
      int (length (pop_older (checked e - w) (hits s))) < cap s \<and> checked e \<le> t \<and> t \<le> ends e"
begin

lemma run_spread:
  assumes "inv s" "clocked orderly checked ends lo es"
    and "past = gone @ hits s" "\<forall>t \<in> set gone. t < lo - w" "\<forall>t \<in> set past. t \<le> lo"
    and "sorted past" "spread w (nat (cap s)) past"
  shows "sorted (past @ run_log step admitted es s) \<and>
    spread w (nat (cap s)) (past @ run_log step admitted es s)"
  using assms
proof (induction es arbitrary: s lo past gone)
  case Nil
  then show ?case by simp
next
  case (Cons e es)
  then have i: "inv s" "inv (step e s)" "cap (step e s) = cap s" by (auto intro: inv_step cap_step)
  from Cons have e: "orderly e" "lo \<le> checked e" "checked e \<le> ends e"
    "clocked orderly checked ends (ends e) es" by (auto intro: orderly_ends)
  show ?case
  proof (cases "admitted e s")
    case None
    then obtain old where old: "hits s = old @ hits (step e s)" "\<forall>t \<in> set old. t < ends e - w"
      using refuse [OF i(1) e(1)] by blast
    have "\<forall>t \<in> set (gone @ old). t < ends e - w" "\<forall>t \<in> set past. t \<le> ends e"
      using Cons.prems(4,5) old(2) e by force+
    with Cons.IH [OF i(2) e(4), of past "gone @ old"] Cons.prems(3,6,7) old(1) None
    show ?thesis by (simp add: i)
  next
    case (Some t)
    note a = admit [OF i(1) e(1) Some]
    obtain old where old: "hits s = old @ pop_older (checked e - w) (hits s)"
      "\<forall>u \<in> set old. u < checked e - w"
      using pop_older_split [of "hits s"] by blast
    let ?q = "pop_older (checked e - w) (hits s)"
    have past: "past = (gone @ old) @ ?q" using Cons.prems(3) old(1) by simp
    have gone: "\<forall>u \<in> set (gone @ old). u < checked e - w"
      using Cons.prems(4) old(2) e(2) by force
    have far: "past ! (length past - n) + w < t" if "n = nat (cap s)" "0 < n" "n \<le> length past" for n
    proof -
      have "length ?q < n" using a that by linarith
      then have "length past - n < length (gone @ old)" using past that by simp
      then have "past ! (length past - n) \<in> set (gone @ old)"
        by (metis nth_append nth_mem past)
      with gone have "past ! (length past - n) < checked e - w" by blast
      with a show ?thesis by linarith
    qed
    have "sorted (past @ [t])" "\<forall>u \<in> set (past @ [t]). u \<le> ends e"
      using Cons.prems(5,6) a e by (force simp: sorted_append)+
    moreover have "spread w (nat (cap s)) (past @ [t])"
      using far [of "nat (cap s)"] Cons.prems(7) a by (intro spread_snoc) auto
    moreover have "past @ [t] = (gone @ old) @ hits (step e s)" using past a by simp
    moreover have "\<forall>u \<in> set (gone @ old). u < ends e - w" using gone e(3) by (metis diff_right_mono order_less_le_trans)
    ultimately have "sorted ((past @ [t]) @ run_log step admitted es (step e s)) \<and>
      spread w (nat (cap s)) ((past @ [t]) @ run_log step admitted es (step e s))"
      using Cons.IH [OF i(2) e(4), of "past @ [t]" "gone @ old"] unfolding i(3) by blast
    then show ?thesis using Some by simp
  qed
qed

theorem window_bound:
  assumes "inv s" "clocked orderly checked ends lo es" "hits s = []"
  shows "length (filter (\<lambda>t. a \<le> t \<and> t \<le> a + w) (run_log step admitted es s)) \<le> nat (cap s)"
  using run_spread [OF assms(1,2), of "[]" "[]"] assms(3) by (simp add: spread_window_count)

end

end
