(* ===== verification/CircuitBreaker.thy ===== *)
theory CircuitBreaker
  imports Prelude
begin

text \<open>
  \<open>daemon/circuit_breaker.py\<close>: the three-state breaker that gates FalkorDB probes.  The
  breaker object is a record; every method is a function from the object (and the
  readings of \<open>time.monotonic()\<close> it takes, in order) to the new object, its return value
  and the calls it makes to the registered \<open>on_open\<close> hook.  Both \<open>asyncio\<close> locks make a
  method atomic, so a run is a sequence of method calls.
\<close>

subsection \<open>State\<close>

datatype circuit_state = CLOSED | OPEN | HALF_OPEN

record circuit_settings =
  failure_threshold :: int
  reset_timeout_sec :: int
  half_open_max_probes :: int

definition default_circuit_settings :: circuit_settings where
  "default_circuit_settings =
     \<lparr>failure_threshold = 3, reset_timeout_sec = 60, half_open_max_probes = 1\<rparr>"

record circuit_snapshot =
  snap_state :: circuit_state
  snap_failure_count :: int
  snap_failure_threshold :: int
  snap_reset_timeout_sec :: int
  snap_retry_at :: "real option"
  snap_last_transition_at :: real

text \<open>A registered callback is a plain function or one that returns a coroutine.\<close>

datatype open_hook = SyncHook | AsyncHook

text \<open>What \<open>_transition_to\<close> does with it.  A plain callback runs in the call.  The call of a coroutine function only makes a
  coroutine object, which nobody awaits; the scheduled \<open>_invoke_async_callback\<close> task calls it again and runs the body.\<close>

datatype hook_call =
    HookCalled circuit_snapshot
  | CoroutineUnawaited circuit_snapshot
  | HookScheduled circuit_snapshot

fun runs_body :: "hook_call \<Rightarrow> bool" where
  "runs_body (HookCalled snap) = True"
| "runs_body (CoroutineUnawaited snap) = False"
| "runs_body (HookScheduled snap) = True"

record breaker =
  cb_settings :: circuit_settings
  cb_state :: circuit_state
  cb_failure_count :: int
  cb_retry_at :: "real option"
  cb_last_transition_at :: real
  cb_on_open :: "open_hook option"

subsection \<open>Operations\<close>

definition new_breaker :: "circuit_settings option \<Rightarrow> real \<Rightarrow> breaker" where
  "new_breaker settings now =
     \<lparr>cb_settings = (case settings of None \<Rightarrow> default_circuit_settings | Some s \<Rightarrow> s),
      cb_state = CLOSED, cb_failure_count = 0, cb_retry_at = None,
      cb_last_transition_at = now, cb_on_open = None\<rparr>"

definition breaker_snapshot :: "breaker \<Rightarrow> circuit_snapshot" where
  "breaker_snapshot b =
     \<lparr>snap_state = cb_state b, snap_failure_count = cb_failure_count b,
      snap_failure_threshold = failure_threshold (cb_settings b),
      snap_reset_timeout_sec = reset_timeout_sec (cb_settings b),
      snap_retry_at = cb_retry_at b, snap_last_transition_at = cb_last_transition_at b\<rparr>"

definition on_open :: "breaker \<Rightarrow> open_hook \<Rightarrow> breaker" where
  "on_open b h = b\<lparr>cb_on_open := Some h\<rparr>"

definition transition_to :: "breaker \<Rightarrow> circuit_state \<Rightarrow> real \<Rightarrow> breaker \<times> hook_call list" where
  "transition_to b new now =
     (let old = cb_state b;
          b' = b\<lparr>cb_state := new, cb_last_transition_at := now\<rparr>;
          snap = breaker_snapshot b'
      in (b', if old = CLOSED \<and> new = OPEN
              then (case cb_on_open b of None \<Rightarrow> []
                    | Some SyncHook \<Rightarrow> [HookCalled snap]
                    | Some AsyncHook \<Rightarrow> [CoroutineUnawaited snap, HookScheduled snap])
              else []))"

definition allow_probe :: "breaker \<Rightarrow> real \<Rightarrow> real \<Rightarrow> breaker \<times> bool \<times> hook_call list" where
  "allow_probe b now now' =
     (case cb_state b of
        CLOSED \<Rightarrow> (b, True, [])
      | OPEN \<Rightarrow>
          (case cb_retry_at b of
             Some r \<Rightarrow>
               if r \<le> now then (case transition_to b HALF_OPEN now' of (b', calls) \<Rightarrow> (b', True, calls))
               else (b, False, [])
           | None \<Rightarrow> (b, False, []))
      | HALF_OPEN \<Rightarrow> (b, True, []))"

definition record_success :: "breaker \<Rightarrow> real \<Rightarrow> breaker \<times> hook_call list" where
  "record_success b now =
     (case cb_state b of
        HALF_OPEN \<Rightarrow>
          (case transition_to b CLOSED now of (b', calls) \<Rightarrow>
             (b'\<lparr>cb_failure_count := 0, cb_retry_at := None\<rparr>, calls))
      | CLOSED \<Rightarrow> (b\<lparr>cb_failure_count := 0\<rparr>, [])
      | OPEN \<Rightarrow> (b, []))"

definition record_failure :: "breaker \<Rightarrow> real \<Rightarrow> real \<Rightarrow> breaker \<times> hook_call list" where
  "record_failure b0 now now' =
     (let b = b0\<lparr>cb_failure_count := cb_failure_count b0 + 1\<rparr>;
          trip = (case transition_to b OPEN now of (b', calls) \<Rightarrow>
                    (b'\<lparr>cb_retry_at := Some (now' + of_int (reset_timeout_sec (cb_settings b)))\<rparr>, calls))
      in case cb_state b of
           HALF_OPEN \<Rightarrow> trip
         | CLOSED \<Rightarrow> if failure_threshold (cb_settings b) \<le> cb_failure_count b then trip else (b, [])
         | OPEN \<Rightarrow> (b, []))"

definition acquire_probe_slot :: "breaker \<Rightarrow> bool" where
  "acquire_probe_slot b = (if cb_state b \<noteq> HALF_OPEN then False else True)"

definition reset_breaker :: "breaker \<Rightarrow> real \<Rightarrow> breaker" where
  "reset_breaker b now =
     b\<lparr>cb_state := CLOSED, cb_failure_count := 0, cb_retry_at := None, cb_last_transition_at := now\<rparr>"

subsection \<open>Runs\<close>

datatype breaker_event =
    AllowProbe real real
  | RecordSuccess real
  | RecordFailure real real

fun breaker_step :: "breaker \<Rightarrow> breaker_event \<Rightarrow> breaker \<times> hook_call list" where
  "breaker_step b (AllowProbe now now') = (case allow_probe b now now' of (b', _, calls) \<Rightarrow> (b', calls))"
| "breaker_step b (RecordSuccess now) = record_success b now"
| "breaker_step b (RecordFailure now now') = record_failure b now now'"

fun breaker_run :: "breaker \<Rightarrow> breaker_event list \<Rightarrow> breaker \<times> hook_call list" where
  "breaker_run b [] = (b, [])"
| "breaker_run b (e # es) =
     (case breaker_step b e of (b', calls) \<Rightarrow>
        case breaker_run b' es of (b'', calls') \<Rightarrow> (b'', calls @ calls'))"

inductive breaker_reachable :: "breaker \<Rightarrow> bool" where
  fresh: "breaker_reachable (new_breaker settings now)"
| hooked: "breaker_reachable b \<Longrightarrow> breaker_reachable (on_open b h)"
| stepped: "breaker_reachable b \<Longrightarrow> breaker_reachable (fst (breaker_step b e))"

lemmas breaker_defs = allow_probe_def record_success_def record_failure_def transition_to_def
  breaker_snapshot_def Let_def

lemmas breaker_splits = circuit_state.splits option.splits if_splits open_hook.splits prod.splits

lemma breaker_step_settings [frame_simps]:
  "cb_settings (fst (breaker_step b e)) = cb_settings b"
  "cb_on_open (fst (breaker_step b e)) = cb_on_open b"
  by (cases e; simp add: breaker_defs split: breaker_splits)+

text \<open>The retry time is present exactly while the circuit is not closed, a closed circuit has
  not reached its threshold, and every failure streak is counted.\<close>

definition breaker_inv :: "breaker \<Rightarrow> bool" where
  "breaker_inv b \<longleftrightarrow>
     (cb_state b = CLOSED \<longleftrightarrow> cb_retry_at b = None) \<and> 0 \<le> cb_failure_count b \<and>
     (cb_state b = CLOSED \<longrightarrow> cb_failure_count b = 0 \<or> cb_failure_count b < failure_threshold (cb_settings b)) \<and>
     (cb_state b \<noteq> CLOSED \<longrightarrow> 0 < cb_failure_count b)"

lemma breaker_inv_step [inv_intros]: "breaker_inv b \<Longrightarrow> breaker_inv (fst (breaker_step b e))"
  by (cases e; cases "cb_state b"; auto simp: breaker_inv_def breaker_defs split: breaker_splits)

lemma breaker_reachable_inv: "breaker_reachable b \<Longrightarrow> breaker_inv b"
  by (induction rule: breaker_reachable.induct)
    (auto simp: breaker_inv_step, auto simp: breaker_inv_def new_breaker_def on_open_def)

inductive_cases stepped_breakerE: "breaker_reachable (fst (breaker_step b e))"

text \<open>When a step moves the circuit, and where to: the arrows of the state diagram.\<close>

definition breaker_arrow :: "breaker \<Rightarrow> breaker_event \<Rightarrow> circuit_state option" where
  "breaker_arrow b e =
     (case (cb_state b, e) of
        (CLOSED, RecordFailure _ _) \<Rightarrow>
          if failure_threshold (cb_settings b) \<le> cb_failure_count b + 1 then Some OPEN else None
      | (OPEN, AllowProbe now _) \<Rightarrow>
          (case cb_retry_at b of Some r \<Rightarrow> if r \<le> now then Some HALF_OPEN else None | None \<Rightarrow> None)
      | (HALF_OPEN, RecordSuccess _) \<Rightarrow> Some CLOSED
      | (HALF_OPEN, RecordFailure _ _) \<Rightarrow> Some OPEN
      | _ \<Rightarrow> None)"

lemma breaker_step_arrow:
  "cb_state (fst (breaker_step b e)) = (case breaker_arrow b e of None \<Rightarrow> cb_state b | Some s \<Rightarrow> s)"
  by (cases e; cases "cb_state b"; simp add: breaker_arrow_def breaker_defs split: option.splits)

lemma breaker_step_hooks:
  "snd (breaker_step b e) \<noteq> [] \<longleftrightarrow>
     cb_on_open b \<noteq> None \<and> cb_state b = CLOSED \<and> cb_state (fst (breaker_step b e)) = OPEN"
  by (cases e; cases "cb_state b"; simp add: breaker_defs split: option.splits open_hook.splits)

lemma breaker_run_Cons [simp]:
  "breaker_run b (e # es) =
     (fst (breaker_run (fst (breaker_step b e)) es),
      snd (breaker_step b e) @ snd (breaker_run (fst (breaker_step b e)) es))"
  by (simp split: prod.splits)

declare breaker_run.simps(2) [simp del]

lemma breaker_run_append:
  "breaker_run b (es @ fs) =
     (fst (breaker_run (fst (breaker_run b es)) fs),
      snd (breaker_run b es) @ snd (breaker_run (fst (breaker_run b es)) fs))"
  by (induction es arbitrary: b) auto

lemma breaker_run_settings [frame_simps]:
  "cb_settings (fst (breaker_run b es)) = cb_settings b"
  "cb_on_open (fst (breaker_run b es)) = cb_on_open b"
  by (induction es arbitrary: b) (auto simp: breaker_step_settings)

lemma breaker_run_reachable: "breaker_reachable b \<Longrightarrow> breaker_reachable (fst (breaker_run b es))"
  by (induction es arbitrary: b) (auto intro: breaker_reachable.stepped)

text \<open>The recoveries of a run: the steps that close the circuit again.\<close>

fun recoveries :: "breaker \<Rightarrow> breaker_event list \<Rightarrow> nat" where
  "recoveries b [] = 0"
| "recoveries b (e # es) =
     (if cb_state b \<noteq> CLOSED \<and> cb_state (fst (breaker_step b e)) = CLOSED then 1 else 0) +
     recoveries (fst (breaker_step b e)) es"

lemma hook_runs_step:
  "cb_on_open b \<noteq> None \<Longrightarrow>
    length (filter runs_body (snd (breaker_step b e))) =
      (if cb_state b = CLOSED \<and> cb_state (fst (breaker_step b e)) \<noteq> CLOSED then 1 else 0)"
  by (cases e; cases "cb_state b"; auto simp: breaker_defs split: option.splits open_hook.splits)

subsection \<open>Properties\<close>

text \<open>From a healthy closed circuit, a run of consecutive failures keeps it closed until the
  configured threshold is reached and opens it exactly then; further failures leave it open.\<close>

theorem breaker_trips_at_threshold:
  assumes "cb_state b = CLOSED" "cb_failure_count b = 0" "1 \<le> failure_threshold (cb_settings b)"
  shows "cb_state (fst (breaker_run b (map (\<lambda>(t, t'). RecordFailure t t') clocks))) =
    (if int (length clocks) < failure_threshold (cb_settings b) then CLOSED else OPEN)"
proof -
  let ?after = "\<lambda>cs. fst (breaker_run b (map (\<lambda>(t, t'). RecordFailure t t') cs))"
  have "cb_state (?after clocks) =
      (if int (length clocks) < failure_threshold (cb_settings b) then CLOSED else OPEN) \<and>
    cb_failure_count (?after clocks) = int (length clocks)"
  proof (induction clocks rule: rev_induct)
    case Nil
    with assms show ?case by simp
  next
    case (snoc c cs)
    obtain t t' where c: "c = (t, t')" by (cases c)
    have "?after (cs @ [c]) = fst (record_failure (?after cs) t t')"
      by (simp add: breaker_run_append c split: prod.splits)
    with snoc show ?case
      by (auto simp: breaker_defs breaker_run_settings)
  qed
  then show ?thesis by simp
qed

theorem breaker_trips_at_threshold_witness:
  "cb_state (fst (breaker_run (new_breaker None 0)
     (map (\<lambda>(t, t'). RecordFailure t t') [(1, 1), (2, 2), (3, 3)]))) = OPEN"
  using breaker_trips_at_threshold [of "new_breaker None 0" "[(1, 1), (2, 2), (3, 3)]"]
  by (simp add: new_breaker_def default_circuit_settings_def)

text \<open>While an open circuit cools down nothing moves it: every probe asked for before the retry
  time is refused, whatever successes and failures are reported meanwhile, and the first
  probe asked for from that time on is let through and leaves the circuit half open.\<close>

theorem breaker_open_cooldown:
  assumes "cb_state b = OPEN" "cb_retry_at b = Some r"
    and "\<forall>now now'. AllowProbe now now' \<in> set es \<longrightarrow> now < r"
  shows "cb_state (fst (breaker_run b es)) = OPEN \<and> cb_retry_at (fst (breaker_run b es)) = Some r \<and>
    (\<forall>now now'. fst (snd (allow_probe (fst (breaker_run b es)) now now')) = (r \<le> now) \<and>
       cb_state (fst (allow_probe (fst (breaker_run b es)) now now')) = (if r \<le> now then HALF_OPEN else OPEN))"
proof -
  have "cb_state (fst (breaker_run b es)) = OPEN \<and> cb_retry_at (fst (breaker_run b es)) = Some r"
    using assms
  proof (induction es arbitrary: b)
    case (Cons e es)
    have "cb_state (fst (breaker_step b e)) = OPEN \<and> cb_retry_at (fst (breaker_step b e)) = Some r"
      using Cons.prems by (cases e) (force simp: breaker_defs)+
    moreover have "\<forall>now now'. AllowProbe now now' \<in> set es \<longrightarrow> now < r"
      using Cons.prems(3) by (meson list.set_intros(2))
    ultimately show ?case
      using Cons.IH [of "fst (breaker_step b e)"] by (simp split: prod.splits)
  qed simp
  then show ?thesis by (auto simp: breaker_defs)
qed

theorem breaker_open_cooldown_witness:
  "cb_state (fst (breaker_run ((new_breaker None 0)\<lparr>cb_state := OPEN, cb_retry_at := Some 60\<rparr>)
     [AllowProbe 10 10, RecordFailure 11 11])) = OPEN"
  using breaker_open_cooldown
    [of "(new_breaker None 0)\<lparr>cb_state := OPEN, cb_retry_at := Some 60\<rparr>" 60 "[AllowProbe 10 10, RecordFailure 11 11]"]
  by simp

text \<open>C11: Whatever callback is registered, plain or a coroutine function, in a run that starts closed its body runs as often as the
  circuit recovers, plus once if the circuit is not closed at the end: once per outage, never again on a half-open probe that
  fails.\<close>

theorem breaker_one_hook_per_outage:
  assumes "cb_state b = CLOSED" "cb_on_open b \<noteq> None"
  shows "length (filter runs_body (snd (breaker_run b es))) =
    recoveries b es + (if cb_state (fst (breaker_run b es)) = CLOSED then 0 else 1)"
proof -
  have "length (filter runs_body (snd (breaker_run b es))) + (if cb_state b = CLOSED then 0 else 1) =
      recoveries b es + (if cb_state (fst (breaker_run b es)) = CLOSED then 0 else 1)"
    if "cb_on_open b \<noteq> None" for b
    using that
  proof (induction es arbitrary: b)
    case (Cons e es)
    let ?b = "fst (breaker_step b e)"
    have "length (filter runs_body (snd (breaker_run ?b es))) + (if cb_state ?b = CLOSED then 0 else 1) =
      recoveries ?b es + (if cb_state (fst (breaker_run ?b es)) = CLOSED then 0 else 1)"
      using Cons by (simp add: breaker_step_settings)
    with hook_runs_step [OF Cons.prems, of e] show ?case
      by (auto split: prod.splits if_splits)
  qed simp
  from this [OF assms(2)] assms(1) show ?thesis by simp
qed

theorem breaker_one_hook_per_outage_witness:
  "length (filter runs_body (snd (breaker_run (on_open (new_breaker None 0) AsyncHook)
     [RecordFailure 1 1, RecordFailure 2 2, RecordFailure 3 3, AllowProbe 70 70, RecordFailure 71 71]))) = 1"
  using breaker_one_hook_per_outage [of "on_open (new_breaker None 0) AsyncHook"
    "[RecordFailure 1 1, RecordFailure 2 2, RecordFailure 3 3, AllowProbe 70 70, RecordFailure 71 71]"]
  by (simp add: new_breaker_def on_open_def default_circuit_settings_def breaker_defs)

text \<open>In every reachable breaker, the snapshot handed to the hook shows the open state with a
  failure count at the threshold but no retry time, although the object itself has its
  retry time set when the method returns.\<close>

theorem breaker_hook_snapshot_stale:
  assumes "breaker_reachable b" "HookCalled snap \<in> set (snd (breaker_step b e))"
  shows "snap_state snap = OPEN \<and> snap_failure_threshold snap \<le> snap_failure_count snap \<and>
    snap_retry_at snap = None \<and> cb_retry_at (fst (breaker_step b e)) \<noteq> None"
  using breaker_reachable_inv [OF assms(1)] assms(2)
  by (cases e; cases "cb_state b"; auto simp: breaker_inv_def breaker_defs split: breaker_splits)

theorem breaker_hook_snapshot_stale_witness:
  "\<exists>b e snap. breaker_reachable b \<and> HookCalled snap \<in> set (snd (breaker_step b e)) \<and>
     snap_retry_at snap = None"
proof -
  let ?b = "on_open (new_breaker (Some (default_circuit_settings\<lparr>failure_threshold := 1\<rparr>)) 0) SyncHook"
  have "breaker_reachable ?b" by (intro breaker_reachable.intros)
  moreover obtain snap where "HookCalled snap \<in> set (snd (breaker_step ?b (RecordFailure 5 5)))"
    by (simp add: new_breaker_def on_open_def default_circuit_settings_def breaker_defs)
  ultimately show ?thesis using breaker_hook_snapshot_stale by blast
qed

lemma probe_slot_never_exhausted:
  "cb_state b = HALF_OPEN \<Longrightarrow> half_open_max_probes (cb_settings b) = 1 \<Longrightarrow>
    acquire_probe_slot b \<and> acquire_probe_slot (fst (allow_probe b now now'))"
  by (simp add: acquire_probe_slot_def allow_probe_def)

end
