(* ===== verification/RestartPolicy.thy ===== *)
theory RestartPolicy
  imports SlidingWindow CircuitBreaker
begin

text \<open>
  \<open>daemon/falkordb_restart_policy.py\<close>: at most \<open>max_per_hour\<close> engine restarts in any hour,
  at least \<open>cooldown_sec\<close> apart, and a fatal state that only an operator leaves.  The
  policy object is a record; \<open>manager.start()\<close> is an argument (it returned a bool or it
  raised), and the successive readings of \<open>time.monotonic()\<close> of one attempt are the
  fields of a \<open>restart_clock\<close>.
\<close>

subsection \<open>State\<close>

datatype policy_state = RP_OK | COOLING_DOWN | BUDGET_EXHAUSTED | FATAL_DEGRADED

record policy_settings =
  cooldown_sec :: int
  max_per_hour :: int

definition default_policy_settings :: policy_settings where
  "default_policy_settings = \<lparr>cooldown_sec = 60, max_per_hour = 5\<rparr>"

record policy_snapshot =
  ps_state :: policy_state
  ps_restarts_in_window :: nat
  ps_max_per_hour :: int
  ps_seconds_since_last :: "real option"
  ps_cooldown_sec :: int
  ps_last_restart_at :: "real option"

text \<open>\<open>rp_alerts\<close> collects the snapshots passed to the \<open>on_budget_exhausted\<close> callback.\<close>

record policy =
  rp_settings :: policy_settings
  rp_manager :: "nat option"
  rp_has_callback :: bool
  rp_restart_times :: "real list"
  rp_last_restart_at :: "real option"
  rp_state :: policy_state
  rp_in_progress :: bool
  rp_disabled :: bool
  rp_alerts :: "policy_snapshot list"

datatype start_outcome = Started bool | StartRaised

record restart_clock =
  t_prune :: real
  t_elapsed :: real
  t_started :: real
  t_snap_prune :: real
  t_snap_now :: real

subsection \<open>Operations\<close>

definition new_policy :: "policy_settings option \<Rightarrow> nat option \<Rightarrow> bool \<Rightarrow> policy" where
  "new_policy settings manager has_cb =
     \<lparr>rp_settings = (case settings of None \<Rightarrow> default_policy_settings | Some s \<Rightarrow> s),
      rp_manager = manager, rp_has_callback = has_cb, rp_restart_times = [],
      rp_last_restart_at = None, rp_state = RP_OK, rp_in_progress = False,
      rp_disabled = False, rp_alerts = []\<rparr>"

definition disable :: "policy \<Rightarrow> policy" where
  "disable p = (if rp_disabled p then p else p\<lparr>rp_disabled := True\<rparr>)"

definition disabled_reason :: "policy \<Rightarrow> string option" where
  "disabled_reason p = (if rp_disabled p then Some ''operator_disabled'' else None)"

definition prune_window :: "real \<Rightarrow> policy \<Rightarrow> policy" where
  "prune_window now p = p\<lparr>rp_restart_times := pop_older (now - 3600) (rp_restart_times p)\<rparr>"

definition policy_snapshot_of :: "policy \<Rightarrow> real \<Rightarrow> real \<Rightarrow> policy \<times> policy_snapshot" where
  "policy_snapshot_of p now now' =
     (let q = prune_window now p
      in (q, \<lparr>ps_state = rp_state q, ps_restarts_in_window = length (rp_restart_times q),
              ps_max_per_hour = max_per_hour (rp_settings q),
              ps_seconds_since_last = map_option (\<lambda>t. now' - t) (rp_last_restart_at q),
              ps_cooldown_sec = cooldown_sec (rp_settings q),
              ps_last_restart_at = rp_last_restart_at q\<rparr>))"

definition register_manager :: "policy \<Rightarrow> nat \<Rightarrow> policy" where
  "register_manager p m = p\<lparr>rp_manager := Some m\<rparr>"

definition can_restart :: "policy \<Rightarrow> real \<Rightarrow> real \<Rightarrow> policy \<times> bool" where
  "can_restart p now now' =
     (if rp_state p = FATAL_DEGRADED then (p, False)
      else if rp_state p = BUDGET_EXHAUSTED then (p, False)
      else let q = prune_window now p in
        if max_per_hour (rp_settings q) \<le> int (length (rp_restart_times q)) then (q, False)
        else case rp_last_restart_at q of
               Some t \<Rightarrow> (q, \<not> now' - t < of_int (cooldown_sec (rp_settings q)))
             | None \<Rightarrow> (q, True))"

definition enter_fatal_degraded :: "policy \<Rightarrow> real \<Rightarrow> real \<Rightarrow> policy" where
  "enter_fatal_degraded p now now' =
     (if rp_state p = FATAL_DEGRADED then p
      else case policy_snapshot_of (p\<lparr>rp_state := FATAL_DEGRADED\<rparr>) now now' of (q, snap) \<Rightarrow>
        if rp_has_callback q then q\<lparr>rp_alerts := rp_alerts q @ [snap]\<rparr> else q)"

text \<open>The result also says whether \<open>manager.start()\<close> was called.\<close>

definition attempt_restart_locked ::
  "policy \<Rightarrow> restart_clock \<Rightarrow> start_outcome \<Rightarrow> policy \<times> bool \<times> bool" where
  "attempt_restart_locked p0 c outcome =
     (let p = prune_window (t_prune c) p0;
          cooling = (case rp_last_restart_at p of
                       Some t \<Rightarrow> t_elapsed c - t < of_int (cooldown_sec (rp_settings p))
                     | None \<Rightarrow> False)
      in if cooling then (p\<lparr>rp_state := COOLING_DOWN\<rparr>, False, False)
         else if max_per_hour (rp_settings p) \<le> int (length (rp_restart_times p))
           then (enter_fatal_degraded p (t_snap_prune c) (t_snap_now c), False, False)
         else if rp_manager p = None then (p, False, False)
         else case outcome of
             StartRaised \<Rightarrow> (enter_fatal_degraded p (t_snap_prune c) (t_snap_now c), False, True)
           | Started ok \<Rightarrow>
               (p\<lparr>rp_restart_times := rp_restart_times p @ [t_started c],
                 rp_last_restart_at := Some (t_started c), rp_state := RP_OK\<rparr>, ok, True))"

definition attempt_restart ::
  "policy \<Rightarrow> restart_clock \<Rightarrow> start_outcome \<Rightarrow> policy \<times> bool \<times> bool" where
  "attempt_restart p c outcome =
     (if rp_disabled p then (p, False, False)
      else if rp_state p = FATAL_DEGRADED then (p, False, False)
      else if rp_in_progress p then (p, False, False)
      else case attempt_restart_locked (p\<lparr>rp_in_progress := True\<rparr>) c outcome of
             (q, ok, called) \<Rightarrow> (q\<lparr>rp_in_progress := False\<rparr>, ok, called))"

text \<open>The manager argument of \<open>on_circuit_opened\<close>: absent, the breaker's sentinel, or a manager.\<close>

datatype manager_arg = NoManager | NullManagerSentinel | ManagerArg nat

definition on_circuit_opened ::
  "policy \<Rightarrow> manager_arg \<Rightarrow> restart_clock \<Rightarrow> start_outcome \<Rightarrow> policy \<times> bool" where
  "on_circuit_opened p m c outcome =
     (let q = (case m of ManagerArg k \<Rightarrow> register_manager p k | _ \<Rightarrow> p)
      in case attempt_restart q c outcome of (r, _, called) \<Rightarrow> (r, called))"

lemmas policy_defs = attempt_restart_def attempt_restart_locked_def enter_fatal_degraded_def
  policy_snapshot_of_def prune_window_def Let_def

lemmas policy_splits = if_splits option.splits start_outcome.splits prod.splits

subsection \<open>Runs\<close>

datatype policy_event =
    Attempt restart_clock start_outcome
  | Query real real
  | Snapshot real real
  | Disable real

fun policy_step :: "policy_event \<Rightarrow> policy \<Rightarrow> policy" where
  "policy_step (Attempt c out) p = fst (attempt_restart p c out)"
| "policy_step (Query now now') p = fst (can_restart p now now')"
| "policy_step (Snapshot now now') p = fst (policy_snapshot_of p now now')"
| "policy_step (Disable now) p = disable p"

fun starts_manager :: "policy_event \<Rightarrow> policy \<Rightarrow> bool" where
  "starts_manager (Attempt c out) p = snd (snd (attempt_restart p c out))"
| "starts_manager _ p = False"

text \<open>The timestamp a step appends to the rolling window: a start that returned.\<close>

fun policy_stamp :: "policy_event \<Rightarrow> policy \<Rightarrow> real option" where
  "policy_stamp (Attempt c (Started ok)) p =
     (if snd (snd (attempt_restart p c (Started ok))) then Some (t_started c) else None)"
| "policy_stamp _ p = None"

fun policy_orderly :: "policy_event \<Rightarrow> bool" where
  "policy_orderly (Attempt c out) \<longleftrightarrow> t_prune c \<le> t_elapsed c \<and> t_elapsed c \<le> t_started c \<and>
     t_started c \<le> t_snap_prune c \<and> t_snap_prune c \<le> t_snap_now c"
| "policy_orderly (Query now now') \<longleftrightarrow> now \<le> now'"
| "policy_orderly (Snapshot now now') \<longleftrightarrow> now \<le> now'"
| "policy_orderly (Disable now) \<longleftrightarrow> True"

fun policy_begins :: "policy_event \<Rightarrow> real" where
  "policy_begins (Attempt c out) = t_prune c"
| "policy_begins (Query now now') = now"
| "policy_begins (Snapshot now now') = now"
| "policy_begins (Disable now) = now"

fun policy_ends :: "policy_event \<Rightarrow> real" where
  "policy_ends (Attempt c out) = t_snap_now c"
| "policy_ends (Query now now') = now'"
| "policy_ends (Snapshot now now') = now'"
| "policy_ends (Disable now) = now"

fun policy_run :: "policy_event list \<Rightarrow> policy \<Rightarrow> policy" where
  "policy_run [] p = p"
| "policy_run (e # es) p = policy_run es (policy_step e p)"

inductive policy_reachable :: "policy \<Rightarrow> bool" where
  fresh: "policy_reachable (new_policy settings manager has_cb)"
| bound: "policy_reachable p \<Longrightarrow> policy_reachable (register_manager p m)"
| stepped: "policy_reachable p \<Longrightarrow> policy_reachable (policy_step e p)"

lemma policy_step_settings [frame_simps]:
  "rp_settings (policy_step e p) = rp_settings p"
  "rp_has_callback (policy_step e p) = rp_has_callback p"
  by (cases e; simp add: policy_defs can_restart_def disable_def split: policy_splits)+

lemma expire_twice:
  "c \<le> d \<Longrightarrow> \<exists>old. ts = old @ pop_older d (pop_older c ts) \<and> (\<forall>t \<in> set old. t < d)"
  using pop_older_split [of ts d] by (simp add: pop_older_mono)

lemma expire_before:
  "c \<le> d \<Longrightarrow> \<exists>old. ts = old @ pop_older c ts \<and> (\<forall>t \<in> set old. t < d)"
  using pop_older_split [of ts c] by force

text \<open>The window of a step without a stamp only loses entries that have expired.\<close>

lemma policy_refuse:
  assumes "policy_orderly e" "policy_stamp e p = None"
  shows "\<exists>old. rp_restart_times p = old @ rp_restart_times (policy_step e p) \<and>
    (\<forall>t \<in> set old. t < policy_ends e - 3600)"
proof -
  have "rp_restart_times (policy_step e p) = rp_restart_times p \<or>
    (\<exists>c \<le> policy_ends e - 3600. rp_restart_times (policy_step e p) = pop_older c (rp_restart_times p))"
  proof (cases e)
    case (Attempt c out)
    with assms(1) have c: "t_prune c - 3600 \<le> t_snap_prune c - 3600" "t_prune c \<le> t_snap_now c"
      "t_snap_prune c \<le> t_snap_now c" by auto
    have "rp_restart_times (policy_step e p) \<in> {rp_restart_times p,
        pop_older (t_prune c - 3600) (rp_restart_times p),
        pop_older (t_snap_prune c - 3600) (rp_restart_times p)}"
      using assms(2) c(1)
      by (cases out) (auto simp: Attempt policy_defs pop_older_mono split: policy_splits)
    moreover have "t_prune c - 3600 \<le> policy_ends e - 3600" "t_snap_prune c - 3600 \<le> policy_ends e - 3600"
      using c by (auto simp: Attempt)
    ultimately show ?thesis by blast
  next
    case (Query now now')
    have "rp_restart_times (policy_step e p) \<in>
        {rp_restart_times p, pop_older (now - 3600) (rp_restart_times p)}"
      by (auto simp: Query can_restart_def prune_window_def Let_def split: policy_splits)
    moreover have "now - 3600 \<le> policy_ends e - 3600" using assms(1) by (simp add: Query)
    ultimately show ?thesis by blast
  next
    case (Snapshot now now')
    have "rp_restart_times (policy_step e p) = pop_older (now - 3600) (rp_restart_times p)"
      by (simp add: Snapshot policy_defs)
    moreover have "now - 3600 \<le> policy_ends e - 3600" using assms(1) by (simp add: Snapshot)
    ultimately show ?thesis by blast
  qed (simp add: disable_def)
  then show ?thesis
    using expire_before by (metis append_Nil empty_iff list.set(1))
qed

lemma policy_admit:
  assumes "policy_orderly e" "policy_stamp e p = Some t"
  shows "rp_restart_times (policy_step e p) =
      pop_older (policy_begins e - 3600) (rp_restart_times p) @ [t] \<and>
    int (length (pop_older (policy_begins e - 3600) (rp_restart_times p))) < max_per_hour (rp_settings p) \<and>
    policy_begins e \<le> t \<and> t \<le> policy_ends e"
  using assms
  by (cases "(e, p)" rule: policy_stamp.cases) (auto simp: policy_defs split: policy_splits)

interpretation restart_window: window_limiter rp_restart_times "\<lambda>p. max_per_hour (rp_settings p)"
  policy_step policy_stamp policy_orderly policy_begins policy_ends 3600 "\<lambda>p. True"
proof unfold_locales
  show "max_per_hour (rp_settings (policy_step e s)) = max_per_hour (rp_settings s)" for e s
    by (simp add: policy_step_settings)
  show "policy_begins e \<le> policy_ends e" if "policy_orderly e" for e
    using that by (cases e) auto
qed (use policy_refuse policy_admit in blast)+

subsection \<open>Properties\<close>

text \<open>C11: Whatever sequence of restart attempts, queries, snapshots and disable calls is made on a
  new policy, in clock order, no closed hour contains more than \<open>max_per_hour\<close> restarts.\<close>

theorem restart_rate_limit:
  assumes "clocked policy_orderly policy_begins policy_ends t0 es"
  shows "length (filter (\<lambda>t. a \<le> t \<and> t \<le> a + 3600)
      (run_log policy_step policy_stamp es (new_policy settings manager has_cb)))
    \<le> nat (max_per_hour (rp_settings (new_policy settings manager has_cb)))"
  by (rule restart_window.window_bound [OF TrueI assms]) (simp add: new_policy_def)

theorem restart_rate_limit_witness:
  "length (filter (\<lambda>t. 0 \<le> t \<and> t \<le> 0 + 3600)
      (run_log policy_step policy_stamp
        [Attempt \<lparr>t_prune = 1, t_elapsed = 1, t_started = 2, t_snap_prune = 2, t_snap_now = 2\<rparr> (Started True)]
        (new_policy None (Some 7) True)))
    \<le> nat (max_per_hour (rp_settings (new_policy None (Some 7) True)))"
  by (rule restart_rate_limit [of 0]) simp

text \<open>The readings of a started restart respect the cooldown after the previous one.\<close>

lemma policy_stamp_last:
  assumes "policy_stamp e p = Some t"
  shows "rp_last_restart_at (policy_step e p) = Some t"
    and "policy_orderly e \<Longrightarrow> rp_last_restart_at p = Some u \<Longrightarrow> u + of_int (cooldown_sec (rp_settings p)) \<le> t"
  using assms
  by (cases "(e, p)" rule: policy_stamp.cases, auto simp: policy_defs split: policy_splits)+

lemma policy_no_stamp_last:
  "policy_stamp e p = None \<Longrightarrow> rp_last_restart_at (policy_step e p) = rp_last_restart_at p"
  by (cases "(e, p)" rule: policy_stamp.cases)
    (auto simp: policy_defs can_restart_def disable_def split: policy_splits)

lemma run_log_cooldown:
  "clocked policy_orderly policy_begins policy_ends t0 es \<Longrightarrow>
    successively (\<lambda>t u. t + of_int (cooldown_sec (rp_settings p)) \<le> u)
      ((case rp_last_restart_at p of None \<Rightarrow> [] | Some t \<Rightarrow> [t]) @ run_log policy_step policy_stamp es p)"
proof (induction es arbitrary: p t0)
  case Nil
  then show ?case by (simp split: option.splits)
next
  case (Cons e es)
  then have e: "policy_orderly e" and IH: "successively (\<lambda>t u. t + of_int (cooldown_sec (rp_settings p)) \<le> u)
    ((case rp_last_restart_at (policy_step e p) of None \<Rightarrow> [] | Some t \<Rightarrow> [t]) @
      run_log policy_step policy_stamp es (policy_step e p))"
    using Cons.IH [of "policy_ends e" "policy_step e p"] by (auto simp: policy_step_settings)
  show ?case
  proof (cases "policy_stamp e p")
    case None
    with IH show ?thesis by (simp add: policy_no_stamp_last)
  next
    case (Some t)
    with IH policy_stamp_last [OF Some] e show ?thesis
      by (auto simp: successively_Cons split: option.splits)
  qed
qed

text \<open>C12: Two restarts that follow one another are at least \<open>cooldown_sec\<close> seconds apart, measured
  between the ends of the two \<open>manager.start()\<close> calls.\<close>

theorem restart_cooldown:
  assumes "clocked policy_orderly policy_begins policy_ends t0 es"
  shows "successively (\<lambda>t u. t + of_int (cooldown_sec (rp_settings p)) \<le> u)
    (run_log policy_step policy_stamp es p)"
  using run_log_cooldown [OF assms, of p] by (auto simp: successively_Cons split: option.splits)

theorem restart_cooldown_witness:
  "successively (\<lambda>t u. t + of_int (cooldown_sec (rp_settings (new_policy None (Some 7) True))) \<le> u)
    (run_log policy_step policy_stamp
      [Attempt \<lparr>t_prune = 1, t_elapsed = 1, t_started = 2, t_snap_prune = 2, t_snap_now = 2\<rparr> (Started True),
       Attempt \<lparr>t_prune = 70, t_elapsed = 70, t_started = 71, t_snap_prune = 71, t_snap_now = 71\<rparr> (Started False)]
      (new_policy None (Some 7) True))"
  by (rule restart_cooldown [of 0]) simp

lemma policy_fatal_step:
  "rp_state p = FATAL_DEGRADED \<Longrightarrow> rp_state (policy_step e p) = FATAL_DEGRADED \<and> \<not> starts_manager e p"
  by (cases e; simp add: policy_defs can_restart_def disable_def)

lemma policy_fatal_run: "rp_state p = FATAL_DEGRADED \<Longrightarrow> rp_state (policy_run es p) = FATAL_DEGRADED"
  by (induction es arbitrary: p) (auto simp: policy_fatal_step)

text \<open>C8: After a \<open>manager.start()\<close> that raised, the policy is in \<open>FATAL_DEGRADED\<close>, and no sequence
  of later attempts, queries, snapshots and disable calls leaves that state or calls
  \<open>manager.start()\<close> again.\<close>

theorem restart_exception_is_final:
  assumes "starts_manager (Attempt c StartRaised) p"
  shows "rp_state (policy_run es (policy_step (Attempt c StartRaised) p)) = FATAL_DEGRADED \<and>
    \<not> starts_manager e (policy_run es (policy_step (Attempt c StartRaised) p))"
proof -
  have "rp_state (policy_step (Attempt c StartRaised) p) = FATAL_DEGRADED"
    using assms by (auto simp: policy_defs split: policy_splits)
  then show ?thesis by (simp add: policy_fatal_run policy_fatal_step)
qed

theorem restart_exception_is_final_witness:
  "rp_state (policy_run [Query 3 3]
     (policy_step (Attempt \<lparr>t_prune = 1, t_elapsed = 1, t_started = 2, t_snap_prune = 2, t_snap_now = 2\<rparr> StartRaised)
       (new_policy None (Some 7) True))) = FATAL_DEGRADED"
proof -
  let ?c = "\<lparr>t_prune = 1, t_elapsed = 1, t_started = 2, t_snap_prune = 2, t_snap_now = 2\<rparr>"
  have "starts_manager (Attempt ?c StartRaised) (new_policy None (Some 7) True)"
    by (simp add: policy_defs new_policy_def default_policy_settings_def)
  from restart_exception_is_final [OF this, of "[Query 3 3]"] show ?thesis by simp
qed

lemma policy_reachable_states:
  "policy_reachable p \<Longrightarrow> rp_state p \<noteq> BUDGET_EXHAUSTED \<and> \<not> rp_in_progress p \<and>
    length (rp_alerts p) = (if rp_has_callback p \<and> rp_state p = FATAL_DEGRADED then 1 else 0)"
proof (induction rule: policy_reachable.induct)
  case (stepped p e)
  then show ?case
    by (cases e; auto simp: policy_defs can_restart_def disable_def split: policy_splits)
qed (auto simp: new_policy_def register_manager_def)

text \<open>C16: In every reachable policy the operator alert has been sent exactly once if the policy is
  fatal and never otherwise; and the state \<open>BUDGET_EXHAUSTED\<close>, which the snapshot can
  report, is never entered.\<close>

theorem policy_single_alert:
  assumes "policy_reachable p" "rp_has_callback p"
  shows "length (rp_alerts p) = (if rp_state p = FATAL_DEGRADED then 1 else 0) \<and>
    rp_state p \<noteq> BUDGET_EXHAUSTED"
  using policy_reachable_states [OF assms(1)] assms(2) by simp

theorem policy_single_alert_witness:
  "\<exists>p. policy_reachable p \<and> rp_state p = FATAL_DEGRADED \<and> length (rp_alerts p) = 1"
proof -
  let ?c = "\<lparr>t_prune = 1, t_elapsed = 1, t_started = 2, t_snap_prune = 2, t_snap_now = 2\<rparr>"
  let ?p = "policy_step (Attempt ?c StartRaised) (new_policy None (Some 7) True)"
  have "policy_reachable ?p" by (intro policy_reachable.intros)
  moreover have "rp_state ?p = FATAL_DEGRADED" "rp_has_callback ?p"
    by (simp_all add: policy_defs new_policy_def default_policy_settings_def)
  ultimately show ?thesis using policy_single_alert [of ?p] by auto
qed

text \<open>C10: On a reachable policy with a manager bound and not disabled, \<open>can_restart\<close> answers exactly
  whether an attempt with the same clock readings would call \<open>manager.start()\<close>.\<close>

theorem can_restart_iff_attempt_starts:
  assumes "policy_reachable p" "\<not> rp_disabled p" "rp_manager p \<noteq> None"
  shows "snd (can_restart p (t_prune c) (t_elapsed c)) = starts_manager (Attempt c out) p"
  using policy_reachable_states [OF assms(1)] assms(2,3)
  by (auto simp: policy_defs can_restart_def split: policy_splits)

theorem can_restart_iff_attempt_starts_witness:
  "snd (can_restart (new_policy None (Some 7) True) 1 1) =
    starts_manager (Attempt \<lparr>t_prune = 1, t_elapsed = 1, t_started = 2, t_snap_prune = 2, t_snap_now = 2\<rparr>
      (Started True)) (new_policy None (Some 7) True)"
proof -
  let ?p = "new_policy None (Some 7) True"
  have "policy_reachable ?p" by (rule policy_reachable.fresh)
  moreover have "\<not> rp_disabled ?p" "rp_manager ?p \<noteq> None" by (simp_all add: new_policy_def)
  ultimately show ?thesis
    using can_restart_iff_attempt_starts
      [of ?p "\<lparr>t_prune = 1, t_elapsed = 1, t_started = 2, t_snap_prune = 2, t_snap_now = 2\<rparr>" "Started True"]
    by simp
qed

text \<open>A start that came up \<open>False\<close> spends budget although the attempt reports that no restart was
  issued, and a disabled policy still answers that a restart is permitted.\<close>

lemma failed_start_spends_budget:
  "starts_manager (Attempt c (Started False)) p \<Longrightarrow>
    fst (snd (attempt_restart p c (Started False))) = False \<and>
    t_started c \<in> set (rp_restart_times (policy_step (Attempt c (Started False)) p))"
  by (auto simp: policy_defs split: policy_splits)

lemma can_restart_ignores_disable:
  "snd (can_restart (disable (new_policy None m cb)) now now') = True"
  by (simp add: can_restart_def disable_def new_policy_def default_policy_settings_def prune_window_def)

end
