(* ===== verification/Supervisor.thy ===== *)
theory Supervisor
  imports RestartPolicy
begin

text \<open>
  \<open>daemon/falkordb_supervisor.py\<close>: the object every health check goes through.  It owns a
  breaker and a restart policy and wires the breaker's opening to the policy.  The replies
  of the socket and of the engine manager are inputs of each call (\<open>None\<close> where the awaited
  call raised), so a probe is a function of the supervisor and of what it observed.
\<close>

subsection \<open>Classifying the engine's replies\<close>

datatype probe_state = ALIVE | WARMING_UP | DEAD

datatype ping_reply = PingError | PingData string

definition redis_ping :: "ping_reply \<Rightarrow> probe_state" where
  "redis_ping r =
     (case r of
        PingError \<Rightarrow> DEAD
      | PingData d \<Rightarrow>
          if py_in ''+PONG'' d \<or> py_in ''PONG'' d then ALIVE
          else if py_in ''-LOADING'' d then WARMING_UP
          else DEAD)"

datatype recv = RecvTimeout | RecvError | RecvData string

text \<open>The receive loop of \<open>_module_list\<close>: up to the first timeout, the closed socket (an empty
  chunk) or 1024 bytes; any other socket error abandons the check.\<close>

fun module_list_read :: "string \<Rightarrow> recv list \<Rightarrow> string option" where
  "module_list_read data [] = Some data"
| "module_list_read data (r # rs) =
     (if length data < 1024
      then (case r of RecvTimeout \<Rightarrow> Some data | RecvError \<Rightarrow> None
            | RecvData chunk \<Rightarrow> if chunk = [] then Some data else module_list_read (data @ chunk) rs)
      else Some data)"

definition module_list :: "recv list option \<Rightarrow> bool" where
  "module_list conn =
     (case conn of None \<Rightarrow> False
      | Some rs \<Rightarrow> (case module_list_read [] rs of None \<Rightarrow> False
                    | Some data \<Rightarrow> py_in ''falkordb'' (py_lower data)))"

subsection \<open>The supervisor\<close>

record supervisor =
  sv_breaker :: breaker
  sv_policy :: policy
  sv_manager :: nat

definition new_supervisor ::
  "circuit_settings option \<Rightarrow> policy_settings option \<Rightarrow> nat \<Rightarrow> real \<Rightarrow> supervisor" where
  "new_supervisor cs ps m now =
     \<lparr>sv_breaker = on_open (new_breaker cs now) SyncHook,
      sv_policy = new_policy ps (Some m) False, sv_manager = m\<rparr>"

text \<open>\<open>_on_breaker_opened\<close>, run for every call the breaker makes to it.  The second component
  counts the calls of \<open>manager.start()\<close>.\<close>

fun run_hooks :: "supervisor \<Rightarrow> hook_call list \<Rightarrow> restart_clock \<Rightarrow> start_outcome \<Rightarrow> supervisor \<times> nat" where
  "run_hooks sv [] c out = (sv, 0)"
| "run_hooks sv (h # hs) c out =
     (case on_circuit_opened (sv_policy sv) (ManagerArg (sv_manager sv)) c out of (p, called) \<Rightarrow>
        case run_hooks (sv\<lparr>sv_policy := p\<rparr>) hs c out of (sv', n) \<Rightarrow>
          (sv', (if called then 1 else 0) + n))"

text \<open>What one call observes: its clock readings in order, the PING and pidfile answers, and the
  clock and outcome of a restart it may trigger.\<close>

record observation =
  ob_now :: real
  ob_trans :: real
  ob_ping :: "probe_state option"
  ob_pid :: "bool option"
  ob_record :: real
  ob_retry :: real
  ob_restart :: restart_clock
  ob_outcome :: start_outcome

definition sv_success :: "supervisor \<Rightarrow> observation \<Rightarrow> supervisor \<times> nat" where
  "sv_success sv ob =
     (case record_success (sv_breaker sv) (ob_record ob) of (b, calls) \<Rightarrow>
        run_hooks (sv\<lparr>sv_breaker := b\<rparr>) calls (ob_restart ob) (ob_outcome ob))"

definition sv_failure :: "supervisor \<Rightarrow> observation \<Rightarrow> supervisor \<times> nat" where
  "sv_failure sv ob =
     (case record_failure (sv_breaker sv) (ob_record ob) (ob_retry ob) of (b, calls) \<Rightarrow>
        run_hooks (sv\<lparr>sv_breaker := b\<rparr>) calls (ob_restart ob) (ob_outcome ob))"

text \<open>The answer is \<open>None\<close> when the PING or the pid file check raises: nothing catches it.\<close>

definition sv_is_running :: "supervisor \<Rightarrow> observation \<Rightarrow> supervisor \<times> bool option" where
  "sv_is_running sv ob =
     (case allow_probe (sv_breaker sv) (ob_now ob) (ob_trans ob) of (b, allowed, _) \<Rightarrow>
        (sv\<lparr>sv_breaker := b\<rparr>,
         if \<not> allowed then Some False
         else case ob_ping ob of None \<Rightarrow> None | Some r \<Rightarrow> if r = ALIVE then Some True else ob_pid ob))"

text \<open>The \<open>try\<close> block of \<open>probe\<close>: is the engine alive, and is it still warming up?  An exception
  leaves both flags false.\<close>

definition probe_reading :: "probe_state option \<Rightarrow> bool option \<Rightarrow> bool \<times> bool" where
  "probe_reading ping pid =
     (case ping of
        None \<Rightarrow> (False, False)
      | Some ALIVE \<Rightarrow> (True, False)
      | Some WARMING_UP \<Rightarrow> (case pid of None \<Rightarrow> (False, False) | Some r \<Rightarrow> (r, True))
      | Some DEAD \<Rightarrow> (case pid of None \<Rightarrow> (False, False) | Some r \<Rightarrow> (r, False)))"

definition sv_probe :: "supervisor \<Rightarrow> observation \<Rightarrow> supervisor \<times> nat \<times> bool" where
  "sv_probe sv0 ob =
     (case allow_probe (sv_breaker sv0) (ob_now ob) (ob_trans ob) of (b, allowed, _) \<Rightarrow>
        let sv = sv0\<lparr>sv_breaker := b\<rparr> in
        if \<not> allowed then (sv, 0, False)
        else case probe_reading (ob_ping ob) (ob_pid ob) of (alive, warming_up) \<Rightarrow>
          if alive then (case sv_success sv ob of (sv', n) \<Rightarrow> (sv', n, alive))
          else if warming_up then (sv, 0, alive)
          else (case sv_failure sv ob of (sv', n) \<Rightarrow> (sv', n, alive)))"

definition probe_strict :: "probe_state \<Rightarrow> bool \<Rightarrow> probe_state" where
  "probe_strict ping has_falkordb =
     (if ping \<noteq> ALIVE then ping else if \<not> has_falkordb then DEAD else ALIVE)"

text \<open>\<open>start()\<close>: the direct start by the daemon's boot sequence, not counted by the policy.\<close>

definition sv_start :: "supervisor \<Rightarrow> observation \<Rightarrow> start_outcome \<Rightarrow> supervisor \<times> nat \<times> bool" where
  "sv_start sv0 ob direct =
     (case allow_probe (sv_breaker sv0) (ob_now ob) (ob_trans ob) of (b, allowed, _) \<Rightarrow>
        let sv = sv0\<lparr>sv_breaker := b\<rparr> in
        if \<not> allowed then (sv, 0, False)
        else case direct of
            Started ok \<Rightarrow> (sv, 0, ok)
          | StartRaised \<Rightarrow> (case sv_failure sv ob of (sv', n) \<Rightarrow> (sv', n, False)))"

definition sv_stop :: "bool option \<Rightarrow> bool" where
  "sv_stop outcome = (case outcome of None \<Rightarrow> False | Some r \<Rightarrow> r)"

definition sv_snapshot :: "supervisor \<Rightarrow> circuit_snapshot" where
  "sv_snapshot sv = breaker_snapshot (sv_breaker sv)"

subsection \<open>Runs\<close>

text \<open>\<open>probe()\<close> and \<open>start()\<close> wait for the engine between asking the breaker and reporting to it, and other calls may run
  meanwhile: \<open>Admit\<close>, \<open>Succeed\<close> and \<open>Fail\<close> are those parts on their own, the other events are calls that nothing interrupts.\<close>

datatype sv_event =
    Probe observation
  | IsRunning observation
  | StartEngine observation start_outcome
  | Admit observation
  | Succeed observation
  | Fail observation

fun sv_step :: "sv_event \<Rightarrow> supervisor \<Rightarrow> supervisor" where
  "sv_step (Probe ob) sv = fst (sv_probe sv ob)"
| "sv_step (IsRunning ob) sv = fst (sv_is_running sv ob)"
| "sv_step (StartEngine ob d) sv = fst (sv_start sv ob d)"
| "sv_step (Admit ob) sv = sv\<lparr>sv_breaker := fst (allow_probe (sv_breaker sv) (ob_now ob) (ob_trans ob))\<rparr>"
| "sv_step (Succeed ob) sv = fst (sv_success sv ob)"
| "sv_step (Fail ob) sv = fst (sv_failure sv ob)"

text \<open>The calls of \<open>manager.start()\<close> the policy makes in a step.\<close>

fun sv_restarts :: "sv_event \<Rightarrow> supervisor \<Rightarrow> nat" where
  "sv_restarts (Probe ob) sv = fst (snd (sv_probe sv ob))"
| "sv_restarts (IsRunning ob) sv = 0"
| "sv_restarts (StartEngine ob d) sv = fst (snd (sv_start sv ob d))"
| "sv_restarts (Admit ob) sv = 0"
| "sv_restarts (Succeed ob) sv = snd (sv_success sv ob)"
| "sv_restarts (Fail ob) sv = snd (sv_failure sv ob)"

fun sv_run :: "sv_event list \<Rightarrow> supervisor \<Rightarrow> supervisor \<times> nat" where
  "sv_run [] sv = (sv, 0)"
| "sv_run (e # es) sv =
     (case sv_run es (sv_step e sv) of (sv', n) \<Rightarrow> (sv', sv_restarts e sv + n))"

fun event_observation :: "sv_event \<Rightarrow> observation" where
  "event_observation (Probe ob) = ob"
| "event_observation (IsRunning ob) = ob"
| "event_observation (StartEngine ob d) = ob"
| "event_observation (Admit ob) = ob"
| "event_observation (Succeed ob) = ob"
| "event_observation (Fail ob) = ob"

text \<open>The policy event a supervisor step turns into, if it reaches the policy at all.\<close>

definition hook_event :: "sv_event \<Rightarrow> policy_event" where
  "hook_event e = Attempt (ob_restart (event_observation e)) (ob_outcome (event_observation e))"

definition trips :: "sv_event \<Rightarrow> supervisor \<Rightarrow> bool" where
  "trips e sv \<longleftrightarrow> cb_state (sv_breaker sv) = CLOSED \<and> cb_state (sv_breaker (sv_step e sv)) = OPEN"

definition sv_inv :: "supervisor \<Rightarrow> bool" where
  "sv_inv sv \<longleftrightarrow> cb_on_open (sv_breaker sv) = Some SyncHook \<and> rp_manager (sv_policy sv) = Some (sv_manager sv)"

lemma new_supervisor_inv: "sv_inv (new_supervisor cs ps m now)"
  by (simp add: sv_inv_def new_supervisor_def on_open_def new_policy_def)

lemmas sv_defs = sv_probe_def sv_is_running_def sv_start_def sv_success_def sv_failure_def
  on_circuit_opened_def register_manager_def

lemma attempt_frame [frame_simps]:
  "rp_manager (fst (attempt_restart p c out)) = rp_manager p"
  by (simp add: policy_defs split: policy_splits)

lemma rebind_manager: "rp_manager p = Some m \<Longrightarrow> p\<lparr>rp_manager := Some m\<rparr> = p"
  by simp

lemma record_success_calls [simp]: "snd (record_success b now) = []"
  by (simp add: breaker_defs split: circuit_state.splits)

lemma record_failure_calls:
  assumes "cb_on_open b = Some SyncHook"
  shows "\<exists>snap. snd (record_failure b now now') =
    (if cb_state b = CLOSED \<and> cb_state (fst (record_failure b now now')) = OPEN then [HookCalled snap] else [])"
  using assms by (cases "cb_state b") (simp_all add: breaker_defs)

lemma allow_probe_closed:
  "cb_state (fst (allow_probe b now now')) = CLOSED \<longleftrightarrow> cb_state b = CLOSED"
  "cb_on_open (fst (allow_probe b now now')) = cb_on_open b"
  "cb_state b = CLOSED \<Longrightarrow> fst (allow_probe b now now') = b"
  by (cases "cb_state b"; simp add: breaker_defs split: option.splits)+

lemma allow_probe_no_trip:
  "\<not> (cb_state b = CLOSED \<and> cb_state (fst (allow_probe b now now')) = OPEN)"
  by (cases "cb_state b") (simp_all add: allow_probe_def)

lemma record_frame [frame_simps]:
  "cb_on_open (fst (record_success b now)) = cb_on_open b"
  "cb_on_open (fst (record_failure b now now')) = cb_on_open b"
  by (simp_all add: breaker_defs split: circuit_state.splits)

text \<open>One failure report: the policy is asked for a restart exactly when the breaker trips.\<close>

lemma sv_failure_effect:
  fixes ob :: observation
  defines "att \<equiv> \<lambda>p. attempt_restart p (ob_restart ob) (ob_outcome ob)"
  assumes "sv_inv sv"
  shows "sv_policy (fst (sv_failure sv ob)) =
      (if cb_state (sv_breaker sv) = CLOSED \<and> cb_state (sv_breaker (fst (sv_failure sv ob))) = OPEN
       then fst (att (sv_policy sv)) else sv_policy sv)"
    and "snd (sv_failure sv ob) =
      (if cb_state (sv_breaker sv) = CLOSED \<and> cb_state (sv_breaker (fst (sv_failure sv ob))) = OPEN \<and>
          snd (snd (att (sv_policy sv))) then 1 else 0)"
    and "sv_breaker (fst (sv_failure sv ob)) = fst (record_failure (sv_breaker sv) (ob_record ob) (ob_retry ob))"
    and "sv_manager (fst (sv_failure sv ob)) = sv_manager sv"
  using assms(2) record_failure_calls [of "sv_breaker sv" "ob_record ob" "ob_retry ob"]
  by (auto simp: sv_inv_def sv_failure_def att_def on_circuit_opened_def register_manager_def rebind_manager
      split: prod.splits if_splits)

lemma sv_success_effect:
  "sv_policy (fst (sv_success sv ob)) = sv_policy sv" "snd (sv_success sv ob) = 0"
  "sv_breaker (fst (sv_success sv ob)) = fst (record_success (sv_breaker sv) (ob_record ob))"
  "sv_manager (fst (sv_success sv ob)) = sv_manager sv"
  by (simp_all add: sv_success_def case_prod_beta)

text \<open>One event: the policy sees an attempt exactly when the event trips the breaker.\<close>

lemma sv_probe_cases:
  fixes sv ob
  defines "mid \<equiv> sv\<lparr>sv_breaker := fst (allow_probe (sv_breaker sv) (ob_now ob) (ob_trans ob))\<rparr>"
  shows "fst (sv_probe sv ob) = mid \<and> fst (snd (sv_probe sv ob)) = 0 \<or>
    sv_probe sv ob = (fst (sv_success mid ob), snd (sv_success mid ob), True) \<or>
    sv_probe sv ob = (fst (sv_failure mid ob), snd (sv_failure mid ob), False)"
  unfolding mid_def
  by (cases "probe_reading (ob_ping ob) (ob_pid ob)") (simp add: sv_probe_def case_prod_beta Let_def)

lemma sv_allowed_inv:
  "sv_inv sv \<Longrightarrow> sv_inv (sv\<lparr>sv_breaker := fst (allow_probe (sv_breaker sv) now now')\<rparr>)"
  by (simp add: sv_inv_def allow_probe_closed)

lemma sv_failure_policy:
  fixes now now' :: real
  defines "mid \<equiv> \<lambda>sv. sv\<lparr>sv_breaker := fst (allow_probe (sv_breaker sv) now now')\<rparr>"
  assumes "sv_inv sv" and "q = sv_failure (mid sv) ob"
  shows "sv_policy (fst q) = (if cb_state (sv_breaker sv) = CLOSED \<and> cb_state (sv_breaker (fst q)) = OPEN
      then fst (attempt_restart (sv_policy sv) (ob_restart ob) (ob_outcome ob)) else sv_policy sv)"
    and "snd q = (if cb_state (sv_breaker sv) = CLOSED \<and> cb_state (sv_breaker (fst q)) = OPEN \<and>
        snd (snd (attempt_restart (sv_policy sv) (ob_restart ob) (ob_outcome ob))) then 1 else 0)"
    and "sv_inv (fst q)" "sv_manager (fst q) = sv_manager sv"
  using sv_failure_effect [OF sv_allowed_inv [OF assms(2)], of now now' ob] assms(2)
  by (auto simp: assms(1,3) allow_probe_closed sv_inv_def record_frame attempt_frame split: if_splits)

lemma sv_step_effect:
  assumes "sv_inv sv"
  shows "sv_policy (sv_step e sv) = (if trips e sv then policy_step (hook_event e) (sv_policy sv) else sv_policy sv)"
    and "sv_restarts e sv = (if trips e sv \<and> starts_manager (hook_event e) (sv_policy sv) then 1 else 0)"
    and "sv_inv (sv_step e sv)"
proof -
  let ?mid = "\<lambda>ob. sv\<lparr>sv_breaker := fst (allow_probe (sv_breaker sv) (ob_now ob) (ob_trans ob))\<rparr>"
  have "sv_policy (sv_step e sv) = (if trips e sv then policy_step (hook_event e) (sv_policy sv) else sv_policy sv) \<and>
    sv_restarts e sv = (if trips e sv \<and> starts_manager (hook_event e) (sv_policy sv) then 1 else 0) \<and>
    sv_inv (sv_step e sv)"
  proof (cases e)
    case (Probe ob)
    show ?thesis
      using sv_probe_cases [of sv ob]
    proof (elim disjE)
      assume "fst (sv_probe sv ob) = ?mid ob \<and> fst (snd (sv_probe sv ob)) = 0"
      then show ?thesis
        using assms sv_allowed_inv [OF assms] allow_probe_no_trip by (auto simp: Probe trips_def)
    next
      assume "sv_probe sv ob = (fst (sv_success (?mid ob) ob), snd (sv_success (?mid ob) ob), True)"
      then show ?thesis
        using assms sv_allowed_inv [OF assms]
        by (auto simp: Probe trips_def Let_def sv_success_effect sv_inv_def record_frame allow_probe_closed
            breaker_defs split: circuit_state.splits option.splits)
    next
      assume "sv_probe sv ob = (fst (sv_failure (?mid ob) ob), snd (sv_failure (?mid ob) ob), False)"
      then show ?thesis
        using sv_failure_policy [OF assms refl, of "ob_now ob" "ob_trans ob" ob]
        by (simp add: Probe trips_def Let_def hook_event_def)
    qed
  next
    case (IsRunning ob)
    then show ?thesis
      using assms sv_allowed_inv [OF assms]
      by (auto simp: trips_def sv_is_running_def case_prod_beta allow_probe_closed)
  next
    case (StartEngine ob d)
    have "fst (sv_start sv ob d) = ?mid ob \<and> fst (snd (sv_start sv ob d)) = 0 \<or>
      sv_start sv ob d = (fst (sv_failure (?mid ob) ob), snd (sv_failure (?mid ob) ob), False)"
      by (auto simp: sv_start_def case_prod_beta Let_def split: start_outcome.splits)
    then show ?thesis
      using assms sv_allowed_inv [OF assms] sv_failure_policy [OF assms refl, of "ob_now ob" "ob_trans ob" ob]
      by (auto simp: StartEngine trips_def Let_def hook_event_def allow_probe_closed)
  next
    case (Admit ob)
    then show ?thesis
      using assms sv_allowed_inv [OF assms] by (auto simp: trips_def allow_probe_closed)
  next
    case (Succeed ob)
    then show ?thesis
      using assms
      by (auto simp: trips_def sv_success_effect sv_inv_def record_frame breaker_defs split: circuit_state.splits)
  next
    case (Fail ob)
    then show ?thesis
      using assms sv_failure_effect [OF assms, of ob] by (simp add: trips_def hook_event_def sv_inv_def record_frame attempt_frame)
  qed
  then show "sv_policy (sv_step e sv) = (if trips e sv then policy_step (hook_event e) (sv_policy sv) else sv_policy sv)"
    and "sv_restarts e sv = (if trips e sv \<and> starts_manager (hook_event e) (sv_policy sv) then 1 else 0)"
    and "sv_inv (sv_step e sv)" by auto
qed

subsection \<open>The rate limit at the level of the supervisor\<close>

definition sv_stamp :: "sv_event \<Rightarrow> supervisor \<Rightarrow> real option" where
  "sv_stamp e sv = (if trips e sv then policy_stamp (hook_event e) (sv_policy sv) else None)"

interpretation supervised_window: window_limiter "\<lambda>sv. rp_restart_times (sv_policy sv)"
  "\<lambda>sv. max_per_hour (rp_settings (sv_policy sv))" sv_step sv_stamp
  "\<lambda>e. policy_orderly (hook_event e)" "\<lambda>e. policy_begins (hook_event e)"
  "\<lambda>e. policy_ends (hook_event e)" 3600 sv_inv
proof unfold_locales
  fix e s
  show "sv_inv s \<Longrightarrow> sv_inv (sv_step e s)"
    and "sv_inv s \<Longrightarrow> max_per_hour (rp_settings (sv_policy (sv_step e s))) = max_per_hour (rp_settings (sv_policy s))"
    by (simp_all add: sv_step_effect policy_step_settings)
  show "policy_begins (hook_event e) \<le> policy_ends (hook_event e)" if "policy_orderly (hook_event e)"
    using that by (rule restart_window.orderly_ends)
  show "\<exists>old. rp_restart_times (sv_policy s) = old @ rp_restart_times (sv_policy (sv_step e s)) \<and>
    (\<forall>t \<in> set old. t < policy_ends (hook_event e) - 3600)"
    if "sv_inv s" "policy_orderly (hook_event e)" "sv_stamp e s = None"
    using that policy_refuse [of "hook_event e" "sv_policy s"]
    by (auto simp: sv_stamp_def sv_step_effect split: if_splits)
  fix t
  assume "sv_inv s" "policy_orderly (hook_event e)" "sv_stamp e s = Some t"
  then show "rp_restart_times (sv_policy (sv_step e s)) =
      pop_older (policy_begins (hook_event e) - 3600) (rp_restart_times (sv_policy s)) @ [t] \<and>
    int (length (pop_older (policy_begins (hook_event e) - 3600) (rp_restart_times (sv_policy s))))
      < max_per_hour (rp_settings (sv_policy s)) \<and>
    policy_begins (hook_event e) \<le> t \<and> t \<le> policy_ends (hook_event e)"
    using policy_admit [of "hook_event e" "sv_policy s" t]
    by (simp add: sv_stamp_def sv_step_effect split: if_splits)
qed

subsection \<open>Properties\<close>

text \<open>An uninterrupted call is its parts one after the other.\<close>

lemma probe_parts:
  "sv_step (Probe ob) sv = sv_step (Admit ob) sv \<or> sv_step (Probe ob) sv = sv_step (Succeed ob) (sv_step (Admit ob) sv) \<or>
   sv_step (Probe ob) sv = sv_step (Fail ob) (sv_step (Admit ob) sv)"
  using sv_probe_cases [of sv ob] by auto

lemma start_parts:
  "sv_step (StartEngine ob d) sv = sv_step (Admit ob) sv \<or> sv_step (StartEngine ob d) sv = sv_step (Fail ob) (sv_step (Admit ob) sv)"
  by (auto simp: sv_start_def case_prod_beta Let_def split: start_outcome.splits)

text \<open>C8: However health probes, liveness checks and start requests are interleaved on a new
  supervisor, also where a call reports after others have run, the restarts its policy issues stay within \<open>max_per_hour\<close> in every closed
  hour: the wiring of breaker, hook and policy keeps the policy's limit.\<close>

theorem supervisor_restart_rate:
  assumes "clocked (\<lambda>e. policy_orderly (hook_event e)) (\<lambda>e. policy_begins (hook_event e))
    (\<lambda>e. policy_ends (hook_event e)) t0 es"
  shows "length (filter (\<lambda>t. a \<le> t \<and> t \<le> a + 3600)
      (run_log sv_step sv_stamp es (new_supervisor cs ps m now)))
    \<le> nat (max_per_hour (rp_settings (sv_policy (new_supervisor cs ps m now))))"
proof -
  have "rp_restart_times (sv_policy (new_supervisor cs ps m now)) = []"
    by (simp add: new_supervisor_def new_policy_def)
  from supervised_window.window_bound [OF new_supervisor_inv assms this] show ?thesis .
qed

definition dead_observation :: "real \<Rightarrow> observation" where
  "dead_observation t =
     \<lparr>ob_now = t, ob_trans = t, ob_ping = Some DEAD, ob_pid = Some False, ob_record = t, ob_retry = t,
      ob_restart = \<lparr>t_prune = t, t_elapsed = t, t_started = t + 1, t_snap_prune = t + 1, t_snap_now = t + 1\<rparr>,
      ob_outcome = Started True\<rparr>"

theorem supervisor_restart_rate_witness:
  "length (filter (\<lambda>t. 0 \<le> t \<and> t \<le> 0 + 3600)
      (run_log sv_step sv_stamp [Probe (dead_observation 1), Probe (dead_observation 5)] (new_supervisor None None 7 0)))
    \<le> nat (max_per_hour (rp_settings (sv_policy (new_supervisor None None 7 0))))"
  by (rule supervisor_restart_rate [of 0]) (simp add: hook_event_def dead_observation_def)

text \<open>The steps of a run that close the circuit again.\<close>

fun sv_recoveries :: "sv_event list \<Rightarrow> supervisor \<Rightarrow> nat" where
  "sv_recoveries [] sv = 0"
| "sv_recoveries (e # es) sv =
     (if cb_state (sv_breaker sv) \<noteq> CLOSED \<and> cb_state (sv_breaker (sv_step e sv)) = CLOSED then 1 else 0) +
     sv_recoveries es (sv_step e sv)"

lemma sv_run_restarts:
  "sv_inv sv \<Longrightarrow>
    snd (sv_run es sv) \<le> sv_recoveries es sv + (if cb_state (sv_breaker sv) = CLOSED then 1 else 0)"
proof (induction es arbitrary: sv)
  case (Cons e es)
  from Cons.IH [OF sv_step_effect(3) [OF Cons.prems]]
  have "snd (sv_run es (sv_step e sv)) \<le> sv_recoveries es (sv_step e sv) +
    (if cb_state (sv_breaker (sv_step e sv)) = CLOSED then 1 else 0)" .
  then show ?case
    using sv_step_effect(2) [OF Cons.prems, of e]
    by (auto simp: trips_def case_prod_beta split: if_splits)
qed simp

text \<open>A supervisor whose probes never find the engine alive makes at most one restart, however
  long it runs and however generous the hourly budget: the policy is asked only when the
  circuit leaves the closed state, and the circuit does not close without a live probe.\<close>

theorem dead_engine_restarted_at_most_once:
  assumes "sv_inv sv" "\<forall>ob. Probe ob \<in> set es \<longrightarrow> \<not> fst (probe_reading (ob_ping ob) (ob_pid ob))"
    and "\<forall>ob. Succeed ob \<notin> set es"
  shows "snd (sv_run es sv) \<le> 1"
proof -
  have stays: "cb_state (sv_breaker (sv_step e sv)) \<noteq> CLOSED"
    if "cb_state (sv_breaker sv) \<noteq> CLOSED" "\<forall>ob. Probe ob = e \<longrightarrow> \<not> fst (probe_reading (ob_ping ob) (ob_pid ob))"
      "sv_inv sv" "\<forall>ob. Succeed ob \<noteq> e" for e sv
  proof -
    have fail: "cb_state b \<noteq> CLOSED \<Longrightarrow> cb_state (fst (record_failure b n n')) \<noteq> CLOSED" for b n n'
      by (simp add: breaker_defs split: circuit_state.splits)
    show ?thesis
      using that sv_failure_effect(3) [OF sv_allowed_inv [OF that(3)]] sv_failure_effect(3) [OF that(3)]
      by (cases e) (auto simp: sv_probe_def sv_start_def sv_is_running_def case_prod_beta Let_def
          allow_probe_closed fail split: start_outcome.splits)
  qed
  have "sv_recoveries es sv = 0"
    using assms
  proof (induction es arbitrary: sv)
    case (Cons e es)
    then show ?case
      using stays [of sv e] by (auto simp: sv_step_effect)
  qed simp
  with sv_run_restarts [OF assms(1), of es] show ?thesis by (auto split: if_splits)
qed

theorem dead_engine_restarted_at_most_once_witness:
  "snd (sv_run [Probe (dead_observation 1), Probe (dead_observation 2), Probe (dead_observation 3),
     Probe (dead_observation 90)] (new_supervisor None None 7 0)) \<le> 1"
  by (rule dead_engine_restarted_at_most_once)
    (auto simp: new_supervisor_inv dead_observation_def probe_reading_def)

text \<open>C17: An engine that answers \<open>-LOADING\<close> and has no live pidfile leaves a closed circuit exactly as
  it was, failure streak included, and triggers no restart, over any number of probes.\<close>

theorem loading_engine_never_trips:
  assumes "cb_state (sv_breaker sv) = CLOSED"
    and "\<forall>e \<in> set es. \<exists>ob reply. e = Probe ob \<and> ob_pid ob = Some False \<and>
      ob_ping ob = Some (redis_ping (PingData reply)) \<and> py_in ''-LOADING'' reply \<and> \<not> py_in ''PONG'' reply"
  shows "sv_run es sv = (sv, 0)"
  using assms
proof (induction es arbitrary: sv)
  case (Cons e es)
  from Cons.prems(2) obtain ob reply where e: "e = Probe ob" "ob_pid ob = Some False"
    "ob_ping ob = Some (redis_ping (PingData reply))" "py_in ''-LOADING'' reply" "\<not> py_in ''PONG'' reply"
    by auto
  have "\<not> py_in ''+PONG'' reply"
  proof
    assume "py_in ''+PONG'' reply"
    moreover have "sublist ''PONG'' ''+PONG''" by (rule sublist_Cons_right [THEN iffD2]) simp
    ultimately have "py_in ''PONG'' reply"
      unfolding py_in_def using sublist_order.order.trans by blast
    with e show False by simp
  qed
  with e have "redis_ping (PingData reply) = WARMING_UP" by (simp add: redis_ping_def)
  with e Cons.prems(1) have "sv_step e sv = sv" "sv_restarts e sv = 0"
    by (simp_all add: sv_probe_def allow_probe_def probe_reading_def)
  with Cons show ?case by simp
qed simp

theorem loading_engine_never_trips_witness:
  "sv_run [Probe ((dead_observation 1)\<lparr>ob_ping := Some (redis_ping (PingData ''-LOADING Redis''))\<rparr>)]
     (new_supervisor None None 7 0) = (new_supervisor None None 7 0, 0)"
  by (rule loading_engine_never_trips)
    (auto simp: new_supervisor_def new_breaker_def on_open_def dead_observation_def)

text \<open>The exception to the rule that warming up leaves the breaker alone: with a live pidfile a
  half-open circuit is closed.\<close>

lemma loading_with_pidfile_closes:
  "cb_state (sv_breaker sv) = HALF_OPEN \<Longrightarrow> ob_ping ob = Some WARMING_UP \<Longrightarrow> ob_pid ob = Some True \<Longrightarrow>
    cb_state (sv_breaker (sv_step (Probe ob) sv)) = CLOSED"
  by (simp add: sv_probe_def allow_probe_def probe_reading_def sv_success_def breaker_defs case_prod_beta)

end
