(* ===== verification/PyValue.thy ===== *)
theory PyValue
  imports Prelude "HOL-Library.AList"
begin

text \<open>
  Dynamically typed Python values, as \<open>json.loads\<close> and the LLM client hand them to the
  repair rules and to the queue: \<open>dict\<close> objects are association lists with string keys in
  insertion order, a set is the list of its elements in iteration order, and a float is a
  rational or one of the three special values \<open>json.loads\<close> accepts.  \<open>int(...)\<close> is modelled
  with the exceptions it raises.
\<close>

datatype pyfloat = FFin rat | FInf | FNegInf | FNaN

datatype pyval =
    PyNone
  | PyBool bool
  | PyInt int
  | PyFloat pyfloat
  | PyStr string
  | PyList "pyval list"
  | PyTuple "pyval list"
  | PySet "pyval list"
  | PyDict "(string \<times> pyval) list"

datatype py_exception = ValueError | TypeError | OverflowError | AttributeError | KeyError | IntegrityError

type_synonym pydict = "(string \<times> pyval) list"

text \<open>\<open>bool(v)\<close>.\<close>

fun py_truthy :: "pyval \<Rightarrow> bool" where
  "py_truthy PyNone = False"
| "py_truthy (PyBool b) = b"
| "py_truthy (PyInt i) = (i \<noteq> 0)"
| "py_truthy (PyFloat f) = (f \<noteq> FFin 0)"
| "py_truthy (PyStr s) = (s \<noteq> [])"
| "py_truthy (PyList xs) = (xs \<noteq> [])"
| "py_truthy (PyTuple xs) = (xs \<noteq> [])"
| "py_truthy (PySet xs) = (xs \<noteq> [])"
| "py_truthy (PyDict d) = (d \<noteq> [])"

subsection \<open>Dictionaries\<close>

definition dict_get :: "pydict \<Rightarrow> string \<Rightarrow> pyval option" where
  "dict_get d k = map_of d k"

definition dict_has :: "pydict \<Rightarrow> string \<Rightarrow> bool" where
  "dict_has d k \<longleftrightarrow> map_of d k \<noteq> None"

text \<open>\<open>d[k] = v\<close>: in place for a present key, at the end for a new one.\<close>

definition dict_set :: "string \<Rightarrow> pyval \<Rightarrow> pydict \<Rightarrow> pydict" where
  "dict_set k v d = AList.update k v d"

definition dict_without :: "string \<Rightarrow> pydict \<Rightarrow> pydict" where
  "dict_without k d = filter (\<lambda>(k', v). k' \<noteq> k) d"

text \<open>\<open>{**a, **b}\<close>.\<close>

definition dict_merge :: "pydict \<Rightarrow> pydict \<Rightarrow> pydict" where
  "dict_merge a b = fold (\<lambda>(k, v) d. dict_set k v d) b a"

lemma dict_get_simps [simp]:
  "dict_get [] k = None"
  "dict_get ((k', v) # d) k = (if k = k' then Some v else dict_get d k)"
  by (simp_all add: dict_get_def)

lemma dict_get_None: "dict_get d k = None \<longleftrightarrow> k \<notin> fst ` set d"
  by (simp add: dict_get_def map_of_eq_None_iff)

lemma dict_get_set [simp]: "dict_get (dict_set k v d) k' = (if k' = k then Some v else dict_get d k')"
  by (simp add: dict_get_def dict_set_def update_conv')

lemma dict_get_without [simp]:
  "dict_get (dict_without k d) k' = (if k' = k then None else dict_get d k')"
  by (induction d) (auto simp: dict_get_def dict_without_def)

lemma dict_has_get: "dict_has d k \<longleftrightarrow> dict_get d k \<noteq> None"
  by (simp add: dict_has_def dict_get_def)

lemma dict_get_merge:
  "distinct (map fst b) \<Longrightarrow>
    dict_get (dict_merge a b) k = (case dict_get b k of Some v \<Rightarrow> Some v | None \<Rightarrow> dict_get a k)"
proof (induction b arbitrary: a)
  case Nil
  then show ?case by (simp add: dict_merge_def)
next
  case (Cons kv b)
  obtain k' v where kv: "kv = (k', v)" by (cases kv)
  with Cons.prems have "dict_get b k' = None" by (simp add: dict_get_None)
  moreover have "dict_merge a (kv # b) = dict_merge (dict_set k' v a) b"
    by (simp add: dict_merge_def kv)
  ultimately show ?case
    using Cons by (auto simp: kv split: option.splits)
qed

subsection \<open>\<open>int(v)\<close>\<close>

definition digit_value :: "char \<Rightarrow> int option" where
  "digit_value c = (let n = (of_char c :: int) in if 48 \<le> n \<and> n \<le> 57 then Some (n - 48) else None)"

text \<open>Digits, with single underscores allowed between two of them.\<close>

fun parse_digits :: "int \<Rightarrow> bool \<Rightarrow> string \<Rightarrow> int option" where
  "parse_digits acc after_digit [] = (if after_digit then Some acc else None)"
| "parse_digits acc after_digit (c # cs) =
     (case digit_value c of
        Some d \<Rightarrow> parse_digits (10 * acc + d) True cs
      | None \<Rightarrow> if c = CHR ''_'' \<and> after_digit then parse_digits acc False cs else None)"

definition parse_int :: "string \<Rightarrow> int option" where
  "parse_int s =
     (case py_strip s of
        [] \<Rightarrow> None
      | c # cs \<Rightarrow>
          if c = CHR ''-'' then map_option uminus (parse_digits 0 False cs)
          else if c = CHR ''+'' then parse_digits 0 False cs
          else parse_digits 0 False (c # cs))"

definition trunc_float :: "rat \<Rightarrow> int" where
  "trunc_float r = (if 0 \<le> r then \<lfloor>r\<rfloor> else \<lceil>r\<rceil>)"

definition int_of_float :: "pyfloat \<Rightarrow> py_exception + int" where
  "int_of_float f =
     (case f of FFin r \<Rightarrow> Inr (trunc_float r)
      | FNaN \<Rightarrow> Inl ValueError
      | FInf \<Rightarrow> Inl OverflowError
      | FNegInf \<Rightarrow> Inl OverflowError)"

fun py_int :: "pyval \<Rightarrow> py_exception + int" where
  "py_int (PyBool b) = Inr (if b then 1 else 0)"
| "py_int (PyInt i) = Inr i"
| "py_int (PyFloat f) = int_of_float f"
| "py_int (PyStr s) = (case parse_int s of Some i \<Rightarrow> Inr i | None \<Rightarrow> Inl ValueError)"
| "py_int _ = Inl TypeError"

lemma parse_int_examples:
  "parse_int '' 42 '' = Some 42" "parse_int ''-7'' = Some (- 7)" "parse_int ''1_000'' = Some 1000"
  "parse_int ''1_'' = None" "parse_int ''x'' = None" "parse_int '''' = None"
  by code_simp+

subsection \<open>Tests on a value's type\<close>

fun is_list :: "pyval \<Rightarrow> bool" where
  "is_list (PyList xs) = True"
| "is_list _ = False"

fun is_dict :: "pyval \<Rightarrow> bool" where
  "is_dict (PyDict d) = True"
| "is_dict _ = False"

fun is_int :: "pyval \<Rightarrow> bool" where
  "is_int (PyInt i) = True"
| "is_int (PyBool b) = True"
| "is_int _ = False"

lemma is_listE: "is_list v \<Longrightarrow> (\<And>xs. v = PyList xs \<Longrightarrow> P) \<Longrightarrow> P"
  by (cases v) auto

lemma is_dictE: "is_dict v \<Longrightarrow> (\<And>d. v = PyDict d \<Longrightarrow> P) \<Longrightarrow> P"
  by (cases v) auto

end
