(* ===== verification/PayloadHash.thy ===== *)
theory PayloadHash
  imports Prelude
begin

text \<open>
  \<open>core/payload_hash.py\<close>: the content address of an episode.  The digest is SHA-256, a
  parameter \<open>sha\<close> here (a cryptographic function of the C library behind \<open>hashlib\<close>); what
  the module is responsible for is the byte string it hands to it, the preimage.
\<close>

definition payload_preimage :: "string \<Rightarrow> string \<Rightarrow> string \<Rightarrow> string" where
  "payload_preimage content group_id source_description =
     content @ ''|'' @ group_id @ ''|'' @ source_description"

definition canonical_payload_hash ::
  "(string \<Rightarrow> string) \<Rightarrow> string \<Rightarrow> string \<Rightarrow> string \<Rightarrow> string" where
  "canonical_payload_hash sha content group_id source_description =
     sha (payload_preimage content group_id source_description)"

text \<open>The condition the module only warns about.\<close>

definition warns :: "string \<Rightarrow> string \<Rightarrow> bool" where
  "warns group_id source_description \<longleftrightarrow> py_in ''|'' group_id \<or> py_in ''|'' source_description"

lemma py_in_single: "py_in [c] s \<longleftrightarrow> c \<in> set s"
  by (induction s) auto

lemma last_separator_unique:
  "xs @ c # ys = xs' @ c # ys' \<Longrightarrow> c \<notin> set ys \<Longrightarrow> c \<notin> set ys' \<Longrightarrow> xs = xs' \<and> ys = ys'"
proof (induction ys arbitrary: ys' rule: rev_induct)
  case Nil
  then show ?case by (cases ys' rule: rev_cases) auto
next
  case (snoc y ys)
  show ?case
  proof (cases ys' rule: rev_cases)
    case Nil
    with snoc.prems show ?thesis by auto
  next
    case ys': (snoc zs z)
    with snoc.prems(1) have "(xs @ c # ys) @ [y] = (xs' @ c # zs) @ [z]" by simp
    then have "xs @ c # ys = xs' @ c # zs" "y = z" by (simp_all only: append1_eq_conv)
    with snoc.IH [of zs] snoc.prems(2,3) ys' show ?thesis by auto
  qed
qed

lemma payload_preimage_content: "payload_preimage c g s = payload_preimage c' g s \<longleftrightarrow> c = c'"
  by (simp add: payload_preimage_def)

subsection \<open>Properties\<close>

text \<open>C12: Where neither label contains the separator (the condition under which nothing is logged),
  the hashed string determines content, group and source: no two different episodes are
  given the same input, whatever their contents hold, pipes included.\<close>

theorem payload_preimage_injective:
  assumes "\<not> warns g s" "\<not> warns g' s'"
    and "payload_preimage c g s = payload_preimage c' g' s'"
  shows "c = c' \<and> g = g' \<and> s = s'"
proof -
  have free: "CHR ''|'' \<notin> set g" "CHR ''|'' \<notin> set g'" "CHR ''|'' \<notin> set s" "CHR ''|'' \<notin> set s'"
    using assms(1,2) by (auto simp: warns_def py_in_single)
  from assms(3) have "(c @ CHR ''|'' # g) @ CHR ''|'' # s = (c' @ CHR ''|'' # g') @ CHR ''|'' # s'"
    by (simp add: payload_preimage_def)
  from last_separator_unique [OF this free(3,4)]
  have "c @ CHR ''|'' # g = c' @ CHR ''|'' # g'" "s = s'" by auto
  with last_separator_unique [OF this(1) free(1,2)] show ?thesis by simp
qed

theorem payload_preimage_injective_witness:
  "payload_preimage ''x|y'' ''g'' ''s'' \<noteq> payload_preimage ''x'' ''g'' ''s''"
proof
  assume "payload_preimage ''x|y'' ''g'' ''s'' = payload_preimage ''x'' ''g'' ''s''"
  moreover have "\<not> warns ''g'' ''s''" by (simp add: warns_def)
  ultimately show False using payload_preimage_injective by blast
qed

text \<open>A separator in the source description alone is enough for two different episodes to share
  a hash, although both group ids are free of it: the module's documentation says this
  cannot happen.\<close>

theorem pipe_in_source_collides:
  "\<exists>c g s c' g' s'. \<not> py_in ''|'' g \<and> \<not> py_in ''|'' g' \<and> (c, g, s) \<noteq> (c', g', s') \<and>
     canonical_payload_hash sha c g s = canonical_payload_hash sha c' g' s'"
proof -
  have "payload_preimage ''a'' ''b'' ''c|d'' = payload_preimage ''a|b'' ''c'' ''d''"
    by (simp add: payload_preimage_def)
  then have "canonical_payload_hash sha ''a'' ''b'' ''c|d'' = canonical_payload_hash sha ''a|b'' ''c'' ''d''"
    by (simp add: canonical_payload_hash_def)
  moreover have "\<not> py_in ''|'' ''b''" "\<not> py_in ''|'' ''c''" "(''a'', ''b'', ''c|d'') \<noteq> (''a|b'', ''c'', ''d'')"
    by simp_all
  ultimately show ?thesis by blast
qed

end
