(* ===== verification/EpisodeStore.thy ===== *)
theory EpisodeStore
  imports PyValue PayloadHash
begin

text \<open>
  The SQLite database behind \<open>pipeline/queue.py\<close> and the dedup vocabulary of
  \<open>core/dedup.py\<close>.  A table is the list of its rows in rowid order; a statement is a
  function on the tables; a statement the partial UNIQUE index or the primary key rejects
  has the result \<open>None\<close> (\<open>sqlite3.IntegrityError\<close>).  ISO-8601 UTC timestamps written by
  \<open>_iso_now\<close> are their instants in microseconds (their text order is the order of the
  instants); only \<open>started_at\<close>, which the code parses back, can hold other text.
\<close>

subsection \<open>Rows and tables\<close>

datatype ep_status = Queued | Processing | Done | Failed | Aborted | SkippedDuplicate

datatype dedup_mode = ModeOff | Observe | Enforce

text \<open>The \<open>payload_json\<close> column: what \<open>json.loads\<close> makes of it, or text it rejects.\<close>

datatype payload_text = JsonText pyval | BadJson

datatype clock_text = Stamp int | EmptyText | GarbledText

record episode =
  ep_id :: string
  ep_status :: ep_status
  ep_payload :: payload_text
  ep_enqueued_at :: int
  ep_started_at :: "clock_text option"
  ep_finished_at :: "int option"
  ep_attempts :: int
  ep_streak :: int
  ep_last_error :: "string option"
  ep_checkpoint :: "string option"
  ep_created_at :: int
  ep_updated_at :: int
  ep_last_replay_at :: "int option"
  ep_payload_hash :: "string option"
  ep_claimed_by :: "string option"
  ep_canonical :: "string option"
  ep_gate :: "dedup_mode option"

record dead_letter =
  dl_id :: string
  dl_payload :: payload_text
  dl_last_error :: string
  dl_attempts :: int
  dl_failed_at :: int
  dl_recovered_at :: "int option"
  dl_recovered_attempts :: "int option"

datatype ledger_mode = GateMode dedup_mode | Backstop

datatype ledger_action = Detected | Rejected | BackstopSkipped

record dedup_event =
  ev_detected_at :: int
  ev_mode :: ledger_mode
  ev_action :: ledger_action
  ev_payload_hash :: "string option"
  ev_existing :: "string option"
  ev_duplicate :: "string option"
  ev_writer :: "string option"

record dream_run =
  dr_run_id :: string
  dr_started_at :: int
  dr_completed_at :: "int option"
  dr_status :: string
  dr_evaluated :: int
  dr_phase1 :: string
  dr_phase2 :: string
  dr_phase3 :: string
  dr_phase4 :: string
  dr_error :: "string option"

record undo_row =
  un_run_id :: string
  un_victim :: string
  un_survivor :: string
  un_snapshot :: string
  un_mentions :: string
  un_created_at :: int

text \<open>\<open>st_unique\<close>: the UNIQUE partial index exists.\<close>

record store =
  st_episodes :: "episode list"
  st_dead :: "dead_letter list"
  st_events :: "dedup_event list"
  st_runs :: "dream_run list"
  st_undo :: "undo_row list"
  st_unique :: bool

definition empty_store :: store where
  "empty_store = \<lparr>st_episodes = [], st_dead = [], st_events = [], st_runs = [], st_undo = [], st_unique = False\<rparr>"

subsection \<open>The dedup vocabulary\<close>

definition active_statuses :: "ep_status list" where
  "active_statuses = [Queued, Processing]"

definition non_blocking_statuses :: "ep_status list" where
  "non_blocking_statuses = [Done, Failed, Aborted]"

definition backstop_skipped_status :: ep_status where
  "backstop_skipped_status = SkippedDuplicate"

text \<open>The predicate of the partial index.\<close>

definition in_index :: "episode \<Rightarrow> bool" where
  "in_index e \<longleftrightarrow> ep_canonical e \<noteq> None \<and> ep_gate e = Some Enforce \<and> ep_status e \<in> {Queued, Processing}"

definition index_distinct :: "episode list \<Rightarrow> bool" where
  "index_distinct es \<longleftrightarrow> distinct (map ep_canonical (filter in_index es))"

subsection \<open>Statements\<close>

text \<open>INSERT of one episode row.\<close>

definition insert_episode :: "episode \<Rightarrow> store \<Rightarrow> store option" where
  "insert_episode e s =
     (if ep_id e \<in> ep_id ` set (st_episodes s) \<or>
         (st_unique s \<and> \<not> index_distinct (st_episodes s @ [e]))
      then None else Some (s\<lparr>st_episodes := st_episodes s @ [e]\<rparr>))"

text \<open>UPDATE of the episode rows that satisfy a condition: as the code uses it where the update can
  move rows into the index, and where it cannot.\<close>

definition set_rows :: "(episode \<Rightarrow> bool) \<Rightarrow> (episode \<Rightarrow> episode) \<Rightarrow> store \<Rightarrow> store" where
  "set_rows p f s = s\<lparr>st_episodes := map (\<lambda>e. if p e then f e else e) (st_episodes s)\<rparr>"

definition write_rows :: "(episode \<Rightarrow> bool) \<Rightarrow> (episode \<Rightarrow> episode) \<Rightarrow> store \<Rightarrow> store option" where
  "write_rows p f s =
     (if st_unique s \<and> \<not> index_distinct (st_episodes (set_rows p f s)) then None
      else Some (set_rows p f s))"

text \<open>INSERT OR REPLACE and UPDATE of dead-letter rows.\<close>

definition replace_dead :: "dead_letter \<Rightarrow> store \<Rightarrow> store" where
  "replace_dead d s = s\<lparr>st_dead := filter (\<lambda>d'. dl_id d' \<noteq> dl_id d) (st_dead s) @ [d]\<rparr>"

definition set_dead :: "(dead_letter \<Rightarrow> bool) \<Rightarrow> (dead_letter \<Rightarrow> dead_letter) \<Rightarrow> store \<Rightarrow> store" where
  "set_dead p f s = s\<lparr>st_dead := map (\<lambda>d. if p d then f d else d) (st_dead s)\<rparr>"

text \<open>\<open>SELECT ... WHERE id = ?\<close> and LIMIT (a negative limit is none).\<close>

definition find_episode :: "string \<Rightarrow> store \<Rightarrow> episode option" where
  "find_episode i s = find (\<lambda>e. ep_id e = i) (st_episodes s)"

definition find_dead :: "string \<Rightarrow> store \<Rightarrow> dead_letter option" where
  "find_dead i s = find (\<lambda>d. dl_id d = i) (st_dead s)"

definition sql_limit :: "int \<Rightarrow> 'a list \<Rightarrow> 'a list" where
  "sql_limit n xs = (if n < 0 then xs else take (nat n) xs)"

subsection \<open>Duplicate lookups and the ledger\<close>

definition holds_hash :: "string \<Rightarrow> episode \<Rightarrow> bool" where
  "holds_hash h e \<longleftrightarrow> ep_canonical e = Some h \<or> (ep_canonical e = None \<and> ep_payload_hash e = Some h)"

text \<open>\<open>SELECT id ... ORDER BY created_at DESC LIMIT 1\<close>; rows created at the same instant in rowid order.\<close>

definition newest_id :: "(episode \<Rightarrow> bool) \<Rightarrow> store \<Rightarrow> string option" where
  "newest_id p s =
     (case sort_key (\<lambda>e. - ep_created_at e) (filter p (st_episodes s)) of
        [] \<Rightarrow> None | e # _ \<Rightarrow> Some (ep_id e))"

definition find_active_duplicate :: "store \<Rightarrow> string \<Rightarrow> string option" where
  "find_active_duplicate s h =
     (if h = [] then None
      else newest_id (\<lambda>e. holds_hash h e \<and> ep_status e \<in> set active_statuses) s)"

definition find_any_duplicate :: "store \<Rightarrow> string \<Rightarrow> string option" where
  "find_any_duplicate s h = (if h = [] then None else newest_id (holds_hash h) s)"

definition find_ingested_duplicate :: "store \<Rightarrow> string \<Rightarrow> string option" where
  "find_ingested_duplicate s h =
     (if h = [] then None else newest_id (\<lambda>e. holds_hash h e \<and> ep_status e = Done) s)"

definition record_dedup_event ::
  "ledger_mode \<Rightarrow> ledger_action \<Rightarrow> string option \<Rightarrow> string option \<Rightarrow> string option \<Rightarrow> string option \<Rightarrow> int \<Rightarrow>
    store \<Rightarrow> store" where
  "record_dedup_event mode action h existing dup writer now s =
     s\<lparr>st_events := st_events s @
        [\<lparr>ev_detected_at = now, ev_mode = mode, ev_action = action, ev_payload_hash = h,
          ev_existing = existing, ev_duplicate = dup, ev_writer = writer\<rparr>]\<rparr>"

definition recent_dedup_events :: "int \<Rightarrow> store \<Rightarrow> dedup_event list" where
  "recent_dedup_events limit s = sql_limit limit (rev (st_events s))"

text \<open>\<open>requeue_guarded\<close>: one savepoint per id; a conflicting row is skipped.\<close>

definition requeue_row :: "int \<Rightarrow> (episode \<Rightarrow> episode) \<Rightarrow> episode \<Rightarrow> episode" where
  "requeue_row now extra e = extra (e\<lparr>ep_status := Queued, ep_enqueued_at := now, ep_updated_at := now\<rparr>)"

fun requeue_guarded :: "string list \<Rightarrow> int \<Rightarrow> (episode \<Rightarrow> episode) \<Rightarrow> store \<Rightarrow> store \<times> string list" where
  "requeue_guarded [] now extra s = (s, [])"
| "requeue_guarded (i # is) now extra s =
     (case write_rows (\<lambda>e. ep_id e = i) (requeue_row now extra) s of
        None \<Rightarrow> requeue_guarded is now extra s
      | Some s' \<Rightarrow> (case requeue_guarded is now extra s' of (t, requeued) \<Rightarrow> (t, i # requeued)))"

subsection \<open>Opening the database\<close>

text \<open>\<open>_backfill_canonical_hash_sync\<close>, one row: left alone unless its payload carries the triple; a
  triple that is not three strings raises inside the hash function.\<close>

definition py_given :: "pydict \<Rightarrow> string \<Rightarrow> pyval option" where
  "py_given d k = (case dict_get d k of None \<Rightarrow> None | Some PyNone \<Rightarrow> None | Some v \<Rightarrow> Some v)"

definition backfill_row :: "(string \<Rightarrow> string) \<Rightarrow> episode \<Rightarrow> py_exception + episode" where
  "backfill_row sha e =
     (if ep_canonical e \<noteq> None then Inr e
      else case ep_payload e of
          JsonText (PyDict d) \<Rightarrow>
            (case (py_given d ''content'', py_given d ''group_id'', py_given d ''source_description'') of
               (Some (PyStr c), Some (PyStr g), Some (PyStr sd)) \<Rightarrow>
                 Inr (e\<lparr>ep_canonical := Some (canonical_payload_hash sha c g sd)\<rparr>)
             | (Some _, Some _, Some _) \<Rightarrow> Inl AttributeError
             | _ \<Rightarrow> Inr e)
        | _ \<Rightarrow> Inr e)"

fun backfill_rows :: "(string \<Rightarrow> string) \<Rightarrow> episode list \<Rightarrow> py_exception + episode list" where
  "backfill_rows sha [] = Inr []"
| "backfill_rows sha (e # es) =
     (case backfill_row sha e of Inl x \<Rightarrow> Inl x
      | Inr e' \<Rightarrow> (case backfill_rows sha es of Inl x \<Rightarrow> Inl x | Inr es' \<Rightarrow> Inr (e' # es')))"

definition backfill_canonical_hash :: "(string \<Rightarrow> string) \<Rightarrow> store \<Rightarrow> py_exception + store" where
  "backfill_canonical_hash sha s =
     (case backfill_rows sha (st_episodes s) of
        Inl x \<Rightarrow> Inl x
      | Inr es \<Rightarrow> if st_unique s \<and> \<not> index_distinct es then Inl IntegrityError
                  else Inr (s\<lparr>st_episodes := es\<rparr>))"

text \<open>CREATE UNIQUE INDEX IF NOT EXISTS; the failure on existing duplicates is only logged.\<close>

definition ensure_unique_index :: "store \<Rightarrow> store" where
  "ensure_unique_index s =
     (if st_unique s then s else if index_distinct (st_episodes s) then s\<lparr>st_unique := True\<rparr> else s)"

definition init_db :: "(string \<Rightarrow> string) \<Rightarrow> store \<Rightarrow> py_exception + store" where
  "init_db sha s = map_sum id ensure_unique_index (backfill_canonical_hash sha s)"

subsection \<open>The invariant of the store\<close>

definition store_ok :: "store \<Rightarrow> bool" where
  "store_ok s \<longleftrightarrow> distinct (map ep_id (st_episodes s)) \<and> distinct (map dl_id (st_dead s)) \<and>
     (st_unique s \<longrightarrow> index_distinct (st_episodes s))"

lemma index_distinct_Nil [simp]: "index_distinct []"
  by (simp add: index_distinct_def)

lemma index_distinct_Cons [simp]:
  "index_distinct (e # es) \<longleftrightarrow> index_distinct es \<and>
     (in_index e \<longrightarrow> (\<forall>e' \<in> set es. in_index e' \<longrightarrow> ep_canonical e' \<noteq> ep_canonical e))"
  by (force simp: index_distinct_def image_iff)

lemma index_distinct_snoc:
  "index_distinct (es @ [e]) \<longleftrightarrow> index_distinct es \<and>
     (in_index e \<longrightarrow> (\<forall>e' \<in> set es. in_index e' \<longrightarrow> ep_canonical e' \<noteq> ep_canonical e))"
  by (induction es) auto

lemma index_distinct_map:
  assumes "index_distinct es"
    and "\<And>e. e \<in> set es \<Longrightarrow> in_index (g e) \<Longrightarrow> in_index e \<and> ep_canonical (g e) = ep_canonical e"
  shows "index_distinct (map g es)"
  using assms by (induction es) fastforce+

lemma index_distinctD:
  "index_distinct es \<Longrightarrow> distinct (map ep_id es) \<Longrightarrow> e \<in> set es \<Longrightarrow> e' \<in> set es \<Longrightarrow> in_index e \<Longrightarrow> in_index e' \<Longrightarrow>
    ep_canonical e = ep_canonical e' \<Longrightarrow> e = e'"
  by (induction es) auto

lemma empty_store_ok: "store_ok empty_store"
  by (simp add: store_ok_def empty_store_def)

lemma set_rows_sel [store_simps]:
  "st_episodes (set_rows p f s) = map (\<lambda>e. if p e then f e else e) (st_episodes s)"
  "st_dead (set_rows p f s) = st_dead s" "st_events (set_rows p f s) = st_events s"
  "st_runs (set_rows p f s) = st_runs s" "st_undo (set_rows p f s) = st_undo s"
  "st_unique (set_rows p f s) = st_unique s"
  by (simp_all add: set_rows_def)

lemma set_dead_sel [store_simps]:
  "st_episodes (set_dead p g s) = st_episodes s" "st_unique (set_dead p g s) = st_unique s"
  "st_dead (set_dead p g s) = map (\<lambda>d. if p d then g d else d) (st_dead s)"
  "st_events (set_dead p g s) = st_events s" "st_runs (set_dead p g s) = st_runs s"
  "st_undo (set_dead p g s) = st_undo s"
  by (simp_all add: set_dead_def)

lemma replace_dead_sel [store_simps]:
  "st_episodes (replace_dead d s) = st_episodes s" "st_unique (replace_dead d s) = st_unique s"
  "st_dead (replace_dead d s) = filter (\<lambda>d'. dl_id d' \<noteq> dl_id d) (st_dead s) @ [d]"
  "st_events (replace_dead d s) = st_events s" "st_runs (replace_dead d s) = st_runs s"
  "st_undo (replace_dead d s) = st_undo s"
  by (simp_all add: replace_dead_def)

lemma replace_dead_ok [inv_intros]: "store_ok s \<Longrightarrow> store_ok (replace_dead d s)"
  by (auto simp: store_ok_def store_simps distinct_map_filter)

lemma set_dead_ok [inv_intros]:
  "store_ok s \<Longrightarrow> (\<And>d. dl_id (g d) = dl_id d) \<Longrightarrow> store_ok (set_dead p g s)"
  by (simp add: store_ok_def store_simps comp_def if_distrib cong: if_cong)

lemma record_dedup_event_sel [store_simps]:
  "st_episodes (record_dedup_event m a h x d w n s) = st_episodes s"
  "st_dead (record_dedup_event m a h x d w n s) = st_dead s"
  "st_unique (record_dedup_event m a h x d w n s) = st_unique s"
  by (simp_all add: record_dedup_event_def)

lemma record_dedup_event_ok [inv_intros]: "store_ok s \<Longrightarrow> store_ok (record_dedup_event m a h x d w n s)"
  by (simp add: store_ok_def store_simps)

lemma insert_episode_ok:
  "store_ok s \<Longrightarrow> insert_episode e s = Some s' \<Longrightarrow> store_ok s'"
  by (auto simp: store_ok_def insert_episode_def split: if_splits)

lemma find_episode_Some: "find_episode i s = Some e \<Longrightarrow> e \<in> set (st_episodes s) \<and> ep_id e = i"
  by (auto simp: find_episode_def find_Some_iff)

lemma find_episode_None: "find_episode i s = None \<longleftrightarrow> i \<notin> ep_id ` set (st_episodes s)"
  by (auto simp: find_episode_def find_None_iff)

lemma find_episode_mem:
  "distinct (map ep_id (st_episodes s)) \<Longrightarrow> e \<in> set (st_episodes s) \<Longrightarrow> find_episode (ep_id e) s = Some e"
proof -
  have "distinct (map ep_id es) \<Longrightarrow> e \<in> set es \<Longrightarrow> find (\<lambda>x. ep_id x = ep_id e) es = Some e" for es
    by (induction es) force+
  then show "distinct (map ep_id (st_episodes s)) \<Longrightarrow> e \<in> set (st_episodes s) \<Longrightarrow> find_episode (ep_id e) s = Some e"
    by (simp add: find_episode_def)
qed

lemma newest_id_Some:
  assumes "newest_id p s = Some i"
  shows "\<exists>e \<in> set (st_episodes s). p e \<and> ep_id e = i \<and>
    (\<forall>e' \<in> set (st_episodes s). p e' \<longrightarrow> ep_created_at e' \<le> ep_created_at e)"
proof -
  let ?sorted = "sort_key (\<lambda>e. - ep_created_at e) (filter p (st_episodes s))"
  from assms obtain e es where e: "?sorted = e # es" "ep_id e = i"
    by (auto simp: newest_id_def split: list.splits)
  then have "set (e # es) = set (filter p (st_episodes s))" by (metis set_sort)
  moreover have "\<forall>e' \<in> set (e # es). ep_created_at e' \<le> ep_created_at e"
    using sorted_sort_key [of "\<lambda>e. - ep_created_at e" "filter p (st_episodes s)"] by (auto simp: e(1))
  ultimately show ?thesis using e(2) by auto
qed

lemma newest_id_None: "newest_id p s = None \<longleftrightarrow> (\<forall>e \<in> set (st_episodes s). \<not> p e)"
proof -
  have "newest_id p s = None \<longleftrightarrow> filter p (st_episodes s) = []"
    by (auto simp: newest_id_def split: list.splits) (metis length_0_conv length_sort)+
  then show ?thesis by (simp add: filter_empty_conv)
qed

subsection \<open>Updates of a row\<close>

text \<open>What every UPDATE of the queue promises about a row, and what the ones that never move a row
  into the index promise on top.\<close>

locale row_update =
  fixes f :: "episode \<Rightarrow> episode"
  assumes same_id: "ep_id (f e) = ep_id e"
    and same_payload: "ep_payload (f e) = ep_payload e"
    and same_created: "ep_created_at (f e) = ep_created_at e"
    and same_hash: "ep_payload_hash (f e) = ep_payload_hash e"
    and same_canonical: "ep_canonical (f e) = ep_canonical e"
    and same_gate: "ep_gate (f e) = ep_gate e"
begin

lemma ids_set_rows: "map ep_id (st_episodes (set_rows p f s)) = map ep_id (st_episodes s)"
  by (auto simp: store_simps same_id)

lemma write_rows_ok: "store_ok s \<Longrightarrow> write_rows p f s = Some t \<Longrightarrow> store_ok t"
  unfolding store_ok_def write_rows_def
  by (auto simp: ids_set_rows set_rows_sel(2-) simp del: list.map_comp split: if_splits)

lemma write_rows_Some: "write_rows p f s = Some t \<Longrightarrow> t = set_rows p f s"
  by (simp add: write_rows_def split: if_splits)

lemma find_episode_set_rows:
  "find_episode i (set_rows p f s) = map_option (\<lambda>e. if p e then f e else e) (find_episode i s)"
proof -
  have "find (\<lambda>e. ep_id e = i) (map (\<lambda>e. if p e then f e else e) es) =
      map_option (\<lambda>e. if p e then f e else e) (find (\<lambda>e. ep_id e = i) es)" for es
    by (induction es) (auto simp: same_id)
  then show ?thesis by (simp add: find_episode_def store_simps)
qed

text \<open>It succeeds where none of the rows it touches enters the index.\<close>

lemma write_rows_leaving:
  assumes "store_ok s" and "\<And>e. e \<in> set (st_episodes s) \<Longrightarrow> p e \<Longrightarrow> in_index (f e) \<Longrightarrow> in_index e"
  shows "write_rows p f s = Some (set_rows p f s)"
proof -
  have "index_distinct (st_episodes s) \<Longrightarrow> index_distinct (map (\<lambda>e. if p e then f e else e) (st_episodes s))"
    by (rule index_distinct_map) (auto simp: same_canonical assms(2) split: if_splits)
  with assms(1) show ?thesis by (simp add: write_rows_def store_ok_def set_rows_sel)
qed

text \<open>Such an update conflicts exactly when the row it moves shares its hash with a row of the index.\<close>

lemma write_one_conflict:
  assumes ok: "store_ok s" "st_unique s" and e: "e \<in> set (st_episodes s)"
  shows "write_rows (\<lambda>x. ep_id x = ep_id e) f s = None \<longleftrightarrow>
    in_index (f e) \<and> (\<exists>e' \<in> set (st_episodes s). e' \<noteq> e \<and> in_index e' \<and> ep_canonical e' = ep_canonical e)"
proof -
  have "index_distinct (map (\<lambda>x. if ep_id x = ep_id e then f x else x) es) \<longleftrightarrow>
      \<not> (in_index (f e) \<and> (\<exists>e' \<in> set es. e' \<noteq> e \<and> in_index e' \<and> ep_canonical e' = ep_canonical e))"
    if "distinct (map ep_id es)" "index_distinct es" "e \<in> set es" for es
    using that
  proof (induction es)
    case (Cons x es)
    show ?case
    proof (cases "x = e")
      case True
      with Cons.prems have "map (\<lambda>x. if ep_id x = ep_id e then f x else x) es = es"
        by (intro map_idI) (auto simp: image_iff)
      with True Cons.prems show ?thesis by (auto simp: same_canonical)
    next
      case False
      with Cons.prems have x: "ep_id x \<noteq> ep_id e" "e \<in> set es" by force+
      with Cons False have IH: "index_distinct (map (\<lambda>x. if ep_id x = ep_id e then f x else x) es) \<longleftrightarrow>
        \<not> (in_index (f e) \<and> (\<exists>e' \<in> set es. e' \<noteq> e \<and> in_index e' \<and> ep_canonical e' = ep_canonical e))" by simp
      let ?g = "\<lambda>x. if ep_id x = ep_id e then f x else x"
      have others: "?g y = y" if "y \<in> set es" "y \<noteq> e" for y
        using Cons.prems(1) x(2) that by (auto simp: distinct_map dest: inj_onD)
      have canon: "ep_canonical (?g y) = ep_canonical y" for y by (simp add: same_canonical)
      have new: "(\<forall>y \<in> set es. in_index (?g y) \<longrightarrow> ep_canonical y \<noteq> ep_canonical x) \<longleftrightarrow>
          (in_index (f e) \<longrightarrow> ep_canonical e \<noteq> ep_canonical x)" if "in_index x"
      proof -
        have old: "\<forall>y \<in> set es. in_index y \<longrightarrow> ep_canonical y \<noteq> ep_canonical x"
          using Cons.prems(2) that by simp
        have "in_index (?g y) \<longrightarrow> ep_canonical y \<noteq> ep_canonical x"
          if "y \<in> set es" "in_index (f e) \<longrightarrow> ep_canonical e \<noteq> ep_canonical x" for y
          using old that others [of y] by (cases "y = e") (simp_all split: if_splits)
        with x(2) show ?thesis by (intro iffI ballI) auto
      qed
      have "index_distinct (map ?g (x # es)) \<longleftrightarrow> index_distinct (map ?g es) \<and>
          (in_index x \<longrightarrow> (\<forall>y \<in> set es. in_index (?g y) \<longrightarrow> ep_canonical y \<noteq> ep_canonical x))"
        using x(1) by (simp only: list.map index_distinct_Cons set_map ball_simps canon if_False)
      also have "... \<longleftrightarrow> \<not> (in_index (f e) \<and> (\<exists>e' \<in> set es. e' \<noteq> e \<and> in_index e' \<and> ep_canonical e' = ep_canonical e)) \<and>
          (in_index x \<longrightarrow> in_index (f e) \<longrightarrow> ep_canonical e \<noteq> ep_canonical x)"
        using IH new by blast
      finally show ?thesis using False by (auto simp del: index_distinct_Cons)
    qed
  qed simp
  with ok e show ?thesis unfolding write_rows_def store_ok_def set_rows_sel by auto
qed

end

locale leaving_update = row_update +
  assumes leaves: "in_index (f e) \<Longrightarrow> in_index e"
begin

lemma index_set_rows:
  "index_distinct (st_episodes s) \<Longrightarrow> index_distinct (st_episodes (set_rows p f s))"
  unfolding store_simps by (rule index_distinct_map) (auto simp: same_canonical leaves split: if_splits)

lemma set_rows_ok: "store_ok s \<Longrightarrow> store_ok (set_rows p f s)"
  by (simp add: store_ok_def ids_set_rows index_set_rows set_rows_sel(2-))

text \<open>The unique index never rejects it, so the unconditional form is what SQLite does.\<close>

lemma write_rows_total: "store_ok s \<Longrightarrow> write_rows p f s = Some (set_rows p f s)"
  using index_set_rows [of s p] by (auto simp: write_rows_def store_ok_def)

end

end
