(* ===== verification/EpisodeQueue.thy ===== *)
theory EpisodeQueue
  imports EpisodeStore
begin

text \<open>
  \<open>pipeline/queue.py\<close>, the writes of a process that owns an \<open>EpisodeQueue\<close>: resolving the
  dedup mode, enqueueing (a SELECT, then an INSERT, then ledger rows: other processes can
  act in between, so these are separate operations on the store), claiming a batch and
  recording the outcome of an episode.  The queue object's own state is the counter
  \<open>_dedup_hits\<close> and the cached mode.
\<close>

record queue =
  q_store :: store
  q_hits :: int
  q_mode_cache :: "dedup_mode option"

definition open_queue :: "(string \<Rightarrow> string) \<Rightarrow> store \<Rightarrow> py_exception + queue" where
  "open_queue sha s =
     map_sum id (\<lambda>t. \<lparr>q_store = t, q_hits = 0, q_mode_cache = None\<rparr>) (init_db sha s)"

subsection \<open>The dedup mode\<close>

definition dedup_modes :: "(string \<times> dedup_mode) list" where
  "dedup_modes = [(''off'', ModeOff), (''observe'', Observe), (''enforce'', Enforce)]"

definition parse_mode :: "string \<Rightarrow> dedup_mode" where
  "parse_mode m = (case map_of dedup_modes (py_lower (py_strip m)) of Some mode \<Rightarrow> mode | None \<Rightarrow> ModeOff)"

text \<open>\<open>configured\<close>: \<open>cfg.pipeline.dedup.mode\<close>, \<open>None\<close> when the configuration cannot be read.\<close>

definition resolve_dedup_mode ::
  "string option \<Rightarrow> string option \<Rightarrow> dedup_mode option \<Rightarrow> dedup_mode \<times> dedup_mode option" where
  "resolve_dedup_mode dedup_mode configured cache =
     (case dedup_mode of
        Some m \<Rightarrow> (parse_mode m, cache)
      | None \<Rightarrow>
          (case cache of
             Some mode \<Rightarrow> (mode, cache)
           | None \<Rightarrow>
               (let mode = (case configured of Some m \<Rightarrow> parse_mode m | None \<Rightarrow> ModeOff)
                in (mode, Some mode))))"

definition reset_dedup_mode_cache :: "queue \<Rightarrow> queue" where
  "reset_dedup_mode_cache q = q\<lparr>q_mode_cache := None\<rparr>"

subsection \<open>Enqueueing\<close>

record enqueue_args =
  ea_content :: string
  ea_group :: string
  ea_name :: "string option"
  ea_source :: string
  ea_episode_id :: "string option"
  ea_mode :: "string option"

text \<open>What a call takes from outside: the digest function, the fresh uuid, the clock (one reading for
  the row and its ledger entry), the writer tag \<open>mcp:<pid>\<close> and the configured mode.\<close>

record enqueue_env =
  en_sha :: "string \<Rightarrow> string"
  en_fresh :: string
  en_now :: int
  en_writer :: string
  en_configured :: "string option"

datatype enqueue_result =
    Enqueued string
  | DuplicateEpisode "string option" string
  | EnqueueRaised py_exception

definition chosen_id :: "enqueue_env \<Rightarrow> enqueue_args \<Rightarrow> string" where
  "chosen_id env a = (case ea_episode_id a of Some (c # cs) \<Rightarrow> c # cs | _ \<Rightarrow> en_fresh env)"

definition enqueue_payload :: "string \<Rightarrow> enqueue_args \<Rightarrow> pyval" where
  "enqueue_payload i a =
     PyDict [(''content'', PyStr (ea_content a)), (''group_id'', PyStr (ea_group a)),
       (''name'', PyStr (case ea_name a of Some (c # cs) \<Rightarrow> c # cs | _ \<Rightarrow> ''ep_'' @ take 8 i)),
       (''source_description'', PyStr (ea_source a))]"

definition args_hash :: "enqueue_env \<Rightarrow> enqueue_args \<Rightarrow> string" where
  "args_hash env a = canonical_payload_hash (en_sha env) (ea_content a) (ea_group a) (ea_source a)"

text \<open>The row \<open>_insert_sync\<close> inserts.\<close>

definition queued_row ::
  "string \<Rightarrow> pyval \<Rightarrow> int \<Rightarrow> string option \<Rightarrow> dedup_mode \<Rightarrow> string option \<Rightarrow> string \<Rightarrow> episode" where
  "queued_row i payload now legacy_hash gate canonical writer =
     \<lparr>ep_id = i, ep_status = Queued, ep_payload = JsonText payload, ep_enqueued_at = now, ep_started_at = None,
      ep_finished_at = None, ep_attempts = 0, ep_streak = 0, ep_last_error = None, ep_checkpoint = None,
      ep_created_at = now, ep_updated_at = now, ep_last_replay_at = None, ep_payload_hash = legacy_hash,
      ep_claimed_by = (if legacy_hash = None then None else Some writer),
      ep_canonical = (if legacy_hash = None \<or> canonical \<noteq> None then canonical else legacy_hash),
      ep_gate = Some gate\<rparr>"

datatype insert_result =
    Inserted store
  | Race "string option"
  | InsertRaised py_exception

definition insert_sync ::
  "string \<Rightarrow> pyval \<Rightarrow> int \<Rightarrow> string option \<Rightarrow> dedup_mode \<Rightarrow> string option \<Rightarrow> string \<Rightarrow> store \<Rightarrow> insert_result" where
  "insert_sync i payload now legacy_hash gate canonical writer s =
     (case insert_episode (queued_row i payload now legacy_hash gate canonical writer) s of
        Some s' \<Rightarrow> Inserted s'
      | None \<Rightarrow>
          (case legacy_hash of
             None \<Rightarrow> InsertRaised IntegrityError
           | Some h \<Rightarrow>
               Race (case find_active_duplicate s h of Some i \<Rightarrow> Some i | None \<Rightarrow> find_any_duplicate s h)))"

text \<open>\<open>_record_dedup_event_sync\<close>.\<close>

definition record_hit ::
  "enqueue_env \<Rightarrow> dedup_mode \<Rightarrow> ledger_action \<Rightarrow> string \<Rightarrow> string option \<Rightarrow> string \<Rightarrow> queue \<Rightarrow> queue" where
  "record_hit env mode action h existing i q =
     q\<lparr>q_hits := q_hits q + 1,
       q_store := record_dedup_event (GateMode mode) action (Some h) existing (Some i)
         (Some (en_writer env)) (en_now env) (q_store q)\<rparr>"

text \<open>The part of \<open>enqueue\<close> after the duplicate lookup, whose answer is \<open>duplicate_of\<close>.\<close>

definition enqueue_commit ::
  "enqueue_env \<Rightarrow> enqueue_args \<Rightarrow> dedup_mode \<Rightarrow> string option \<Rightarrow> queue \<Rightarrow> enqueue_result \<times> queue" where
  "enqueue_commit env a mode duplicate_of q =
     (let i = chosen_id env a; h = args_hash env a; payload = enqueue_payload i a in
      if mode = ModeOff then
        (case insert_sync i payload (en_now env) None ModeOff (Some h) (en_writer env) (q_store q) of
           Inserted s \<Rightarrow> (Enqueued i, q\<lparr>q_store := s\<rparr>)
         | InsertRaised x \<Rightarrow> (EnqueueRaised x, q)
         | Race _ \<Rightarrow> (EnqueueRaised IntegrityError, q))
      else if duplicate_of \<noteq> None \<and> mode = Enforce then
        (DuplicateEpisode duplicate_of h, record_hit env mode Rejected h duplicate_of i q)
      else
        (case insert_sync i payload (en_now env) (Some h) mode (Some h) (en_writer env) (q_store q) of
           Race existing \<Rightarrow>
             if mode = Enforce then
               (DuplicateEpisode existing h, record_hit env mode Rejected h existing i q)
             else (Enqueued i, record_hit env mode Detected h existing i q)
         | InsertRaised x \<Rightarrow> (EnqueueRaised x, q)
         | Inserted s \<Rightarrow>
             (Enqueued i,
              if duplicate_of \<noteq> None then record_hit env mode Detected h duplicate_of i (q\<lparr>q_store := s\<rparr>)
              else q\<lparr>q_store := s\<rparr>)))"

definition enqueue :: "enqueue_env \<Rightarrow> enqueue_args \<Rightarrow> queue \<Rightarrow> enqueue_result \<times> queue" where
  "enqueue env a q =
     (let (mode, cache) = resolve_dedup_mode (ea_mode a) (en_configured env) (q_mode_cache q);
          q1 = q\<lparr>q_mode_cache := cache\<rparr>;
          duplicate_of = (if mode = ModeOff then None else find_active_duplicate (q_store q1) (args_hash env a))
      in enqueue_commit env a mode duplicate_of q1)"

subsection \<open>Claiming a batch\<close>

record episode_record =
  er_id :: string
  er_payload :: pyval
  er_status :: ep_status
  er_enqueued_at :: int
  er_started_at :: "clock_text option"
  er_finished_at :: "int option"
  er_attempts :: int
  er_streak :: int
  er_last_error :: "string option"
  er_checkpoint :: "string option"
  er_created_at :: "int option"
  er_updated_at :: "int option"

definition record_content :: "episode_record \<Rightarrow> py_exception + pyval" where
  "record_content r =
     (case er_payload r of
        PyDict d \<Rightarrow> Inr (case dict_get d ''content'' of Some v \<Rightarrow> v | None \<Rightarrow> PyStr [])
      | _ \<Rightarrow> Inl AttributeError)"

definition record_group_id :: "episode_record \<Rightarrow> py_exception + pyval" where
  "record_group_id r =
     (case er_payload r of
        PyDict d \<Rightarrow> Inr (case dict_get d ''group_id'' of Some v \<Rightarrow> v | None \<Rightarrow> PyStr ''graphiti'')
      | _ \<Rightarrow> Inl AttributeError)"

definition loaded_payload :: "pyval \<Rightarrow> episode \<Rightarrow> pyval" where
  "loaded_payload fallback e = (case ep_payload e of JsonText v \<Rightarrow> v | BadJson \<Rightarrow> fallback)"

definition claim_limit :: "int option \<Rightarrow> int" where
  "claim_limit limit = (case limit of Some n \<Rightarrow> if 0 < n then n else 20 | None \<Rightarrow> 20)"

text \<open>The SELECT and the UPDATE of \<open>claim_next_batch\<close>: only the second takes the write lock of the
  database, and its WHERE clause is the ids alone.\<close>

definition claim_select :: "int option \<Rightarrow> store \<Rightarrow> episode list" where
  "claim_select limit s =
     sql_limit (claim_limit limit) (sort_key ep_enqueued_at (filter (\<lambda>e. ep_status e = Queued) (st_episodes s)))"

definition claim_row :: "int \<Rightarrow> episode \<Rightarrow> episode" where
  "claim_row now e = e\<lparr>ep_status := Processing, ep_started_at := Some (Stamp now), ep_updated_at := now\<rparr>"

definition claim_update :: "string list \<Rightarrow> int \<Rightarrow> store \<Rightarrow> store option" where
  "claim_update ids now s = write_rows (\<lambda>e. ep_id e \<in> set ids) (claim_row now) s"

definition claimed_record :: "int \<Rightarrow> episode \<Rightarrow> episode_record" where
  "claimed_record now e =
     \<lparr>er_id = ep_id e, er_payload = loaded_payload (PyDict [(''content'', PyStr [])]) e, er_status = Processing,
      er_enqueued_at = ep_enqueued_at e, er_started_at = Some (Stamp now), er_finished_at = ep_finished_at e,
      er_attempts = ep_attempts e, er_streak = ep_streak e, er_last_error = ep_last_error e,
      er_checkpoint = ep_checkpoint e, er_created_at = None, er_updated_at = None\<rparr>"

definition claim_next_batch :: "int option \<Rightarrow> int \<Rightarrow> store \<Rightarrow> py_exception + (episode_record list \<times> store)" where
  "claim_next_batch limit now s =
     (let rows = claim_select limit s in
      if rows = [] then Inr ([], s)
      else case claim_update (map ep_id rows) now s of
          None \<Rightarrow> Inl IntegrityError
        | Some s' \<Rightarrow> Inr (map (claimed_record now) rows, s'))"

subsection \<open>Outcomes\<close>

definition done_row :: "int \<Rightarrow> episode \<Rightarrow> episode" where
  "done_row now e = e\<lparr>ep_status := Done, ep_finished_at := Some now, ep_updated_at := now, ep_streak := 0\<rparr>"

definition recover_dead :: "int \<Rightarrow> int \<Rightarrow> dead_letter \<Rightarrow> dead_letter" where
  "recover_dead now attempts d = d\<lparr>dl_recovered_at := Some now, dl_recovered_attempts := Some attempts\<rparr>"

definition open_dead :: "string \<Rightarrow> store \<Rightarrow> dead_letter option" where
  "open_dead i s = find (\<lambda>d. dl_id d = i \<and> dl_recovered_at d = None) (st_dead s)"

definition mark_done :: "string \<Rightarrow> int \<Rightarrow> store \<Rightarrow> store" where
  "mark_done i now s =
     (let s1 = set_rows (\<lambda>e. ep_id e = i) (done_row now) s in
      case open_dead i s1 of
        None \<Rightarrow> s1
      | Some d \<Rightarrow> set_dead (\<lambda>d'. dl_id d' = i \<and> dl_recovered_at d' = None) (recover_dead now (dl_attempts d)) s1)"

definition failed_row :: "string \<Rightarrow> int \<Rightarrow> episode \<Rightarrow> episode" where
  "failed_row err now e =
     e\<lparr>ep_status := Failed, ep_attempts := ep_attempts e + 1, ep_streak := ep_streak e + 1,
       ep_last_error := Some err, ep_updated_at := now\<rparr>"

definition mark_failed :: "string \<Rightarrow> string \<Rightarrow> int \<Rightarrow> store \<Rightarrow> store" where
  "mark_failed i err now s = set_rows (\<lambda>e. ep_id e = i) (failed_row err now) s"

definition aborted_row :: "int \<Rightarrow> string \<Rightarrow> int \<Rightarrow> episode \<Rightarrow> episode" where
  "aborted_row attempts err now e =
     e\<lparr>ep_status := Aborted, ep_attempts := attempts, ep_last_error := Some err, ep_updated_at := now\<rparr>"

definition dead_row :: "string \<Rightarrow> payload_text \<Rightarrow> string \<Rightarrow> int \<Rightarrow> int \<Rightarrow> dead_letter" where
  "dead_row i payload err attempts now =
     \<lparr>dl_id = i, dl_payload = payload, dl_last_error = err, dl_attempts = attempts, dl_failed_at = now,
      dl_recovered_at = None, dl_recovered_attempts = None\<rparr>"

definition mark_aborted :: "string \<Rightarrow> string \<Rightarrow> int \<Rightarrow> store \<Rightarrow> store" where
  "mark_aborted i err now s =
     (let row = find_episode i s;
          payload = (case row of Some e \<Rightarrow> ep_payload e | None \<Rightarrow> JsonText (PyDict []));
          attempts = (case row of Some e \<Rightarrow> ep_attempts e | None \<Rightarrow> 0) + 1
      in replace_dead (dead_row i payload err attempts now)
           (set_rows (\<lambda>e. ep_id e = i) (aborted_row attempts err now) s))"

definition checkpoint_row :: "string \<Rightarrow> int \<Rightarrow> episode \<Rightarrow> episode" where
  "checkpoint_row cp now e = e\<lparr>ep_checkpoint := Some cp, ep_updated_at := now\<rparr>"

definition update_checkpoint :: "string \<Rightarrow> string \<Rightarrow> int \<Rightarrow> store \<Rightarrow> store" where
  "update_checkpoint i cp now s = set_rows (\<lambda>e. ep_id e = i) (checkpoint_row cp now) s"

definition skipped_row :: "string option \<Rightarrow> int \<Rightarrow> episode \<Rightarrow> episode" where
  "skipped_row existing now e =
     e\<lparr>ep_status := backstop_skipped_status, ep_finished_at := Some now, ep_updated_at := now,
       ep_last_error := Some (''skipped: payload already ingested as '' @
         (case existing of Some (c # cs) \<Rightarrow> c # cs | _ \<Rightarrow> ''unknown'')),
       ep_streak := 0\<rparr>"

definition given_text :: "string option \<Rightarrow> bool" where
  "given_text x \<longleftrightarrow> (case x of Some (c # cs) \<Rightarrow> True | _ \<Rightarrow> False)"

definition mark_skipped_duplicate ::
  "string \<Rightarrow> string option \<Rightarrow> string option \<Rightarrow> string \<Rightarrow> int \<Rightarrow> store \<Rightarrow> store" where
  "mark_skipped_duplicate i existing h writer now s =
     (let s1 = set_rows (\<lambda>e. ep_id e = i) (skipped_row existing now) s in
      if given_text existing \<or> given_text h
      then record_dedup_event Backstop BackstopSkipped h existing (Some i) (Some writer) now s1
      else s1)"

subsection \<open>The writes as row updates\<close>

lemma row_simps [simp]:
  "in_index (done_row n e) = False" "in_index (failed_row err n e) = False"
  "in_index (aborted_row a err n e) = False" "in_index (skipped_row x n e) = False"
  "in_index (checkpoint_row cp n e) = in_index e"
  "in_index (claim_row n e) \<longleftrightarrow> ep_canonical e \<noteq> None \<and> ep_gate e = Some Enforce"
  by (simp_all add: in_index_def done_row_def failed_row_def aborted_row_def skipped_row_def
      checkpoint_row_def claim_row_def backstop_skipped_status_def)

interpretation done_upd: leaving_update "done_row now" for now
  by unfold_locales (simp_all, simp_all add: done_row_def)

interpretation failed_upd: leaving_update "failed_row err now" for err now
  by unfold_locales (simp_all, simp_all add: failed_row_def)

interpretation aborted_upd: leaving_update "aborted_row attempts err now" for attempts err now
  by unfold_locales (simp_all, simp_all add: aborted_row_def)

interpretation skipped_upd: leaving_update "skipped_row existing now" for existing now
  by unfold_locales (simp_all, simp_all add: skipped_row_def)

interpretation checkpoint_upd: leaving_update "checkpoint_row cp now" for cp now
  by unfold_locales (simp_all, simp_all add: checkpoint_row_def)

interpretation claim_upd: row_update "claim_row now" for now
  by unfold_locales (simp_all add: claim_row_def)

lemmas outcome_rows_ok [inv_intros] =
  done_upd.set_rows_ok failed_upd.set_rows_ok aborted_upd.set_rows_ok skipped_upd.set_rows_ok
  checkpoint_upd.set_rows_ok

lemma mark_done_ok [inv_intros]: "store_ok s \<Longrightarrow> store_ok (mark_done i now s)"
  by (auto simp: mark_done_def Let_def recover_dead_def intro!: inv_intros split: option.splits)

lemma mark_failed_ok [inv_intros]: "store_ok s \<Longrightarrow> store_ok (mark_failed i err now s)"
  by (auto simp: mark_failed_def intro!: inv_intros)

lemma mark_aborted_ok [inv_intros]: "store_ok s \<Longrightarrow> store_ok (mark_aborted i err now s)"
  by (auto simp: mark_aborted_def Let_def intro!: inv_intros)

lemma update_checkpoint_ok [inv_intros]: "store_ok s \<Longrightarrow> store_ok (update_checkpoint i cp now s)"
  by (auto simp: update_checkpoint_def intro!: inv_intros)

lemma mark_skipped_ok [inv_intros]: "store_ok s \<Longrightarrow> store_ok (mark_skipped_duplicate i x h w now s)"
  by (auto simp: mark_skipped_duplicate_def Let_def intro!: inv_intros)

lemma claim_update_ok: "store_ok s \<Longrightarrow> claim_update ids now s = Some t \<Longrightarrow> store_ok t"
  by (auto simp: claim_update_def intro: claim_upd.write_rows_ok)

subsection \<open>Claims\<close>

lemma claim_select_mem:
  "e \<in> set (claim_select limit s) \<Longrightarrow> e \<in> set (st_episodes s) \<and> ep_status e = Queued"
  by (auto simp: claim_select_def sql_limit_def split: if_splits dest: in_set_takeD)

lemma claim_limit_pos: "0 < claim_limit limit"
  by (simp add: claim_limit_def split: option.splits)

lemma claim_select_take:
  "claim_select limit s =
    take (nat (claim_limit limit)) (sort_key ep_enqueued_at (filter (\<lambda>e. ep_status e = Queued) (st_episodes s)))"
  using claim_limit_pos [of limit] by (simp add: claim_select_def sql_limit_def)

lemma ids_unique:
  "store_ok s \<Longrightarrow> e \<in> set (st_episodes s) \<Longrightarrow> e' \<in> set (st_episodes s) \<Longrightarrow> ep_id e = ep_id e' \<Longrightarrow> e = e'"
  by (auto simp: store_ok_def distinct_map dest: inj_onD)

lemma claim_update_total:
  assumes "store_ok s"
  shows "claim_update (map ep_id (claim_select limit s)) now s =
    Some (set_rows (\<lambda>e. ep_id e \<in> ep_id ` set (claim_select limit s)) (claim_row now) s)"
  unfolding claim_update_def set_map
proof (rule claim_upd.write_rows_leaving [OF assms])
  fix e assume e: "e \<in> set (st_episodes s)" "ep_id e \<in> ep_id ` set (claim_select limit s)" "in_index (claim_row now e)"
  then have "ep_status e = Queued" using claim_select_mem ids_unique [OF assms] by blast
  with e(3) show "in_index e" by (simp add: in_index_def claim_row_def)
qed

lemma claim_next_batch_total:
  "store_ok s \<Longrightarrow> claim_next_batch limit now s =
    Inr (map (claimed_record now) (claim_select limit s),
         set_rows (\<lambda>e. ep_id e \<in> ep_id ` set (claim_select limit s)) (claim_row now) s)"
  by (simp add: claim_next_batch_def Let_def claim_update_total set_rows_def)

text \<open>C14: A claim on its own store never fails.  It returns at most the requested number of episodes
  (20 where none or a non-positive one is given), different rows of the table and all of them queued, in the order
  they were enqueued, no queued episode left behind is older than a claimed one, and the batch falls
  short of the limit only if nothing queued is left; afterwards exactly the claimed rows have
  changed, to \<open>processing\<close>.\<close>

theorem claim_is_fifo:
  assumes "store_ok s" and "claim_select limit s = rows"
  shows "\<exists>t. claim_next_batch limit now s = Inr (map (claimed_record now) rows, t) \<and>
    claim_limit limit = (case limit of None \<Rightarrow> 20 | Some n \<Rightarrow> if n \<le> 0 then 20 else n) \<and>
    int (length rows) \<le> claim_limit limit \<and> sorted (map ep_enqueued_at rows) \<and>
    distinct (map ep_id rows) \<and> (\<forall>r \<in> set rows. r \<in> set (st_episodes s) \<and> ep_status r = Queued) \<and>
    (\<forall>e \<in> set (st_episodes s). ep_status e = Queued \<and> e \<notin> set rows \<longrightarrow>
       int (length rows) = claim_limit limit \<and> (\<forall>r \<in> set rows. ep_enqueued_at r \<le> ep_enqueued_at e)) \<and>
    st_episodes t = map (\<lambda>e. if e \<in> set rows then claim_row now e else e) (st_episodes s)"
proof -
  let ?queued = "filter (\<lambda>e. ep_status e = Queued) (st_episodes s)"
  let ?n = "nat (claim_limit limit)"
  have rows: "rows = take ?n (sort_key ep_enqueued_at ?queued)" using assms(2) by (simp add: claim_select_take)
  have mem: "r \<in> set (st_episodes s)" if "r \<in> set rows" for r
    using claim_select_mem [of r limit s] that by (simp add: assms(2))
  have queued: "\<forall>r \<in> set rows. r \<in> set (st_episodes s) \<and> ep_status r = Queued"
    using claim_select_mem [of _ limit s] by (simp add: assms(2))
  have "distinct (map ep_id (sort_key ep_enqueued_at ?queued))"
  proof -
    have "inj_on ep_id (set (st_episodes s))" "distinct (st_episodes s)"
      using assms(1) unfolding store_ok_def distinct_map by blast+
    then show ?thesis unfolding distinct_map by (auto intro: inj_on_subset)
  qed
  then have single: "distinct (map ep_id rows)" unfolding rows by (simp add: take_map [symmetric] distinct_take)
  have bound: "claim_limit limit = (case limit of None \<Rightarrow> 20 | Some n \<Rightarrow> if n \<le> 0 then 20 else n)"
    by (auto simp: claim_limit_def split: option.splits)
  have least: "ep_enqueued_at r \<le> ep_enqueued_at e" if "r \<in> set rows" "e \<in> set ?queued" "e \<notin> set rows" for r e
    using take_sort_key_least [of r ?n ep_enqueued_at ?queued e] that unfolding rows by simp
  have short: "int (length rows) = claim_limit limit" if e: "e \<in> set ?queued" "e \<notin> set rows" for e
  proof (rule ccontr)
    assume "int (length rows) \<noteq> claim_limit limit"
    then have "rows = sort_key ep_enqueued_at ?queued" using claim_limit_pos [of limit] by (simp add: rows min_def split: if_splits)
    with e show False by simp
  qed
  have "(ep_id e \<in> ep_id ` set rows) = (e \<in> set rows)" if "e \<in> set (st_episodes s)" for e
    using that ids_unique [OF assms(1)] mem by (auto simp: image_iff)
  then have "st_episodes (set_rows (\<lambda>e. ep_id e \<in> ep_id ` set rows) (claim_row now) s) =
      map (\<lambda>e. if e \<in> set rows then claim_row now e else e) (st_episodes s)"
    by (simp add: set_rows_sel)
  moreover have "sorted (map ep_enqueued_at rows)"
    unfolding rows by (simp add: take_map [symmetric] sorted_wrt_take)
  moreover have "int (length rows) \<le> claim_limit limit"
    using claim_limit_pos [of limit] by (simp add: rows)
  moreover have "claim_next_batch limit now s =
      Inr (map (claimed_record now) rows, set_rows (\<lambda>e. ep_id e \<in> ep_id ` set rows) (claim_row now) s)"
    using claim_next_batch_total [OF assms(1), of limit now] by (simp only: assms(2))
  moreover have "\<forall>e \<in> set (st_episodes s). ep_status e = Queued \<and> e \<notin> set rows \<longrightarrow>
      int (length rows) = claim_limit limit \<and> (\<forall>r \<in> set rows. ep_enqueued_at r \<le> ep_enqueued_at e)"
    by (intro ballI impI conjI) (auto intro: short least)
  ultimately show ?thesis using single bound queued by blast
qed

text \<open>Two queued episodes, the older one second.\<close>

definition two_queued :: store where
  "two_queued = empty_store\<lparr>st_episodes :=
     [queued_row ''b'' (PyDict []) 2 None ModeOff None ''mcp:1'', queued_row ''a'' (PyDict []) 1 None ModeOff None ''mcp:1''],
     st_unique := True\<rparr>"

lemma two_queued_ok: "store_ok two_queued"
  by code_simp

theorem claim_is_fifo_witness:
  "\<exists>r t. claim_next_batch (Some 1) 5 two_queued = Inr ([claimed_record 5 r], t) \<and> ep_id r = ''a''"
proof -
  obtain r where r: "claim_select (Some 1) two_queued = [r]" "ep_id r = ''a''"
  proof
    show "claim_select (Some 1) two_queued = [queued_row ''a'' (PyDict []) 1 None ModeOff None ''mcp:1'']" by code_simp
  qed (simp add: queued_row_def)
  from claim_is_fifo [OF two_queued_ok r(1), of 5] r(2) show ?thesis by auto
qed

lemma mark_done_sel [store_simps]:
  "st_episodes (mark_done i n s) = map (\<lambda>e. if ep_id e = i then done_row n e else e) (st_episodes s)"
  "st_unique (mark_done i n s) = st_unique s"
  by (auto simp: mark_done_def Let_def store_simps split: option.splits)

text \<open>C18: The claim is not atomic across processes: a worker whose SELECT ran before another worker's
  claim takes the same episodes, even ones that the other worker has finished meanwhile, which
  its UPDATE sets from \<open>done\<close> back to \<open>processing\<close>.\<close>

theorem late_claim_reopens_finished_episode:
  assumes "store_ok s" "claim_select limit s = rows" "e \<in> set rows"
    and "claim_update (map ep_id rows) now s = Some t"
  shows "\<exists>t'. claim_update (map ep_id rows) now' (mark_done (ep_id e) n t) = Some t' \<and>
    (\<exists>e' \<in> set (st_episodes (mark_done (ep_id e) n t)). ep_id e' = ep_id e \<and> ep_status e' = Done) \<and>
    (\<exists>e' \<in> set (st_episodes t'). ep_id e' = ep_id e \<and> ep_status e' = Processing)"
proof -
  let ?p = "\<lambda>x. ep_id x \<in> set (map ep_id rows)"
  let ?c = "\<lambda>x. if ?p x then claim_row now x else x"
  let ?d = "\<lambda>x. if ep_id x = ep_id e then done_row n x else x"
  let ?c' = "\<lambda>x. if ?p x then claim_row now' x else x"
  have t: "t = set_rows ?p (claim_row now) s"
    using assms(4) claim_upd.write_rows_Some unfolding claim_update_def by blast
  have ids [simp]: "ep_id (claim_row m x) = ep_id x" "ep_id (done_row m x) = ep_id x"
    "ep_canonical (claim_row m x) = ep_canonical x" "ep_canonical (done_row m x) = ep_canonical x"
    "ep_gate (claim_row m x) = ep_gate x" "ep_gate (done_row m x) = ep_gate x"
    "ep_status (done_row m x) = Done" "ep_status (claim_row m x) = Processing" for m x
    by (simp_all add: claim_row_def done_row_def)
  have queued: "ep_status x = Queued" if "x \<in> set (st_episodes s)" "?p x" for x
    using that claim_select_mem [of _ limit s] ids_unique [OF assms(1)] assms(2) by auto
  have keep: "in_index x \<and> ep_canonical (?c' (?d (?c x))) = ep_canonical x"
    if "x \<in> set (st_episodes s)" "in_index (?c' (?d (?c x)))" for x
    using that queued [of x] by (cases "?p x") (auto simp: in_index_def split: if_splits)
  have "index_distinct (map (\<lambda>x. ?c' (?d (?c x))) (st_episodes s))" if "st_unique s"
    by (rule index_distinct_map) (use that assms(1) keep in \<open>auto simp: store_ok_def\<close>)
  then have some: "claim_update (map ep_id rows) now' (mark_done (ep_id e) n t) =
      Some (set_rows ?p (claim_row now') (mark_done (ep_id e) n t))"
    by (simp only: claim_update_def write_rows_def t set_rows_sel mark_done_sel list.map_comp comp_def
        if_False not_not simp_thms split: if_splits) simp
  have "e \<in> set (st_episodes s)" using claim_select_mem [of e limit s] assms(2,3) by simp
  then have "?d (?c e) \<in> set (st_episodes (mark_done (ep_id e) n t))"
    "?c' (?d (?c e)) \<in> set (st_episodes (set_rows ?p (claim_row now') (mark_done (ep_id e) n t)))"
    unfolding t mark_done_sel set_rows_sel set_map by blast+
  moreover have "ep_status (?d (?c e)) = Done" "ep_status (?c' (?d (?c e))) = Processing"
    "ep_id (?d (?c e)) = ep_id e" "ep_id (?c' (?d (?c e))) = ep_id e"
    using assms(3) by (simp_all add: done_row_def claim_row_def)
  ultimately show ?thesis using some by blast
qed

theorem late_claim_reopens_finished_episode_witness:
  "\<exists>t t'. claim_update [''a''] 5 two_queued = Some t \<and> claim_update [''a''] 6 (mark_done ''a'' 7 t) = Some t' \<and>
     (\<exists>e' \<in> set (st_episodes t'). ep_id e' = ''a'' \<and> ep_status e' = Processing)"
proof -
  let ?e = "queued_row ''a'' (PyDict []) 1 None ModeOff None ''mcp:1''"
  have rows: "claim_select (Some 1) two_queued = [?e]" "ep_id ?e = ''a''" by code_simp+
  obtain t where t: "claim_update (map ep_id [?e]) 5 two_queued = Some t"
    using claim_update_total [OF two_queued_ok, of "Some 1" 5] by (simp add: rows(1))
  from late_claim_reopens_finished_episode [OF two_queued_ok rows(1) _ t, of ?e 6 7] t rows(2)
  show ?thesis by auto
qed

subsection \<open>Enqueueing: what the caller is told, and what the table holds\<close>

lemma record_hit_sel [store_simps]:
  "st_episodes (q_store (record_hit env m a h x i q)) = st_episodes (q_store q)"
  "st_dead (q_store (record_hit env m a h x i q)) = st_dead (q_store q)"
  "st_unique (q_store (record_hit env m a h x i q)) = st_unique (q_store q)"
  "q_hits (record_hit env m a h x i q) = q_hits q + 1"
  by (simp_all add: record_hit_def store_simps)

lemma record_hit_ok [inv_intros]: "store_ok (q_store q) \<Longrightarrow> store_ok (q_store (record_hit env m a h x i q))"
  by (simp add: record_hit_def record_dedup_event_ok)

lemma insert_sync_ok: "store_ok s \<Longrightarrow> insert_sync i p n l g c w s = Inserted t \<Longrightarrow> store_ok t"
  by (auto simp: insert_sync_def intro: insert_episode_ok split: option.splits)

lemma insert_sync_Inserted:
  "insert_sync i p n l g c w s = Inserted t \<Longrightarrow>
    st_episodes t = st_episodes s @ [queued_row i p n l g c w] \<and> st_dead t = st_dead s \<and> st_unique t = st_unique s"
  by (auto simp: insert_sync_def insert_episode_def split: option.splits if_splits)

text \<open>A row written under another gate than \<open>enforce\<close> is outside the index, so only its id can be in the
  way.\<close>

lemma insert_sync_fresh:
  assumes "store_ok s" "i \<notin> ep_id ` set (st_episodes s)" "g \<noteq> Enforce"
  shows "\<exists>t. insert_sync i p n l g c w s = Inserted t"
proof -
  have "\<not> in_index (queued_row i p n l g c w)" using assms(3) by (simp add: in_index_def queued_row_def)
  then have "st_unique s \<Longrightarrow> index_distinct (st_episodes s @ [queued_row i p n l g c w])"
    using assms(1) by (simp add: index_distinct_snoc store_ok_def)
  with assms(2) show ?thesis by (auto simp: insert_sync_def insert_episode_def queued_row_def)
qed

lemma enqueue_commit_ok: "store_ok (q_store q) \<Longrightarrow> store_ok (q_store (snd (enqueue_commit env a m d q)))"
  by (auto simp: enqueue_commit_def Let_def intro!: record_hit_ok intro: insert_sync_ok
      split: insert_result.splits)

lemma enqueue_unfold:
  "enqueue env a q =
    (let mc = resolve_dedup_mode (ea_mode a) (en_configured env) (q_mode_cache q)
     in enqueue_commit env a (fst mc)
          (if fst mc = ModeOff then None else find_active_duplicate (q_store q) (args_hash env a))
          (q\<lparr>q_mode_cache := snd mc\<rparr>))"
  by (simp add: enqueue_def Let_def split_beta)

lemma enqueue_ok: "store_ok (q_store q) \<Longrightarrow> store_ok (q_store (snd (enqueue env a q)))"
  by (simp add: enqueue_unfold Let_def enqueue_commit_ok)

definition is_active :: "episode \<Rightarrow> bool" where
  "is_active e \<longleftrightarrow> ep_status e \<in> set active_statuses"

lemma find_active_duplicate_Some:
  "find_active_duplicate s h = Some i \<Longrightarrow>
    \<exists>e \<in> set (st_episodes s). holds_hash h e \<and> is_active e \<and> ep_id e = i \<and>
      (\<forall>e' \<in> set (st_episodes s). holds_hash h e' \<and> is_active e' \<longrightarrow> ep_created_at e' \<le> ep_created_at e)"
  using newest_id_Some [of "\<lambda>e. holds_hash h e \<and> ep_status e \<in> set active_statuses" s i]
  by (auto simp: find_active_duplicate_def is_active_def split: if_splits)

lemma find_active_duplicate_None:
  "h \<noteq> [] \<Longrightarrow> find_active_duplicate s h = None \<longleftrightarrow>
    (\<forall>e \<in> set (st_episodes s). \<not> (holds_hash h e \<and> is_active e))"
  by (simp add: find_active_duplicate_def is_active_def newest_id_None)

text \<open>A content address that was free is found where it was just stored.\<close>

lemma appended_holder_found:
  assumes "h \<noteq> []" "find_active_duplicate s h = None" "st_episodes t = st_episodes s @ [r]" "holds_hash h r" "is_active r"
  shows "find_active_duplicate t h = Some (ep_id r)"
proof -
  have none: "\<not> (holds_hash h e \<and> is_active e)" if "e \<in> set (st_episodes s)" for e
    using find_active_duplicate_None [OF assms(1)] assms(2) that by blast
  then show ?thesis
    using find_active_duplicate_None [OF assms(1), of t] find_active_duplicate_Some [of t h] assms(3-5)
    by (cases "find_active_duplicate t h") fastforce+
qed

text \<open>A row whose id is free and whose content nobody active holds is stored.\<close>

lemma insert_unheld:
  assumes "store_ok s" "ep_id r \<notin> ep_id ` set (st_episodes s)" "h \<noteq> []"
    and "in_index r \<Longrightarrow> ep_canonical r = Some h \<and> find_active_duplicate s h = None"
  shows "insert_episode r s = Some (s\<lparr>st_episodes := st_episodes s @ [r]\<rparr>)"
proof -
  have "index_distinct (st_episodes s @ [r])" if "st_unique s"
  proof (cases "in_index r")
    case True
    with assms(4) find_active_duplicate_None [OF assms(3), of s]
    have "ep_canonical r = Some h" "\<forall>e \<in> set (st_episodes s). \<not> (holds_hash h e \<and> is_active e)" by auto
    then show ?thesis using assms(1) that
      by (auto simp: index_distinct_snoc store_ok_def in_index_def holds_hash_def is_active_def active_statuses_def)
  qed (use assms(1) that in \<open>auto simp: index_distinct_snoc store_ok_def\<close>)
  with assms(2) show ?thesis by (auto simp: insert_episode_def)
qed

definition enqueue_mode :: "enqueue_env \<Rightarrow> enqueue_args \<Rightarrow> queue \<Rightarrow> dedup_mode" where
  "enqueue_mode env a q = fst (resolve_dedup_mode (ea_mode a) (en_configured env) (q_mode_cache q))"

text \<open>A writer, a call and a table with one row, for the witnesses.\<close>

definition sample_env :: "string \<Rightarrow> enqueue_env" where
  "sample_env i = \<lparr>en_sha = rev, en_fresh = i, en_now = 7, en_writer = ''mcp:1'', en_configured = None\<rparr>"

definition sample_args :: "string \<Rightarrow> string option \<Rightarrow> enqueue_args" where
  "sample_args mode i =
     \<lparr>ea_content = ''hi'', ea_group = ''g'', ea_name = None, ea_source = ''s'', ea_episode_id = i, ea_mode = Some mode\<rparr>"

definition fresh_queue :: queue where
  "fresh_queue = \<lparr>q_store = empty_store\<lparr>st_unique := True\<rparr>, q_hits = 0, q_mode_cache = None\<rparr>"

definition sample_row :: episode where
  "sample_row = queued_row ''a'' (PyDict []) 3 (Some ''s|g|ih'') Enforce (Some ''s|g|ih'') ''mcp:2''"

definition sample_queue :: queue where
  "sample_queue = fresh_queue\<lparr>q_store := (q_store fresh_queue)\<lparr>st_episodes := [sample_row]\<rparr>\<rparr>"

text \<open>C18: Under \<open>enforce\<close>, content that an active episode already holds is rejected: the caller gets
  the id of an episode that is queued or being processed with that very hash, and is the
  newest such; no row is written, the rejection is entered in the ledger and counted.\<close>

theorem enforce_rejects_active_duplicate:
  assumes "enqueue_mode env a q = Enforce" "args_hash env a \<noteq> []"
    and "e \<in> set (st_episodes (q_store q))" "holds_hash (args_hash env a) e" "is_active e"
  shows "\<exists>e' q'. enqueue env a q = (DuplicateEpisode (Some (ep_id e')) (args_hash env a), q') \<and>
    e' \<in> set (st_episodes (q_store q)) \<and> holds_hash (args_hash env a) e' \<and> is_active e' \<and>
    ep_created_at e \<le> ep_created_at e' \<and> st_episodes (q_store q') = st_episodes (q_store q) \<and>
    length (st_events (q_store q')) = length (st_events (q_store q)) + 1 \<and> q_hits q' = q_hits q + 1"
proof -
  obtain i where i: "find_active_duplicate (q_store q) (args_hash env a) = Some i"
    using find_active_duplicate_None [OF assms(2), of "q_store q"] assms(3-5)
    by (cases "find_active_duplicate (q_store q) (args_hash env a)") auto
  from find_active_duplicate_Some [OF this] obtain e' where
    e': "e' \<in> set (st_episodes (q_store q))" "holds_hash (args_hash env a) e'" "is_active e'" "ep_id e' = i"
      "ep_created_at e \<le> ep_created_at e'"
    using assms(3-5) by blast
  let ?q' = "snd (enqueue env a q)"
  have "enqueue env a q = (DuplicateEpisode (Some i) (args_hash env a), ?q') \<and>
      st_episodes (q_store ?q') = st_episodes (q_store q) \<and>
      length (st_events (q_store ?q')) = length (st_events (q_store q)) + 1 \<and> q_hits ?q' = q_hits q + 1"
    using assms(1) i
    by (simp add: enqueue_unfold enqueue_mode_def enqueue_commit_def Let_def record_hit_def record_dedup_event_def)
  with e' show ?thesis by blast
qed

theorem enforce_rejects_active_duplicate_witness:
  "\<exists>q'. enqueue (sample_env ''b'') (sample_args ''enforce'' None) sample_queue =
      (DuplicateEpisode (Some ''a'') ''s|g|ih'', q') \<and> q_hits q' = 1"
proof -
  let ?env = "sample_env ''b''" and ?a = "sample_args ''enforce'' None"
  have h: "enqueue_mode ?env ?a sample_queue = Enforce \<and> args_hash ?env ?a = ''s|g|ih'' \<and>
      st_episodes (q_store sample_queue) = [sample_row] \<and> holds_hash ''s|g|ih'' sample_row \<and>
      is_active sample_row \<and> ep_id sample_row = ''a'' \<and> q_hits sample_queue = 0" by code_simp
  from enforce_rejects_active_duplicate [of ?env ?a sample_queue sample_row] h show ?thesis by auto
qed

text \<open>C20: An id that \<open>enqueue\<close> returns names a queued row that it appended with the caller's content,
  its content address and the mode that wrote it (in \<open>observe\<close> mode: if the id was free).\<close>

theorem accepted_episode_is_stored:
  assumes "enqueue env a q = (Enqueued i, q')"
    and "enqueue_mode env a q = Observe \<longrightarrow> store_ok (q_store q) \<and> i \<notin> ep_id ` set (st_episodes (q_store q))"
  shows "\<exists>e. st_episodes (q_store q') = st_episodes (q_store q) @ [e] \<and> ep_id e = i \<and> ep_status e = Queued \<and>
    ep_payload e = JsonText (enqueue_payload i a) \<and> ep_canonical e = Some (args_hash env a) \<and>
    ep_gate e = Some (enqueue_mode env a q)"
proof -
  have i: "i = chosen_id env a"
    using assms(1) by (auto simp: enqueue_unfold enqueue_commit_def Let_def split: if_splits insert_result.splits)
  let ?row = "\<lambda>mode. queued_row i (enqueue_payload i a) (en_now env)
      (if mode = ModeOff then None else Some (args_hash env a)) mode (Some (args_hash env a)) (en_writer env)"
  note unfolds = enqueue_unfold enqueue_commit_def enqueue_mode_def Let_def store_simps
  have "st_episodes (q_store q') = st_episodes (q_store q) @ [?row (enqueue_mode env a q)]"
  proof (cases "enqueue_mode env a q")
    case ModeOff
    with assms(1) show ?thesis
      unfolding i by (auto simp: unfolds split: insert_result.splits dest!: insert_sync_Inserted)
  next
    case Enforce
    with assms(1) show ?thesis
      unfolding i by (auto simp: unfolds split: insert_result.splits if_splits dest!: insert_sync_Inserted)
  next
    case Observe
    with assms(2) i insert_sync_fresh [of "q_store q" i Observe "enqueue_payload i a" "en_now env"
        "Some (args_hash env a)" "Some (args_hash env a)" "en_writer env"]
    obtain t where t: "insert_sync i (enqueue_payload i a) (en_now env) (Some (args_hash env a)) Observe
        (Some (args_hash env a)) (en_writer env) (q_store q) = Inserted t" by auto
    with Observe assms(1) have "q_store q' = t \<or> st_episodes (q_store q') = st_episodes t"
      unfolding i by (auto simp: unfolds split: if_splits)
    with insert_sync_Inserted [OF t] Observe show ?thesis by auto
  qed
  then show ?thesis by (auto simp: queued_row_def)
qed

theorem accepted_episode_is_stored_witness:
  "\<exists>e. st_episodes (q_store (snd (enqueue (sample_env ''b'') (sample_args ''enforce'' None) fresh_queue))) = [e] \<and>
     ep_id e = ''b''"
proof -
  let ?env = "sample_env ''b''" and ?a = "sample_args ''enforce'' None"
  have h: "fst (enqueue ?env ?a fresh_queue) = Enqueued ''b'' \<and> enqueue_mode ?env ?a fresh_queue = Enforce \<and>
      st_episodes (q_store fresh_queue) = []" by code_simp
  then have "enqueue ?env ?a fresh_queue = (Enqueued ''b'', snd (enqueue ?env ?a fresh_queue))"
    by (simp add: prod_eq_iff)
  from accepted_episode_is_stored [OF this] h show ?thesis by auto
qed

text \<open>C18: The modes \<open>off\<close> and \<open>observe\<close> reject nothing: under a free id every call succeeds, whatever
  duplicates the table holds.\<close>

theorem lenient_modes_never_reject:
  assumes "store_ok (q_store q)" "enqueue_mode env a q \<noteq> Enforce"
    and "chosen_id env a \<notin> ep_id ` set (st_episodes (q_store q))"
  shows "\<exists>q'. enqueue env a q = (Enqueued (chosen_id env a), q') \<and>
    length (st_episodes (q_store q')) = length (st_episodes (q_store q)) + 1"
proof -
  let ?i = "chosen_id env a"
  let ?h = "if enqueue_mode env a q = ModeOff then None else Some (args_hash env a)"
  obtain t where t: "insert_sync ?i (enqueue_payload ?i a) (en_now env) ?h (enqueue_mode env a q)
      (Some (args_hash env a)) (en_writer env) (q_store q) = Inserted t"
    using insert_sync_fresh [OF assms(1,3,2)] by blast
  with insert_sync_Inserted [OF this] assms(2) show ?thesis
    by (cases "enqueue_mode env a q") (simp_all add: enqueue_unfold enqueue_commit_def enqueue_mode_def Let_def store_simps)
qed

theorem lenient_modes_never_reject_witness:
  "\<exists>q'. enqueue (sample_env ''b'') (sample_args ''observe'' None) sample_queue = (Enqueued ''b'', q')"
proof -
  let ?env = "sample_env ''b''" and ?a = "sample_args ''observe'' None"
  have "store_ok (q_store sample_queue) \<and> enqueue_mode ?env ?a sample_queue = Observe \<and>
      chosen_id ?env ?a = ''b'' \<and> ep_id ` set (st_episodes (q_store sample_queue)) = {''a''}" by code_simp
  then show ?thesis using lenient_modes_never_reject [of sample_queue ?env ?a] by auto
qed

text \<open>C22: In \<open>observe\<close> mode a caller-chosen id that is taken is acknowledged like a stored episode, with
  no row written: the primary-key conflict is handled as a race for the payload.\<close>

theorem observe_acknowledges_unstored_episode:
  assumes "enqueue_mode env a q = Observe" "chosen_id env a \<in> ep_id ` set (st_episodes (q_store q))"
  shows "\<exists>q'. enqueue env a q = (Enqueued (chosen_id env a), q') \<and>
    st_episodes (q_store q') = st_episodes (q_store q)"
  using assms
  by (auto simp: enqueue_unfold enqueue_mode_def enqueue_commit_def Let_def insert_sync_def insert_episode_def
      queued_row_def store_simps)

theorem observe_acknowledges_unstored_episode_witness:
  "\<exists>q'. enqueue (sample_env ''b'') (sample_args ''observe'' (Some ''a'')) sample_queue = (Enqueued ''a'', q') \<and>
     st_episodes (q_store q') = [sample_row]"
proof -
  let ?env = "sample_env ''b''" and ?a = "sample_args ''observe'' (Some ''a'')"
  have "enqueue_mode ?env ?a sample_queue = Observe \<and> chosen_id ?env ?a = ''a'' \<and>
      st_episodes (q_store sample_queue) = [sample_row] \<and> ep_id sample_row = ''a''" by code_simp
  then show ?thesis using observe_acknowledges_unstored_episode [of ?env ?a sample_queue] by auto
qed

text \<open>C9: Two writers of the same content whose lookups both ran before either insert cannot both store
  it: the later one is rejected by the index, with the id of the earlier one's episode.\<close>

theorem racing_writers_one_wins:
  assumes "st_unique (q_store q)" "args_hash env a = h" "args_hash env' a' = h" "h \<noteq> []"
    and "find_active_duplicate (q_store q) h = None"
    and first: "enqueue_commit env a Enforce None q = (Enqueued i, q1)"
    and "q_store q' = q_store q1"
  shows "\<exists>q2. enqueue_commit env' a' Enforce None q' = (DuplicateEpisode (Some i) h, q2) \<and>
    st_episodes (q_store q2) = st_episodes (q_store q1)"
proof -
  let ?row = "\<lambda>env a. queued_row (chosen_id env a) (enqueue_payload (chosen_id env a) a) (en_now env)
      (Some h) Enforce (Some h) (en_writer env)"
  have index: "in_index (?row env a)" "ep_canonical (?row env a) = Some h" for env a
    by (simp_all add: in_index_def queued_row_def)
  from first have i: "i = chosen_id env a" and ins: "insert_sync i (enqueue_payload i a) (en_now env) (Some h) Enforce
      (Some h) (en_writer env) (q_store q) = Inserted (q_store q1)"
    by (auto simp: enqueue_commit_def Let_def assms(2) split: insert_result.splits)
  have rows: "st_episodes (q_store q1) = st_episodes (q_store q) @ [?row env a]" "st_unique (q_store q1)"
    using insert_sync_Inserted [OF ins] assms(1) unfolding i by auto
  have "holds_hash h (?row env a)" "is_active (?row env a)" "ep_id (?row env a) = i"
    by (simp_all add: holds_hash_def is_active_def active_statuses_def queued_row_def i)
  with appended_holder_found [OF assms(4,5) rows(1)] have "find_active_duplicate (q_store q1) h = Some i" by simp
  moreover have "\<not> index_distinct (st_episodes (q_store q1) @ [?row env' a'])"
    using index unfolding index_distinct_snoc rows(1) by auto
  then have "insert_episode (?row env' a') (q_store q1) = None"
    using rows(2) by (simp add: insert_episode_def)
  ultimately have "insert_sync (chosen_id env' a') (enqueue_payload (chosen_id env' a') a') (en_now env') (Some h)
      Enforce (Some h) (en_writer env') (q_store q') = Race (Some i)"
    by (simp add: insert_sync_def assms(7))
  then show ?thesis
    by (simp add: enqueue_commit_def Let_def assms(3,7) store_simps)
qed

theorem racing_writers_one_wins_witness:
  "\<exists>q2. enqueue_commit (sample_env ''c'') (sample_args ''enforce'' None) Enforce None
      (snd (enqueue_commit (sample_env ''b'') (sample_args ''enforce'' None) Enforce None fresh_queue)) =
    (DuplicateEpisode (Some ''b'') ''s|g|ih'', q2)"
proof -
  let ?a = "sample_args ''enforce'' None"
  let ?q1 = "snd (enqueue_commit (sample_env ''b'') ?a Enforce None fresh_queue)"
  have h: "st_unique (q_store fresh_queue) \<and> args_hash (sample_env ''b'') ?a = ''s|g|ih'' \<and>
      args_hash (sample_env ''c'') ?a = ''s|g|ih'' \<and> find_active_duplicate (q_store fresh_queue) ''s|g|ih'' = None \<and>
      fst (enqueue_commit (sample_env ''b'') ?a Enforce None fresh_queue) = Enqueued ''b''" by code_simp
  then have "enqueue_commit (sample_env ''b'') ?a Enforce None fresh_queue = (Enqueued ''b'', ?q1)"
    by (simp add: prod_eq_iff)
  from racing_writers_one_wins [OF _ _ _ _ _ this, of "''s|g|ih''" "sample_env ''c''" ?a ?q1] h show ?thesis by auto
qed

end
