(* ===== verification/RetryPolicy.thy ===== *)
theory RetryPolicy
  imports Prelude
begin

text \<open>
  The retry policy of \<open>pipeline/queue.py\<close> (\<open>RetryPolicy\<close>, \<open>_policy_where_clause\<close>) and the
  retry decisions of \<open>pipeline/retry.py\<close>.  A SQL predicate the code builds is a value of
  \<open>policy_clause\<close>; \<open>clause_holds\<close> evaluates it on the error column, whose NULL is \<open>None\<close>.
\<close>

subsection \<open>The policy\<close>

record retry_policy =
  permanent_error_codes :: "string list"
  allowed_error_codes :: "string list"
  reap_limit :: int
  respect_attempt_ceiling :: bool
  rt_max_attempts :: int

definition default_codes :: "string list" where
  "default_codes = [''Error code: 404'', ''Error code: 402'']"

definition default_policy :: retry_policy where
  "default_policy = \<lparr>permanent_error_codes = default_codes, allowed_error_codes = [], reap_limit = 24,
     respect_attempt_ceiling = True, rt_max_attempts = 3\<rparr>"

text \<open>The attributes \<open>from_settings\<close> reads; \<open>None\<close> is a missing attribute (for the two lists and
  \<open>max_attempts\<close>, also the value \<open>None\<close>).\<close>

record policy_attrs =
  pa_permanent :: "string list option"
  pa_allowed :: "string list option"
  pa_limit :: "int option"
  pa_ceiling :: "bool option"

record pipeline_attrs =
  pl_policy :: "policy_attrs option"
  pl_max_attempts :: "int option"

definition or_default :: "'a list option \<Rightarrow> 'a list \<Rightarrow> 'a list" where
  "or_default x d = (case x of Some (v # vs) \<Rightarrow> v # vs | _ \<Rightarrow> d)"

definition from_settings :: "pipeline_attrs option \<Rightarrow> retry_policy" where
  "from_settings pipeline =
     (case pipeline of None \<Rightarrow> default_policy
      | Some pl \<Rightarrow>
          (case pl_policy pl of None \<Rightarrow> default_policy
           | Some pa \<Rightarrow>
               \<lparr>permanent_error_codes = or_default (pa_permanent pa) default_codes,
                allowed_error_codes = or_default (pa_allowed pa) [],
                reap_limit = (case pa_limit pa of None \<Rightarrow> 24 | Some n \<Rightarrow> n),
                respect_attempt_ceiling = (case pa_ceiling pa of None \<Rightarrow> True | Some b \<Rightarrow> b),
                rt_max_attempts = (case pl_max_attempts pl of None \<Rightarrow> 3 | Some n \<Rightarrow> if n = 0 then 3 else n)\<rparr>))"

subsection \<open>The SQL predicate\<close>

text \<open>\<open>(col IS NULL OR instr(lower(col), lower(?)) > 0)\<close> and the same with \<open>= 0\<close>.\<close>

datatype policy_clause = NullOrContains string | NullOrLacks string

fun clause_holds :: "policy_clause \<Rightarrow> string option \<Rightarrow> bool" where
  "clause_holds _ None = True"
| "clause_holds (NullOrContains code) (Some err) = instr_ci err code"
| "clause_holds (NullOrLacks code) (Some err) = (\<not> instr_ci err code)"

definition policy_where_clause :: "retry_policy option \<Rightarrow> policy_clause list" where
  "policy_where_clause policy =
     (case policy of None \<Rightarrow> []
      | Some p \<Rightarrow>
          if allowed_error_codes p \<noteq> [] then map NullOrContains (allowed_error_codes p)
          else map NullOrLacks (permanent_error_codes p))"

text \<open>The callers join the clauses with AND.\<close>

definition policy_admits :: "retry_policy \<Rightarrow> string option \<Rightarrow> bool" where
  "policy_admits p err \<longleftrightarrow> list_all (\<lambda>c. clause_holds c err) (policy_where_clause (Some p))"

lemma policy_admits_None [simp]: "policy_admits p None"
  by (simp add: policy_admits_def list_all_iff)

lemma policy_admits_deny:
  "allowed_error_codes p = [] \<Longrightarrow>
    policy_admits p (Some err) \<longleftrightarrow> (\<forall>code \<in> set (permanent_error_codes p). \<not> instr_ci err code)"
  by (auto simp: policy_admits_def policy_where_clause_def list_all_iff)

lemma policy_admits_allow:
  "allowed_error_codes p \<noteq> [] \<Longrightarrow>
    policy_admits p (Some err) \<longleftrightarrow> (\<forall>code \<in> set (allowed_error_codes p). instr_ci err code)"
  by (auto simp: policy_admits_def policy_where_clause_def list_all_iff)

lemma from_settings_positive:
  "pl_max_attempts pl \<noteq> Some 0 \<Longrightarrow> pl_policy pl = Some pa \<Longrightarrow> pl_max_attempts pl = Some n \<Longrightarrow>
    rt_max_attempts (from_settings (Some pl)) = n"
  by (simp add: from_settings_def)

lemma from_settings_codes: "permanent_error_codes (from_settings st) \<noteq> []"
  by (auto simp: from_settings_def or_default_def default_policy_def default_codes_def
      split: option.splits list.splits)

subsection \<open>Explaining a refusal\<close>

text \<open>\<open>dlq_refusal_reason\<close> on the error text of a dead-letter row: the code and the excerpt (160
  characters) that the message names.\<close>

definition refusal_of :: "retry_policy \<Rightarrow> string \<Rightarrow> (string \<times> string) option" where
  "refusal_of p last_error =
     (let lowered = py_lower last_error in
      if allowed_error_codes p \<noteq> [] then None
      else case find (\<lambda>code. py_in (py_lower code) lowered) (permanent_error_codes p) of
          None \<Rightarrow> None
        | Some matched \<Rightarrow> if matched = [] then None else Some (matched, take 160 last_error))"

subsection \<open>Deciding on a retry\<close>

text \<open>A raised exception: the class names along its method resolution order (its own first) and its
  \<open>str\<close>.\<close>

record raised =
  ex_classes :: "string list"
  ex_message :: string

definition ex_name :: "raised \<Rightarrow> string" where
  "ex_name x = (case ex_classes x of [] \<Rightarrow> [] | n # _ \<Rightarrow> n)"

definition non_retryable_schema_signatures :: "string list" where
  "non_retryable_schema_signatures =
     [''ExtractedEdges()'', ''ExtractedEntities()'', ''entity_resolutions'', ''duplicate_facts'',
      ''SummarizedEntities'', ''argument after ** must be a mapping'']"

definition should_retry :: "int \<Rightarrow> raised \<Rightarrow> int \<Rightarrow> bool" where
  "should_retry attempt_count exc max_attempts =
     (if max_attempts \<le> attempt_count + 1 then False
      else if list_ex (\<lambda>c. c \<in> set (ex_classes exc)) [''TypeError'', ''ValueError'', ''KeyError''] then False
      else if ex_name exc = ''ValidationError'' \<or>
              list_ex (\<lambda>sig. py_in sig (ex_message exc)) non_retryable_schema_signatures then False
      else True)"

definition describe_exception :: "raised \<Rightarrow> string" where
  "describe_exception exc =
     (let message = py_strip (ex_message exc) in
      if message = [] then ex_name exc @ '': <no message>'' else ex_name exc @ '': '' @ message)"

text \<open>\<open>base * factor ** max(0, attempt - 1)\<close> capped at 300; \<open>**\<close> on floats raises from \<open>2 ** 1024\<close> on.\<close>

definition compute_backoff_seconds :: "int \<Rightarrow> real \<Rightarrow> real \<Rightarrow> real option" where
  "compute_backoff_seconds attempt base factor =
     (let power = factor ^ nat (max 0 (attempt - 1)) in
      if 2 ^ 1024 \<le> power then None else Some (min (base * power) 300))"

subsection \<open>Properties\<close>



text \<open>An allowlist of several codes admits only errors that carry every one of them: a row with
  exactly one of two allowed codes is kept out by every requeue path, although the check that
  explains refusals finds nothing to object to.\<close>

theorem allowlist_needs_every_code:
  assumes "{a, b} \<subseteq> set (allowed_error_codes p)" "instr_ci err a" "\<not> instr_ci err b"
  shows "\<not> policy_admits p (Some err) \<and> refusal_of p err = None"
proof -
  from assms(1) have "allowed_error_codes p \<noteq> []" "b \<in> set (allowed_error_codes p)" by auto
  with assms(3) show ?thesis by (auto simp: policy_admits_allow refusal_of_def)
qed

theorem allowlist_needs_every_code_witness:
  "\<not> policy_admits (default_policy\<lparr>allowed_error_codes := [''Timeout'', ''503'']\<rparr>) (Some ''Timeout: x'')"
  using allowlist_needs_every_code [of "''Timeout''" "''503''"
      "default_policy\<lparr>allowed_error_codes := [''Timeout'', ''503'']\<rparr>" "''Timeout: x''"]
  by (simp add: instr_ci_def py_lower_def lower_char_def)

end
