(* ===== verification/QueueRequeue.thy ===== *)
theory QueueRequeue
  imports EpisodeQueue RetryPolicy
begin

text \<open>
  The four paths of \<open>pipeline/queue.py\<close> that put an episode back into the queue:
  \<open>reap_stuck_processing\<close>, \<open>reap_failed_or_aborted\<close>, \<open>replay_dlq_episode\<close> and
  \<open>replay_dlq_batch\<close>.  Each is one transaction.  A row whose UPDATE the unique index rejects
  is rolled back to its savepoint, as in \<open>requeue_guarded\<close>.
\<close>

subsection \<open>Stuck episodes\<close>

text \<open>\<open>rd\<close>: the clock reading (microseconds) the loop takes for a row.  A start time that does not
  parse counts as stuck, an empty or missing one does not.\<close>

definition is_stuck :: "(string \<Rightarrow> int) \<Rightarrow> int \<Rightarrow> episode \<Rightarrow> bool" where
  "is_stuck rd timeout_sec e \<longleftrightarrow>
     (case ep_started_at e of
        None \<Rightarrow> False
      | Some EmptyText \<Rightarrow> False
      | Some GarbledText \<Rightarrow> True
      | Some (Stamp t) \<Rightarrow> timeout_sec * 1000000 \<le> rd (ep_id e) - t)"

definition timeout_error :: string where
  "timeout_error = ''Processing timeout exceeded''"

definition unstick_row :: "int \<Rightarrow> int \<Rightarrow> episode \<Rightarrow> episode" where
  "unstick_row attempts now e =
     e\<lparr>ep_status := Queued, ep_attempts := attempts, ep_streak := 0, ep_enqueued_at := now, ep_updated_at := now\<rparr>"

definition conflict_row :: "int \<Rightarrow> episode \<Rightarrow> episode" where
  "conflict_row now e =
     e\<lparr>ep_status := backstop_skipped_status, ep_updated_at := now,
       ep_last_error := Some ''reaped: canonical hash already held by an active row''\<rparr>"

definition reap_stuck_row :: "int \<Rightarrow> int \<Rightarrow> episode \<Rightarrow> store \<Rightarrow> store" where
  "reap_stuck_row now max_attempts row s =
     (let i = ep_id row; attempts = ep_attempts row + 1 in
      if max_attempts \<le> attempts then
        replace_dead (dead_row i (ep_payload row) timeout_error attempts now)
          (set_rows (\<lambda>e. ep_id e = i) (aborted_row attempts timeout_error now) s)
      else
        (case write_rows (\<lambda>e. ep_id e = i) (unstick_row attempts now) s of
           None \<Rightarrow> set_rows (\<lambda>e. ep_id e = i) (conflict_row now) s
         | Some s' \<Rightarrow> s'))"

definition stuck_rows :: "(string \<Rightarrow> int) \<Rightarrow> int \<Rightarrow> store \<Rightarrow> episode list" where
  "stuck_rows rd timeout_sec s =
     filter (is_stuck rd timeout_sec) (filter (\<lambda>e. ep_status e = Processing) (st_episodes s))"

definition reap_stuck_processing ::
  "(string \<Rightarrow> int) \<Rightarrow> int \<Rightarrow> int \<Rightarrow> int \<Rightarrow> store \<Rightarrow> int \<times> store" where
  "reap_stuck_processing rd timeout_sec max_attempts now s =
     (let rows = stuck_rows rd timeout_sec s
      in (int (length rows), fold (reap_stuck_row now max_attempts) rows s))"

subsection \<open>Failed and aborted episodes\<close>

definition dlq_open_for :: "store \<Rightarrow> string \<Rightarrow> bool" where
  "dlq_open_for s i \<longleftrightarrow> list_ex (\<lambda>d. dl_id d = i \<and> dl_recovered_at d = None) (st_dead s)"

definition reapable :: "retry_policy \<Rightarrow> store \<Rightarrow> episode \<Rightarrow> bool" where
  "reapable p s e \<longleftrightarrow>
     ep_status e \<in> {Failed, Aborted} \<and> policy_admits p (ep_last_error e) \<and>
     (respect_attempt_ceiling p \<longrightarrow> ep_attempts e < rt_max_attempts p) \<and>
     \<not> (ep_status e = Failed \<and> dlq_open_for s (ep_id e))"

definition effective_policy :: "retry_policy option \<Rightarrow> retry_policy" where
  "effective_policy policy = (case policy of Some p \<Rightarrow> p | None \<Rightarrow> default_policy)"

definition reset_streak :: "episode \<Rightarrow> episode" where
  "reset_streak e = e\<lparr>ep_streak := 0\<rparr>"

definition reap_limit_of :: "int option \<Rightarrow> retry_policy \<Rightarrow> int" where
  "reap_limit_of limit p = (case limit of None \<Rightarrow> reap_limit p | Some n \<Rightarrow> n)"

definition reap_selection :: "int \<Rightarrow> retry_policy \<Rightarrow> store \<Rightarrow> episode list" where
  "reap_selection n p s = sql_limit n (sort_key ep_updated_at (filter (reapable p s) (st_episodes s)))"

definition reap_failed_or_aborted ::
  "int option \<Rightarrow> retry_policy option \<Rightarrow> int \<Rightarrow> store \<Rightarrow> int \<times> store" where
  "reap_failed_or_aborted limit policy now s =
     (let p = effective_policy policy; n = reap_limit_of limit p in
      if n \<le> 0 then (0, s)
      else
        (let ids = map ep_id (reap_selection n p s) in
         if ids = [] then (0, s)
         else case requeue_guarded ids now reset_streak s of
             (t, requeued) \<Rightarrow> (int (length requeued), t)))"

subsection \<open>Replaying dead letters\<close>

definition replay_extra :: "int \<Rightarrow> episode \<Rightarrow> episode" where
  "replay_extra now e = e\<lparr>ep_attempts := 0, ep_last_error := None, ep_last_replay_at := Some now\<rparr>"

definition replay_dlq_episode :: "string \<Rightarrow> retry_policy option \<Rightarrow> int \<Rightarrow> store \<Rightarrow> bool \<times> store" where
  "replay_dlq_episode i policy now s =
     (case find_dead i s of
        None \<Rightarrow> (False, s)
      | Some d \<Rightarrow>
          if \<not> policy_admits (effective_policy policy) (Some (dl_last_error d)) then (False, s)
          else case requeue_guarded [i] now (replay_extra now) s of
              (t, requeued) \<Rightarrow>
                if requeued = [] then (False, s)
                else (True, set_dead (\<lambda>d'. dl_id d' = i) (recover_dead now (dl_attempts d)) t))"

text \<open>SQLite's LIKE without escape: \<open>%\<close> is any run of characters, \<open>_\<close> any one.\<close>

fun sql_like :: "string \<Rightarrow> string \<Rightarrow> bool" where
  "sql_like [] text = (text = [])"
| "sql_like (p # ps) [] = (p = CHR ''%'' \<and> sql_like ps [])"
| "sql_like (p # ps) (c # cs) =
     (if p = CHR ''%'' then sql_like ps (c # cs) \<or> sql_like (p # ps) cs
      else (p = CHR ''_'' \<or> p = c) \<and> sql_like ps cs)"

definition class_like :: "string \<Rightarrow> string \<Rightarrow> bool" where
  "class_like err c \<longleftrightarrow> sql_like (py_lower (''%'' @ c @ ''%'')) (py_lower err)"

text \<open>\<open>datetime(...)\<close> drops the fraction of a second.\<close>

definition replayable :: "string list option \<Rightarrow> int \<Rightarrow> retry_policy \<Rightarrow> int \<Rightarrow> dead_letter \<Rightarrow> bool" where
  "replayable classes min_age_sec p now d \<longleftrightarrow>
     dl_recovered_at d = None \<and>
     (case classes of Some (c # cs) \<Rightarrow> list_ex (class_like (dl_last_error d)) (c # cs) | _ \<Rightarrow> True) \<and>
     (0 < min_age_sec \<longrightarrow> dl_failed_at d div 1000000 \<le> now div 1000000 - min_age_sec) \<and>
     policy_admits p (Some (dl_last_error d))"

definition replay_row :: "int \<Rightarrow> episode \<Rightarrow> episode" where
  "replay_row now e = requeue_row now (replay_extra now) e"

fun replay_rows :: "int \<Rightarrow> dead_letter list \<Rightarrow> store \<Rightarrow> int \<times> store" where
  "replay_rows now [] s = (0, s)"
| "replay_rows now (d # ds) s =
     (let target = (\<lambda>e. ep_id e = dl_id d \<and> ep_status e \<noteq> Done);
          close = set_dead (\<lambda>d'. dl_id d' = dl_id d) (recover_dead now (dl_attempts d)) in
      case write_rows target (replay_row now) s of
        None \<Rightarrow> replay_rows now ds s
      | Some s' \<Rightarrow>
          if list_ex target (st_episodes s)
          then (case replay_rows now ds (close s') of (n, t) \<Rightarrow> (n + 1, t))
          else replay_rows now ds (close s'))"

definition replay_selection ::
  "int \<Rightarrow> string list option \<Rightarrow> int \<Rightarrow> retry_policy \<Rightarrow> int \<Rightarrow> store \<Rightarrow> dead_letter list" where
  "replay_selection limit classes min_age_sec p now s =
     sql_limit limit (sort_key dl_failed_at (filter (replayable classes min_age_sec p now) (st_dead s)))"

definition replay_dlq_batch ::
  "int \<Rightarrow> string list option \<Rightarrow> int \<Rightarrow> retry_policy option \<Rightarrow> int \<Rightarrow> store \<Rightarrow> int \<times> store" where
  "replay_dlq_batch limit classes min_age_sec policy now s =
     replay_rows now (replay_selection limit classes min_age_sec (effective_policy policy) now s) s"

subsection \<open>The writes as row updates\<close>

text \<open>What \<open>requeue_guarded\<close> does, for any extra assignments that keep the columns of the index.\<close>

locale requeue_update = row_update "requeue_row now extra" for now extra +
  assumes queued: "ep_status (requeue_row now extra e) = Queued"
begin

lemma requeue_frame:
  assumes "requeue_guarded ids now extra s = (t, requeued)"
  shows "st_dead t = st_dead s" "st_unique t = st_unique s" "st_events t = st_events s"
    "map ep_id (st_episodes t) = map ep_id (st_episodes s)"
proof -
  have "st_dead t = st_dead s \<and> st_unique t = st_unique s \<and> st_events t = st_events s \<and>
      map ep_id (st_episodes t) = map ep_id (st_episodes s)"
    using assms
  proof (induction ids arbitrary: s requeued)
    case (Cons i ids)
    show ?case
    proof (cases "write_rows (\<lambda>e. ep_id e = i) (requeue_row now extra) s")
      case None
      with Cons show ?thesis by simp
    next
      case (Some s')
      with Cons.prems obtain r where "requeue_guarded ids now extra s' = (t, r)"
        by (auto split: prod.splits)
      from Cons.IH [OF this] write_rows_Some [OF Some] show ?thesis
        by (simp add: set_rows_sel(2-) ids_set_rows)
    qed
  qed simp
  then show "st_dead t = st_dead s" "st_unique t = st_unique s" "st_events t = st_events s"
    "map ep_id (st_episodes t) = map ep_id (st_episodes s)" by simp_all
qed

lemma requeue_ok: "store_ok s \<Longrightarrow> requeue_guarded ids now extra s = (t, requeued) \<Longrightarrow> store_ok t"
proof (induction ids arbitrary: s requeued)
  case (Cons i ids)
  then show ?case
    using write_rows_ok [OF Cons.prems(1), of "\<lambda>e. ep_id e = i"] by (auto split: option.splits prod.splits)
qed simp

lemma requeue_subset: "requeue_guarded ids now extra s = (t, requeued) \<Longrightarrow> subseq requeued ids"
  by (induction ids arbitrary: s requeued) (auto split: option.splits prod.splits)

text \<open>Exactly the requeued rows change, each once.\<close>

lemma requeue_rows:
  assumes "requeue_guarded ids now extra s = (t, requeued)" "distinct ids"
  shows "st_episodes t =
    map (\<lambda>e. if ep_id e \<in> set requeued then requeue_row now extra e else e) (st_episodes s)"
  using assms
proof (induction ids arbitrary: s requeued)
  case (Cons i ids)
  show ?case
  proof (cases "write_rows (\<lambda>e. ep_id e = i) (requeue_row now extra) s")
    case None
    with Cons show ?thesis by simp
  next
    case (Some s')
    with Cons.prems obtain r where r: "requeue_guarded ids now extra s' = (t, r)" "requeued = i # r"
      by (auto split: prod.splits)
    from Cons.prems(2) requeue_subset [OF r(1)] have "i \<notin> set r" by (auto dest: subseq_set_mono)
    with Cons.IH [OF r(1)] Cons.prems(2) r(2) write_rows_Some [OF Some] show ?thesis
      by (auto simp: set_rows_sel same_id)
  qed
qed simp

text \<open>A row that was skipped shares its hash with a row of the index.\<close>

lemma requeue_skipped:
  assumes "store_ok s" "requeue_guarded ids now extra s = (t, requeued)" "distinct ids"
    and "i \<in> set ids" "i \<notin> set requeued" "find_episode i s = Some e"
  shows "\<exists>e' \<in> set (st_episodes t). in_index e' \<and> ep_canonical e' = ep_canonical e"
  using assms
proof (induction ids arbitrary: s requeued)
  case (Cons k ids)
  let ?f = "requeue_row now extra"
  have in_f: "in_index e' \<Longrightarrow> in_index (?f e')" for e'
    by (simp add: in_index_def queued same_canonical same_gate)
  show ?case
  proof (cases "write_rows (\<lambda>e. ep_id e = k) ?f s")
    case None
    with Cons.prems have rest: "requeue_guarded ids now extra s = (t, requeued)" by simp
    show ?thesis
    proof (cases "i = k")
      case True
      have e: "e \<in> set (st_episodes s)" "ep_id e = k"
        using find_episode_Some [OF Cons.prems(6)] True by simp_all
      have "st_unique s" using None by (simp add: write_rows_def split: if_splits)
      then obtain e' where e': "e' \<in> set (st_episodes s)" "in_index e'" "ep_canonical e' = ep_canonical e"
        using write_one_conflict [OF Cons.prems(1) _ e(1)] None e(2) by auto
      have "distinct ids" using Cons.prems(3) by simp
      from requeue_rows [OF rest this] e'(1)
      have "(if ep_id e' \<in> set requeued then ?f e' else e') \<in> set (st_episodes t)" by auto
      with e' in_f same_canonical show ?thesis by (metis (full_types))
    next
      case False
      with Cons rest show ?thesis by simp
    qed
  next
    case (Some s')
    with Cons.prems obtain r where r: "requeue_guarded ids now extra s' = (t, r)" "requeued = k # r"
      by (auto split: prod.splits)
    have "store_ok s'" using write_rows_ok [OF Cons.prems(1) Some] .
    moreover have "find_episode i s' = Some e"
      using write_rows_Some [OF Some] Cons.prems(5,6) r(2) find_episode_Some [OF Cons.prems(6)]
      by (simp add: find_episode_set_rows)
    ultimately show ?thesis using Cons.IH [OF _ r(1)] Cons.prems(3-5) r(2) by simp
  qed
qed simp

text \<open>A row the index does not cover is never skipped.\<close>

lemma requeue_outside_index:
  assumes "store_ok s" "requeue_guarded ids now extra s = (t, requeued)" "distinct ids"
    and "i \<in> set ids" "find_episode i s = Some e" "ep_gate e \<noteq> Some Enforce"
  shows "i \<in> set requeued"
  using assms
proof (induction ids arbitrary: s requeued)
  case (Cons k ids)
  show ?case
  proof (cases "write_rows (\<lambda>e. ep_id e = k) (requeue_row now extra) s")
    case None
    have e: "e \<in> set (st_episodes s)" "ep_id e = i" using find_episode_Some [OF Cons.prems(5)] by simp_all
    have "i \<noteq> k"
    proof
      assume "i = k"
      with write_rows_leaving [OF Cons.prems(1), of "\<lambda>e. ep_id e = k"] None
      obtain x where "x \<in> set (st_episodes s)" "ep_id x = i" "in_index (requeue_row now extra x)" by auto
      with e ids_unique [OF Cons.prems(1)] Cons.prems(6) show False
        by (auto simp: in_index_def same_gate)
    qed
    with Cons None show ?thesis by simp
  next
    case (Some s')
    with Cons.prems obtain r where r: "requeue_guarded ids now extra s' = (t, r)" "requeued = k # r"
      by (auto split: prod.splits)
    show ?thesis
    proof (cases "i = k")
      case False
      have "find_episode i s' = Some e"
        using write_rows_Some [OF Some] Cons.prems(5) False find_episode_Some [OF Cons.prems(5)]
        by (simp add: find_episode_set_rows)
      from Cons.IH [OF write_rows_ok [OF Cons.prems(1) Some] r(1) _ _ this] Cons.prems(3,4,6) False r(2)
      show ?thesis by simp
    qed (simp add: r(2))
  qed
qed simp

end

interpretation unstick_upd: row_update "unstick_row attempts now" for attempts now
  by unfold_locales (simp_all add: unstick_row_def)

interpretation conflict_upd: leaving_update "conflict_row now" for now
  by unfold_locales (simp_all add: conflict_row_def in_index_def backstop_skipped_status_def)

interpretation reap_upd: requeue_update now reset_streak for now
  by unfold_locales (simp_all add: requeue_row_def reset_streak_def)

interpretation replay_upd: requeue_update now "replay_extra now" for now
  by unfold_locales (simp_all add: requeue_row_def replay_extra_def)

lemma reap_selection_mem:
  "e \<in> set (reap_selection n p s) \<Longrightarrow> e \<in> set (st_episodes s) \<and> reapable p s e"
  by (auto simp: reap_selection_def sql_limit_def split: if_splits dest: in_set_takeD)

lemma reap_selection_distinct:
  assumes "store_ok s"
  shows "distinct (map ep_id (reap_selection n p s))"
proof -
  have "distinct (st_episodes s)" "inj_on ep_id (set (st_episodes s))"
    using assms by (simp_all add: store_ok_def distinct_map)
  moreover have "set (reap_selection n p s) \<subseteq> set (st_episodes s)" using reap_selection_mem by blast
  ultimately have "inj_on ep_id (set (reap_selection n p s))" "distinct (reap_selection n p s)"
    by (simp_all add: inj_on_subset reap_selection_def sql_limit_def)
  then show ?thesis by (simp add: distinct_map)
qed

lemma reap_selection_oldest:
  "r \<in> set (reap_selection n p s) \<Longrightarrow> e \<in> set (st_episodes s) \<Longrightarrow> reapable p s e \<Longrightarrow>
    e \<notin> set (reap_selection n p s) \<Longrightarrow> ep_updated_at r \<le> ep_updated_at e"
  using take_sort_key_least [of r "nat n" ep_updated_at "filter (reapable p s) (st_episodes s)" e]
  by (auto simp: reap_selection_def sql_limit_def split: if_splits)

lemma reap_unfold:
  "reap_failed_or_aborted limit policy now s =
    (let p = effective_policy policy; n = reap_limit_of limit p in
     if n \<le> 0 then (0, s)
     else case requeue_guarded (map ep_id (reap_selection n p s)) now reset_streak s of
         (t, requeued) \<Rightarrow> (int (length requeued), t))"
  by (simp add: reap_failed_or_aborted_def Let_def)

lemma reap_ok: "store_ok s \<Longrightarrow> store_ok (snd (reap_failed_or_aborted limit policy now s))"
  by (auto simp: reap_unfold Let_def intro: reap_upd.requeue_ok split: prod.splits)

text \<open>The rows a reap puts back.\<close>

definition reaped :: "int option \<Rightarrow> retry_policy option \<Rightarrow> int \<Rightarrow> store \<Rightarrow> episode list" where
  "reaped limit policy now s =
     (let p = effective_policy policy; n = reap_limit_of limit p; rows = reap_selection n p s in
      if n \<le> 0 then []
      else filter (\<lambda>e. ep_id e \<in> set (snd (requeue_guarded (map ep_id rows) now reset_streak s))) rows)"

lemma reaped_reapable:
  "e \<in> set (reaped limit policy now s) \<Longrightarrow>
    e \<in> set (st_episodes s) \<and> reapable (effective_policy policy) s e"
  by (auto simp: reaped_def Let_def split: if_splits dest: reap_selection_mem)

lemma reaped_count:
  assumes "store_ok s"
  shows "length (reaped limit policy now s) = nat (fst (reap_failed_or_aborted limit policy now s))"
    and "int (length (reaped limit policy now s)) \<le> max 0 (reap_limit_of limit (effective_policy policy))"
proof -
  let ?p = "effective_policy policy"
  let ?k = "reap_limit_of limit ?p"
  let ?sel = "reap_selection ?k ?p s"
  obtain t req where req: "requeue_guarded (map ep_id ?sel) now reset_streak s = (t, req)" by fastforce
  note sub = reap_upd.requeue_subset [OF req]
  have dist: "distinct (map ep_id (filter (\<lambda>e. ep_id e \<in> set req) ?sel))" "distinct req"
    using reap_selection_distinct [OF assms] subseq_distinct [OF sub] by (simp_all add: distinct_map_filter)
  have "set (map ep_id (filter (\<lambda>e. ep_id e \<in> set req) ?sel)) = set req"
    using subseq_set_mono [OF sub] by auto
  then have len: "length (filter (\<lambda>e. ep_id e \<in> set req) ?sel) = length req"
    using distinct_card [OF dist(1)] distinct_card [OF dist(2)] by simp
  then show "length (reaped limit policy now s) = nat (fst (reap_failed_or_aborted limit policy now s))"
    by (simp add: reaped_def reap_unfold Let_def req)
  show "int (length (reaped limit policy now s)) \<le> max 0 ?k"
  proof (cases "?k \<le> 0")
    case True
    then show ?thesis by (simp add: reaped_def Let_def)
  next
    case False
    then have "length ?sel \<le> nat ?k" by (simp add: reap_selection_def sql_limit_def)
    with length_filter_le [of "\<lambda>e. ep_id e \<in> set req" ?sel] have
      "length (filter (\<lambda>e. ep_id e \<in> set req) ?sel) \<le> nat ?k" by linarith
    with False show ?thesis by (simp add: reaped_def Let_def req)
  qed
qed

lemma reap_rows:
  assumes ok: "store_ok s"
  shows "st_episodes (snd (reap_failed_or_aborted limit policy now s)) =
    map (\<lambda>e. if e \<in> set (reaped limit policy now s) then requeue_row now reset_streak e else e) (st_episodes s)"
proof (cases "reap_limit_of limit (effective_policy policy) \<le> 0")
  case True
  then show ?thesis by (simp add: reap_unfold reaped_def Let_def)
next
  case False
  let ?p = "effective_policy policy"
  let ?sel = "reap_selection (reap_limit_of limit ?p) ?p s"
  obtain t req where req: "requeue_guarded (map ep_id ?sel) now reset_streak s = (t, req)" by fastforce
  have "(ep_id e \<in> set req) = (e \<in> set (reaped limit policy now s))" if e: "e \<in> set (st_episodes s)" for e
  proof -
    have "e \<in> set ?sel" if "ep_id e \<in> set req"
    proof -
      have "ep_id e \<in> ep_id ` set ?sel" using subseq_set_mono [OF reap_upd.requeue_subset [OF req]] that by auto
      then obtain x where "x \<in> set ?sel" "ep_id e = ep_id x" by blast
      with ids_unique [OF ok e, of x] reap_selection_mem [of x] show ?thesis by simp
    qed
    then show ?thesis using False by (auto simp: reaped_def Let_def req)
  qed
  then show ?thesis
    using False reap_upd.requeue_rows [OF req reap_selection_distinct [OF ok]]
    by (simp add: reap_unfold Let_def req)
qed

text \<open>C15: The nightly reap requeues episodes that are failed or aborted, that the shared policy admits,
  that are below the attempt ceiling and that no open dead letter owns, at most as many as the
  limit, and touches no other row.  It is fair: an eligible episode is passed over for one with a
  later last update only if its content is already in flight.\<close>

theorem reap_requeues_fairly:
  assumes ok: "store_ok s" and reap: "reap_failed_or_aborted limit policy now s = (n, t)"
    and p: "effective_policy policy = p" and R: "reaped limit policy now s = R"
  shows "set R \<subseteq> {e \<in> set (st_episodes s). reapable p s e} \<and>
    length R = nat n \<and> int (length R) \<le> max 0 (reap_limit_of limit p) \<and>
    st_episodes t = map (\<lambda>e. if e \<in> set R then requeue_row now reset_streak e else e) (st_episodes s) \<and>
    (\<forall>r \<in> set R. \<forall>e \<in> set (st_episodes s). reapable p s e \<and> e \<notin> set R \<and> ep_updated_at e < ep_updated_at r \<longrightarrow>
       (\<exists>e' \<in> set (st_episodes t). in_index e' \<and> ep_canonical e' = ep_canonical e))"
proof (intro conjI ballI impI)
  show "set R \<subseteq> {e \<in> set (st_episodes s). reapable p s e}" using reaped_reapable p R by blast
  show "length R = nat n" "int (length R) \<le> max 0 (reap_limit_of limit p)"
    using reaped_count [OF ok, of limit policy now] by (simp_all add: reap p R)
  show "st_episodes t = map (\<lambda>e. if e \<in> set R then requeue_row now reset_streak e else e) (st_episodes s)"
    using reap_rows [OF ok, of limit policy now] by (simp add: reap R)
  fix r e
  assume r: "r \<in> set R" and e: "e \<in> set (st_episodes s)"
    "reapable p s e \<and> e \<notin> set R \<and> ep_updated_at e < ep_updated_at r"
  let ?sel = "reap_selection (reap_limit_of limit p) p s"
  obtain req where req: "requeue_guarded (map ep_id ?sel) now reset_streak s = (t, req)"
    and R_req: "R = filter (\<lambda>e. ep_id e \<in> set req) ?sel"
    using reap r R by (auto simp: reap_unfold reaped_def Let_def p split: if_splits prod.splits)
  have "e \<in> set ?sel"
    using reap_selection_oldest [of r "reap_limit_of limit p" p s e] e r R_req by (cases "e \<in> set ?sel") auto
  moreover have "ep_id e \<notin> set req" using e(2) calculation by (simp add: R_req)
  moreover have "find_episode (ep_id e) s = Some e"
    using find_episode_mem [OF _ e(1)] ok by (simp add: store_ok_def)
  ultimately show "\<exists>e' \<in> set (st_episodes t). in_index e' \<and> ep_canonical e' = ep_canonical e"
    using reap_upd.requeue_skipped [OF ok req reap_selection_distinct [OF ok], of "ep_id e" e] by simp
qed

text \<open>Two failed episodes: a permanent upstream fault and a transient one.\<close>

definition failed_pair :: store where
  "failed_pair = mark_failed ''a'' ''Timeout'' 9 (mark_failed ''b'' ''Error code: 404'' 8 two_queued)"

lemma failed_pair_ok: "store_ok failed_pair"
  by (simp add: failed_pair_def mark_failed_ok two_queued_ok)

theorem reap_requeues_fairly_witness:
  "length (reaped None None 20 failed_pair) = nat (fst (reap_failed_or_aborted None None 20 failed_pair)) \<and>
   length (reaped None None 20 failed_pair) \<le> 24"
proof -
  have "reap_limit_of None (effective_policy None) = 24" by code_simp
  with reap_requeues_fairly [OF failed_pair_ok prod.collapse [symmetric] refl refl, of None None 20]
  show ?thesis by simp
qed

text \<open>The reap does not feed itself: after it, an episode that was waiting in the queue before the
  reap ran is claimed no later than any episode the reap put back.\<close>

theorem reaped_episodes_wait_their_turn:
  assumes ok: "store_ok s" and reap: "snd (reap_failed_or_aborted limit policy now s) = t"
    and past: "\<forall>e \<in> set (st_episodes s). ep_enqueued_at e < now"
    and r: "r \<in> set (claim_select k t)" "r \<notin> set (st_episodes s)"
    and e: "e \<in> set (st_episodes s)" "ep_status e = Queued"
  shows "e \<in> set (claim_select k t)"
proof (rule ccontr)
  assume missed: "e \<notin> set (claim_select k t)"
  let ?R = "set (reaped limit policy now s)"
  have rows: "st_episodes t = map (\<lambda>e. if e \<in> ?R then requeue_row now reset_streak e else e) (st_episodes s)"
    using reap_rows [OF ok] reap by blast
  have "e \<notin> ?R" using reaped_reapable [of e] e(2) by (auto simp: reapable_def)
  then have et: "e \<in> set (st_episodes t)" using rows e(1) by (auto simp: image_iff)
  have "r \<in> set (st_episodes t)" using claim_select_mem [OF r(1)] by simp
  then obtain r0 where "r = requeue_row now reset_streak r0"
    using r(2) unfolding rows by (auto split: if_splits)
  then have "ep_enqueued_at r = now" by (simp add: requeue_row_def reset_streak_def)
  moreover have "ep_enqueued_at r \<le> ep_enqueued_at e"
    using take_sort_key_least [of r _ ep_enqueued_at _ e] r(1) et e(2) missed unfolding claim_select_take by simp
  ultimately show False using past e(1) by auto
qed

text \<open>A store whose older episode has failed, and the row the reap makes of it.\<close>

definition one_failed :: store where
  "one_failed = mark_failed ''a'' ''Timeout'' 9 two_queued"

definition reaped_row :: episode where
  "reaped_row = requeue_row 20 reset_streak
     (failed_row ''Timeout'' 9 (queued_row ''a'' (PyDict []) 1 None ModeOff None ''mcp:1''))"

theorem reaped_episodes_wait_their_turn_witness:
  "queued_row ''b'' (PyDict []) 2 None ModeOff None ''mcp:1'' \<in>
     set (claim_select None (snd (reap_failed_or_aborted None None 20 one_failed)))"
proof -
  let ?e = "queued_row ''b'' (PyDict []) 2 None ModeOff None ''mcp:1''"
  have "claim_select None (snd (reap_failed_or_aborted None None 20 one_failed)) = [?e, reaped_row]" by code_simp
  moreover have "(\<forall>e \<in> set (st_episodes one_failed). ep_enqueued_at e < 20) \<and> reaped_row \<notin> set (st_episodes one_failed) \<and>
      ?e \<in> set (st_episodes one_failed) \<and> ep_status ?e = Queued" by code_simp
  moreover have "store_ok one_failed" by (simp add: one_failed_def mark_failed_ok two_queued_ok)
  ultimately show ?thesis
    using reaped_episodes_wait_their_turn [of one_failed None None 20 _ reaped_row None ?e] by simp
qed

subsection \<open>Stuck episodes\<close>

text \<open>What the pass makes of one row it found stuck.\<close>

definition stuck_outcome :: "int \<Rightarrow> int \<Rightarrow> episode \<Rightarrow> episode" where
  "stuck_outcome now max_attempts e =
     (if max_attempts \<le> ep_attempts e + 1 then aborted_row (ep_attempts e + 1) timeout_error now e
      else unstick_row (ep_attempts e + 1) now e)"

definition stuck_letter :: "int \<Rightarrow> episode \<Rightarrow> dead_letter" where
  "stuck_letter now e = dead_row (ep_id e) (ep_payload e) timeout_error (ep_attempts e + 1) now"

lemma stuck_outcome_id [simp]: "ep_id (stuck_outcome now m e) = ep_id e"
  by (simp add: stuck_outcome_def aborted_row_def unstick_row_def)

lemma stuck_letter_id [simp]: "dl_id (stuck_letter now e) = ep_id e"
  by (simp add: stuck_letter_def dead_row_def)

text \<open>The index cannot reject the requeue: the row was in it already.\<close>

lemma reap_stuck_row_effect:
  assumes ok: "store_ok s" and r: "r \<in> set (st_episodes s)" "ep_status r = Processing"
  shows "st_episodes (reap_stuck_row now m r s) =
      map (\<lambda>e. if e = r then stuck_outcome now m e else e) (st_episodes s)" (is ?rows)
    and "st_dead (reap_stuck_row now m r s) =
      (if m \<le> ep_attempts r + 1
       then filter (\<lambda>d. dl_id d \<noteq> ep_id r) (st_dead s) @ [stuck_letter now r] else st_dead s)" (is ?dead)
    and "store_ok (reap_stuck_row now m r s)"
proof -
  let ?p = "\<lambda>e. ep_id e = ep_id r"
  let ?q = "unstick_row (ep_attempts r + 1) now"
  have one: "(ep_id e = ep_id r) = (e = r)" if "e \<in> set (st_episodes s)" for e
    using ids_unique [OF ok that r(1)] by auto
  have unstick: "write_rows ?p ?q s = Some (set_rows ?p ?q s)"
  proof (rule unstick_upd.write_rows_leaving [OF ok])
    show "in_index e" if "e \<in> set (st_episodes s)" "ep_id e = ep_id r" "in_index (?q e)" for e
      using that one [of e] r(2) by (auto simp: in_index_def unstick_row_def)
  qed
  show ?rows
    using unstick one by (auto simp: reap_stuck_row_def Let_def replace_dead_sel set_rows_sel stuck_outcome_def)
  show ?dead
    using unstick by (auto simp: reap_stuck_row_def Let_def replace_dead_sel set_rows_sel stuck_letter_def dead_row_def)
  show "store_ok (reap_stuck_row now m r s)"
    using unstick unstick_upd.write_rows_ok [OF ok unstick] aborted_upd.set_rows_ok [OF ok]
    by (simp add: reap_stuck_row_def Let_def replace_dead_ok)
qed

lemma reap_stuck_rows_effect:
  assumes "store_ok s" "distinct (map ep_id rs)" "set rs \<subseteq> set (st_episodes s)" "\<forall>r \<in> set rs. ep_status r = Processing"
  shows "store_ok (fold (reap_stuck_row now m) rs s) \<and>
    st_episodes (fold (reap_stuck_row now m) rs s) =
      map (\<lambda>e. if e \<in> set rs then stuck_outcome now m e else e) (st_episodes s) \<and>
    st_dead (fold (reap_stuck_row now m) rs s) =
      filter (\<lambda>d. dl_id d \<notin> ep_id ` {r \<in> set rs. m \<le> ep_attempts r + 1}) (st_dead s) @
      map (stuck_letter now) (filter (\<lambda>r. m \<le> ep_attempts r + 1) rs)"
  using assms
proof (induction rs arbitrary: s)
  case (Cons r rs)
  let ?s' = "reap_stuck_row now m r s"
  have r: "r \<in> set (st_episodes s)" "ep_status r = Processing" using Cons.prems by auto
  note step = reap_stuck_row_effect [OF Cons.prems(1) r, of now m]
  have fresh: "r \<notin> set rs" "ep_id r \<notin> ep_id ` set rs" using Cons.prems(2) by auto
  have "set rs \<subseteq> set (st_episodes ?s')" using Cons.prems(3) fresh(1) unfolding step(1) by auto
  with Cons step(3) have IH: "store_ok (fold (reap_stuck_row now m) rs ?s') \<and>
    st_episodes (fold (reap_stuck_row now m) rs ?s') =
      map (\<lambda>e. if e \<in> set rs then stuck_outcome now m e else e) (st_episodes ?s') \<and>
    st_dead (fold (reap_stuck_row now m) rs ?s') =
      filter (\<lambda>d. dl_id d \<notin> ep_id ` {r \<in> set rs. m \<le> ep_attempts r + 1}) (st_dead ?s') @
      map (stuck_letter now) (filter (\<lambda>r. m \<le> ep_attempts r + 1) rs)" by simp
  have "stuck_outcome now m r \<notin> set rs" using fresh(2) by (metis image_eqI stuck_outcome_id)
  then have "map (\<lambda>e. if e \<in> set rs then stuck_outcome now m e else e) (st_episodes ?s') =
      map (\<lambda>e. if e \<in> set (r # rs) then stuck_outcome now m e else e) (st_episodes s)"
    using fresh(1) unfolding step(1) by auto
  moreover have "filter (\<lambda>d. dl_id d \<notin> ep_id ` {r \<in> set rs. m \<le> ep_attempts r + 1}) (st_dead ?s') @
      map (stuck_letter now) (filter (\<lambda>r. m \<le> ep_attempts r + 1) rs) =
    filter (\<lambda>d. dl_id d \<notin> ep_id ` {x \<in> set (r # rs). m \<le> ep_attempts x + 1}) (st_dead s) @
      map (stuck_letter now) (filter (\<lambda>r. m \<le> ep_attempts r + 1) (r # rs))"
  proof (cases "m \<le> ep_attempts r + 1")
    case True
    then have "ep_id ` {x \<in> set (r # rs). m \<le> ep_attempts x + 1} =
        insert (ep_id r) (ep_id ` {r \<in> set rs. m \<le> ep_attempts r + 1})" by auto
    moreover have "ep_id r \<notin> ep_id ` {r \<in> set rs. m \<le> ep_attempts r + 1}" using fresh(2) by auto
    ultimately show ?thesis using True unfolding step(2) by (simp add: conj_commute)
  next
    case False
    then have "{x \<in> set (r # rs). m \<le> ep_attempts x + 1} = {r \<in> set rs. m \<le> ep_attempts r + 1}" by auto
    with False show ?thesis unfolding step(2) by simp
  qed
  ultimately show ?case using IH by (simp only: fold.simps comp_apply simp_thms)
qed simp

lemma stuck_rows_facts:
  assumes "store_ok s"
  shows "distinct (map ep_id (stuck_rows rd timeout_sec s))" "set (stuck_rows rd timeout_sec s) \<subseteq> set (st_episodes s)"
    "\<forall>r \<in> set (stuck_rows rd timeout_sec s). ep_status r = Processing"
  using assms by (auto simp: stuck_rows_def store_ok_def distinct_map_filter)

lemma reap_stuck_ok: "store_ok s \<Longrightarrow> store_ok (snd (reap_stuck_processing rd timeout_sec m now s))"
  using reap_stuck_rows_effect [OF _ stuck_rows_facts] by (simp add: reap_stuck_processing_def Let_def)

text \<open>The pass over stuck episodes changes exactly the episodes in processing whose start lies at
  least the timeout back (or is unreadable), counts each, and charges each one attempt: an
  episode whose attempts are used up is aborted with a dead letter, any other returns to the
  back of the queue.  The branch that gives up on an index conflict is never taken.\<close>

theorem reap_stuck_outcomes:
  assumes "store_ok s" and "reap_stuck_processing rd timeout_sec m now s = (n, t)"
    and "stuck_rows rd timeout_sec s = rows"
  shows "n = int (length rows) \<and>
    st_episodes t = map (\<lambda>e. if e \<in> set rows then stuck_outcome now m e else e) (st_episodes s) \<and>
    st_dead t = filter (\<lambda>d. dl_id d \<notin> ep_id ` {r \<in> set rows. m \<le> ep_attempts r + 1}) (st_dead s) @
      map (stuck_letter now) (filter (\<lambda>r. m \<le> ep_attempts r + 1) rows) \<and>
    (\<forall>e \<in> set (st_episodes t). ep_status e = SkippedDuplicate \<longrightarrow> e \<in> set (st_episodes s))"
proof -
  have t: "t = fold (reap_stuck_row now m) rows s" "n = int (length rows)"
    using assms(2,3) by (auto simp: reap_stuck_processing_def Let_def)
  note effect = reap_stuck_rows_effect [OF assms(1) stuck_rows_facts [OF assms(1), of rd timeout_sec], of now m, unfolded assms(3)]
  have "ep_status (stuck_outcome now m e) \<noteq> SkippedDuplicate" for e
    by (simp add: stuck_outcome_def aborted_row_def unstick_row_def)
  with effect t show ?thesis by auto
qed

definition both_processing :: store where
  "both_processing = two_queued\<lparr>st_episodes := map (claim_row 7) (st_episodes two_queued)\<rparr>"

theorem reap_stuck_outcomes_witness:
  "fst (reap_stuck_processing (\<lambda>_. 2000000000) 900 3 2000000000 both_processing) = 2"
proof -
  have "store_ok both_processing \<and>
      length (stuck_rows (\<lambda>_. 2000000000) 900 both_processing) = 2" by code_simp
  then show ?thesis
    using reap_stuck_outcomes [OF _ prod.collapse [symmetric] refl, of both_processing "\<lambda>_. 2000000000" 900 3 2000000000]
    by simp
qed

subsection \<open>Replays\<close>

lemma set_rows_none: "\<forall>e \<in> set (st_episodes s). \<not> p e \<Longrightarrow> set_rows p f s = s"
  by (simp add: set_rows_def map_idI)

lemma write_rows_none:
  "store_ok s \<Longrightarrow> \<forall>e \<in> set (st_episodes s). \<not> p e \<Longrightarrow> write_rows p f s = Some s"
  by (simp add: write_rows_def set_rows_none store_ok_def)

lemma write_rows_cong:
  assumes "\<And>e. e \<in> set (st_episodes s) \<Longrightarrow> p e = q e"
  shows "write_rows p f s = write_rows q f s"
proof -
  have "set_rows p f s = set_rows q f s" using assms by (simp add: set_rows_def)
  then show ?thesis by (simp add: write_rows_def)
qed

lemma write_rows_dead: "write_rows p f (s\<lparr>st_dead := D\<rparr>) = map_option (\<lambda>t. t\<lparr>st_dead := D\<rparr>) (write_rows p f s)"
  by (simp add: write_rows_def set_rows_def)

lemma requeue_guarded_dead:
  "requeue_guarded ids now extra (s\<lparr>st_dead := D\<rparr>) = apfst (\<lambda>t. t\<lparr>st_dead := D\<rparr>) (requeue_guarded ids now extra s)"
  by (induction ids arbitrary: s) (auto simp: write_rows_dead split: option.splits prod.splits)

text \<open>The batch replay is \<open>requeue_guarded\<close> on the dead letters whose episode is there and not done,
  followed by closing every selected dead letter but the skipped ones.\<close>

definition live_target :: "store \<Rightarrow> dead_letter \<Rightarrow> bool" where
  "live_target s d \<longleftrightarrow> (\<exists>e \<in> set (st_episodes s). ep_id e = dl_id d \<and> ep_status e \<noteq> Done)"

definition close_letters :: "string set \<Rightarrow> int \<Rightarrow> dead_letter list \<Rightarrow> dead_letter list" where
  "close_letters ids now ds = map (\<lambda>d. if dl_id d \<in> ids then recover_dead now (dl_attempts d) d else d) ds"

lemma close_letters_id [simp]: "map dl_id (close_letters ids now ds) = map dl_id ds"
  by (auto simp: close_letters_def recover_dead_def)

lemma set_dead_update: "set_dead p f s = s\<lparr>st_dead := map (\<lambda>d. if p d then f d else d) (st_dead s)\<rparr>"
  by (simp add: set_dead_def)

lemma replay_row_unfold: "requeue_row now (replay_extra now) = replay_row now"
  by (simp add: fun_eq_iff replay_row_def)

lemma close_letters_keep: "x \<in> set ds \<Longrightarrow> dl_id x \<notin> ids \<Longrightarrow> x \<in> set (close_letters ids now ds)"
  unfolding close_letters_def set_map by (rule image_eqI [of _ _ x]) simp_all

lemma close_letters_twice:
  "k \<notin> ids \<Longrightarrow> close_letters ids now (close_letters {k} now ds) = close_letters (insert k ids) now ds"
  by (auto simp: close_letters_def recover_dead_def)

lemma close_one:
  assumes "distinct (map dl_id ds)" "d \<in> set ds" "st_dead t = ds"
  shows "set_dead (\<lambda>d'. dl_id d' = dl_id d) (recover_dead now (dl_attempts d)) t =
    t\<lparr>st_dead := close_letters {dl_id d} now ds\<rparr>"
proof -
  have "d' = d" if "d' \<in> set ds" "dl_id d' = dl_id d" for d'
    using that assms(1,2) by (auto simp: distinct_map dest: inj_onD)
  then have "map (\<lambda>d'. if dl_id d' = dl_id d then recover_dead now (dl_attempts d) d' else d') ds =
      close_letters {dl_id d} now ds"
    unfolding close_letters_def by (intro map_cong) auto
  with assms(3) show ?thesis by (simp add: set_dead_update)
qed

lemma replay_as_requeue:
  assumes "store_ok s" "distinct (map dl_id ds)" "set ds \<subseteq> set (st_dead s)"
    and "requeue_guarded (map dl_id (filter (live_target s) ds)) now (replay_extra now) s = (u, req)"
  shows "replay_rows now ds s = (int (length req), u\<lparr>st_dead := close_letters
    (dl_id ` set ds - (dl_id ` {d \<in> set ds. live_target s d} - set req)) now (st_dead s)\<rparr>)"
  using assms
proof (induction ds arbitrary: s u req)
  case Nil
  then show ?case by (simp add: close_letters_def)
next
  case (Cons d ds)
  let ?p = "\<lambda>e. ep_id e = dl_id d \<and> ep_status e \<noteq> Done"
  let ?close = "\<lambda>s. set_dead (\<lambda>d'. dl_id d' = dl_id d) (recover_dead now (dl_attempts d)) s"
  let ?rest = "\<lambda>s. map dl_id (filter (live_target s) ds)"
  have dead: "distinct (map dl_id (st_dead s))" "d \<in> set (st_dead s)" "dl_id d \<notin> dl_id ` set ds"
    "distinct (map dl_id ds)" "set ds \<subseteq> set (st_dead s)"
    using Cons.prems(1-3) by (auto simp: store_ok_def)
  note closed = close_one [OF dead(1,2)]
  have rest_closed: "set ds \<subseteq> set (close_letters {dl_id d} now (st_dead s))"
  proof
    fix x assume x: "x \<in> set ds"
    then have "dl_id x \<notin> {dl_id d}" using dead(3) by (auto simp: image_iff)
    with x dead(5) show "x \<in> set (close_letters {dl_id d} now (st_dead s))" by (auto intro: close_letters_keep)
  qed
  show ?case
  proof (cases "live_target s d")
    case False
    then have none: "\<forall>e \<in> set (st_episodes s). \<not> ?p e" "list_ex ?p (st_episodes s) = False"
      by (auto simp: live_target_def list_ex_iff)
    let ?s' = "s\<lparr>st_dead := close_letters {dl_id d} now (st_dead s)\<rparr>"
    have live: "live_target ?s' = live_target s" by (simp add: fun_eq_iff live_target_def)
    have ok: "store_ok ?s'" using Cons.prems(1) by (simp add: store_ok_def)
    have req: "requeue_guarded (?rest s) now (replay_extra now) s = (u, req)"
      using Cons.prems(4) False by simp
    then have "requeue_guarded (?rest ?s') now (replay_extra now) ?s' =
        (u\<lparr>st_dead := close_letters {dl_id d} now (st_dead s)\<rparr>, req)"
      by (simp add: live requeue_guarded_dead)
    from Cons.IH [OF ok dead(4) _ this] rest_closed
    have IH: "replay_rows now ds ?s' = (int (length req), u\<lparr>st_dead := close_letters
        (dl_id ` set ds - (dl_id ` {d \<in> set ds. live_target s d} - set req)) now
        (close_letters {dl_id d} now (st_dead s))\<rparr>)" by (simp add: live)
    have sub: "set req \<subseteq> dl_id ` set ds"
      using subseq_set_mono [OF replay_upd.requeue_subset [OF req]] by auto
    have "insert (dl_id d) (dl_id ` set ds - (dl_id ` {d \<in> set ds. live_target s d} - set req)) =
        dl_id ` set (d # ds) - (dl_id ` {x \<in> set (d # ds). live_target s x} - set req)"
      using False dead(3) by (auto simp: image_iff)
    moreover have "replay_rows now (d # ds) s = replay_rows now ds ?s'"
      using write_rows_none [OF Cons.prems(1) none(1)] none(2) closed [of s] by (simp add: Let_def)
    ultimately show ?thesis using IH close_letters_twice dead(3) by auto
  next
    case True
    then obtain e where e: "e \<in> set (st_episodes s)" "ep_id e = dl_id d" "ep_status e \<noteq> Done"
      by (auto simp: live_target_def)
    have one: "?p x = (ep_id x = dl_id d)" if "x \<in> set (st_episodes s)" for x
      using ids_unique [OF Cons.prems(1) that e(1)] e by auto
    have "list_ex ?p (st_episodes s)" using e by (auto simp: list_ex_iff)
    note upd = write_rows_cong [of s ?p "\<lambda>x. ep_id x = dl_id d" "replay_row now", OF one]
    show ?thesis
    proof (cases "write_rows (\<lambda>x. ep_id x = dl_id d) (replay_row now) s")
      case None
      then have req: "requeue_guarded (?rest s) now (replay_extra now) s = (u, req)"
        using Cons.prems(4) True by (simp add: replay_row_unfold)
      from Cons.IH [OF Cons.prems(1) dead(4,5) this]
      have "replay_rows now (d # ds) s = (int (length req), u\<lparr>st_dead := close_letters
          (dl_id ` set ds - (dl_id ` {d \<in> set ds. live_target s d} - set req)) now (st_dead s)\<rparr>)"
        using upd None by (simp add: Let_def)
      moreover have "dl_id d \<notin> set req"
        using subseq_set_mono [OF replay_upd.requeue_subset [OF req]] dead(3) by auto
      then have "dl_id ` set (d # ds) - (dl_id ` {x \<in> set (d # ds). live_target s x} - set req) =
          dl_id ` set ds - (dl_id ` {d \<in> set ds. live_target s d} - set req)"
        using True dead(3) by (auto simp: image_iff)
      ultimately show ?thesis by simp
    next
      case (Some s')
      let ?s' = "s'\<lparr>st_dead := close_letters {dl_id d} now (st_dead s)\<rparr>"
      have s': "s' = set_rows (\<lambda>x. ep_id x = dl_id d) (replay_row now) s"
        using replay_upd.write_rows_Some [of _ now s s'] Some by (simp add: replay_row_unfold)
      have "store_ok s'"
        using replay_upd.write_rows_ok [OF Cons.prems(1), of _ now s'] Some by (simp add: replay_row_unfold)
      then have ok: "store_ok ?s'" using dead(1) by (simp add: store_ok_def)
      have live: "live_target ?s' x = live_target s x" if "x \<in> set ds" for x
      proof -
        have "dl_id x \<noteq> dl_id d" using dead(3) that by (metis image_eqI)
        then show ?thesis by (auto simp: live_target_def s' set_rows_sel replay_upd.same_id [unfolded replay_row_unfold])
      qed
      then have filters: "filter (live_target ?s') ds = filter (live_target s) ds"
        "{x \<in> set ds. live_target ?s' x} = {x \<in> set ds. live_target s x}" by (auto intro: filter_cong)
      obtain r where r: "requeue_guarded (?rest s) now (replay_extra now) s' = (u, r)" "req = dl_id d # r"
        using Cons.prems(4) True Some by (auto simp: replay_row_unfold split: prod.splits)
      then have "requeue_guarded (map dl_id (filter (live_target ?s') ds)) now (replay_extra now) ?s' =
          (u\<lparr>st_dead := close_letters {dl_id d} now (st_dead s)\<rparr>, r)"
        by (simp only: filters requeue_guarded_dead apfst_conv)
      from Cons.IH [OF ok dead(4) _ this] rest_closed
      have IH: "replay_rows now ds ?s' = (int (length r), u\<lparr>st_dead := close_letters
          (dl_id ` set ds - (dl_id ` {d \<in> set ds. live_target s d} - set r)) now
          (close_letters {dl_id d} now (st_dead s))\<rparr>)" by (simp add: filters)
      have "insert (dl_id d) (dl_id ` set ds - (dl_id ` {d \<in> set ds. live_target s d} - set r)) =
          dl_id ` set (d # ds) - (dl_id ` {x \<in> set (d # ds). live_target s x} - set req)"
        using dead(3) r(2) by (auto simp: image_iff)
      moreover have "replay_rows now (d # ds) s = apfst (\<lambda>n. n + 1) (replay_rows now ds ?s')"
        using upd Some \<open>list_ex ?p (st_episodes s)\<close> closed [of s'] by (simp add: Let_def s' set_rows_sel split: prod.splits)
      ultimately show ?thesis using IH close_letters_twice dead(3) r(2) by auto
    qed
  qed
qed

lemma replay_selection_facts:
  assumes "store_ok s"
  shows "set (replay_selection limit classes age p now s) \<subseteq> set (st_dead s)"
    "distinct (map dl_id (replay_selection limit classes age p now s))"
    "\<forall>d \<in> set (replay_selection limit classes age p now s). replayable classes age p now d"
    "0 \<le> limit \<Longrightarrow> int (length (replay_selection limit classes age p now s)) \<le> limit"
proof -
  let ?sel = "replay_selection limit classes age p now s"
  show sub: "set ?sel \<subseteq> set (st_dead s)"
    by (auto simp: replay_selection_def sql_limit_def dest: in_set_takeD)
  have "distinct (st_dead s)" "inj_on dl_id (set (st_dead s))"
    using assms by (simp_all add: store_ok_def distinct_map)
  then have "distinct ?sel" "inj_on dl_id (set ?sel)"
    using sub by (simp_all add: inj_on_subset replay_selection_def sql_limit_def)
  then show "distinct (map dl_id ?sel)" by (simp add: distinct_map)
  show "\<forall>d \<in> set ?sel. replayable classes age p now d"
    by (auto simp: replay_selection_def sql_limit_def split: if_splits dest: in_set_takeD)
  show "0 \<le> limit \<Longrightarrow> int (length ?sel) \<le> limit"
    by (simp add: replay_selection_def sql_limit_def)
qed

text \<open>The ids a batch replay requeues.\<close>

definition batch_requeued ::
  "int \<Rightarrow> string list option \<Rightarrow> int \<Rightarrow> retry_policy option \<Rightarrow> int \<Rightarrow> store \<Rightarrow> string list" where
  "batch_requeued limit classes age policy now s =
     snd (requeue_guarded
       (map dl_id (filter (live_target s) (replay_selection limit classes age (effective_policy policy) now s)))
       now (replay_extra now) s)"

lemma replay_dlq_batch_effect:
  assumes "store_ok s" and "replay_selection limit classes age (effective_policy policy) now s = sel"
    and "batch_requeued limit classes age policy now s = req"
  obtains u where "requeue_guarded (map dl_id (filter (live_target s) sel)) now (replay_extra now) s = (u, req)"
    and "replay_dlq_batch limit classes age policy now s = (int (length req), u\<lparr>st_dead := close_letters
      (dl_id ` set sel - (dl_id ` {d \<in> set sel. live_target s d} - set req)) now (st_dead s)\<rparr>)"
    and "distinct (map dl_id (filter (live_target s) sel))"
proof -
  obtain u where u: "requeue_guarded (map dl_id (filter (live_target s) sel)) now (replay_extra now) s = (u, req)"
    using assms(2,3) by (auto simp: batch_requeued_def prod_eq_iff)
  note facts = replay_selection_facts [OF assms(1), of limit classes age "effective_policy policy" now, unfolded assms(2)]
  show ?thesis
  proof (rule that [OF u])
    show "distinct (map dl_id (filter (live_target s) sel))" using facts(2) by (simp add: distinct_map_filter)
  qed (simp add: replay_dlq_batch_def assms(2) replay_as_requeue [OF assms(1) facts(2,1) u])
qed

lemma replay_batch_ok:
  assumes "store_ok s"
  shows "store_ok (snd (replay_dlq_batch limit classes age policy now s))"
proof -
  obtain u where u: "requeue_guarded (map dl_id (filter (live_target s)
      (replay_selection limit classes age (effective_policy policy) now s))) now (replay_extra now) s =
      (u, batch_requeued limit classes age policy now s)"
    and eq: "replay_dlq_batch limit classes age policy now s = (int (length (batch_requeued limit classes age policy now s)),
      u\<lparr>st_dead := close_letters (dl_id ` set (replay_selection limit classes age (effective_policy policy) now s) -
        (dl_id ` {d \<in> set (replay_selection limit classes age (effective_policy policy) now s). live_target s d} -
         set (batch_requeued limit classes age policy now s))) now (st_dead s)\<rparr>)"
    using replay_dlq_batch_effect [OF assms refl refl] .
  from replay_upd.requeue_ok [OF assms u] assms show ?thesis by (simp add: eq store_ok_def)
qed

text \<open>A batch replay requeues only episodes that are not done and whose open dead letter the policy
  admits, no more than the limit, each from zero attempts; every other row is untouched, a
  finished episode included.  Every selected dead letter is closed, except where the episode's
  content is in flight in another row.\<close>

theorem replay_batch_spares_done:
  assumes ok: "store_ok s" and sel: "replay_selection limit classes age (effective_policy policy) now s = sel"
    and req: "batch_requeued limit classes age policy now s = req"
    and run: "replay_dlq_batch limit classes age policy now s = (n, t)"
  shows "n = int (length req) \<and> (0 \<le> limit \<longrightarrow> n \<le> limit) \<and>
    (\<forall>i \<in> set req. \<exists>d \<in> set (st_dead s). dl_id d = i \<and> dl_recovered_at d = None \<and>
       policy_admits (effective_policy policy) (Some (dl_last_error d))) \<and>
    st_episodes t = map (\<lambda>e. if ep_id e \<in> set req then replay_row now e else e) (st_episodes s) \<and>
    (\<forall>e \<in> set (st_episodes s). ep_status e = Done \<longrightarrow> e \<in> set (st_episodes t)) \<and>
    (\<forall>d \<in> set (st_dead t). dl_id d \<in> dl_id ` set sel \<and> dl_recovered_at d = None \<longrightarrow>
       (\<exists>e \<in> set (st_episodes s). ep_id e = dl_id d \<and>
         (\<exists>e' \<in> set (st_episodes t). in_index e' \<and> ep_canonical e' = ep_canonical e)))"
proof -
  obtain u where u: "requeue_guarded (map dl_id (filter (live_target s) sel)) now (replay_extra now) s = (u, req)"
    and eq: "replay_dlq_batch limit classes age policy now s = (int (length req), u\<lparr>st_dead := close_letters
      (dl_id ` set sel - (dl_id ` {d \<in> set sel. live_target s d} - set req)) now (st_dead s)\<rparr>)"
    and dist: "distinct (map dl_id (filter (live_target s) sel))"
    using replay_dlq_batch_effect [OF ok sel req] .
  note facts = replay_selection_facts [OF ok, of limit classes age "effective_policy policy" now, unfolded sel]
  note sub = replay_upd.requeue_subset [OF u]
  have n: "n = int (length req)" and t: "st_episodes t = st_episodes u"
    and dead: "st_dead t = close_letters (dl_id ` set sel - (dl_id ` {d \<in> set sel. live_target s d} - set req)) now (st_dead s)"
    using run eq by auto
  have rows: "st_episodes t = map (\<lambda>e. if ep_id e \<in> set req then replay_row now e else e) (st_episodes s)"
    unfolding t replay_upd.requeue_rows [OF u dist] by (simp add: replay_row_unfold)
  have in_req: "\<exists>d \<in> set sel. dl_id d = i \<and> live_target s d" if "i \<in> set req" for i
    using subseq_set_mono [OF sub] that by auto
  have "length req \<le> length sel"
    using list_emb_length [OF sub] length_filter_le [of "live_target s" sel] by (simp del: length_filter_le)
  with facts(4) have limit: "0 \<le> limit \<longrightarrow> n \<le> limit" using n by auto
  have admitted: "\<exists>d \<in> set (st_dead s). dl_id d = i \<and> dl_recovered_at d = None \<and>
      policy_admits (effective_policy policy) (Some (dl_last_error d))" if "i \<in> set req" for i
    using in_req [OF that] facts(1,3) by (auto simp: replayable_def)
  have spared: "e \<in> set (st_episodes t)" if e: "e \<in> set (st_episodes s)" "ep_status e = Done" for e
  proof -
    have "ep_id e \<notin> set req"
    proof
      assume "ep_id e \<in> set req"
      then obtain x where "x \<in> set (st_episodes s)" "ep_id x = ep_id e" "ep_status x \<noteq> Done"
        using in_req by (fastforce simp: live_target_def)
      with ids_unique [OF ok] e show False by metis
    qed
    with e(1) show ?thesis unfolding rows set_map by (intro image_eqI [of _ _ e]) simp_all
  qed
  have skipped: "\<exists>e \<in> set (st_episodes s). ep_id e = dl_id d \<and>
      (\<exists>e' \<in> set (st_episodes t). in_index e' \<and> ep_canonical e' = ep_canonical e)"
    if d: "d \<in> set (st_dead t)" "dl_id d \<in> dl_id ` set sel" "dl_recovered_at d = None" for d
  proof -
    have "dl_id d \<in> dl_id ` {d \<in> set sel. live_target s d} - set req"
      using d unfolding dead by (auto simp: close_letters_def recover_dead_def split: if_splits)
    then obtain d' where d': "d' \<in> set sel" "live_target s d'" "dl_id d' = dl_id d" "dl_id d \<notin> set req" by auto
    then obtain e where e: "e \<in> set (st_episodes s)" "ep_id e = dl_id d" by (auto simp: live_target_def)
    have "find_episode (dl_id d) s = Some e" using find_episode_mem [OF _ e(1)] ok e(2) by (simp add: store_ok_def)
    moreover have "dl_id d \<in> set (map dl_id (filter (live_target s) sel))" using d' by (auto intro: image_eqI [of _ _ d'])
    ultimately show ?thesis using replay_upd.requeue_skipped [OF ok u dist _ d'(4)] e unfolding t by blast
  qed
  show ?thesis using n limit admitted rows spared skipped by blast
qed

text \<open>A dead-lettered episode whose row the nightly reap has put back and a worker has claimed: its
  letter is still open.\<close>

definition aborted_store :: store where
  "aborted_store = mark_aborted ''a'' ''Timeout'' 9 two_queued"

definition running_store :: store where
  "running_store =
     (case claim_next_batch None 30 (snd (reap_failed_or_aborted None None 20 aborted_store)) of
        Inr (_, s) \<Rightarrow> s | Inl _ \<Rightarrow> empty_store)"

lemma running_store_ok: "store_ok running_store"
proof -
  have "store_ok (snd (reap_failed_or_aborted None None 20 aborted_store))"
    by (simp add: aborted_store_def mark_aborted_ok two_queued_ok reap_ok)
  then show ?thesis
    using claim_next_batch_total claim_update_total claim_update_ok unfolding running_store_def by fastforce
qed

theorem replay_batch_spares_done_witness:
  "length (batch_requeued 100 None 0 None 40 aborted_store) = nat (fst (replay_dlq_batch 100 None 0 None 40 aborted_store)) \<and>
   fst (replay_dlq_batch 100 None 0 None 40 aborted_store) \<le> 100"
proof -
  have "store_ok aborted_store" by (simp add: aborted_store_def mark_aborted_ok two_queued_ok)
  from replay_batch_spares_done [OF this refl refl prod.collapse [symmetric], of 100 None 0 None 40] show ?thesis by simp
qed

text \<open>A batch replay also takes the episode of an open dead letter that is being processed (or was
  skipped as a duplicate for good): it puts the row back into the queue under the worker's
  feet.\<close>

theorem replay_requeues_running_episode:
  assumes ok: "store_ok s" and e: "e \<in> set (st_episodes s)" "ep_status e \<in> {Processing, SkippedDuplicate}"
      "ep_gate e \<noteq> Some Enforce"
    and d: "d \<in> set (replay_selection limit classes age (effective_policy policy) now s)" "dl_id d = ep_id e"
  shows "replay_row now e \<in> set (st_episodes (snd (replay_dlq_batch limit classes age policy now s)))"
proof -
  let ?sel = "replay_selection limit classes age (effective_policy policy) now s"
  let ?req = "batch_requeued limit classes age policy now s"
  obtain u where u: "requeue_guarded (map dl_id (filter (live_target s) ?sel)) now (replay_extra now) s = (u, ?req)"
    and eq: "replay_dlq_batch limit classes age policy now s = (int (length ?req), u\<lparr>st_dead := close_letters
      (dl_id ` set ?sel - (dl_id ` {d \<in> set ?sel. live_target s d} - set ?req)) now (st_dead s)\<rparr>)"
    and dist: "distinct (map dl_id (filter (live_target s) ?sel))"
    using replay_dlq_batch_effect [OF ok refl refl] .
  have "live_target s d" unfolding live_target_def using d(2) e(1,2) by (intro bexI [of _ e]) auto
  then have "ep_id e \<in> set (map dl_id (filter (live_target s) ?sel))"
    using d unfolding set_map by (intro image_eqI [of _ _ d]) simp_all
  then have "ep_id e \<in> set ?req"
    using replay_upd.requeue_outside_index [OF ok u dist _ find_episode_mem [OF _ e(1)]] ok e(3)
    by (simp add: store_ok_def)
  then have "replay_row now e \<in> set (st_episodes u)"
    unfolding replay_upd.requeue_rows [OF u dist] set_map
    by (intro image_eqI [of _ _ e]) (simp_all add: replay_row_unfold e(1))
  then show ?thesis by (simp add: eq)
qed

theorem replay_requeues_running_episode_witness:
  "\<exists>e \<in> set (st_episodes running_store). ep_id e = ''a'' \<and> ep_status e = Processing \<and>
     (\<exists>e' \<in> set (st_episodes (snd (replay_dlq_batch 100 None 0 None 40 running_store))).
        ep_id e' = ''a'' \<and> ep_status e' = Queued)"
proof -
  obtain e where e: "find_episode ''a'' running_store = Some e" "ep_status e = Processing" "ep_gate e = Some ModeOff"
  proof -
    have "map_option (\<lambda>e. (ep_status e, ep_gate e)) (find_episode ''a'' running_store) = Some (Processing, Some ModeOff)"
      by code_simp
    then show thesis using that by auto
  qed
  have "map dl_id (replay_selection 100 None 0 (effective_policy None) 40 running_store) = [''a'']" by code_simp
  then obtain d where d: "replay_selection 100 None 0 (effective_policy None) 40 running_store = [d]" "dl_id d = ''a''"
    by (auto simp: map_eq_Cons_conv)
  from find_episode_Some [OF e(1)] have mem: "e \<in> set (st_episodes running_store)" "ep_id e = ''a''" by simp_all
  have "replay_row 40 e \<in> set (st_episodes (snd (replay_dlq_batch 100 None 0 None 40 running_store)))"
    using replay_requeues_running_episode [OF running_store_ok mem(1), of d 100 None 0 None 40] by (simp add: e mem d)
  moreover have "ep_id (replay_row 40 e) = ''a'' \<and> ep_status (replay_row 40 e) = Queued"
    by (simp add: replay_row_def requeue_row_def replay_extra_def mem(2))
  ultimately show ?thesis using mem e(2) by blast
qed

lemma requeue_single:
  "requeue_guarded [i] now extra s =
    (case write_rows (\<lambda>e. ep_id e = i) (requeue_row now extra) s of None \<Rightarrow> (s, []) | Some t \<Rightarrow> (t, [i]))"
  by (simp split: option.splits)

lemma replay_episode_ok: "store_ok s \<Longrightarrow> store_ok (snd (replay_dlq_episode i policy now s))"
  by (auto simp: replay_dlq_episode_def requeue_single recover_dead_def replay_row_unfold
      intro!: set_dead_ok intro: replay_upd.write_rows_ok [unfolded replay_row_unfold] split: option.splits)

text \<open>A manual replay is all or nothing: refused, it changes nothing; accepted, the policy admits
  the letter's error, the episode's row (and only it) is queued again with no attempts, and the
  letter is closed with the attempts it had.\<close>

theorem manual_replay_outcome:
  assumes "store_ok s" and "replay_dlq_episode i policy now s = (accepted, t)"
  shows "if accepted
    then (\<exists>d \<in> set (st_dead s). dl_id d = i \<and> policy_admits (effective_policy policy) (Some (dl_last_error d))) \<and>
      st_episodes t = map (\<lambda>e. if ep_id e = i then replay_row now e else e) (st_episodes s) \<and>
      st_dead t = close_letters {i} now (st_dead s)
    else t = s"
proof (cases "find_dead i s")
  case None
  with assms(2) show ?thesis by (simp add: replay_dlq_episode_def)
next
  case (Some d)
  then have d: "d \<in> set (st_dead s)" "dl_id d = i" by (auto simp: find_dead_def find_Some_iff)
  have dist: "distinct (map dl_id (st_dead s))" using assms(1) by (simp add: store_ok_def)
  show ?thesis
  proof (cases accepted)
    case True
    with assms(2) Some obtain u where admits: "policy_admits (effective_policy policy) (Some (dl_last_error d))"
      and u: "write_rows (\<lambda>e. ep_id e = i) (replay_row now) s = Some u"
      and t: "t = set_dead (\<lambda>d'. dl_id d' = i) (recover_dead now (dl_attempts d)) u"
      by (auto simp: replay_dlq_episode_def requeue_single replay_row_unfold split: if_splits option.splits)
    have "u = set_rows (\<lambda>e. ep_id e = i) (replay_row now) s"
      using replay_upd.write_rows_Some [unfolded replay_row_unfold, OF u] .
    then have "st_dead u = st_dead s" "st_episodes u = map (\<lambda>e. if ep_id e = i then replay_row now e else e) (st_episodes s)"
      by (simp_all add: set_rows_sel)
    with close_one [OF dist d(1), of u now] t d admits True show ?thesis by auto
  next
    case False
    with assms(2) Some show ?thesis
      by (auto simp: replay_dlq_episode_def requeue_single split: if_splits option.splits)
  qed
qed

theorem manual_replay_outcome_witness:
  "st_dead (snd (replay_dlq_episode ''a'' None 40 aborted_store)) = close_letters {''a''} 40 (st_dead aborted_store)"
proof -
  have "fst (replay_dlq_episode ''a'' None 40 aborted_store)" by code_simp
  moreover have "store_ok aborted_store" by (simp add: aborted_store_def mark_aborted_ok two_queued_ok)
  ultimately show ?thesis using manual_replay_outcome [OF _ prod.collapse [symmetric], of aborted_store] by simp
qed

text \<open>A manual replay does not look at the episode: it puts a finished episode back into the queue
  to be ingested again, and it reports success for a letter whose episode does not exist.\<close>

theorem manual_replay_ignores_episode:
  assumes "store_ok s" "find_dead i s = Some d" "policy_admits (effective_policy policy) (Some (dl_last_error d))"
    and "case find_episode i s of None \<Rightarrow> True | Some e \<Rightarrow> ep_status e = Done \<and> ep_gate e \<noteq> Some Enforce"
  shows "\<exists>t. replay_dlq_episode i policy now s = (True, t) \<and>
    find_episode i t = map_option (replay_row now) (find_episode i s)"
proof -
  have out: "e \<in> set (st_episodes s) \<Longrightarrow> ep_id e = i \<Longrightarrow> in_index (replay_row now e) \<Longrightarrow> False" for e
    using assms(4) find_episode_mem [of s e] assms(1)
    by (auto simp: store_ok_def in_index_def replay_row_def requeue_row_def replay_extra_def)
  have w: "write_rows (\<lambda>e. ep_id e = i) (replay_row now) s = Some (set_rows (\<lambda>e. ep_id e = i) (replay_row now) s)"
    by (rule replay_upd.write_rows_leaving [unfolded replay_row_unfold, OF assms(1)]) (use out in blast)
  have "find_episode i (set_dead p g u) = find_episode i u" for p g u by (simp add: find_episode_def set_dead_sel)
  moreover have "map_option (\<lambda>e. if ep_id e = i then replay_row now e else e) (find_episode i s) =
      map_option (replay_row now) (find_episode i s)"
    using find_episode_Some [of i s] by (cases "find_episode i s") auto
  ultimately show ?thesis
    using assms(2,3) w
    by (simp add: replay_dlq_episode_def requeue_single replay_row_unfold
        replay_upd.find_episode_set_rows [unfolded replay_row_unfold])
qed

definition orphan_letter :: store where
  "orphan_letter = replace_dead (dead_row ''gone'' BadJson ''Timeout'' 3 9) two_queued"

theorem manual_replay_ignores_episode_witness:
  "fst (replay_dlq_episode ''gone'' None 40 orphan_letter) \<and> find_episode ''gone'' orphan_letter = None"
proof -
  have "store_ok orphan_letter" by (simp add: orphan_letter_def replace_dead_ok two_queued_ok)
  moreover have "find_dead ''gone'' orphan_letter = Some (dead_row ''gone'' BadJson ''Timeout'' 3 9) \<and>
      policy_admits (effective_policy None) (Some ''Timeout'') \<and> find_episode ''gone'' orphan_letter = None" by code_simp
  ultimately show ?thesis
    using manual_replay_ignores_episode [of orphan_letter "''gone''" _ None 40] by (auto simp: dead_row_def)
qed

end
