(* ===== verification/QueueReads.thy ===== *)
theory QueueReads
  imports QueueRequeue "HOL-Library.AList"
begin

text \<open>
  The reads of \<open>pipeline/queue.py\<close> (statistics, dead letters, single records) and the two
  tables of the dream cycle, which only the queue object writes.
\<close>

subsection \<open>The audit trail of dream runs and the undo log\<close>

definition record_dream_run :: "dream_run \<Rightarrow> store \<Rightarrow> store" where
  "record_dream_run r s = s\<lparr>st_runs := filter (\<lambda>r'. dr_run_id r' \<noteq> dr_run_id r) (st_runs s) @ [r]\<rparr>"

text \<open>The optional arguments of \<open>update_dream_run\<close>; a column whose argument is \<open>None\<close> is not written.\<close>

record run_update =
  ru_completed_at :: "int option"
  ru_status :: "string option"
  ru_evaluated :: "int option"
  ru_phase1 :: "string option"
  ru_phase2 :: "string option"
  ru_phase3 :: "string option"
  ru_phase4 :: "string option"
  ru_error :: "string option"

definition written :: "'a option \<Rightarrow> 'a \<Rightarrow> 'a" where
  "written new old = (case new of Some x \<Rightarrow> x | None \<Rightarrow> old)"

definition updated_run :: "run_update \<Rightarrow> dream_run \<Rightarrow> dream_run" where
  "updated_run u r =
     r\<lparr>dr_completed_at := (if ru_completed_at u = None then dr_completed_at r else ru_completed_at u),
       dr_status := written (ru_status u) (dr_status r),
       dr_evaluated := written (ru_evaluated u) (dr_evaluated r),
       dr_phase1 := written (ru_phase1 u) (dr_phase1 r),
       dr_phase2 := written (ru_phase2 u) (dr_phase2 r),
       dr_phase3 := written (ru_phase3 u) (dr_phase3 r),
       dr_phase4 := written (ru_phase4 u) (dr_phase4 r),
       dr_error := (if ru_error u = None then dr_error r else ru_error u)\<rparr>"

definition update_dream_run :: "string \<Rightarrow> run_update \<Rightarrow> store \<Rightarrow> store" where
  "update_dream_run i u s = s\<lparr>st_runs := map (\<lambda>r. if dr_run_id r = i then updated_run u r else r) (st_runs s)\<rparr>"

definition get_dream_runs :: "int \<Rightarrow> store \<Rightarrow> dream_run list" where
  "get_dream_runs limit s = sql_limit limit (sort_key (\<lambda>r. - dr_started_at r) (st_runs s))"

record undo_entry =
  ue_victim :: string
  ue_survivor :: string
  ue_snapshot :: string
  ue_mentions :: string
  ue_created_at :: "int option"

definition undo_row_of :: "string \<Rightarrow> int \<Rightarrow> undo_entry \<Rightarrow> undo_row" where
  "undo_row_of run now r =
     \<lparr>un_run_id = run, un_victim = ue_victim r, un_survivor = ue_survivor r, un_snapshot = ue_snapshot r,
      un_mentions = ue_mentions r, un_created_at = written (ue_created_at r) now\<rparr>"

definition record_episodic_undo :: "string \<Rightarrow> undo_entry list \<Rightarrow> int \<Rightarrow> store \<Rightarrow> int \<times> store" where
  "record_episodic_undo run rows now s =
     (int (length rows), s\<lparr>st_undo := st_undo s @ map (undo_row_of run now) rows\<rparr>)"

definition record_episodic_undo_sync :: "string \<Rightarrow> undo_entry list \<Rightarrow> int \<Rightarrow> store \<Rightarrow> int \<times> store" where
  "record_episodic_undo_sync run rows now s =
     (if rows = [] then (0, s) else record_episodic_undo run rows now s)"

subsection \<open>Single records\<close>

definition get_record :: "string \<Rightarrow> store \<Rightarrow> episode_record option" where
  "get_record i s = map_option (\<lambda>e.
     \<lparr>er_id = ep_id e, er_payload = loaded_payload (PyDict []) e, er_status = ep_status e,
      er_enqueued_at = ep_enqueued_at e, er_started_at = ep_started_at e, er_finished_at = ep_finished_at e,
      er_attempts = ep_attempts e, er_streak = ep_streak e, er_last_error = ep_last_error e,
      er_checkpoint = ep_checkpoint e, er_created_at = Some (ep_created_at e),
      er_updated_at = Some (ep_updated_at e)\<rparr>) (find_episode i s)"

definition dlq_refusal_reason :: "string \<Rightarrow> retry_policy option \<Rightarrow> store \<Rightarrow> (string \<times> string) option" where
  "dlq_refusal_reason i policy s =
     (case find_dead i s of None \<Rightarrow> None
      | Some d \<Rightarrow> refusal_of (effective_policy policy) (dl_last_error d))"

subsection \<open>Statistics\<close>

definition count_rows :: "('a \<Rightarrow> bool) \<Rightarrow> 'a list \<Rightarrow> int" where
  "count_rows p xs = int (length (filter p xs))"

definition all_statuses :: "ep_status list" where
  "all_statuses = [Aborted, Done, Failed, Processing, Queued, SkippedDuplicate]"

text \<open>\<open>get_stats\<close>: the statuses that occur, each with its count, and the open dead letters.\<close>

definition get_stats :: "store \<Rightarrow> (ep_status \<times> int) list \<times> int" where
  "get_stats s =
     (map (\<lambda>st. (st, count_rows (\<lambda>e. ep_status e = st) (st_episodes s)))
        (filter (\<lambda>st. 0 < count_rows (\<lambda>e. ep_status e = st) (st_episodes s)) all_statuses),
      count_rows (\<lambda>d. dl_recovered_at d = None) (st_dead s))"

definition count_total :: "store \<Rightarrow> int" where
  "count_total s = int (length (st_episodes s))"

record fairness =
  fa_eligible :: int
  fa_exhausted :: int
  fa_repeated :: int
  fa_rate :: rat
  fa_oldest :: "int option"
  fa_newest :: "int option"

text \<open>\<open>repeat_rate\<close> before it is rounded to four digits.\<close>

definition reap_fairness_stats :: "int \<Rightarrow> store \<Rightarrow> fairness" where
  "reap_fairness_stats max_attempts s =
     (let pool = filter (\<lambda>e. ep_status e \<in> {Failed, Aborted}) (st_episodes s);
          eligible = int (length pool);
          repeated = count_rows (\<lambda>e. ep_last_replay_at e \<noteq> None) pool;
          times = map ep_enqueued_at pool
      in \<lparr>fa_eligible = eligible,
          fa_exhausted = count_rows (\<lambda>e. max_attempts \<le> ep_attempts e) pool,
          fa_repeated = repeated,
          fa_rate = (if eligible = 0 then 0 else of_int repeated / of_int eligible),
          fa_oldest = (if times = [] then None else Some (Min (set times))),
          fa_newest = (if times = [] then None else Some (Max (set times)))\<rparr>)"

record dedup_stats =
  ds_mode :: dedup_mode
  ds_observed_hits :: int
  ds_hashed_rows :: int
  ds_canonical_rows :: int
  ds_active_duplicates :: int
  ds_backstop_skips :: int

text \<open>\<open>GROUP BY payload_hash HAVING COUNT(*) > 1\<close> over the hashed active rows.\<close>

definition active_duplicates :: "store \<Rightarrow> int" where
  "active_duplicates s =
     (let hashes = map ep_payload_hash (filter (\<lambda>e. ep_payload_hash e \<noteq> None \<and> ep_status e \<in> {Queued, Processing}) (st_episodes s))
      in count_rows (\<lambda>h. 1 < length (filter (\<lambda>h'. h' = h) hashes)) (remdups hashes))"

definition get_dedup_stats :: "string option \<Rightarrow> queue \<Rightarrow> dedup_stats \<times> queue" where
  "get_dedup_stats configured q =
     (let s = q_store q; (mode, cache) = resolve_dedup_mode None configured (q_mode_cache q)
      in (\<lparr>ds_mode = mode,
           ds_observed_hits = int (length (st_events s)),
           ds_hashed_rows = count_rows (\<lambda>e. ep_payload_hash e \<noteq> None) (st_episodes s),
           ds_canonical_rows = count_rows (\<lambda>e. ep_canonical e \<noteq> None) (st_episodes s),
           ds_active_duplicates = active_duplicates s,
           ds_backstop_skips = count_rows (\<lambda>e. ep_status e = backstop_skipped_status) (st_episodes s)\<rparr>,
          q\<lparr>q_mode_cache := cache\<rparr>))"

subsection \<open>Dead letters\<close>

definition dlq_class_predicate :: "string list \<Rightarrow> dead_letter \<Rightarrow> bool" where
  "dlq_class_predicate classes d \<longleftrightarrow> list_ex (instr_ci (dl_last_error d)) classes"

definition classes_given :: "string list option \<Rightarrow> string list" where
  "classes_given classes = (case classes of None \<Rightarrow> [] | Some cs \<Rightarrow> cs)"

definition dlq_filter :: "string list option \<Rightarrow> bool option \<Rightarrow> dead_letter \<Rightarrow> bool" where
  "dlq_filter classes open_only d \<longleftrightarrow>
     (case open_only of None \<Rightarrow> True | Some b \<Rightarrow> b = (dl_recovered_at d = None)) \<and>
     (classes_given classes = [] \<or> dlq_class_predicate (classes_given classes) d)"

text \<open>\<open>ellipsis\<close> is the three bytes of the character appended to a cut text.\<close>

definition ellipsis :: string where
  "ellipsis = [char_of (226 :: nat), char_of (128 :: nat), char_of (166 :: nat)]"

definition cut_error :: "int option \<Rightarrow> string \<Rightarrow> string" where
  "cut_error error_chars err =
     (case error_chars of
        Some n \<Rightarrow> if 0 < n \<and> n < int (length err) then take (nat n) err @ ellipsis else err
      | None \<Rightarrow> err)"

definition get_dlq_records ::
  "int \<Rightarrow> string list option \<Rightarrow> int option \<Rightarrow> bool option \<Rightarrow> store \<Rightarrow> dead_letter list" where
  "get_dlq_records limit classes error_chars open_only s =
     map (\<lambda>d. d\<lparr>dl_last_error := cut_error error_chars (dl_last_error d)\<rparr>)
       (sql_limit limit (sort_key (\<lambda>d. - dl_failed_at d) (filter (dlq_filter classes open_only) (st_dead s))))"

definition class_count :: "store \<Rightarrow> string \<Rightarrow> int" where
  "class_count s c = count_rows (\<lambda>d. dl_recovered_at d = None \<and> instr_ci (dl_last_error d) c) (st_dead s)"

definition dlq_class_counts :: "string list option \<Rightarrow> store \<Rightarrow> (string \<times> int) list" where
  "dlq_class_counts classes s = fold (\<lambda>c counts. AList.update c (class_count s c) counts) (classes_given classes) []"

definition dlq_class_union_count :: "string list option \<Rightarrow> store \<Rightarrow> int" where
  "dlq_class_union_count classes s =
     (if classes_given classes = [] then 0
      else count_rows (\<lambda>d. dl_recovered_at d = None \<and> dlq_class_predicate (classes_given classes) d) (st_dead s))"

subsection \<open>Lemmas\<close>

lemma count_rows_mono: "(\<And>x. x \<in> set xs \<Longrightarrow> p x \<Longrightarrow> q x) \<Longrightarrow> count_rows p xs \<le> count_rows q xs"
  unfolding count_rows_def by (induction xs) force+

lemma count_rows_nonneg [simp]: "0 \<le> count_rows p xs"
  by (simp add: count_rows_def)

lemma count_rows_disj: "count_rows (\<lambda>x. p x \<or> q x) xs \<le> count_rows p xs + count_rows q xs"
  unfolding count_rows_def by (induction xs) auto

lemma fold_update_get:
  "map_of (fold (\<lambda>c m. AList.update c (f c) m) cs m) k = (if k \<in> set cs then Some (f k) else map_of m k)"
  by (induction cs arbitrary: m) (auto simp: update_conv')

lemma class_counts_get:
  "map_of (dlq_class_counts classes s) c = (if c \<in> set (classes_given classes) then Some (class_count s c) else None)"
  by (simp add: dlq_class_counts_def fold_update_get)

lemma status_total:
  "(\<Sum>st \<leftarrow> all_statuses. count_rows (\<lambda>e. ep_status e = st) es) = int (length es)"
proof (induction es)
  case (Cons e es)
  then show ?case by (cases "ep_status e") (simp_all add: all_statuses_def count_rows_def)
qed (simp add: all_statuses_def count_rows_def)

lemma sum_list_positive:
  "(\<Sum>x \<leftarrow> filter (\<lambda>x. 0 < f x) xs. f x) = (\<Sum>x \<leftarrow> xs. (f x :: int))" if "\<And>x. 0 \<le> f x"
proof (induction xs)
  case (Cons x xs)
  with that [of x] show ?case by (cases "f x = 0") auto
qed simp

text \<open>The status counts add up to the number of rows; adding the dead letters would overstate it.\<close>

lemma stats_add_up: "(\<Sum>(st, n) \<leftarrow> fst (get_stats s). n) = count_total s"
proof -
  have "(\<Sum>(st, n) \<leftarrow> fst (get_stats s). n) =
      (\<Sum>st \<leftarrow> filter (\<lambda>st. 0 < count_rows (\<lambda>e. ep_status e = st) (st_episodes s)) all_statuses.
         count_rows (\<lambda>e. ep_status e = st) (st_episodes s))"
    by (simp add: get_stats_def comp_def)
  also have "... = int (length (st_episodes s))"
    by (subst sum_list_positive) (simp_all add: status_total)
  finally show ?thesis by (simp add: count_total_def)
qed

text \<open>The population that the fairness report calls eligible includes the rows at the attempt ceiling,
  which the reaper never draws.\<close>

lemma eligible_counts_exhausted:
  "fa_exhausted (reap_fairness_stats m s) \<le> fa_eligible (reap_fairness_stats m s) \<and>
   fa_eligible (reap_fairness_stats m s) =
     count_rows (\<lambda>e. ep_status e \<in> {Failed, Aborted}) (st_episodes s)"
  using length_filter_le [of "\<lambda>e. m \<le> ep_attempts e" "filter (\<lambda>e. ep_status e \<in> {Failed, Aborted}) (st_episodes s)"]
  by (simp add: reap_fairness_stats_def Let_def count_rows_def del: length_filter_le)

lemma updated_run_keeps:
  "ru_status u = None \<Longrightarrow> dr_status (updated_run u r) = dr_status r"
  "dr_run_id (updated_run u r) = dr_run_id r" "dr_started_at (updated_run u r) = dr_started_at r"
  by (simp_all add: updated_run_def written_def)

lemma dlq_filter_open:
  "dlq_filter (Some (c # cs)) (Some True) = (\<lambda>d. dl_recovered_at d = None \<and> dlq_class_predicate (c # cs) d)"
  by (auto simp: dlq_filter_def classes_given_def fun_eq_iff)

subsection \<open>Properties\<close>

text \<open>The three views of the open dead letters agree: the union count and each per-class count are the
  numbers of records the listing returns for the same classes, a class asked for always has a
  count, the union never exceeds the open total of the statistics, nor the sum of the counts.\<close>

theorem dlq_views_agree:
  assumes "cs \<noteq> []"
  shows "dlq_class_union_count (Some cs) s = int (length (get_dlq_records (- 1) (Some cs) n (Some True) s)) \<and>
    (\<forall>c \<in> set cs. map_of (dlq_class_counts (Some cs) s) c =
       Some (int (length (get_dlq_records (- 1) (Some [c]) n (Some True) s)))) \<and>
    dlq_class_union_count (Some cs) s \<le> snd (get_stats s) \<and>
    dlq_class_union_count (Some cs) s \<le> (\<Sum>c \<leftarrow> cs. class_count s c)"
proof (intro conjI ballI)
  show "dlq_class_union_count (Some cs) s = int (length (get_dlq_records (- 1) (Some cs) n (Some True) s))"
    using assms by (cases cs) (simp_all add: dlq_class_union_count_def get_dlq_records_def sql_limit_def count_rows_def
        dlq_filter_open classes_given_def)
  show "map_of (dlq_class_counts (Some cs) s) c =
      Some (int (length (get_dlq_records (- 1) (Some [c]) n (Some True) s)))" if "c \<in> set cs" for c
    using that by (simp add: class_counts_get class_count_def get_dlq_records_def sql_limit_def count_rows_def
        dlq_filter_open classes_given_def dlq_class_predicate_def)
  show "dlq_class_union_count (Some cs) s \<le> snd (get_stats s)"
    using assms by (auto simp: dlq_class_union_count_def get_stats_def classes_given_def intro: count_rows_mono)
  have "count_rows (\<lambda>d. dl_recovered_at d = None \<and> dlq_class_predicate cs d) (st_dead s) \<le>
      (\<Sum>c \<leftarrow> cs. class_count s c)"
  proof (induction cs)
    case (Cons c cs)
    have "count_rows (\<lambda>d. dl_recovered_at d = None \<and> dlq_class_predicate (c # cs) d) (st_dead s) =
        count_rows (\<lambda>d. (dl_recovered_at d = None \<and> instr_ci (dl_last_error d) c) \<or>
          (dl_recovered_at d = None \<and> dlq_class_predicate cs d)) (st_dead s)"
      by (rule arg_cong [of _ _ "\<lambda>p. count_rows p (st_dead s)"]) (auto simp: dlq_class_predicate_def)
    also have "... \<le> class_count s c + count_rows (\<lambda>d. dl_recovered_at d = None \<and> dlq_class_predicate cs d) (st_dead s)"
      unfolding class_count_def by (rule count_rows_disj)
    finally show ?case using Cons.IH by simp
  qed (simp add: dlq_class_predicate_def count_rows_def)
  then show "dlq_class_union_count (Some cs) s \<le> (\<Sum>c \<leftarrow> cs. class_count s c)"
    using assms by (simp add: dlq_class_union_count_def classes_given_def)
qed

theorem dlq_views_agree_witness:
  "dlq_class_union_count (Some [''time'', ''out'']) orphan_letter \<le> snd (get_stats orphan_letter)"
  using dlq_views_agree [of "[''time'', ''out'']" orphan_letter] by simp

end
