(* ===== verification/PyNumber.thy ===== *)
theory PyNumber
  imports PyValue
begin

text \<open>
  \<open>float(v)\<close> with the exceptions it raises.  A finite float is the rational its text denotes; rounding to 53 bits is
  not modelled, the overflow of large integers is.
\<close>

definition parse_sign :: "string \<Rightarrow> rat \<times> string" where
  "parse_sign s =
     (case s of c # cs \<Rightarrow> if c = CHR ''-'' then (- 1, cs) else if c = CHR ''+'' then (1, cs) else (1, s) | [] \<Rightarrow> (1, []))"

definition digit_count :: "string \<Rightarrow> nat" where
  "digit_count s = length (filter (\<lambda>c. c \<noteq> CHR ''_'') s)"

text \<open>\<open>D\<close>, \<open>D.\<close>, \<open>D.D\<close> or \<open>.D\<close>.\<close>

definition parse_mantissa :: "string \<Rightarrow> rat option" where
  "parse_mantissa s =
     (let a = takeWhile (\<lambda>c. c \<noteq> CHR ''.'') s; rest = dropWhile (\<lambda>c. c \<noteq> CHR ''.'') s; b = drop 1 rest;
          whole = (if a = [] then Some 0 else parse_digits 0 False a);
          part = (if b = [] then Some 0 else parse_digits 0 False b)
      in if a = [] \<and> b = [] then None
         else case (whole, part) of
             (Some m, Some f) \<Rightarrow> Some (of_int m + of_int f / 10 ^ digit_count b)
           | _ \<Rightarrow> None)"

definition parse_exponent :: "string \<Rightarrow> rat option" where
  "parse_exponent s =
     (case parse_sign s of (sign, ds) \<Rightarrow>
        (case parse_digits 0 False ds of
           None \<Rightarrow> None
         | Some e \<Rightarrow> Some (if sign = 1 then 10 ^ nat e else 1 / 10 ^ nat e)))"

definition parse_finite :: "string \<Rightarrow> rat option" where
  "parse_finite s =
     (let m = takeWhile (\<lambda>c. c \<notin> {CHR ''e'', CHR ''E''}) s; rest = dropWhile (\<lambda>c. c \<notin> {CHR ''e'', CHR ''E''}) s in
      case (parse_mantissa m, if rest = [] then Some 1 else parse_exponent (tl rest)) of
        (Some x, Some y) \<Rightarrow> Some (x * y)
      | _ \<Rightarrow> None)"

definition parse_float :: "string \<Rightarrow> pyfloat option" where
  "parse_float t =
     (case parse_sign (py_strip t) of (sign, s) \<Rightarrow>
        if py_lower s \<in> {''inf'', ''infinity''} then Some (if sign = 1 then FInf else FNegInf)
        else if py_lower s = ''nan'' then Some FNaN
        else map_option (\<lambda>r. FFin (sign * r)) (parse_finite s))"

text \<open>The least integer that is too large for a double, after rounding.\<close>

definition float_limit :: int where
  "float_limit = 2 ^ 1024 - 2 ^ 970"

fun py_float :: "pyval \<Rightarrow> py_exception + pyfloat" where
  "py_float (PyBool b) = Inr (FFin (if b then 1 else 0))"
| "py_float (PyInt i) = (if float_limit \<le> \<bar>i\<bar> then Inl OverflowError else Inr (FFin (of_int i)))"
| "py_float (PyFloat f) = Inr f"
| "py_float (PyStr s) = (case parse_float s of Some f \<Rightarrow> Inr f | None \<Rightarrow> Inl ValueError)"
| "py_float _ = Inl TypeError"

lemma parse_float_examples:
  "parse_float '' 0.8 '' = Some (FFin (4 / 5))" "parse_float ''-1_0.e-1'' = Some (FFin (- 1))" "parse_float ''.5'' = Some (FFin (1 / 2))"
  "parse_float ''1e2'' = Some (FFin 100)" "parse_float ''-Infinity'' = Some FNegInf" "parse_float ''nan'' = Some FNaN"
  "parse_float ''.'' = None" "parse_float ''1e'' = None" "parse_float ''1__0'' = None" "parse_float ''--1'' = None" "parse_float '''' = None"
  by code_simp+

text \<open>A decimal number as text.\<close>

fun decimal :: "nat \<Rightarrow> string" where
  "decimal n = (if n < 10 then [char_of (48 + n)] else decimal (n div 10) @ [char_of (48 + n mod 10)])"

declare decimal.simps [simp del]

definition show_int :: "int \<Rightarrow> string" where
  "show_int i = (if i < 0 then CHR ''-'' # decimal (nat (- i)) else decimal (nat i))"

end
