(* ===== verification/QueueAdapter.thy ===== *)
theory QueueAdapter
  imports QueueReads PyNumber
begin

text \<open>
  \<open>daemon/episode_queue_adapter.py\<close>: the second writer of the episode table, behind the daemon's HTTP endpoint.  A call is a
  duplicate lookup, ledger rows and an INSERT, each a transaction of its own, so other processes can act between them.
\<close>

subsection \<open>Lock policy and dedup mode\<close>

datatype lock_mode = McpOnly | DaemonOnly | DualWithLock

record adapter =
  ad_lock :: lock_mode
  ad_instance :: string
  ad_dedup_mode :: "string option"

definition new_adapter :: "lock_mode \<Rightarrow> string \<Rightarrow> nat \<Rightarrow> string option \<Rightarrow> string option \<Rightarrow> adapter" where
  "new_adapter lock prefix_tag pid instance_id dedup_mode =
     \<lparr>ad_lock = lock,
      ad_instance = (case instance_id of Some (c # cs) \<Rightarrow> c # cs | _ \<Rightarrow> prefix_tag @ '':'' @ decimal pid),
      ad_dedup_mode = dedup_mode\<rparr>"

definition adapter_mode ::
  "adapter \<Rightarrow> string option \<Rightarrow> string option \<Rightarrow> dedup_mode option \<Rightarrow> dedup_mode \<times> dedup_mode option" where
  "adapter_mode ad override configured cache =
     (case override of
        Some m \<Rightarrow> resolve_dedup_mode (Some m) configured cache
      | None \<Rightarrow> resolve_dedup_mode (ad_dedup_mode ad) configured cache)"

subsection \<open>Schema migration\<close>

record table_schema =
  sc_columns :: "string list"
  sc_indexes :: "string list"

definition add_column :: "string \<Rightarrow> table_schema \<Rightarrow> table_schema" where
  "add_column c s = (if c \<in> set (sc_columns s) then s else s\<lparr>sc_columns := sc_columns s @ [c]\<rparr>)"

definition create_index :: "string \<Rightarrow> table_schema \<Rightarrow> table_schema" where
  "create_index i s = (if i \<in> set (sc_indexes s) then s else s\<lparr>sc_indexes := sc_indexes s @ [i]\<rparr>)"

definition migrate_sync :: "table_schema \<Rightarrow> table_schema" where
  "migrate_sync s =
     fold create_index [''idx_episodes_payload_hash'', ''idx_episodes_claimed_by'', ''idx_episodes_canonical_hash'', ''idx_episodes_status_claimed'']
       (fold add_column [''payload_hash'', ''claimed_by'', ''canonical_hash'', ''dedup_gate''] s)"

subsection \<open>Enqueueing\<close>

text \<open>The digest, the fresh uuid, the clock at the ledger and at the row, the process id, the configured mode, and whether the ledger
  can be written (a failure is logged and ignored).\<close>

record daemon_env =
  de_sha :: "string \<Rightarrow> string"
  de_fresh :: string
  de_event_at :: int
  de_now :: int
  de_pid :: nat
  de_configured :: "string option"
  de_ledger_up :: bool

datatype guarded_result =
    Accepted string "string option"
  | DuplicateError string
  | LockModeError
  | GuardedRaised py_exception

definition guarded_hash :: "daemon_env \<Rightarrow> enqueue_args \<Rightarrow> string" where
  "guarded_hash env a = canonical_payload_hash (de_sha env) (ea_content a) (ea_group a) (ea_source a)"

definition guarded_row :: "daemon_env \<Rightarrow> adapter \<Rightarrow> enqueue_args \<Rightarrow> dedup_mode \<Rightarrow> episode" where
  "guarded_row env ad a mode =
     (let h = guarded_hash env a; i = de_fresh env in
      (queued_row i (enqueue_payload i a) (de_now env) (if mode = ModeOff then None else Some h) mode (Some h) [])
        \<lparr>ep_claimed_by := Some (ad_instance ad)\<rparr>)"

definition guarded_insert :: "daemon_env \<Rightarrow> adapter \<Rightarrow> enqueue_args \<Rightarrow> dedup_mode \<Rightarrow> store \<Rightarrow> guarded_result \<times> store" where
  "guarded_insert env ad a mode s =
     (case insert_episode (guarded_row env ad a mode) s of
        Some s' \<Rightarrow> (Accepted (de_fresh env) (Some (ad_instance ad)), s')
      | None \<Rightarrow>
          (case find_active_duplicate s (guarded_hash env a) of
             Some (c # cs) \<Rightarrow> (DuplicateError (c # cs), s)
           | _ \<Rightarrow> (GuardedRaised IntegrityError, s)))"

definition guarded_ledger :: "daemon_env \<Rightarrow> enqueue_args \<Rightarrow> dedup_mode \<Rightarrow> ledger_action \<Rightarrow> string \<Rightarrow> store \<Rightarrow> store" where
  "guarded_ledger env a mode action existing s =
     (if de_ledger_up env then
        record_dedup_event (GateMode mode) action (Some (guarded_hash env a)) (Some existing) None
          (Some (''daemon:'' @ decimal (de_pid env))) (de_event_at env) s
      else s)"

text \<open>What follows the lookup, whose answer is \<open>existing\<close>.\<close>

definition guarded_commit ::
  "daemon_env \<Rightarrow> adapter \<Rightarrow> enqueue_args \<Rightarrow> dedup_mode \<Rightarrow> string option \<Rightarrow> store \<Rightarrow> guarded_result \<times> store" where
  "guarded_commit env ad a mode existing s =
     (case existing of
        None \<Rightarrow> guarded_insert env ad a mode s
      | Some x \<Rightarrow>
          if mode = Enforce then (DuplicateError x, guarded_ledger env a mode Rejected x s)
          else guarded_insert env ad a mode (guarded_ledger env a mode Detected x s))"

definition enqueue_guarded :: "daemon_env \<Rightarrow> adapter \<Rightarrow> enqueue_args \<Rightarrow> queue \<Rightarrow> guarded_result \<times> queue" where
  "enqueue_guarded env ad a q =
     (if ad_lock ad = McpOnly then (LockModeError, q)
      else let (mode, cache) = adapter_mode ad (ea_mode a) (de_configured env) (q_mode_cache q);
          existing = (if mode = ModeOff then None else find_active_duplicate (q_store q) (guarded_hash env a));
          (r, s) = guarded_commit env ad a mode existing (q_store q)
        in (r, q\<lparr>q_store := s, q_mode_cache := cache\<rparr>))"

definition stamped_row :: "string option \<Rightarrow> int \<Rightarrow> episode \<Rightarrow> episode" where
  "stamped_row tag now e = e\<lparr>ep_claimed_by := tag, ep_updated_at := now\<rparr>"

definition stamp_claimed_by :: "string \<Rightarrow> string option \<Rightarrow> int \<Rightarrow> store \<Rightarrow> store" where
  "stamp_claimed_by i tag now s = set_rows (\<lambda>e. ep_id e = i) (stamped_row tag now) s"

subsection \<open>Statistics\<close>

record adapter_stats =
  as_by_status :: "(ep_status \<times> int) list"
  as_dlq_open :: int
  as_claimed_active :: int
  as_failed :: bool

text \<open>\<open>readable\<close>: no query raised.\<close>

definition queue_stats :: "bool \<Rightarrow> store \<Rightarrow> adapter_stats" where
  "queue_stats readable s =
     (if readable then
        \<lparr>as_by_status =
           map (\<lambda>st. (st, count_rows (\<lambda>e. ep_status e = st) (st_episodes s)))
             (filter (\<lambda>st. 0 < count_rows (\<lambda>e. ep_status e = st) (st_episodes s)) all_statuses),
         as_dlq_open = count_rows (\<lambda>d. dl_recovered_at d = None) (st_dead s),
         as_claimed_active = count_rows (\<lambda>e. ep_claimed_by e \<noteq> None \<and> ep_status e \<in> {Queued, Processing}) (st_episodes s),
         as_failed = False\<rparr>
      else \<lparr>as_by_status = [], as_dlq_open = 0, as_claimed_active = 0, as_failed = True\<rparr>)"

subsection \<open>The daemon keeps the invariant of the table\<close>

lemma fold_add_column:
  "set (sc_columns (fold add_column cs t)) = set (sc_columns t) \<union> set cs" "sc_indexes (fold add_column cs t) = sc_indexes t"
  "set cs \<subseteq> set (sc_columns t) \<Longrightarrow> fold add_column cs t = t"
  by (induction cs arbitrary: t) (auto simp: add_column_def)

lemma fold_create_index:
  "set (sc_indexes (fold create_index xs t)) = set (sc_indexes t) \<union> set xs" "sc_columns (fold create_index xs t) = sc_columns t"
  "set xs \<subseteq> set (sc_indexes t) \<Longrightarrow> fold create_index xs t = t"
  by (induction xs arbitrary: t) (auto simp: create_index_def)

lemma migrate_idempotent: "migrate_sync (migrate_sync s) = migrate_sync s"
proof -
  let ?cs = "[''payload_hash'', ''claimed_by'', ''canonical_hash'', ''dedup_gate'']"
  let ?xs = "[''idx_episodes_payload_hash'', ''idx_episodes_claimed_by'', ''idx_episodes_canonical_hash'', ''idx_episodes_status_claimed'']"
  have m: "migrate_sync t = fold create_index ?xs (fold add_column ?cs t)" for t by (simp only: migrate_sync_def)
  have "set ?cs \<subseteq> set (sc_columns (migrate_sync s))" "set ?xs \<subseteq> set (sc_indexes (migrate_sync s))"
    unfolding m fold_create_index(1,2) fold_add_column(1,2) by blast+
  then show ?thesis unfolding m [of "migrate_sync s"] by (simp only: fold_add_column(3) fold_create_index(3))
qed

lemma stats_agree:
  "as_by_status (queue_stats True s) = fst (get_stats s)" "as_dlq_open (queue_stats True s) = snd (get_stats s)"
  by (simp_all add: queue_stats_def get_stats_def)

lemma guarded_insert_ok: "store_ok s \<Longrightarrow> store_ok (snd (guarded_insert env ad a mode s))"
  by (auto simp: guarded_insert_def intro: insert_episode_ok split: option.splits list.splits)

lemma guarded_ledger_sel [store_simps]:
  "st_episodes (guarded_ledger env a m x i s) = st_episodes s" "st_dead (guarded_ledger env a m x i s) = st_dead s"
  "st_unique (guarded_ledger env a m x i s) = st_unique s"
  by (simp_all add: guarded_ledger_def store_simps)

lemma guarded_ledger_ok: "store_ok s \<Longrightarrow> store_ok (guarded_ledger env a m x i s)"
  by (simp add: guarded_ledger_def record_dedup_event_ok)

lemma stamped_row_index [simp]: "in_index (stamped_row tag now e) = in_index e"
  by (simp add: in_index_def stamped_row_def)

interpretation stamp_upd: leaving_update "stamped_row tag now" for tag now
  by unfold_locales (simp_all, simp_all add: stamped_row_def)

lemma stamp_claimed_by_ok: "store_ok s \<Longrightarrow> store_ok (stamp_claimed_by i tag now s)"
  by (simp add: stamp_claimed_by_def stamp_upd.set_rows_ok)

lemma guarded_insert_rows:
  "st_episodes (snd (guarded_insert env ad a mode s)) =
     (if fst (guarded_insert env ad a mode s) = Accepted (de_fresh env) (Some (ad_instance ad))
      then st_episodes s @ [guarded_row env ad a mode] else st_episodes s)"
  "st_unique (snd (guarded_insert env ad a mode s)) = st_unique s"
  by (auto simp: guarded_insert_def insert_episode_def split: option.splits list.splits)

lemma guarded_commit_ok: "store_ok s \<Longrightarrow> store_ok (snd (guarded_commit env ad a mode existing s))"
  by (auto simp: guarded_commit_def guarded_insert_ok guarded_ledger_ok split: option.splits)

subsection \<open>Two writers, one policy\<close>

definition adapter_verdict :: "adapter \<Rightarrow> enqueue_result \<Rightarrow> guarded_result" where
  "adapter_verdict ad r =
     (case r of
        Enqueued i \<Rightarrow> Accepted i (Some (ad_instance ad))
      | DuplicateEpisode (Some i) h \<Rightarrow> DuplicateError i
      | DuplicateEpisode None h \<Rightarrow> GuardedRaised IntegrityError
      | EnqueueRaised x \<Rightarrow> GuardedRaised x)"

definition unowned :: "episode \<Rightarrow> episode" where
  "unowned e = e\<lparr>ep_claimed_by := None\<rparr>"

lemma enqueue_guarded_unfold:
  "enqueue_guarded env ad a q =
    (if ad_lock ad = McpOnly then (LockModeError, q)
     else let mc = adapter_mode ad (ea_mode a) (de_configured env) (q_mode_cache q);
              rs = guarded_commit env ad a (fst mc)
                (if fst mc = ModeOff then None else find_active_duplicate (q_store q) (guarded_hash env a)) (q_store q)
          in (fst rs, q\<lparr>q_store := snd rs, q_mode_cache := snd mc\<rparr>))"
  by (simp add: enqueue_guarded_def Let_def split_beta)

lemma enqueue_guarded_ok: "store_ok (q_store q) \<Longrightarrow> store_ok (q_store (snd (enqueue_guarded env ad a q)))"
  by (simp add: enqueue_guarded_unfold Let_def guarded_commit_ok)

lemma writers_agree:
  assumes "ad_lock ad \<noteq> McpOnly" "store_ok (q_store q)"
    and "de_fresh denv = chosen_id env a" "chosen_id env a \<notin> ep_id ` set (st_episodes (q_store q))"
    and "guarded_hash denv a = args_hash env a" "args_hash env a \<noteq> []" "de_now denv = en_now env"
    and "fst (adapter_mode ad (ea_mode a) (de_configured denv) (q_mode_cache q)) = enqueue_mode env a q"
  shows "fst (enqueue_guarded denv ad a q) = adapter_verdict ad (fst (enqueue env a q)) \<and>
    map unowned (st_episodes (q_store (snd (enqueue_guarded denv ad a q)))) =
      map unowned (st_episodes (q_store (snd (enqueue env a q))))"
proof -
  define m i h s where "m = enqueue_mode env a q" and "i = chosen_id env a" and "h = args_hash env a" and "s = q_store q"
  note names = m_def [symmetric] i_def [symmetric] h_def [symmetric] s_def [symmetric]
  let ?leg = "if m = ModeOff then None else Some h"
  let ?mcp = "queued_row i (enqueue_payload i a) (en_now env) ?leg m (Some h) (en_writer env)"
  let ?own = "guarded_row denv ad a m"
  let ?found = "if m = ModeOff then None else find_active_duplicate s h"
  have same: "unowned ?mcp = unowned ?own" "ep_id ?own = i"
    by (simp_all add: unowned_def guarded_row_def queued_row_def Let_def assms(3,5,7) names)
  have ins: "insert_sync i (enqueue_payload i a) (en_now env) ?leg m (Some h) (en_writer env) u =
        Inserted (u\<lparr>st_episodes := st_episodes s @ [?mcp]\<rparr>) \<and>
      guarded_insert denv ad a m u = (Accepted i (Some (ad_instance ad)), u\<lparr>st_episodes := st_episodes s @ [?own]\<rparr>)"
    if "store_ok u" "st_episodes u = st_episodes s" "m = Enforce \<Longrightarrow> find_active_duplicate u h = None" for u
  proof -
    have "in_index r \<Longrightarrow> r \<in> {?mcp, ?own} \<Longrightarrow> ep_canonical r = Some h \<and> find_active_duplicate u h = None" for r
      using that(3) by (auto simp: in_index_def queued_row_def guarded_row_def Let_def assms(5) names)
    then have "insert_episode r u = Some (u\<lparr>st_episodes := st_episodes u @ [r]\<rparr>)" if "r \<in> {?mcp, ?own}" for r
      using insert_unheld [of u r h] \<open>store_ok u\<close> \<open>st_episodes u = st_episodes s\<close> that assms(4,6) same(2)
      by (auto simp: names queued_row_def)
    then show ?thesis using that(2) by (simp add: insert_sync_def guarded_insert_def assms(3) names)
  qed
  have ok: "store_ok (guarded_ledger denv a m x y s)" for x y using assms(2) by (simp add: names guarded_ledger_ok)
  have found: "find_active_duplicate s h = Some x \<Longrightarrow> m = Enforce \<Longrightarrow> ?thesis" for x
    using assms(1,5,8)
    by (simp add: enqueue_guarded_unfold enqueue_unfold enqueue_mode_def [symmetric] guarded_commit_def enqueue_commit_def
        Let_def adapter_verdict_def store_simps names)
  have stored: "?thesis" if "m = Enforce \<Longrightarrow> find_active_duplicate s h = None"
  proof -
    note ins_s = ins [of s, OF _ refl that] and ins_l = ins [of "guarded_ledger denv a m x y s" for x y, OF ok]
    show ?thesis
      using assms(1,2,5,8) ins_s ins_l that same(1)
      by (cases m; cases "find_active_duplicate s h")
        (simp_all add: enqueue_guarded_unfold enqueue_unfold enqueue_mode_def [symmetric] guarded_commit_def
          enqueue_commit_def Let_def adapter_verdict_def store_simps names)
  qed
  show ?thesis using found stored by (cases "find_active_duplicate s h") blast+
qed

lemma adapter_mode_plain:
  "ad_dedup_mode ad = None \<Longrightarrow>
    fst (adapter_mode ad (ea_mode a) (en_configured env) (q_mode_cache q)) = enqueue_mode env a q"
  by (simp add: adapter_mode_def enqueue_mode_def split: option.splits)

text \<open>Only the mode that the call and the adapter give together matters.\<close>

lemma mode_from_call_or_adapter:
  assumes "(case d of Some m \<Rightarrow> Some m | None \<Rightarrow> ad_dedup_mode ad) = ea_mode a"
  shows "enqueue_guarded denv ad (a\<lparr>ea_mode := d\<rparr>) q = enqueue_guarded denv (ad\<lparr>ad_dedup_mode := None\<rparr>) a q"
proof -
  have "adapter_mode ad d configured cache = adapter_mode (ad\<lparr>ad_dedup_mode := None\<rparr>) (ea_mode a) configured cache" for configured cache
    using assms by (cases d; cases "ea_mode a") (auto simp: adapter_mode_def)
  moreover have "guarded_commit denv ad (a\<lparr>ea_mode := d\<rparr>) = guarded_commit denv (ad\<lparr>ad_dedup_mode := None\<rparr>) a"
  proof -
    have h: "guarded_hash denv (a\<lparr>ea_mode := d\<rparr>) = guarded_hash denv a" by (simp add: guarded_hash_def)
    have r: "guarded_row denv ad (a\<lparr>ea_mode := d\<rparr>) = guarded_row denv (ad\<lparr>ad_dedup_mode := None\<rparr>) a"
      by (intro ext) (simp add: guarded_row_def h enqueue_payload_def)
    have i: "guarded_insert denv ad (a\<lparr>ea_mode := d\<rparr>) = guarded_insert denv (ad\<lparr>ad_dedup_mode := None\<rparr>) a"
      by (intro ext) (simp add: guarded_insert_def h r cong: option.case_cong)
    have l: "guarded_ledger denv (a\<lparr>ea_mode := d\<rparr>) = guarded_ledger denv a"
      by (intro ext) (simp add: guarded_ledger_def h)
    show ?thesis by (intro ext) (simp add: guarded_commit_def i l split: option.split)
  qed
  moreover have "guarded_hash denv (a\<lparr>ea_mode := d\<rparr>) = guarded_hash denv a" by (simp add: guarded_hash_def)
  ultimately show ?thesis by (simp add: enqueue_guarded_unfold Let_def)
qed

text \<open>C26: The daemon and the MCP writer apply one policy.  Under the lock mode \<open>mcp_only\<close> the daemon refuses every submission and
  leaves its queue as it is.  Under the other lock modes take the same submission against the same table, with the same digest
  (never empty), clock, configured mode and mode cache, a fresh id that is free, and a dedup mode that the daemon's call or else its
  adapter gives as the MCP call does.  Then the daemon accepts exactly what \<open>enqueue\<close> accepts, reports the same holder of a
  duplicate, and leaves the same rows up to their owner tag.\<close>

theorem daemon_and_mcp_agree:
  assumes "store_ok (q_store q)" "de_fresh denv = chosen_id env a" "chosen_id env a \<notin> ep_id ` set (st_episodes (q_store q))"
    and "de_sha denv = en_sha env" "\<And>t. en_sha env t \<noteq> []" "de_now denv = en_now env" 
    and "de_configured denv = en_configured env" "(case d of Some m \<Rightarrow> Some m | None \<Rightarrow> ad_dedup_mode ad) = ea_mode a"
  shows "if ad_lock ad = McpOnly then enqueue_guarded denv ad (a\<lparr>ea_mode := d\<rparr>) q = (LockModeError, q)
    else fst (enqueue_guarded denv ad (a\<lparr>ea_mode := d\<rparr>) q) = adapter_verdict ad (fst (enqueue env a q)) \<and>
      map unowned (st_episodes (q_store (snd (enqueue_guarded denv ad (a\<lparr>ea_mode := d\<rparr>) q)))) =
        map unowned (st_episodes (q_store (snd (enqueue env a q))))"
proof (cases "ad_lock ad = McpOnly")
  case True
  then show ?thesis by (simp add: enqueue_guarded_def)
next
  case False
  let ?ad = "ad\<lparr>ad_dedup_mode := None\<rparr>"
  have "guarded_hash denv a = args_hash env a" "args_hash env a \<noteq> []"
    using assms(4,5) by (simp_all add: guarded_hash_def args_hash_def canonical_payload_hash_def)
  moreover have "fst (adapter_mode ?ad (ea_mode a) (de_configured denv) (q_mode_cache q)) = enqueue_mode env a q"
    using adapter_mode_plain [of ?ad a env q] by (simp add: assms(7))
  moreover have "adapter_verdict ?ad x = adapter_verdict ad x" for x
    by (cases x) (simp_all add: adapter_verdict_def)
  ultimately show ?thesis
    using writers_agree [of ?ad q denv env a] False assms(1-3,6) by (simp add: mode_from_call_or_adapter [OF assms(8)])
qed

text \<open>The daemon's call of the witnesses: the arguments of the MCP witnesses.\<close>

definition sample_denv :: "string \<Rightarrow> daemon_env" where
  "sample_denv i = \<lparr>de_sha = rev, de_fresh = i, de_event_at = 7, de_now = 7, de_pid = 9, de_configured = None, de_ledger_up = True\<rparr>"

definition sample_adapter :: adapter where
  "sample_adapter = new_adapter DualWithLock ''daemon'' 9 None None"

theorem daemon_and_mcp_agree_witness:
  "fst (enqueue_guarded ((sample_denv ''b'')\<lparr>de_sha := Cons CHR ''#''\<rparr>) (sample_adapter\<lparr>ad_dedup_mode := Some ''enforce''\<rparr>)
      ((sample_args ''enforce'' None)\<lparr>ea_mode := None\<rparr>) fresh_queue) =
    Accepted ''b'' (Some (ad_instance sample_adapter))"
proof -
  let ?a = "sample_args ''enforce'' None" and ?env = "(sample_env ''b'')\<lparr>en_sha := Cons CHR ''#''\<rparr>"
  let ?denv = "(sample_denv ''b'')\<lparr>de_sha := Cons CHR ''#''\<rparr>" and ?ad = "sample_adapter\<lparr>ad_dedup_mode := Some ''enforce''\<rparr>"
  have h: "store_ok (q_store fresh_queue) \<and> de_fresh ?denv = chosen_id ?env ?a \<and>
      chosen_id ?env ?a \<notin> ep_id ` set (st_episodes (q_store fresh_queue)) \<and> de_now ?denv = en_now ?env \<and>
      de_configured ?denv = en_configured ?env \<and> ad_lock ?ad \<noteq> McpOnly \<and> ea_mode ?a = Some ''enforce'' \<and>
      adapter_verdict ?ad (fst (enqueue ?env ?a fresh_queue)) = Accepted ''b'' (Some (ad_instance sample_adapter))"
    by code_simp
  with daemon_and_mcp_agree [of fresh_queue ?denv ?env ?a ?ad None] show ?thesis by simp
qed

text \<open>When the daemon's lookup ran before an MCP writer stored the same content, the index turns the daemon's insert into a
  report of that writer's episode.  The table is left as it was, the ledger included.\<close>

theorem daemon_loses_race_to_mcp:
  assumes "st_unique (q_store q)" "args_hash env a = h" "guarded_hash denv a' = h" "h \<noteq> []" "i \<noteq> []"
    and "find_active_duplicate (q_store q) h = None"
    and "enqueue_commit env a Enforce None q = (Enqueued i, q1)"
  shows "guarded_commit denv ad a' Enforce None (q_store q1) = (DuplicateError i, q_store q1)"
proof -
  have i: "i = chosen_id env a" and ins: "insert_sync i (enqueue_payload i a) (en_now env) (Some h) Enforce
      (Some h) (en_writer env) (q_store q) = Inserted (q_store q1)"
    using assms(7) by (auto simp: enqueue_commit_def Let_def assms(2) split: insert_result.splits)
  define r where "r = queued_row i (enqueue_payload i a) (en_now env) (Some h) Enforce (Some h) (en_writer env)"
  have rows: "st_episodes (q_store q1) = st_episodes (q_store q) @ [r]" "st_unique (q_store q1)"
    using insert_sync_Inserted [OF ins] assms(1) by (simp_all add: r_def)
  have r: "holds_hash h r" "is_active r" "in_index r" "ep_canonical r = Some h" "ep_id r = i"
    by (simp_all add: holds_hash_def is_active_def active_statuses_def queued_row_def in_index_def r_def)
  let ?own = "guarded_row denv ad a' Enforce"
  have "in_index ?own" "ep_canonical ?own = Some h"
    by (simp_all add: guarded_row_def Let_def queued_row_def in_index_def assms(3))
  then have "\<not> index_distinct (st_episodes (q_store q1) @ [?own])"
    using r(3,4) unfolding index_distinct_snoc rows(1) by auto
  then have "insert_episode ?own (q_store q1) = None" using rows(2) by (simp add: insert_episode_def)
  moreover have "find_active_duplicate (q_store q1) h = Some i"
    using appended_holder_found [OF assms(4,6) rows(1) r(1,2)] r(5) by simp
  ultimately show ?thesis using assms(3,5) by (cases i) (simp_all add: guarded_commit_def guarded_insert_def)
qed

theorem daemon_loses_race_to_mcp_witness:
  "guarded_commit (sample_denv ''c'') sample_adapter (sample_args ''enforce'' None) Enforce None
      (q_store (snd (enqueue_commit (sample_env ''b'') (sample_args ''enforce'' None) Enforce None fresh_queue))) =
    (DuplicateError ''b'', q_store (snd (enqueue_commit (sample_env ''b'') (sample_args ''enforce'' None) Enforce None fresh_queue)))"
proof -
  let ?a = "sample_args ''enforce'' None"
  let ?q1 = "snd (enqueue_commit (sample_env ''b'') ?a Enforce None fresh_queue)"
  have h: "st_unique (q_store fresh_queue) \<and> args_hash (sample_env ''b'') ?a = ''s|g|ih'' \<and>
      guarded_hash (sample_denv ''c'') ?a = ''s|g|ih'' \<and> find_active_duplicate (q_store fresh_queue) ''s|g|ih'' = None \<and>
      fst (enqueue_commit (sample_env ''b'') ?a Enforce None fresh_queue) = Enqueued ''b''" by code_simp
  then have "enqueue_commit (sample_env ''b'') ?a Enforce None fresh_queue = (Enqueued ''b'', ?q1)"
    by (simp add: prod_eq_iff)
  from daemon_loses_race_to_mcp [OF _ _ _ _ _ _ this] h show ?thesis by simp
qed

end
