(* ===== verification/QueueRuns.thy ===== *)
theory QueueRuns
  imports QueueAdapter
begin

text \<open>
  Every history of the episode database: any number of processes performing the writes of
  \<open>pipeline/queue.py\<close> and of the daemon's \<open>daemon/episode_queue_adapter.py\<close> in any order, each with arguments and lookup results that may be stale
  (an enqueue whose duplicate lookup, or a claim whose SELECT, ran against an earlier
  state), and processes opening the database again.
\<close>

subsection \<open>Steps\<close>

inductive store_step :: "store \<Rightarrow> store \<Rightarrow> bool" where
  Enqueue: "store_step (q_store q) (q_store (snd (enqueue_commit env a mode duplicate_of q)))"
| Claim: "claim_update ids now s = Some t \<Longrightarrow> store_step s t"
| MarkDone: "store_step s (mark_done i now s)"
| MarkFailed: "store_step s (mark_failed i err now s)"
| MarkAborted: "store_step s (mark_aborted i err now s)"
| Checkpoint: "store_step s (update_checkpoint i cp now s)"
| Skip: "store_step s (mark_skipped_duplicate i existing h writer now s)"
| ReapStuck: "store_step s (snd (reap_stuck_processing rd timeout_sec m now s))"
| ReapFailed: "store_step s (snd (reap_failed_or_aborted limit policy now s))"
| ReplayOne: "store_step s (snd (replay_dlq_episode i policy now s))"
| ReplayBatch: "store_step s (snd (replay_dlq_batch limit classes age policy now s))"
| RecordRun: "store_step s (record_dream_run r s)"
| UpdateRun: "store_step s (update_dream_run i u s)"
| RecordUndo: "store_step s (snd (record_episodic_undo run rows now s))"
| Reopen: "init_db sha s = Inr t \<Longrightarrow> store_step s t"
| DaemonInsert: "store_step s (snd (guarded_insert env ad a mode s))"
| DaemonLedger: "store_step s (guarded_ledger env a mode action x s)"
| Stamp: "store_step s (stamp_claimed_by i tag now s)"

inductive reachable :: "store \<Rightarrow> bool" where
  Start: "init_db sha empty_store = Inr s \<Longrightarrow> reachable s"
| Step: "reachable s \<Longrightarrow> store_step s t \<Longrightarrow> reachable t"

inductive later :: "store \<Rightarrow> store \<Rightarrow> bool" where
  Now: "later s s"
| Next: "later s t \<Longrightarrow> store_step t u \<Longrightarrow> later s u"

inductive_cases store_stepE: "store_step s t"

subsection \<open>The invariant\<close>

lemma backfill_row_keeps:
  "backfill_row sha e = Inr e' \<Longrightarrow> ep_id e' = ep_id e \<and> ep_status e' = ep_status e \<and> ep_payload e' = ep_payload e \<and>
    ep_created_at e' = ep_created_at e \<and> ep_payload_hash e' = ep_payload_hash e \<and> ep_gate e' = ep_gate e \<and>
    (ep_canonical e = None \<or> e' = e)"
  by (auto simp: backfill_row_def split: if_splits payload_text.splits pyval.splits option.splits)

lemma backfill_rows_all2:
  "backfill_rows sha es = Inr es' \<Longrightarrow> list_all2 (\<lambda>e e'. backfill_row sha e = Inr e') es es'"
  by (induction es arbitrary: es') (auto split: sum.splits)

lemma backfill_rows_ids: "backfill_rows sha es = Inr es' \<Longrightarrow> map ep_id es' = map ep_id es"
  by (induction es arbitrary: es') (auto split: sum.splits dest: backfill_row_keeps)

lemma init_db_rows:
  assumes "init_db sha s = Inr t"
  shows "backfill_rows sha (st_episodes s) = Inr (st_episodes t)" "st_dead t = st_dead s"
    "st_unique s \<longrightarrow> st_unique t" "st_unique t \<longrightarrow> index_distinct (st_episodes t)"
proof -
  obtain u where u: "backfill_canonical_hash sha s = Inr u" "t = ensure_unique_index u"
    using assms by (cases "backfill_canonical_hash sha s") (auto simp: init_db_def)
  then obtain es where es: "backfill_rows sha (st_episodes s) = Inr es" "u = s\<lparr>st_episodes := es\<rparr>"
    "st_unique s \<longrightarrow> index_distinct es"
    by (auto simp: backfill_canonical_hash_def split: sum.splits if_splits)
  show "backfill_rows sha (st_episodes s) = Inr (st_episodes t)" "st_dead t = st_dead s"
    "st_unique s \<longrightarrow> st_unique t" "st_unique t \<longrightarrow> index_distinct (st_episodes t)"
    using es u(2) by (auto simp: ensure_unique_index_def)
qed

lemma init_db_ok: "store_ok s \<Longrightarrow> init_db sha s = Inr t \<Longrightarrow> store_ok t"
  using init_db_rows [of sha s t] by (auto simp: store_ok_def dest: backfill_rows_ids)

lemma store_step_ok: "store_step s t \<Longrightarrow> store_ok s \<Longrightarrow> store_ok t"
proof (induction rule: store_step.induct)
  case (Claim ids now s t)
  then show ?case using claim_update_ok by blast
next
  case (Reopen sha s t)
  then show ?case using init_db_ok by blast
next
  case (RecordRun s r)
  then show ?case by (simp add: store_ok_def record_dream_run_def)
next
  case (UpdateRun s i u)
  then show ?case by (simp add: store_ok_def update_dream_run_def)
next
  case (RecordUndo s run rows now)
  then show ?case by (simp add: store_ok_def record_episodic_undo_def)
qed (simp_all add: enqueue_commit_ok mark_done_ok mark_failed_ok mark_aborted_ok
    update_checkpoint_ok mark_skipped_ok reap_stuck_ok reap_ok replay_episode_ok replay_batch_ok
    guarded_insert_ok guarded_ledger_ok stamp_claimed_by_ok)

lemma reachable_ok: "reachable s \<Longrightarrow> store_ok s"
  by (induction rule: reachable.induct) (auto intro: init_db_ok [OF empty_store_ok] store_step_ok)

subsection \<open>Rows are for ever\<close>

text \<open>What no write changes about a row: its id, its payload, when it was created, its legacy hash, the
  gate that wrote it, and its content address once it has one.\<close>

definition row_extends :: "episode \<Rightarrow> episode \<Rightarrow> bool" where
  "row_extends e e' \<longleftrightarrow> ep_id e' = ep_id e \<and> ep_payload e' = ep_payload e \<and> ep_created_at e' = ep_created_at e \<and>
     ep_payload_hash e' = ep_payload_hash e \<and> ep_gate e' = ep_gate e \<and>
     (ep_canonical e = None \<or> ep_canonical e' = ep_canonical e)"

definition extends :: "store \<Rightarrow> store \<Rightarrow> bool" where
  "extends s t \<longleftrightarrow> (\<exists>us vs. st_episodes t = us @ vs \<and> list_all2 row_extends (st_episodes s) us) \<and>
     (st_unique s \<longrightarrow> st_unique t)"

lemma row_extends_refl [simp]: "row_extends e e"
  by (simp add: row_extends_def)

lemma row_extends_trans: "row_extends e f \<Longrightarrow> row_extends f g \<Longrightarrow> row_extends e g"
  by (auto simp: row_extends_def)

lemma extends_rows:
  "list_all2 row_extends (st_episodes s) (st_episodes t) \<Longrightarrow> (st_unique s \<Longrightarrow> st_unique t) \<Longrightarrow> extends s t"
  unfolding extends_def by (intro conjI exI [of _ "st_episodes t"] exI [of _ "[]"]) simp_all

lemma extends_same [simp]: "st_episodes t = st_episodes s \<Longrightarrow> st_unique t = st_unique s \<Longrightarrow> extends s t"
  by (rule extends_rows) (simp_all add: list.rel_refl)

lemma extends_append: "st_episodes t = st_episodes s @ vs \<Longrightarrow> st_unique t = st_unique s \<Longrightarrow> extends s t"
  unfolding extends_def by (intro conjI exI [of _ "st_episodes s"] exI [of _ vs]) (simp_all add: list.rel_refl)

lemma extends_trans:
  assumes "extends s t" "extends t u"
  shows "extends s u"
proof -
  obtain us vs where t: "st_episodes t = us @ vs" "list_all2 row_extends (st_episodes s) us"
    using assms(1) by (auto simp: extends_def)
  obtain us' vs' where u: "st_episodes u = us' @ vs'" "list_all2 row_extends (us @ vs) us'"
    using assms(2) t(1) by (auto simp: extends_def)
  then obtain a b where ab: "us' = a @ b" "list_all2 row_extends us a" by (auto simp: list_all2_append1)
  have "list_all2 row_extends (st_episodes s) a"
    by (rule list_all2_trans [OF _ t(2) ab(2)]) (rule row_extends_trans)
  with u(1) ab(1) assms show ?thesis unfolding extends_def by (intro conjI exI [of _ a] exI [of _ "b @ vs'"]) simp_all
qed

lemma extends_dead [simp]: "extends s (t\<lparr>st_dead := D\<rparr>) = extends s t"
  by (simp add: extends_def)

lemma extends_set_dead [simp]: "extends s (set_dead p g t) = extends s t"
  by (simp add: extends_def set_dead_sel)

lemma extends_replace_dead [simp]: "extends s (replace_dead d t) = extends s t"
  by (simp add: extends_def replace_dead_sel)

lemma extends_event [simp]: "extends s (record_dedup_event m a h x d w n t) = extends s t"
  by (simp add: extends_def record_dedup_event_sel)

context row_update
begin

lemma set_rows_extends [simp]: "extends s (set_rows p f s)"
  by (rule extends_rows)
    (auto simp: set_rows_sel list_all2_map2 row_extends_def same_id same_payload same_created same_hash
      same_canonical same_gate intro!: list.rel_refl_strong)

lemma write_rows_extends: "write_rows p f s = Some t \<Longrightarrow> extends s t"
  using write_rows_Some [of p s t] by simp

end

context requeue_update
begin

lemma requeue_extends: "requeue_guarded ids now extra s = (t, req) \<Longrightarrow> extends s t"
proof (induction ids arbitrary: s req)
  case (Cons i ids)
  then show ?case
    by (auto split: option.splits prod.splits dest: write_rows_extends intro: extends_trans)
qed simp

end

lemma reap_stuck_row_extends: "extends s (reap_stuck_row now m r s)"
  by (auto simp: reap_stuck_row_def Let_def dest: unstick_upd.write_rows_extends split: option.splits)

lemma fold_extends: "(\<And>r s. extends s (f r s)) \<Longrightarrow> extends s (fold f rs s)"
  by (induction rs arbitrary: s) (auto intro: extends_trans)

lemma replay_rows_extends: "extends s (snd (replay_rows now ds s))"
proof (induction ds arbitrary: s)
  case (Cons d ds)
  let ?w = "write_rows (\<lambda>e. ep_id e = dl_id d \<and> ep_status e \<noteq> Done) (replay_row now) s"
  show ?case
  proof (cases ?w)
    case None
    with Cons show ?thesis by simp
  next
    case (Some s')
    let ?s' = "set_dead (\<lambda>d'. dl_id d' = dl_id d) (recover_dead now (dl_attempts d)) s'"
    have "extends s ?s'" using replay_upd.write_rows_extends [unfolded replay_row_unfold, OF Some] by simp
    then have "extends s (snd (replay_rows now ds ?s'))" using Cons extends_trans by blast
    with Some show ?thesis by (cases "replay_rows now ds ?s'") (simp add: Let_def)
  qed
qed simp

lemma enqueue_commit_extends: "extends (q_store q) (q_store (snd (enqueue_commit env a mode d q)))"
  by (auto simp: enqueue_commit_def Let_def record_hit_def dest!: insert_sync_Inserted
      intro: extends_append split: insert_result.splits)

lemma init_db_extends:
  assumes "init_db sha s = Inr t"
  shows "extends s t"
proof (rule extends_rows)
  have "list_all2 (\<lambda>e e'. backfill_row sha e = Inr e') (st_episodes s) (st_episodes t)"
    using backfill_rows_all2 init_db_rows(1) [OF assms] by blast
  then show "list_all2 row_extends (st_episodes s) (st_episodes t)"
    by (rule list_all2_mono) (auto simp: row_extends_def dest: backfill_row_keeps)
qed (use init_db_rows(3) [OF assms] in simp)

lemma store_step_extends: "store_step s t \<Longrightarrow> extends s t"
proof (induction rule: store_step.induct)
  case (Enqueue q env a mode d)
  show ?case by (rule enqueue_commit_extends)
next
  case (Claim ids now s t)
  then show ?case unfolding claim_update_def by (rule claim_upd.write_rows_extends)
next
  case (MarkDone s i now)
  show ?case by (simp add: mark_done_def Let_def split: option.splits)
next
  case (MarkFailed s i err now)
  show ?case by (simp add: mark_failed_def)
next
  case (MarkAborted s i err now)
  show ?case by (simp add: mark_aborted_def Let_def)
next
  case (Checkpoint s i cp now)
  show ?case by (simp add: update_checkpoint_def)
next
  case (Skip s i existing h writer now)
  show ?case by (simp add: mark_skipped_duplicate_def Let_def)
next
  case (ReapStuck s rd timeout_sec m now)
  show ?case by (simp add: reap_stuck_processing_def Let_def fold_extends reap_stuck_row_extends)
next
  case (ReapFailed s limit policy now)
  show ?case by (auto simp: reap_unfold Let_def intro: reap_upd.requeue_extends split: prod.splits)
next
  case (ReplayOne s i policy now)
  show ?case
    by (auto simp: replay_dlq_episode_def requeue_single dest: replay_upd.write_rows_extends split: option.splits)
next
  case (ReplayBatch s limit classes age policy now)
  show ?case by (simp add: replay_dlq_batch_def replay_rows_extends)
next
  case (Reopen sha s t)
  then show ?case by (rule init_db_extends)
next
  case (DaemonInsert s env ad a mode)
  show ?case
    using guarded_insert_rows [of env ad a mode s]
    by (cases "fst (guarded_insert env ad a mode s) = Accepted (de_fresh env) (Some (ad_instance ad))")
      (auto intro: extends_append)
next
  case (DaemonLedger s env a mode action x)
  show ?case by (simp add: guarded_ledger_sel)
next
  case (Stamp s i tag now)
  show ?case by (simp add: stamp_claimed_by_def)
qed (simp_all add: record_dream_run_def update_dream_run_def record_episodic_undo_def)

lemma later_extends: "later s t \<Longrightarrow> extends s t"
  by (induction rule: later.induct) (auto intro: extends_trans store_step_extends)

lemma reachable_unique: "reachable s \<Longrightarrow> st_unique s"
proof (induction rule: reachable.induct)
  case (Start sha s)
  then show ?case by (auto simp: init_db_def backfill_canonical_hash_def empty_store_def ensure_unique_index_def)
next
  case (Step s t)
  then show ?case using store_step_extends by (auto simp: extends_def)
qed

subsection \<open>Properties\<close>

lemma distinct_map_one: "distinct (map f xs) \<Longrightarrow> length (filter (\<lambda>x. f x = y) xs) \<le> 1"
proof (induction xs)
  case (Cons x xs)
  have "filter (\<lambda>x. f x = y) xs = []" if "f x = y"
    using Cons.prems that by (auto simp: filter_empty_conv image_iff)
  with Cons show ?case by auto
qed simp

definition active_enforced :: "string \<Rightarrow> store \<Rightarrow> episode list" where
  "active_enforced h s =
     filter (\<lambda>e. ep_canonical e = Some h \<and> ep_gate e = Some Enforce \<and> ep_status e \<in> {Queued, Processing}) (st_episodes s)"

lemma active_enforced_one:
  assumes "reachable s"
  shows "length (active_enforced h s) \<le> 1"
proof -
  have "index_distinct (st_episodes s)"
    using reachable_ok [OF assms] reachable_unique [OF assms] by (simp add: store_ok_def)
  moreover have "active_enforced h s = filter (\<lambda>e. ep_canonical e = Some h) (filter in_index (st_episodes s))"
    by (auto simp: active_enforced_def in_index_def intro: filter_cong)
  ultimately show ?thesis
    using distinct_map_one [of ep_canonical "filter in_index (st_episodes s)" "Some h"] by (simp add: index_distinct_def)
qed

text \<open>C1: In every history of a database created by this code, whatever the interleaving of its writers, at most one of the episodes
  written under \<open>enforce\<close> with a given content address is queued or in processing, and episode ids are unique.  There an enqueue
  that resolves to \<open>enforce\<close> either stores the episode, and then it is the one active episode of its content address, or is
  answered as a duplicate and leaves every row as it is, and then an active row holds that content or the requested id is taken.\<close>

theorem enforced_content_active_once:
  assumes "reachable (q_store q)" "enqueue_mode env a q = Enforce" "enqueue env a q = (result, q')"
  shows "(\<forall>h. length (active_enforced h (q_store q)) \<le> 1) \<and> distinct (map ep_id (st_episodes (q_store q))) \<and>
    (case result of
       Enqueued i \<Rightarrow> active_enforced (args_hash env a) (q_store q) = [] \<and>
         map ep_id (active_enforced (args_hash env a) (q_store q')) = [i] \<and>
         (\<exists>e. st_episodes (q_store q') = st_episodes (q_store q) @ [e] \<and> ep_payload e = JsonText (enqueue_payload i a))
     | DuplicateEpisode existing h \<Rightarrow> h = args_hash env a \<and> st_episodes (q_store q') = st_episodes (q_store q) \<and>
         ((\<exists>e \<in> set (st_episodes (q_store q)). holds_hash h e \<and> is_active e) \<or>
          chosen_id env a \<in> ep_id ` set (st_episodes (q_store q)))
     | EnqueueRaised x \<Rightarrow> False)"
proof (intro conjI allI)
  show "length (active_enforced h (q_store q)) \<le> 1" for h by (rule active_enforced_one [OF assms(1)])
  show "distinct (map ep_id (st_episodes (q_store q)))" using reachable_ok [OF assms(1)] by (simp add: store_ok_def)
  let ?h = "args_hash env a" and ?i = "chosen_id env a"
  let ?row = "queued_row ?i (enqueue_payload ?i a) (en_now env) (Some ?h) Enforce (Some ?h) (en_writer env)"
  have row: "in_index ?row" "ep_canonical ?row = Some ?h" "ep_id ?row = ?i" "ep_payload ?row = JsonText (enqueue_payload ?i a)"
      "ep_gate ?row = Some Enforce" "ep_status ?row = Queued"
    by (simp_all add: in_index_def queued_row_def)
  have holder: "holds_hash ?h e \<and> is_active e" if "in_index e" "ep_canonical e = Some ?h" for e
    using that by (simp add: in_index_def holds_hash_def is_active_def active_statuses_def)
  obtain cache where run: "enqueue_commit env a Enforce (find_active_duplicate (q_store q) ?h) (q\<lparr>q_mode_cache := cache\<rparr>) = (result, q')"
    using assms(2,3) by (auto simp: enqueue_unfold enqueue_mode_def Let_def)
  show "case result of
       Enqueued i \<Rightarrow> active_enforced ?h (q_store q) = [] \<and> map ep_id (active_enforced ?h (q_store q')) = [i] \<and>
         (\<exists>e. st_episodes (q_store q') = st_episodes (q_store q) @ [e] \<and> ep_payload e = JsonText (enqueue_payload i a))
     | DuplicateEpisode existing h \<Rightarrow> h = ?h \<and> st_episodes (q_store q') = st_episodes (q_store q) \<and>
         ((\<exists>e \<in> set (st_episodes (q_store q)). holds_hash h e \<and> is_active e) \<or> ?i \<in> ep_id ` set (st_episodes (q_store q)))
     | EnqueueRaised x \<Rightarrow> False"
  proof (cases "find_active_duplicate (q_store q) ?h")
    case (Some j)
    with run find_active_duplicate_Some [OF Some] show ?thesis
      by (auto simp: enqueue_commit_def Let_def store_simps record_hit_def)
  next
    case None
    show ?thesis
    proof (cases "insert_episode ?row (q_store q)")
      case (Some s')
      then have rows: "st_episodes s' = st_episodes (q_store q) @ [?row]" and free: "index_distinct (st_episodes (q_store q) @ [?row])"
        using reachable_unique [OF assms(1)] by (auto simp: insert_episode_def split: if_splits)
      have "active_enforced ?h (q_store q) = []"
        using free row by (auto simp: index_distinct_snoc active_enforced_def in_index_def filter_empty_conv)
      then have "active_enforced ?h s' = [?row]"
        using row by (simp add: active_enforced_def rows)
      moreover have "result = Enqueued ?i" "q_store q' = s'"
        using run None Some by (auto simp: enqueue_commit_def insert_sync_def Let_def)
      ultimately show ?thesis using \<open>active_enforced ?h (q_store q) = []\<close> row by (simp add: rows)
    next
      case full: None
      then have "?i \<in> ep_id ` set (st_episodes (q_store q)) \<or> \<not> index_distinct (st_episodes (q_store q) @ [?row])"
        using row by (auto simp: insert_episode_def split: if_splits)
      moreover have "index_distinct (st_episodes (q_store q))"
        using reachable_ok [OF assms(1)] reachable_unique [OF assms(1)] by (simp add: store_ok_def)
      ultimately have "(\<exists>e \<in> set (st_episodes (q_store q)). holds_hash ?h e \<and> is_active e) \<or> ?i \<in> ep_id ` set (st_episodes (q_store q))"
        using holder row(2) by (auto simp: index_distinct_snoc)
      moreover have "\<exists>existing. result = DuplicateEpisode existing ?h" "st_episodes (q_store q') = st_episodes (q_store q)"
        using run None full by (auto simp: enqueue_commit_def insert_sync_def Let_def store_simps record_hit_def)
      ultimately show ?thesis by auto
    qed
  qed
qed

text \<open>A history: a database is created and an enforcing writer stores an episode.\<close>

definition first_store :: store where
  "first_store = empty_store\<lparr>st_unique := True\<rparr>"

definition second_store :: store where
  "second_store = q_store (snd (enqueue_commit (sample_env ''b'') (sample_args ''enforce'' None) Enforce None
     \<lparr>q_store = first_store, q_hits = 0, q_mode_cache = None\<rparr>))"

lemma second_store_reachable: "reachable second_store"
proof -
  have "init_db rev empty_store = Inr first_store"
    by (simp add: init_db_def backfill_canonical_hash_def empty_store_def ensure_unique_index_def first_store_def)
  from reachable.Start [OF this] show ?thesis
    using Enqueue [of "\<lparr>q_store = first_store, q_hits = 0, q_mode_cache = None\<rparr>"] reachable.Step
    unfolding second_store_def by fastforce
qed

theorem enforced_content_active_once_witness:
  "\<exists>q'. enqueue (sample_env ''c'') (sample_args ''enforce'' None) \<lparr>q_store = second_store, q_hits = 0, q_mode_cache = None\<rparr> =
      (DuplicateEpisode (Some ''b'') ''s|g|ih'', q') \<and>
    st_episodes (q_store q') = st_episodes second_store \<and> length (active_enforced ''s|g|ih'' second_store) \<le> 1"
proof -
  let ?q = "\<lparr>q_store = second_store, q_hits = 0, q_mode_cache = None\<rparr>"
  have r: "fst (enqueue (sample_env ''c'') (sample_args ''enforce'' None) ?q) = DuplicateEpisode (Some ''b'') ''s|g|ih''" by code_simp
  have m: "enqueue_mode (sample_env ''c'') (sample_args ''enforce'' None) ?q = Enforce" by code_simp
  obtain q' where run: "enqueue (sample_env ''c'') (sample_args ''enforce'' None) ?q = (DuplicateEpisode (Some ''b'') ''s|g|ih'', q')"
    using r by (metis prod.collapse)
  have "reachable (q_store ?q)" using second_store_reachable by simp
  from enforced_content_active_once [OF this m run] run show ?thesis by auto
qed

text \<open>C2: No history loses an episode or alters what was submitted: every row of a state is found in
  every later state at the same position, with its id, payload, creation time, gate and (once
  known) content address.\<close>

theorem episodes_are_permanent:
  assumes "later s t" "k < length (st_episodes s)"
  shows "k < length (st_episodes t) \<and> row_extends (st_episodes s ! k) (st_episodes t ! k)"
proof -
  obtain us vs where t: "st_episodes t = us @ vs" "list_all2 row_extends (st_episodes s) us"
    using later_extends [OF assms(1)] by (auto simp: extends_def)
  then have "length us = length (st_episodes s)" by (simp add: list_all2_lengthD)
  with t assms(2) show ?thesis by (simp add: nth_append list_all2_nthD)
qed

theorem episodes_are_permanent_witness:
  "ep_id (st_episodes (mark_done ''b'' 9 second_store) ! 0) = ''b''"
proof -
  have "map ep_id (st_episodes second_store) = [''b'']" by code_simp
  then have "length (st_episodes second_store) = 1" "ep_id (st_episodes second_store ! 0) = ''b''"
    by (auto simp: map_eq_Cons_conv)
  moreover have "later second_store (mark_done ''b'' 9 second_store)" by (rule Next [OF Now MarkDone])
  ultimately show ?thesis
    using episodes_are_permanent [of second_store "mark_done ''b'' 9 second_store" 0] by (simp add: row_extends_def)
qed

lemma backfill_row_outcome: "backfill_row sha e = Inr e' \<Longrightarrow> e' = e \<or> ep_canonical e' \<noteq> None"
  by (auto simp: backfill_row_def split: if_splits payload_text.splits pyval.splits option.splits)

lemma backfill_row_idem:
  assumes "backfill_row sha e = Inr e'"
  shows "backfill_row sha e' = Inr e'"
proof (cases "e' = e")
  case False
  with backfill_row_outcome [OF assms] show ?thesis by (simp add: backfill_row_def)
qed (use assms in simp)

lemma backfill_rows_idem: "backfill_rows sha es = Inr es' \<Longrightarrow> backfill_rows sha es' = Inr es'"
  by (induction es arbitrary: es') (auto dest: backfill_row_idem split: sum.splits)

text \<open>Opening a database that this code has opened before changes nothing: the backfill of content
  addresses and the creation of the index are idempotent.\<close>

theorem reopen_is_idempotent:
  assumes "init_db sha s = Inr t"
  shows "init_db sha t = Inr t"
proof -
  have es: "backfill_rows sha (st_episodes t) = Inr (st_episodes t)"
    using backfill_rows_idem [OF init_db_rows(1) [OF assms]] .
  have "\<not> st_unique t \<Longrightarrow> \<not> index_distinct (st_episodes t)"
    using assms by (cases "backfill_canonical_hash sha s")
      (auto simp: init_db_def ensure_unique_index_def split: if_splits)
  then have "ensure_unique_index t = t" by (simp add: ensure_unique_index_def)
  moreover have "st_unique t \<longrightarrow> index_distinct (st_episodes t)" by (rule init_db_rows(4) [OF assms])
  ultimately show ?thesis using es by (simp add: init_db_def backfill_canonical_hash_def)
qed

text \<open>A row written before content addresses existed, as reimported, and one whose content is a number.\<close>

definition old_row :: "pyval \<Rightarrow> episode" where
  "old_row content = (queued_row ''old''
     (PyDict [(''content'', content), (''group_id'', PyStr ''g''), (''source_description'', PyStr ''s'')])
     1 None ModeOff None ''mcp:1'')\<lparr>ep_gate := None, ep_payload_hash := Some ''legacy''\<rparr>"

lemmas opening_simps = init_db_def backfill_canonical_hash_def backfill_row_def ensure_unique_index_def empty_store_def
  old_row_def queued_row_def py_given_def canonical_payload_hash_def payload_preimage_def in_index_def

theorem reopen_is_idempotent_witness:
  "\<exists>t. init_db rev (empty_store\<lparr>st_episodes := [old_row (PyStr ''c'')]\<rparr>) = Inr t \<and>
     map ep_canonical (st_episodes t) = [Some ''s|g|c''] \<and> init_db rev t = Inr t"
proof -
  let ?s = "empty_store\<lparr>st_episodes := [old_row (PyStr ''c'')]\<rparr>"
  have "map_sum id (\<lambda>t. map ep_canonical (st_episodes t)) (init_db rev ?s) = Inr [Some ''s|g|c'']"
    by (simp add: opening_simps)
  then obtain t where t: "init_db rev ?s = Inr t" "map ep_canonical (st_episodes t) = [Some ''s|g|c'']"
    by (cases "init_db rev ?s") (simp_all del: map_eq_Cons_conv)
  from reopen_is_idempotent [OF t(1)] t show ?thesis by (intro exI [of _ t] conjI)
qed

text \<open>A payload whose triple is complete but not text makes the queue impossible to open.\<close>

lemma number_content_blocks_opening:
  "init_db rev (empty_store\<lparr>st_episodes := [old_row (PyInt 5)]\<rparr>) = Inl AttributeError"
  by (simp add: opening_simps)

end
