(* ===== verification/Worker.thy ===== *)
theory Worker
  imports QueueRuns
begin

text \<open>
  \<open>pipeline/worker.py\<close> (one claimed episode) and \<open>pipeline/cron.py\<close> (a sweep: reap, claim, process
  the batch under a semaphore).  A worker acts on the table twice: before the call into the
  graph client (backstop, checkpoint) and when that call has answered.  The client
  (\<open>create_graphiti_instance\<close> and \<open>add_episode\<close>) and the timeout around it are an answer the
  environment gives: it returned, or raised (a timeout is one more exception).
\<close>

subsection \<open>What the client is asked\<close>

record ingest_call =
  ic_name :: pyval
  ic_body :: string
  ic_source :: pyval
  ic_time :: int
  ic_group :: pyval
  ic_instructions :: "string option"

datatype ingest_answer = IngestOk | IngestRaised raised

text \<open>The settings a worker reads: the backstop switch (off where the section is missing), the group id
  and instructions of the graphiti section (\<open>None\<close>: no such section, or none configured).\<close>

record worker_settings =
  wk_backstop :: bool
  wk_group :: "string option"
  wk_instructions :: "string option"

definition attribute_error :: raised where
  "attribute_error = \<lparr>ex_classes = [''AttributeError'', ''Exception''], ex_message = ''no such attribute''\<rparr>"

definition timeout_exc :: raised where
  "timeout_exc = \<lparr>ex_classes = [''TimeoutError'', ''OSError'', ''Exception''], ex_message = []\<rparr>"

subsection \<open>The backstop\<close>

definition backstop_hash :: "(string \<Rightarrow> string) \<Rightarrow> pyval \<Rightarrow> string option" where
  "backstop_hash sha payload =
     (case payload of
        PyDict d \<Rightarrow>
          (case (py_given d ''content'', py_given d ''group_id'', py_given d ''source_description'') of
             (Some (PyStr c), Some (PyStr g), Some (PyStr sd)) \<Rightarrow> Some (canonical_payload_hash sha c g sd)
           | _ \<Rightarrow> None)
      | _ \<Rightarrow> None)"

text \<open>Every exception inside (a payload that is no dict, a triple that is no text) means "do not skip".\<close>

definition backstop_skip ::
  "worker_settings \<Rightarrow> (string \<Rightarrow> string) \<Rightarrow> string \<Rightarrow> int \<Rightarrow> episode_record \<Rightarrow> store \<Rightarrow> store option" where
  "backstop_skip cfg sha writer now r s =
     (if \<not> wk_backstop cfg then None
      else case backstop_hash sha (er_payload r) of None \<Rightarrow> None
        | Some h \<Rightarrow>
            (case find_ingested_duplicate s h of None \<Rightarrow> None
             | Some existing \<Rightarrow>
                 if existing = er_id r then None
                 else Some (mark_skipped_duplicate (er_id r) (Some existing) (Some h) writer now s)))"

subsection \<open>The ingestion\<close>

definition payload_get :: "pydict \<Rightarrow> string \<Rightarrow> pyval" where
  "payload_get d k = (case dict_get d k of Some v \<Rightarrow> v | None \<Rightarrow> PyNone)"

text \<open>The part of \<open>_execute_ingestion\<close> before the call: it raises, finds nothing to ingest (\<open>Inr None\<close>) or
  has a call to make.\<close>

definition prepare_ingestion :: "worker_settings \<Rightarrow> int \<Rightarrow> episode_record \<Rightarrow> raised + ingest_call option" where
  "prepare_ingestion cfg now r =
     (case er_payload r of
        PyDict d \<Rightarrow>
          (let group_field = payload_get d ''group_id'';
               name_field = payload_get d ''name'';
               source = (case dict_get d ''source_description'' of Some v \<Rightarrow> v | None \<Rightarrow> PyStr ''agent_interaction'')
           in if \<not> py_truthy group_field \<and> wk_group cfg = None then Inl attribute_error
              else case (case dict_get d ''content'' of Some v \<Rightarrow> v | None \<Rightarrow> PyStr []) of
                  PyStr content \<Rightarrow>
                    if py_strip content = [] then Inr None
                    else Inr (Some
                      \<lparr>ic_name = (if py_truthy name_field then name_field else PyStr (''ep_'' @ take 8 (er_id r))),
                       ic_body = content, ic_source = source,
                       ic_time = (case er_created_at r of Some t \<Rightarrow> t | None \<Rightarrow> now),
                       ic_group = (if py_truthy group_field then group_field else PyStr (the (wk_group cfg))),
                       ic_instructions = (case wk_instructions cfg of Some (c # cs) \<Rightarrow> Some (c # cs) | _ \<Rightarrow> None)\<rparr>)
                | _ \<Rightarrow> Inl attribute_error)
      | _ \<Rightarrow> Inl attribute_error)"

text \<open>The two exception handlers of \<open>process_record\<close>, which do the same; \<open>should_retry\<close> is called with
  its default ceiling.\<close>

definition send_to_dlq :: "episode_record \<Rightarrow> raised \<Rightarrow> int \<Rightarrow> store \<Rightarrow> store" where
  "send_to_dlq r exc now s = mark_aborted (er_id r) (describe_exception exc) now s"

definition route_failure :: "episode_record \<Rightarrow> raised \<Rightarrow> int \<Rightarrow> store \<Rightarrow> store" where
  "route_failure r exc now s =
     (if should_retry (er_attempts r) exc 3 then mark_failed (er_id r) (describe_exception exc) now s
      else send_to_dlq r exc now s)"

datatype begun = Settled bool store | Calling ingest_call store

definition worker_begin ::
  "worker_settings \<Rightarrow> (string \<Rightarrow> string) \<Rightarrow> string \<Rightarrow> int \<Rightarrow> episode_record \<Rightarrow> store \<Rightarrow> begun" where
  "worker_begin cfg sha writer now r s =
     (case backstop_skip cfg sha writer now r s of
        Some s' \<Rightarrow> Settled True s'
      | None \<Rightarrow>
          (case prepare_ingestion cfg now r of
             Inl exc \<Rightarrow> Settled False (route_failure r exc now s)
           | Inr None \<Rightarrow> Settled True (mark_done (er_id r) now s)
           | Inr (Some call) \<Rightarrow> Calling call (update_checkpoint (er_id r) ''ingesting'' now s)))"

definition worker_finish :: "episode_record \<Rightarrow> ingest_answer \<Rightarrow> int \<Rightarrow> store \<Rightarrow> bool \<times> store" where
  "worker_finish r answer now s =
     (case answer of
        IngestOk \<Rightarrow> (True, mark_done (er_id r) now s)
      | IngestRaised exc \<Rightarrow> (False, route_failure r exc now s))"

text \<open>\<open>process_record\<close> with nothing else happening during the call, whose answer \<open>client\<close> gives.\<close>

definition process_record ::
  "worker_settings \<Rightarrow> (string \<Rightarrow> string) \<Rightarrow> string \<Rightarrow> (ingest_call \<Rightarrow> ingest_answer) \<Rightarrow> int \<Rightarrow> episode_record \<Rightarrow>
    store \<Rightarrow> bool \<times> store" where
  "process_record cfg sha writer client now r s =
     (case worker_begin cfg sha writer now r s of
        Settled ok s' \<Rightarrow> (ok, s')
      | Calling call s' \<Rightarrow> worker_finish r (client call) now s')"

subsection \<open>A sweep\<close>

text \<open>The settings after the fallbacks of \<open>run_cron_sweep\<close>.  A field of the pipeline section that is
  missing is \<open>None\<close>.\<close>

record pipeline_section =
  ps_batch :: "int option"
  ps_concurrency :: "int option"
  ps_attempt_timeout :: "int option"

record sweep_settings =
  sw_batch :: int
  sw_concurrency :: int
  sw_record_timeout :: real
  sw_sweep_timeout :: real
  sw_reap_timeout :: int

definition worker_concurrency :: int where "worker_concurrency = 2"

definition or_int :: "int option \<Rightarrow> int \<Rightarrow> int" where
  "or_int x d = (case x of Some n \<Rightarrow> if n = 0 then d else n | None \<Rightarrow> d)"

definition resolve_sweep ::
  "int option \<Rightarrow> int \<Rightarrow> real \<Rightarrow> real \<Rightarrow> pipeline_section option \<Rightarrow> sweep_settings" where
  "resolve_sweep batch_size concurrency sweep_timeout record_timeout section =
     (let batch_field = Option.bind section ps_batch;
          timeout_field = Option.bind section ps_attempt_timeout
      in \<lparr>sw_batch =
            (case batch_size of
               Some n \<Rightarrow> if 0 < n then n else (case batch_field of Some b \<Rightarrow> b | None \<Rightarrow> 50)
             | None \<Rightarrow> (case batch_field of Some b \<Rightarrow> b | None \<Rightarrow> 50)),
          sw_concurrency =
            or_int (if concurrency = worker_concurrency then Option.bind section ps_concurrency else Some concurrency)
              worker_concurrency,
          sw_record_timeout =
            (if record_timeout = 900 \<and> timeout_field \<noteq> None then of_int (the timeout_field) else record_timeout),
          sw_sweep_timeout =
            (if sweep_timeout = 900 \<and> timeout_field \<noteq> None then of_int (the timeout_field) else sweep_timeout),
          sw_reap_timeout = (case timeout_field of Some n \<Rightarrow> n | None \<Rightarrow> 900)\<rparr>)"

text \<open>The coroutines of the batch run concurrently: a record waits for the semaphore, is in a call, or is
  settled.\<close>

record sweep =
  sp_store :: store
  sp_waiting :: "episode_record list"
  sp_running :: "episode_record list"
  sp_succeeded :: nat
  sp_failed :: nat

definition count_outcome :: "bool \<Rightarrow> sweep \<Rightarrow> sweep" where
  "count_outcome ok w =
     (if ok then w\<lparr>sp_succeeded := sp_succeeded w + 1\<rparr> else w\<lparr>sp_failed := sp_failed w + 1\<rparr>)"

text \<open>\<open>gather\<close> starts every coroutine before any of them waits, so all deadline checks come first, each
  with the seconds elapsed at its reading.\<close>

definition defer_record :: "int \<Rightarrow> episode_record \<Rightarrow> store \<Rightarrow> store" where
  "defer_record now r s = mark_failed (er_id r) ''Sweep soft timeout exceeded'' now s"

definition start_sweep :: "(episode_record \<Rightarrow> real) \<Rightarrow> real \<Rightarrow> int \<Rightarrow> episode_record list \<Rightarrow> store \<Rightarrow> sweep" where
  "start_sweep elapsed timeout now records s =
     (let late = filter (\<lambda>r. timeout < elapsed r) records
      in \<lparr>sp_store = fold (defer_record now) late s,
          sp_waiting = filter (\<lambda>r. \<not> timeout < elapsed r) records, sp_running = [],
          sp_succeeded = 0, sp_failed = length late\<rparr>)"

inductive sweep_step :: "nat \<Rightarrow> worker_settings \<Rightarrow> (string \<Rightarrow> string) \<Rightarrow> string \<Rightarrow> sweep \<Rightarrow> sweep \<Rightarrow> bool"
  for concurrency cfg sha writer
where
  BeginSettled: "sp_waiting w = r # rest \<Longrightarrow> length (sp_running w) < concurrency \<Longrightarrow>
    worker_begin cfg sha writer now r (sp_store w) = Settled ok s \<Longrightarrow>
    sweep_step concurrency cfg sha writer w (count_outcome ok (w\<lparr>sp_waiting := rest, sp_store := s\<rparr>))"
| BeginCall: "sp_waiting w = r # rest \<Longrightarrow> length (sp_running w) < concurrency \<Longrightarrow>
    worker_begin cfg sha writer now r (sp_store w) = Calling call s \<Longrightarrow>
    sweep_step concurrency cfg sha writer w (w\<lparr>sp_waiting := rest, sp_running := sp_running w @ [r], sp_store := s\<rparr>)"
| Finish: "sp_running w = before @ r # after \<Longrightarrow> worker_finish r answer now (sp_store w) = (ok, s) \<Longrightarrow>
    sweep_step concurrency cfg sha writer w (count_outcome ok (w\<lparr>sp_running := before @ after, sp_store := s\<rparr>))"

text \<open>The three phases of \<open>run_cron_sweep\<close> up to the launch of the coroutines (the reap uses its default
  attempt ceiling), and the summary it returns.\<close>

definition launch_sweep ::
  "sweep_settings \<Rightarrow> (string \<Rightarrow> int) \<Rightarrow> (episode_record \<Rightarrow> real) \<Rightarrow> int \<Rightarrow> store \<Rightarrow>
    py_exception + (int \<times> episode_record list \<times> sweep)" where
  "launch_sweep cfg rd elapsed now s =
     (let (n_reaped, s1) = reap_stuck_processing rd (sw_reap_timeout cfg) 3 now s in
      case claim_next_batch (Some (sw_batch cfg)) now s1 of
        Inl x \<Rightarrow> Inl x
      | Inr (records, s2) \<Rightarrow> Inr (n_reaped, records, start_sweep elapsed (sw_sweep_timeout cfg) now records s2))"

record sweep_summary =
  ss_processed :: int
  ss_succeeded :: int
  ss_failed :: int
  ss_reaped :: int
  ss_queued_remaining :: int
  ss_dlq_count :: int
  ss_total_episodes :: int
  ss_is_error :: bool

definition sweep_summary_of :: "int \<Rightarrow> episode_record list \<Rightarrow> sweep \<Rightarrow> sweep_summary" where
  "sweep_summary_of n_reaped records w =
     (let (stats, dlq) = get_stats (sp_store w)
      in \<lparr>ss_processed = int (length records), ss_succeeded = int (sp_succeeded w), ss_failed = int (sp_failed w),
          ss_reaped = n_reaped,
          ss_queued_remaining = (case map_of stats Queued of Some n \<Rightarrow> n | None \<Rightarrow> 0),
          ss_dlq_count = dlq, ss_total_episodes = count_total (sp_store w), ss_is_error = 0 < sp_failed w\<rparr>)"

text \<open>The deadline is looked at before a record waits for the semaphore: if the batch was claimed in time,
  no record is ever deferred, however long it waits.\<close>

lemma deadline_ignores_waiting:
  "\<forall>r \<in> set records. elapsed r \<le> timeout \<Longrightarrow>
    sp_waiting (start_sweep elapsed timeout now records s) = records \<and>
    sp_failed (start_sweep elapsed timeout now records s) = 0"
  by (auto simp: start_sweep_def Let_def filter_empty_conv not_less intro!: filter_True)

subsection \<open>What the outcomes do to a row\<close>

lemma find_episode_dead [simp]:
  "find_episode i (set_dead p g s) = find_episode i s" "find_episode i (replace_dead d s) = find_episode i s"
  "find_episode i (record_dedup_event m a h x y w n s) = find_episode i s"
  by (simp_all add: find_episode_def store_simps)

lemma find_mark_done: "find_episode i (mark_done j n s) = map_option (\<lambda>e. if ep_id e = j then done_row n e else e) (find_episode i s)"
  by (simp add: mark_done_def Let_def done_upd.find_episode_set_rows split: option.splits)

lemma find_mark_failed:
  "find_episode i (mark_failed j err n s) = map_option (\<lambda>e. if ep_id e = j then failed_row err n e else e) (find_episode i s)"
  by (simp add: mark_failed_def failed_upd.find_episode_set_rows)

lemma find_mark_aborted:
  "find_episode i (mark_aborted j err n s) = map_option (\<lambda>e. if ep_id e = j
     then aborted_row ((case find_episode j s of Some e \<Rightarrow> ep_attempts e | None \<Rightarrow> 0) + 1) err n e else e) (find_episode i s)"
  by (simp add: mark_aborted_def Let_def aborted_upd.find_episode_set_rows)

lemma find_checkpoint:
  "find_episode i (update_checkpoint j cp n s) = map_option (\<lambda>e. if ep_id e = j then checkpoint_row cp n e else e) (find_episode i s)"
  by (simp add: update_checkpoint_def checkpoint_upd.find_episode_set_rows)

lemma find_skipped:
  "find_episode i (mark_skipped_duplicate j x h w n s) =
    map_option (\<lambda>e. if ep_id e = j then skipped_row x n e else e) (find_episode i s)"
  by (simp add: mark_skipped_duplicate_def Let_def skipped_upd.find_episode_set_rows)

lemmas find_outcome = find_mark_done find_mark_failed find_mark_aborted find_checkpoint find_skipped

lemmas outcome_rows = done_row_def failed_row_def aborted_row_def checkpoint_row_def skipped_row_def
  backstop_skipped_status_def

lemma outcome_frame:
  assumes "i \<noteq> j"
  shows "find_episode i (mark_done j n s) = find_episode i s" "find_episode i (mark_failed j err n s) = find_episode i s"
    "find_episode i (mark_aborted j err n s) = find_episode i s"
    "find_episode i (update_checkpoint j cp n s) = find_episode i s"
    "find_episode i (mark_skipped_duplicate j x h w n s) = find_episode i s"
proof -
  have "map_option (\<lambda>e. if ep_id e = j then f e else e) (find_episode i s) = find_episode i s" for f
    using assms by (cases "find_episode i s") (auto dest: find_episode_Some)
  then show "find_episode i (mark_done j n s) = find_episode i s" "find_episode i (mark_failed j err n s) = find_episode i s"
    "find_episode i (mark_aborted j err n s) = find_episode i s"
    "find_episode i (update_checkpoint j cp n s) = find_episode i s"
    "find_episode i (mark_skipped_duplicate j x h w n s) = find_episode i s"
    by (simp_all add: find_outcome)
qed

definition row_settled :: "store \<Rightarrow> string \<Rightarrow> bool" where
  "row_settled s i \<longleftrightarrow>
     (\<exists>e. find_episode i s = Some e \<and> ep_status e \<in> {Done, SkippedDuplicate, Failed, Aborted})"

definition row_known :: "store \<Rightarrow> string \<Rightarrow> bool" where
  "row_known s i \<longleftrightarrow> find_episode i s \<noteq> None"

lemma find_own:
  assumes "find_episode j s = Some e"
  shows "find_episode j (mark_done j n s) = Some (done_row n e)"
    "find_episode j (mark_failed j err n s) = Some (failed_row err n e)"
    "find_episode j (mark_aborted j err n s) = Some (aborted_row (ep_attempts e + 1) err n e)"
    "find_episode j (update_checkpoint j cp n s) = Some (checkpoint_row cp n e)"
    "find_episode j (mark_skipped_duplicate j x h w n s) = Some (skipped_row x n e)"
  using assms find_episode_Some [OF assms] by (simp_all add: find_outcome)

lemma outcome_settles:
  assumes "row_known s j"
  shows "row_settled (mark_done j n s) j" "row_settled (mark_failed j err n s) j"
    "row_settled (mark_aborted j err n s) j" "row_settled (mark_skipped_duplicate j x h w n s) j"
proof -
  obtain e where e: "find_episode j s = Some e" using assms by (auto simp: row_known_def)
  show "row_settled (mark_done j n s) j" "row_settled (mark_failed j err n s) j"
    "row_settled (mark_aborted j err n s) j" "row_settled (mark_skipped_duplicate j x h w n s) j"
    by (simp_all add: row_settled_def find_own [OF e] outcome_rows)
qed

lemma route_failure_frame: "i \<noteq> er_id r \<Longrightarrow> find_episode i (route_failure r exc now s) = find_episode i s"
  by (simp add: route_failure_def send_to_dlq_def outcome_frame)

lemma route_failure_settles: "row_known s (er_id r) \<Longrightarrow> row_settled (route_failure r exc now s) (er_id r)"
  by (simp add: route_failure_def send_to_dlq_def outcome_settles)

lemma backstop_skip_Some:
  "backstop_skip cfg sha writer now r s = Some t \<Longrightarrow>
    \<exists>existing h. t = mark_skipped_duplicate (er_id r) (Some existing) (Some h) writer now s"
  by (auto simp: backstop_skip_def split: if_splits option.splits)

lemma worker_begin_Settled:
  "worker_begin cfg sha writer now r s = Settled ok t \<Longrightarrow>
    ok \<and> (\<exists>existing h. t = mark_skipped_duplicate (er_id r) (Some existing) (Some h) writer now s) \<or>
    ok \<and> t = mark_done (er_id r) now s \<or> \<not> ok \<and> (\<exists>exc. t = route_failure r exc now s)"
  by (auto simp: worker_begin_def split: option.splits sum.splits dest: backstop_skip_Some)

lemma worker_begin_Calling:
  "worker_begin cfg sha writer now r s = Calling call t \<Longrightarrow>
    t = update_checkpoint (er_id r) ''ingesting'' now s \<and> prepare_ingestion cfg now r = Inr (Some call) \<and>
    backstop_skip cfg sha writer now r s = None"
  by (auto simp: worker_begin_def split: option.splits sum.splits)

lemma worker_begin_frame:
  "i \<noteq> er_id r \<Longrightarrow> worker_begin cfg sha writer now r s = Settled ok t \<Longrightarrow> find_episode i t = find_episode i s"
  by (auto dest!: worker_begin_Settled simp: outcome_frame route_failure_frame)

lemma worker_begin_settles:
  "row_known s (er_id r) \<Longrightarrow> worker_begin cfg sha writer now r s = Settled ok t \<Longrightarrow> row_settled t (er_id r)"
  by (auto dest!: worker_begin_Settled simp: outcome_settles route_failure_settles)

lemma worker_finish_frame:
  "i \<noteq> er_id r \<Longrightarrow> worker_finish r answer now s = (ok, t) \<Longrightarrow> find_episode i t = find_episode i s"
  by (auto simp: worker_finish_def outcome_frame route_failure_frame split: ingest_answer.splits)

lemma worker_finish_settles:
  "row_known s (er_id r) \<Longrightarrow> worker_finish r answer now s = (ok, t) \<Longrightarrow> row_settled t (er_id r)"
  by (auto simp: worker_finish_def outcome_settles route_failure_settles split: ingest_answer.splits)

lemma row_settled_known: "row_settled s i \<Longrightarrow> row_known s i"
  by (auto simp: row_settled_def row_known_def)

text \<open>C7: Processing a claimed episode settles it, whatever the client answers.  On success the row is
  done, or skipped as already ingested; on failure it has been charged one attempt, and it waits
  as failed only if attempts are left, else it is aborted with an open dead letter that keeps the
  payload.  No other row changes.\<close>

theorem processed_episode_is_settled:
  assumes "find_episode (er_id r) s = Some e" "er_attempts r = ep_attempts e"
    and "process_record cfg sha writer client now r s = (ok, t)"
  shows "(\<exists>e'. find_episode (er_id r) t = Some e' \<and>
      (if ok then ep_status e' \<in> {Done, SkippedDuplicate}
       else ep_attempts e' = ep_attempts e + 1 \<and>
         (ep_status e' = Failed \<and> ep_attempts e' < 3 \<or>
          ep_status e' = Aborted \<and> (\<exists>d \<in> set (st_dead t). dl_id d = er_id r \<and> dl_payload d = ep_payload e \<and>
            dl_recovered_at d = None)))) \<and>
    (\<forall>i. i \<noteq> er_id r \<longrightarrow> find_episode i t = find_episode i s)"
proof -
  let ?good = "\<lambda>ok t. (\<exists>e'. find_episode (er_id r) t = Some e' \<and>
      (if ok then ep_status e' \<in> {Done, SkippedDuplicate}
       else ep_attempts e' = ep_attempts e + 1 \<and>
         (ep_status e' = Failed \<and> ep_attempts e' < 3 \<or>
          ep_status e' = Aborted \<and> (\<exists>d \<in> set (st_dead t). dl_id d = er_id r \<and> dl_payload d = ep_payload e \<and>
            dl_recovered_at d = None))))"
  have failure: "?good False (route_failure r exc now u)"
    if u: "find_episode (er_id r) u = Some e1" "ep_attempts e1 = ep_attempts e" "ep_payload e1 = ep_payload e" for exc u e1
  proof (cases "should_retry (er_attempts r) exc 3")
    case True
    then have "ep_attempts e + 1 < 3" using assms(2) by (auto simp: should_retry_def split: if_splits)
    with True u show ?thesis by (simp add: route_failure_def find_own [OF u(1)] failed_row_def)
  next
    case False
    then show ?thesis using u
      by (simp add: route_failure_def send_to_dlq_def find_own [OF u(1)] aborted_row_def)
        (simp add: mark_aborted_def Let_def u replace_dead_def dead_row_def)
  qed
  show ?thesis
  proof (cases "worker_begin cfg sha writer now r s")
    case (Settled b u)
    then have "ok = b" "t = u" using assms(3) by (simp_all add: process_record_def)
    with worker_begin_Settled [OF Settled] have "?good ok t"
      using failure [OF assms(1) refl refl] by (auto simp: find_own [OF assms(1)] done_row_def skipped_row_def backstop_skipped_status_def)
    with worker_begin_frame [OF _ Settled] \<open>t = u\<close> show ?thesis by simp
  next
    case (Calling call u)
    note u = worker_begin_Calling [OF Calling]
    have fin: "worker_finish r (client call) now u = (ok, t)" using assms(3) Calling by (simp add: process_record_def)
    have own: "find_episode (er_id r) u = Some (checkpoint_row ''ingesting'' now e)" using u find_own(4) [OF assms(1)] by simp
    have "?good ok t"
      using fin failure [OF own] by (cases "client call") (auto simp: worker_finish_def find_own [OF own] done_row_def checkpoint_row_def)
    moreover have "find_episode i t = find_episode i s" if "i \<noteq> er_id r" for i
      using worker_finish_frame [OF that fin] u outcome_frame(4) [OF that] by simp
    ultimately show ?thesis by blast
  qed
qed

text \<open>A claimed episode, and a client that fails on it.\<close>

definition claimed_row :: episode where
  "claimed_row = claim_row 9 (queued_row ''a''
     (PyDict [(''content'', PyStr ''hi''), (''group_id'', PyStr ''g''), (''source_description'', PyStr ''s'')])
     3 None ModeOff (Some ''s|g|ih'') ''mcp:2'')"

definition claimed_store :: store where
  "claimed_store = empty_store\<lparr>st_episodes := [claimed_row]\<rparr>"

definition plain_settings :: worker_settings where
  "plain_settings = \<lparr>wk_backstop = True, wk_group = None, wk_instructions = None\<rparr>"

lemma claimed_row_found: "find_episode ''a'' claimed_store = Some claimed_row \<and> ep_attempts claimed_row = 0"
  by code_simp

theorem processed_episode_is_settled_witness:
  "\<exists>e'. find_episode ''a'' (snd (process_record plain_settings rev ''w'' (\<lambda>_. IngestRaised timeout_exc) 10
      (claimed_record 9 claimed_row) claimed_store)) = Some e' \<and> ep_attempts e' = 1"
proof -
  let ?r = "claimed_record 9 claimed_row"
  let ?run = "process_record plain_settings rev ''w'' (\<lambda>_. IngestRaised timeout_exc) 10 ?r claimed_store"
  have r: "er_id ?r = ''a'' \<and> er_attempts ?r = 0" "\<not> fst ?run" by code_simp+
  have "?run = (fst ?run, snd ?run)" by simp
  from processed_episode_is_settled [OF _ _ this, of claimed_row] r claimed_row_found show ?thesis by auto
qed

text \<open>C16: With the backstop on, an episode whose content another finished episode holds is never sent to
  the client: it is skipped with a status of its own.\<close>

theorem backstop_prevents_second_ingestion:
  assumes "wk_backstop cfg" "backstop_hash sha (er_payload r) = Some h" "h \<noteq> []"
    and "e \<in> set (st_episodes s)" "ep_status e = Done" "holds_hash h e"
    and "find_episode (er_id r) s = Some row" "ep_status row = Processing" "store_ok s"
  shows "\<exists>t. worker_begin cfg sha writer now r s = Settled True t \<and>
    map_option ep_status (find_episode (er_id r) t) = Some SkippedDuplicate"
proof -
  have "newest_id (\<lambda>e. holds_hash h e \<and> ep_status e = Done) s \<noteq> None"
    using assms(4-6) by (auto simp: newest_id_None)
  then obtain i where i: "find_ingested_duplicate s h = Some i" "newest_id (\<lambda>e. holds_hash h e \<and> ep_status e = Done) s = Some i"
    using assms(3) by (auto simp: find_ingested_duplicate_def)
  have "i \<noteq> er_id r"
  proof
    assume "i = er_id r"
    with newest_id_Some [OF i(2)] obtain x where "x \<in> set (st_episodes s)" "ep_status x = Done" "ep_id x = er_id r" by auto
    with ids_unique [OF assms(9), of x row] find_episode_Some [OF assms(7)] assms(8) show False by auto
  qed
  with assms(1,2) i(1) have "worker_begin cfg sha writer now r s =
      Settled True (mark_skipped_duplicate (er_id r) (Some i) (Some h) writer now s)"
    by (simp add: worker_begin_def backstop_skip_def)
  then show ?thesis by (simp add: find_own [OF assms(7)] skipped_row_def backstop_skipped_status_def)
qed

theorem backstop_prevents_second_ingestion_witness:
  "\<exists>t. worker_begin plain_settings rev ''w'' 10 (claimed_record 9 claimed_row)
      (claimed_store\<lparr>st_episodes := [claimed_row, done_row 5 (claimed_row\<lparr>ep_id := ''z''\<rparr>)]\<rparr>) = Settled True t"
proof -
  let ?d = "done_row 5 (claimed_row\<lparr>ep_id := ''z''\<rparr>)"
  let ?s = "claimed_store\<lparr>st_episodes := [claimed_row, ?d]\<rparr>"
  have "wk_backstop plain_settings \<and> backstop_hash rev (er_payload (claimed_record 9 claimed_row)) = Some ''s|g|ih'' \<and>
      ep_status ?d = Done \<and> holds_hash ''s|g|ih'' ?d \<and> er_id (claimed_record 9 claimed_row) = ''a'' \<and>
      find_episode ''a'' ?s = Some claimed_row \<and> ep_status claimed_row = Processing \<and> store_ok ?s" by code_simp
  then show ?thesis
    using backstop_prevents_second_ingestion [of plain_settings rev "claimed_record 9 claimed_row" "''s|g|ih''" ?d ?s claimed_row "''w''" 10]
    by auto
qed

text \<open>An episode that a worker claims is ingested under the time of its ingestion, never under the
  time it was created: the claim does not read that column, so the worker's lookup of it always
  comes back empty.\<close>

theorem claimed_episode_loses_its_date:
  assumes "claim_next_batch limit claimed_at s = Inr (records, s')" "r \<in> set records"
    and "worker_begin cfg sha writer now r u = Calling call v"
  shows "ic_time call = now"
proof -
  obtain e where "r = claimed_record claimed_at e"
    using assms(1,2) by (auto simp: claim_next_batch_def Let_def split: if_splits option.splits)
  then have "er_created_at r = None" by (simp add: claimed_record_def)
  moreover have "prepare_ingestion cfg now r = Inr (Some call)" using worker_begin_Calling [OF assms(3)] by blast
  ultimately show ?thesis
    by (auto simp: prepare_ingestion_def Let_def split: pyval.splits if_splits)
qed

theorem claimed_episode_loses_its_date_witness:
  "\<exists>r call v s'. claim_next_batch None 9 (claimed_store\<lparr>st_episodes := [claimed_row\<lparr>ep_status := Queued\<rparr>]\<rparr>) = Inr ([r], s') \<and>
     worker_begin plain_settings rev ''w'' 10 r s' = Calling call v \<and> ic_time call = 10 \<and> ep_created_at claimed_row = 3"
proof -
  let ?s = "claimed_store\<lparr>st_episodes := [claimed_row\<lparr>ep_status := Queued\<rparr>]\<rparr>"
  let ?row = "claimed_row\<lparr>ep_status := Queued\<rparr>"
  let ?r = "claimed_record 9 ?row"
  have ok: "store_ok ?s" and sel: "claim_select None ?s = [?row]" and created: "ep_created_at claimed_row = 3" by code_simp+
  obtain s' where c: "claim_next_batch None 9 ?s = Inr ([?r], s')"
    using claim_next_batch_total [OF ok, of None 9] by (simp add: sel)
  have "find_ingested_duplicate s' ''s|g|ih'' = None"
  proof -
    have "s' = set_rows (\<lambda>e. ep_id e \<in> ep_id ` {?row}) (claim_row 9) ?s"
      using c claim_next_batch_total [OF ok, of None 9] by (simp add: sel)
    moreover have "find_ingested_duplicate (set_rows (\<lambda>e. ep_id e \<in> ep_id ` {?row}) (claim_row 9) ?s) ''s|g|ih'' = None"
      by code_simp
    ultimately show ?thesis by simp
  qed
  moreover have "backstop_hash rev (er_payload ?r) = Some ''s|g|ih''" by code_simp
  moreover have "case prepare_ingestion plain_settings 10 ?r of Inr (Some c) \<Rightarrow> True | _ \<Rightarrow> False" by code_simp
  then obtain call where "prepare_ingestion plain_settings 10 ?r = Inr (Some call)"
    by (auto split: sum.splits option.splits)
  ultimately have w: "worker_begin plain_settings rev ''w'' 10 ?r s' =
      Calling call (update_checkpoint (er_id ?r) ''ingesting'' 10 s')"
    by (simp add: worker_begin_def backstop_skip_def)
  from claimed_episode_loses_its_date [OF c _ w] w c created show ?thesis by auto
qed

subsection \<open>Sweeps\<close>

definition sweep_inv :: "nat \<Rightarrow> episode_record list \<Rightarrow> sweep \<Rightarrow> bool" where
  "sweep_inv concurrency records w \<longleftrightarrow>
     length (sp_running w) \<le> concurrency \<and>
     length (sp_waiting w) + length (sp_running w) + sp_succeeded w + sp_failed w = length records \<and>
     distinct (map er_id (sp_waiting w @ sp_running w)) \<and>
     (\<forall>r \<in> set records. row_known (sp_store w) (er_id r) \<and>
        (er_id r \<in> er_id ` set (sp_waiting w @ sp_running w) \<or> row_settled (sp_store w) (er_id r))) \<and>
     set (sp_waiting w @ sp_running w) \<subseteq> set records"

lemma row_settled_frame: "find_episode i t = find_episode i s \<Longrightarrow> row_settled t i = row_settled s i"
  by (simp add: row_settled_def)

lemma row_known_frame: "find_episode i t = find_episode i s \<Longrightarrow> row_known t i = row_known s i"
  by (simp add: row_known_def)

lemma count_outcome_sel [simp]:
  "sp_store (count_outcome ok w) = sp_store w" "sp_waiting (count_outcome ok w) = sp_waiting w"
  "sp_running (count_outcome ok w) = sp_running w"
  "sp_succeeded (count_outcome ok w) + sp_failed (count_outcome ok w) = sp_succeeded w + sp_failed w + 1"
  by (simp_all add: count_outcome_def)

text \<open>A record leaves the batch settled; what the others were stays.\<close>

lemma sweep_inv_settle:
  assumes inv: "sweep_inv c records w"
    and store: "\<And>i. i \<noteq> er_id r \<Longrightarrow> find_episode i t = find_episode i (sp_store w)" "row_settled t (er_id r)"
    and less: "distinct (map er_id (sp_waiting w' @ sp_running w'))"
      "er_id ` set (sp_waiting w @ sp_running w) \<subseteq> insert (er_id r) (er_id ` set (sp_waiting w' @ sp_running w'))"
      "set (sp_waiting w' @ sp_running w') \<subseteq> set (sp_waiting w @ sp_running w)"
      "length (sp_running w') \<le> c" "sp_store w' = t"
      "length (sp_waiting w') + length (sp_running w') + sp_succeeded w' + sp_failed w' =
       length (sp_waiting w) + length (sp_running w) + sp_succeeded w + sp_failed w"
  shows "sweep_inv c records w'"
  unfolding sweep_inv_def
proof (intro conjI ballI)
  show "set (sp_waiting w' @ sp_running w') \<subseteq> set records" using inv less(3) unfolding sweep_inv_def by blast
  fix x assume x: "x \<in> set records"
  show "row_known (sp_store w') (er_id x)"
    using inv x store row_settled_known row_known_frame less(5) unfolding sweep_inv_def by metis
  show "er_id x \<in> er_id ` set (sp_waiting w' @ sp_running w') \<or> row_settled (sp_store w') (er_id x)"
  proof (cases "er_id x = er_id r")
    case True
    with store(2) less(5) show ?thesis by simp
  next
    case False
    have "er_id x \<in> er_id ` set (sp_waiting w @ sp_running w) \<or> row_settled (sp_store w) (er_id x)"
      using inv x by (simp add: sweep_inv_def)
    with False less(2,5) row_settled_frame [OF store(1) [OF False]] show ?thesis by blast
  qed
qed (use inv less in \<open>simp_all add: sweep_inv_def\<close>)

lemma sweep_step_inv:
  assumes "sweep_step c cfg sha writer w w'" "sweep_inv c records w"
  shows "sweep_inv c records w'"
  using assms
proof (induction rule: sweep_step.induct)
  case (BeginSettled w r rest now ok s)
  have r: "row_known (sp_store w) (er_id r)" using BeginSettled by (simp add: sweep_inv_def)
  show ?case
  proof (rule sweep_inv_settle [OF BeginSettled.prems, of r s])
    show "row_settled s (er_id r)" using worker_begin_settles [OF r BeginSettled.hyps(3)] .
    show "find_episode i s = find_episode i (sp_store w)" if "i \<noteq> er_id r" for i
      using worker_begin_frame [OF that BeginSettled.hyps(3)] .
  qed (use BeginSettled in \<open>auto simp: sweep_inv_def count_outcome_def\<close>)
next
  case (BeginCall w r rest now call s)
  note call = worker_begin_Calling [OF BeginCall.hyps(3)]
  have "row_known s i = row_known (sp_store w) i" for i
    using call by (cases "i = er_id r") (auto simp: row_known_def find_checkpoint outcome_frame)
  moreover have "row_settled s i \<or> i = er_id r" if "row_settled (sp_store w) i" for i
    using that call row_settled_frame outcome_frame(4) by (metis)
  ultimately show ?case using BeginCall by (auto simp: sweep_inv_def image_Un) blast+
next
  case (Finish w before r after answer now ok s)
  have r: "row_known (sp_store w) (er_id r)" using Finish by (simp add: sweep_inv_def)
  show ?case
  proof (rule sweep_inv_settle [OF Finish.prems, of r s])
    show "row_settled s (er_id r)" using worker_finish_settles [OF r Finish.hyps(2)] .
    show "find_episode i s = find_episode i (sp_store w)" if "i \<noteq> er_id r" for i
      using worker_finish_frame [OF that Finish.hyps(2)] .
  qed (use Finish in \<open>auto simp: sweep_inv_def count_outcome_def\<close>)
qed

lemma defer_known: "row_known (defer_record now r s) i = row_known s i"
  by (auto simp: defer_record_def row_known_def find_mark_failed)

lemma defer_settled: "row_settled s i \<Longrightarrow> row_settled (defer_record now r s) i"
  using row_settled_frame [OF outcome_frame(2), of i "er_id r"]
  by (cases "i = er_id r") (simp_all add: defer_record_def outcome_settles row_settled_known)

lemma fold_defer_known: "row_known (fold (defer_record now) rs s) i = row_known s i"
  by (induction rs arbitrary: s) (simp_all add: defer_known)

lemma fold_defer_settled: "row_settled s i \<Longrightarrow> row_settled (fold (defer_record now) rs s) i"
  by (induction rs arbitrary: s) (simp_all add: defer_settled)

lemma fold_defer_settles:
  "r \<in> set rs \<Longrightarrow> row_known s (er_id r) \<Longrightarrow> row_settled (fold (defer_record now) rs s) (er_id r)"
proof (induction rs arbitrary: s)
  case (Cons x rs)
  show ?case
  proof (cases "r = x")
    case True
    have "row_settled (defer_record now x s) (er_id r)"
      using Cons.prems(2) True by (simp add: defer_record_def outcome_settles)
    then show ?thesis by (simp add: fold_defer_settled)
  next
    case False
    with Cons show ?thesis by (simp add: defer_known)
  qed
qed simp

lemma start_sweep_inv:
  assumes "distinct (map er_id records)" "\<And>r. r \<in> set records \<Longrightarrow> row_known s (er_id r)"
  shows "sweep_inv c records (start_sweep elapsed timeout now records s)"
  unfolding sweep_inv_def
proof (intro conjI ballI)
  fix r assume r: "r \<in> set records"
  show "row_known (sp_store (start_sweep elapsed timeout now records s)) (er_id r)"
    using assms(2) [OF r] by (simp add: start_sweep_def Let_def fold_defer_known)
  show "er_id r \<in> er_id ` set (sp_waiting (start_sweep elapsed timeout now records s) @
      sp_running (start_sweep elapsed timeout now records s)) \<or>
    row_settled (sp_store (start_sweep elapsed timeout now records s)) (er_id r)"
    using r assms(2) [OF r] by (auto simp: start_sweep_def Let_def fold_defer_settles)
qed (use assms(1) sum_length_filter_compl [of "\<lambda>r. timeout < elapsed r" records]
    in \<open>auto simp: start_sweep_def Let_def distinct_map_filter\<close>)

lemma claimed_records_known:
  assumes "store_ok s0" "claim_next_batch limit now s0 = Inr (records, s)"
  shows "distinct (map er_id records)" "r \<in> set records \<Longrightarrow> row_known s (er_id r)"
proof -
  note total = claim_next_batch_total [OF assms(1), of limit now]
  have records: "records = map (claimed_record now) (claim_select limit s0)"
    and s: "s = set_rows (\<lambda>e. ep_id e \<in> ep_id ` set (claim_select limit s0)) (claim_row now) s0"
    using assms(2) total by simp_all
  have ids: "map er_id records = map ep_id (claim_select limit s0)" by (simp add: records claimed_record_def)
  have "distinct (st_episodes s0)" "inj_on ep_id (set (st_episodes s0))"
    using assms(1) by (simp_all add: store_ok_def distinct_map)
  moreover have "set (claim_select limit s0) \<subseteq> set (st_episodes s0)" using claim_select_mem by blast
  ultimately have "distinct (claim_select limit s0)" "inj_on ep_id (set (claim_select limit s0))"
    by (simp_all add: claim_select_take inj_on_subset)
  then show "distinct (map er_id records)" by (simp add: ids distinct_map)
  show "row_known s (er_id r)" if mem: "r \<in> set records"
  proof -
    obtain e where e: "e \<in> set (st_episodes s0)" "er_id r = ep_id e"
      using mem by (auto simp: records claimed_record_def dest: claim_select_mem)
    have "find_episode (ep_id e) s0 = Some e" using find_episode_mem [OF _ e(1)] assms(1) by (simp add: store_ok_def)
    then show ?thesis by (simp add: row_known_def e(2) s claim_upd.find_episode_set_rows)
  qed
qed

text \<open>C4: However the coroutines of a sweep interleave and whatever the client answers, at most
  \<open>concurrency\<close> episodes are in a call at once, every claimed episode is counted exactly once, and
  when the sweep is over each of them has left \<open>processing\<close>: it is done, skipped, failed or
  aborted.\<close>

theorem sweep_settles_its_batch:
  assumes "store_ok s0" "claim_next_batch limit claimed_at s0 = Inr (records, s)"
    and "(sweep_step concurrency cfg sha writer)\<^sup>*\<^sup>* (start_sweep elapsed timeout now records s) w"
  shows "length (sp_running w) \<le> concurrency \<and>
    length (sp_waiting w) + length (sp_running w) + sp_succeeded w + sp_failed w = length records \<and>
    (sp_waiting w = [] \<and> sp_running w = [] \<longrightarrow> (\<forall>r \<in> set records. row_settled (sp_store w) (er_id r)))"
proof -
  have "sweep_inv concurrency records w"
    using assms(3)
  proof (induction rule: rtranclp_induct)
    case base
    show ?case using start_sweep_inv claimed_records_known [OF assms(1,2)] by blast
  next
    case (step w w')
    then show ?case using sweep_step_inv by blast
  qed
  then show ?thesis by (auto simp: sweep_inv_def)
qed

text \<open>A sweep ends: with a positive concurrency an unfinished sweep always has a step to make (once
  the client answers), and every step brings it closer to the end.\<close>

theorem sweep_makes_progress:
  assumes "0 < concurrency"
  shows "(sp_waiting w \<noteq> [] \<or> sp_running w \<noteq> [] \<longrightarrow> (\<exists>w'. sweep_step concurrency cfg sha writer w w')) \<and>
    (\<forall>w'. sweep_step concurrency cfg sha writer w w' \<longrightarrow>
       2 * length (sp_waiting w') + length (sp_running w') < 2 * length (sp_waiting w) + length (sp_running w))"
proof (intro conjI allI impI)
  assume open_work: "sp_waiting w \<noteq> [] \<or> sp_running w \<noteq> []"
  show "\<exists>w'. sweep_step concurrency cfg sha writer w w'"
  proof (cases "sp_running w")
    case (Cons r rest)
    then have "sp_running w = [] @ r # rest" by simp
    from Finish [OF this prod.collapse [symmetric]] show ?thesis by blast
  next
    case Nil
    then obtain r rest where r: "sp_waiting w = r # rest" using open_work by (cases "sp_waiting w") auto
    have room: "length (sp_running w) < concurrency" using Nil assms by simp
    show ?thesis
      by (cases "worker_begin cfg sha writer 0 r (sp_store w)")
        (use BeginSettled [OF r room] BeginCall [OF r room] in blast)+
  qed
next
  fix w' assume "sweep_step concurrency cfg sha writer w w'"
  then show "2 * length (sp_waiting w') + length (sp_running w') < 2 * length (sp_waiting w) + length (sp_running w)"
    by (induction rule: sweep_step.induct) (auto simp: count_outcome_def)
qed

theorem sweep_makes_progress_witness:
  "\<exists>w'. sweep_step 2 plain_settings rev ''w''
     (start_sweep (\<lambda>_. 0) 900 10 [claimed_record 9 claimed_row] claimed_store) w'"
proof -
  have "sp_waiting (start_sweep (\<lambda>_. 0) 900 10 [claimed_record 9 claimed_row] claimed_store) \<noteq> []"
    by (simp add: start_sweep_def)
  then show ?thesis
    using sweep_makes_progress [of 2 "start_sweep (\<lambda>_. 0) 900 10 [claimed_record 9 claimed_row] claimed_store"] by simp
qed

theorem sweep_settles_its_batch_witness:
  "\<exists>records s. claim_next_batch (Some 1) 5 two_queued = Inr (records, s) \<and> length records = 1 \<and>
     (\<forall>r \<in> set records. row_settled (sp_store (start_sweep (\<lambda>_. 901) 900 6 records s)) (er_id r))"
proof -
  have "length (claim_select (Some 1) two_queued) = 1" by code_simp
  then obtain records s where c: "claim_next_batch (Some 1) 5 two_queued = Inr (records, s)" "length records = 1"
    using claim_next_batch_total [OF two_queued_ok, of "Some 1" 5] by simp
  let ?w = "start_sweep (\<lambda>_. 901) 900 6 records s"
  have "sp_waiting ?w = [] \<and> sp_running ?w = []" by (simp add: start_sweep_def Let_def)
  then show ?thesis
    using sweep_settles_its_batch [OF two_queued_ok c(1), of 1 plain_settings rev "''w''" "\<lambda>_. 901" 900 6 ?w] c by blast
qed

end
