(* ===== verification/RateLimiter.thy ===== *)
theory RateLimiter
  imports SlidingWindow "HOL-Library.AList"
begin

text \<open>
  \<open>_TokenBucket\<close> of \<open>daemon/http_search_memory_handler.py\<close>: the request limiter per remote
  address.  The dictionary of deques is an association list in insertion order, the parallel
  order of keys a list; \<open>consume\<close> never awaits, so a call is one step.
\<close>

record bucket =
  tb_max_requests :: nat
  tb_window :: real
  tb_max_keys :: nat
  tb_hits :: "(string \<times> real list) list"
  tb_order :: "string list"

definition new_bucket :: "nat \<Rightarrow> real \<Rightarrow> bucket" where
  "new_bucket max_requests window_sec =
     \<lparr>tb_max_requests = max_requests, tb_window = window_sec, tb_max_keys = 10000, tb_hits = [], tb_order = []\<rparr>"

definition rate_limiter :: bucket where
  "rate_limiter = new_bucket 60 60"

definition hits_of :: "string \<Rightarrow> bucket \<Rightarrow> real list" where
  "hits_of key b = (case map_of (tb_hits b) key of Some q \<Rightarrow> q | None \<Rightarrow> [])"

definition evict_oldest :: "bucket \<Rightarrow> bucket" where
  "evict_oldest b =
     (case tb_order b of [] \<Rightarrow> b
      | oldest # rest \<Rightarrow> b\<lparr>tb_order := rest, tb_hits := AList.delete oldest (tb_hits b)\<rparr>)"

text \<open>\<open>d[key] = None\<close> leaves a key that is there in its place.\<close>

definition note_key :: "string \<Rightarrow> string list \<Rightarrow> string list" where
  "note_key key order = (if key \<in> set order then order else order @ [key])"

text \<open>\<open>append\<close> on a deque with a \<open>maxlen\<close>.\<close>

definition push_bounded :: "nat \<Rightarrow> real \<Rightarrow> real list \<Rightarrow> real list" where
  "push_bounded n x q = (let q' = q @ [x] in drop (length q' - n) q')"

definition consume :: "string \<Rightarrow> real \<Rightarrow> bucket \<Rightarrow> bool \<times> bucket" where
  "consume key now b =
     (let b1 = (if map_of (tb_hits b) key = None \<and> tb_max_keys b \<le> length (tb_hits b) then evict_oldest b else b);
          b2 = b1\<lparr>tb_order := note_key key (tb_order b1)\<rparr>;
          q = pop_older (now - tb_window b2) (hits_of key b2)
      in if tb_max_requests b2 \<le> length q then (False, b2\<lparr>tb_hits := AList.update key q (tb_hits b2)\<rparr>)
         else (True, b2\<lparr>tb_hits := AList.update key (push_bounded (tb_max_requests b2) now q) (tb_hits b2)\<rparr>))"

definition reset_bucket :: "bucket \<Rightarrow> bucket" where
  "reset_bucket b = b\<lparr>tb_hits := [], tb_order := []\<rparr>"

subsection \<open>Bounded memory\<close>

definition bucket_ok :: "bucket \<Rightarrow> bool" where
  "bucket_ok b \<longleftrightarrow> distinct (tb_order b) \<and> distinct (map fst (tb_hits b)) \<and>
     set (tb_order b) = fst ` set (tb_hits b) \<and> length (tb_hits b) \<le> tb_max_keys b \<and>
     (\<forall>(k, q) \<in> set (tb_hits b). length q \<le> tb_max_requests b)"

lemma push_bounded_room: "length q < n \<Longrightarrow> push_bounded n x q = q @ [x]"
  by (simp add: push_bounded_def)

lemma hits_of_update [simp]:
  "hits_of k (b\<lparr>tb_hits := AList.update key q (tb_hits b)\<rparr>) = (if k = key then q else hits_of k b)"
  by (simp add: hits_of_def update_conv')

lemma length_update: "length (AList.update k v xs) = (if k \<in> fst ` set xs then length xs else length xs + 1)"
  by (induction xs) auto

lemma set_update_le: "(k', q) \<in> set (AList.update k v xs) \<Longrightarrow> (k', q) \<in> set xs \<or> (k' = k \<and> q = v)"
  by (induction xs) (auto split: if_splits)

lemma length_delete_mem: "distinct (map fst xs) \<Longrightarrow> k \<in> fst ` set xs \<Longrightarrow> length (AList.delete k xs) + 1 = length xs"
proof (induction xs)
  case (Cons x xs)
  show ?case
  proof (cases "fst x = k")
    case True
    with Cons.prems show ?thesis by (cases x) auto
  next
    case False
    with Cons show ?thesis by (cases x) auto
  qed
qed simp

lemma evict_ok:
  assumes "bucket_ok b" "tb_hits b \<noteq> []"
  shows "bucket_ok (evict_oldest b) \<and> length (tb_hits (evict_oldest b)) + 1 = length (tb_hits b)"
proof -
  obtain k rest where order: "tb_order b = k # rest"
    using assms by (cases "tb_order b") (auto simp: bucket_ok_def)
  with assms(1) have k: "k \<in> fst ` set (tb_hits b)" "distinct (map fst (tb_hits b))" "k \<notin> set rest"
    by (auto simp: bucket_ok_def)
  have "fst ` set (AList.delete k (tb_hits b)) = fst ` set (tb_hits b) - {k}"
    by (auto simp: AList.delete_eq image_iff)
  moreover have "set (AList.delete k (tb_hits b)) \<subseteq> set (tb_hits b)" by (auto simp: AList.delete_eq)
  ultimately show ?thesis
    using assms(1) order k length_delete_mem [OF k(2,1)]
    by (auto simp: bucket_ok_def evict_oldest_def distinct_delete)
qed

text \<open>The state after the cap on keys has been enforced and the key noted.\<close>

definition admit_key :: "string \<Rightarrow> bucket \<Rightarrow> bucket" where
  "admit_key key b =
     (let b1 = (if map_of (tb_hits b) key = None \<and> tb_max_keys b \<le> length (tb_hits b) then evict_oldest b else b)
      in b1\<lparr>tb_order := note_key key (tb_order b1)\<rparr>)"

lemma consume_unfold:
  "consume key now b =
     (let b2 = admit_key key b; q = pop_older (now - tb_window b) (hits_of key b2)
      in if tb_max_requests b \<le> length q then (False, b2\<lparr>tb_hits := AList.update key q (tb_hits b2)\<rparr>)
         else (True, b2\<lparr>tb_hits := AList.update key (q @ [now]) (tb_hits b2)\<rparr>))"
proof -
  have "tb_window (admit_key key b) = tb_window b" "tb_max_requests (admit_key key b) = tb_max_requests b"
    by (auto simp: admit_key_def evict_oldest_def Let_def split: list.splits)
  then show ?thesis by (simp add: consume_def admit_key_def Let_def push_bounded_room not_le)
qed

lemma consume_frame [simp]:
  "tb_max_requests (snd (consume key now b)) = tb_max_requests b" "tb_window (snd (consume key now b)) = tb_window b"
  "tb_max_keys (snd (consume key now b)) = tb_max_keys b" "tb_order (snd (consume key now b)) = tb_order (admit_key key b)"
  by (auto simp: consume_unfold admit_key_def evict_oldest_def Let_def split: list.splits)

lemma admit_key_facts:
  assumes "bucket_ok b" "0 < tb_max_keys b"
  shows "distinct (tb_order (admit_key key b))" "distinct (map fst (tb_hits (admit_key key b)))"
    "set (tb_order (admit_key key b)) = insert key (fst ` set (tb_hits (admit_key key b)))"
    "key \<notin> fst ` set (tb_hits (admit_key key b)) \<Longrightarrow> length (tb_hits (admit_key key b)) < tb_max_keys b"
    "length (tb_hits (admit_key key b)) \<le> tb_max_keys b"
    "\<forall>(k, q) \<in> set (tb_hits (admit_key key b)). length q \<le> tb_max_requests b"
proof -
  let ?b1 = "if map_of (tb_hits b) key = None \<and> tb_max_keys b \<le> length (tb_hits b) then evict_oldest b else b"
  have b1: "bucket_ok ?b1" "tb_max_keys ?b1 = tb_max_keys b" "tb_max_requests ?b1 = tb_max_requests b"
    "key \<notin> fst ` set (tb_hits ?b1) \<Longrightarrow> length (tb_hits ?b1) < tb_max_keys b"
  proof -
    have evicted: "bucket_ok (evict_oldest b)" "length (tb_hits (evict_oldest b)) < length (tb_hits b)"
      if "tb_max_keys b \<le> length (tb_hits b)"
      using that evict_ok [OF assms(1)] assms(2) by (cases "tb_hits b"; simp)+
    have same: "tb_max_keys (evict_oldest b) = tb_max_keys b" "tb_max_requests (evict_oldest b) = tb_max_requests b"
      by (simp_all add: evict_oldest_def split: list.splits)
    have le: "length (tb_hits b) \<le> tb_max_keys b" using assms(1) by (simp add: bucket_ok_def)
    show "bucket_ok ?b1" "tb_max_keys ?b1 = tb_max_keys b" "tb_max_requests ?b1 = tb_max_requests b"
      using assms(1) evicted same by simp_all
    show "length (tb_hits ?b1) < tb_max_keys b" if "key \<notin> fst ` set (tb_hits ?b1)"
    proof (cases "map_of (tb_hits b) key = None \<and> tb_max_keys b \<le> length (tb_hits b)")
      case True
      then show ?thesis using evicted le by simp
    next
      case False
      then have "?b1 = b" by (rule if_not_P)
      with that False le show ?thesis by (simp only: map_of_eq_None_iff not_le) simp
    qed
  qed
  have eq: "tb_hits (admit_key key b) = tb_hits ?b1" "tb_order (admit_key key b) = note_key key (tb_order ?b1)"
    by (simp_all add: admit_key_def Let_def)
  show "distinct (tb_order (admit_key key b))" "distinct (map fst (tb_hits (admit_key key b)))"
    "set (tb_order (admit_key key b)) = insert key (fst ` set (tb_hits (admit_key key b)))"
    "length (tb_hits (admit_key key b)) \<le> tb_max_keys b"
    "\<forall>(k, q) \<in> set (tb_hits (admit_key key b)). length q \<le> tb_max_requests b"
    using b1(1-3) unfolding eq by (auto simp: bucket_ok_def note_key_def)
  show "key \<notin> fst ` set (tb_hits (admit_key key b)) \<Longrightarrow> length (tb_hits (admit_key key b)) < tb_max_keys b"
    using b1(4) unfolding eq by blast
qed

lemma consume_ok:
  assumes "bucket_ok b" "0 < tb_max_keys b"
  shows "bucket_ok (snd (consume key now b))"
proof -
  note facts = admit_key_facts [OF assms, of key]
  let ?b2 = "admit_key key b"
  let ?q = "pop_older (now - tb_window b) (hits_of key ?b2)"
  have old: "length (hits_of key ?b2) \<le> tb_max_requests b"
    using facts(6) by (auto simp: hits_of_def dest: map_of_SomeD split: option.splits)
  then have q: "length ?q \<le> tb_max_requests b" using pop_older_length [of "now - tb_window b" "hits_of key ?b2"] by linarith
  obtain q where hits: "tb_hits (snd (consume key now b)) = AList.update key q (tb_hits ?b2)" "length q \<le> tb_max_requests b"
  proof (cases "tb_max_requests b \<le> length ?q")
    case True
    then show thesis using that [of ?q] q by (simp add: consume_unfold Let_def)
  next
    case False
    then show thesis using that [of "?q @ [now]"] by (simp add: consume_unfold Let_def)
  qed
  have "length (AList.update key q (tb_hits ?b2)) \<le> tb_max_keys b"
    using facts(4,5) by (auto simp: length_update)
  moreover have "\<forall>(k, q') \<in> set (AList.update key q (tb_hits ?b2)). length q' \<le> tb_max_requests b"
    using facts(6) hits(2) by (auto dest!: set_update_le)
  moreover have "fst ` set (AList.update key q (tb_hits ?b2)) = insert key (fst ` set (tb_hits ?b2))"
    by (simp add: dom_update)
  ultimately show ?thesis
    unfolding bucket_ok_def hits(1) using facts(1-3) by (simp add: distinct_update)
qed

subsection \<open>The limit on a key\<close>

text \<open>While no more addresses come than the limiter tracks, it forgets none of them, and for each of
  them it is a limiter of the shared kind.\<close>

definition tracks :: "string set \<Rightarrow> real \<Rightarrow> bucket \<Rightarrow> bool" where
  "tracks K w b \<longleftrightarrow> bucket_ok b \<and> tb_window b = w \<and> finite K \<and> set (tb_order b) \<subseteq> K \<and>
     card K \<le> tb_max_keys b \<and> 0 < tb_max_keys b"

lemma admit_key_tracked:
  assumes "tracks K w b" "key \<in> K"
  shows "tb_hits (admit_key key b) = tb_hits b" "set (tb_order (admit_key key b)) = insert key (set (tb_order b))"
proof -
  have "length (tb_hits b) < tb_max_keys b" if "map_of (tb_hits b) key = None"
  proof -
    have "fst ` set (tb_hits b) \<subset> K" using assms that by (auto simp: tracks_def bucket_ok_def map_of_eq_None_iff)
    then have "card (fst ` set (tb_hits b)) < card K" using assms(1) by (intro psubset_card_mono) (simp_all add: tracks_def)
    moreover have "card (fst ` set (tb_hits b)) = length (tb_hits b)"
      using assms(1) distinct_card [of "map fst (tb_hits b)"] by (simp add: tracks_def bucket_ok_def)
    ultimately show ?thesis using assms(1) by (simp add: tracks_def)
  qed
  then show "tb_hits (admit_key key b) = tb_hits b" "set (tb_order (admit_key key b)) = insert key (set (tb_order b))"
    by (auto simp: admit_key_def Let_def note_key_def)
qed

lemma consume_tracks: "tracks K w b \<Longrightarrow> key \<in> K \<Longrightarrow> tracks K w (snd (consume key now b))"
  using consume_ok [of b key now] admit_key_tracked(2) [of K w b key] by (auto simp: tracks_def)

lemma consume_hits:
  assumes "tracks K w b" "key \<in> K"
  shows "fst (consume key now b) = (length (pop_older (now - w) (hits_of key b)) < tb_max_requests b)"
    "hits_of k (snd (consume key now b)) =
      (if k \<noteq> key then hits_of k b
       else if fst (consume key now b) then pop_older (now - w) (hits_of key b) @ [now]
       else pop_older (now - w) (hits_of key b))"
proof -
  have h: "hits_of k (admit_key key b) = hits_of k b" for k
    using admit_key_tracked(1) [OF assms] by (simp add: hits_of_def)
  have w: "tb_window b = w" using assms(1) by (simp add: tracks_def)
  show "fst (consume key now b) = (length (pop_older (now - w) (hits_of key b)) < tb_max_requests b)"
    by (simp add: consume_unfold Let_def h w not_le)
  show "hits_of k (snd (consume key now b)) =
      (if k \<noteq> key then hits_of k b
       else if fst (consume key now b) then pop_older (now - w) (hits_of key b) @ [now]
       else pop_older (now - w) (hits_of key b))"
    by (simp add: consume_unfold Let_def h w)
qed

definition request_step :: "string \<times> real \<Rightarrow> bucket \<Rightarrow> bucket" where
  "request_step e b = snd (consume (fst e) (snd e) b)"

definition admitted_at :: "string \<Rightarrow> string \<times> real \<Rightarrow> bucket \<Rightarrow> real option" where
  "admitted_at k e b = (if fst e = k \<and> fst (consume k (snd e) b) then Some (snd e) else None)"

interpretation key_window: window_limiter "hits_of k" "\<lambda>b. int (tb_max_requests b)" request_step "admitted_at k"
    "\<lambda>e. fst e \<in> K" snd snd w "tracks K w" for k K w
proof unfold_locales
  fix b :: bucket and e :: "string \<times> real" and t
  assume b: "tracks K w b" and e: "fst e \<in> K"
  obtain key now where [simp]: "e = (key, now)" by (cases e)
  note hits = consume_hits(1) [OF b, where key = key and now = now]
    consume_hits(2) [OF b, where key = key and now = now and k = k] e
  show "int (tb_max_requests (request_step e b)) = int (tb_max_requests b)" by (simp add: request_step_def)
  show "tracks K w (request_step e b)" using consume_tracks [OF b e] by (simp add: request_step_def)
  show "admitted_at k e b = None \<Longrightarrow>
      \<exists>old. hits_of k b = old @ hits_of k (request_step e b) \<and> (\<forall>t \<in> set old. t < snd e - w)"
    using hits pop_older_split [of "hits_of key b" "now - w"]
    by (cases "k = key") (auto simp: admitted_at_def request_step_def split: if_splits)
  show "admitted_at k e b = Some t \<Longrightarrow>
      hits_of k (request_step e b) = pop_older (snd e - w) (hits_of k b) @ [t] \<and>
      int (length (pop_older (snd e - w) (hits_of k b))) < int (tb_max_requests b) \<and> snd e \<le> t \<and> t \<le> snd e"
    using hits by (auto simp: admitted_at_def request_step_def split: if_splits)
qed simp

lemma admissions_bounded:
  assumes "finite K" "card K \<le> 10000" "clocked (\<lambda>e. fst e \<in> K) snd snd t0 requests"
  shows "length (filter (\<lambda>t. a \<le> t \<and> t \<le> a + w) (run_log request_step (admitted_at k) requests (new_bucket n w))) \<le> n"
proof -
  have tracked: "tracks K w (new_bucket n w)" using assms by (simp add: tracks_def new_bucket_def bucket_ok_def)
  have none: "hits_of k (new_bucket n w) = []" by (simp add: hits_of_def new_bucket_def)
  have "int (tb_max_requests (new_bucket n w)) = int n" by (simp add: new_bucket_def)
  with key_window.window_bound [OF tracked assms(3) none, of a] show ?thesis by simp
qed

text \<open>C26: From a fresh limiter, while at most as many addresses come as it tracks, no address has more
  than \<open>max_requests\<close> requests admitted in any closed interval of one window.\<close>

theorem request_rate_limited:
  assumes "finite K" "card K \<le> 10000" "clocked (\<lambda>e. fst e \<in> K) snd snd t0 requests"
  shows "length (filter (\<lambda>t. a \<le> t \<and> t \<le> a + w) (run_log request_step (admitted_at k) requests (new_bucket n w))) \<le> n"
  by (rule admissions_bounded [OF assms])

theorem request_rate_limited_witness:
  "length (filter (\<lambda>t. 0 \<le> t \<and> t \<le> 60)
     (run_log request_step (admitted_at ''ip'') (replicate 3 (''ip'', 1)) (new_bucket 2 60))) \<le> 2"
  using request_rate_limited [of "{''ip''}" 0 "replicate 3 (''ip'', 1)" 0 60 "''ip''" 2]
  by (simp add: numeral_3_eq_3)

text \<open>Its memory is bounded by the two caps, whoever comes.\<close>

lemma limiter_memory_bounded:
  "bucket_ok (fold request_step requests (new_bucket n w)) \<and>
   tb_max_keys (fold request_step requests (new_bucket n w)) = 10000"
proof -
  have "bucket_ok b \<and> tb_max_keys b = 10000 \<Longrightarrow>
      bucket_ok (fold request_step requests b) \<and> tb_max_keys (fold request_step requests b) = 10000" for b
    by (induction requests arbitrary: b) (simp_all add: request_step_def consume_ok)
  moreover have "bucket_ok (new_bucket n w)" "tb_max_keys (new_bucket n w) = 10000"
    by (simp_all add: bucket_ok_def new_bucket_def)
  ultimately show ?thesis by blast
qed

text \<open>A request is refused only if that many of its address's requests are on record within the window.\<close>

lemma refusal_means_full:
  "tracks K w b \<Longrightarrow> key \<in> K \<Longrightarrow> \<not> fst (consume key now b) \<Longrightarrow>
    tb_max_requests b \<le> length (pop_older (now - w) (hits_of key b))"
  by (simp add: consume_hits)

text \<open>Past the cap on keys the limit can be shed: the address seen first is forgotten, active or not.\<close>

lemma eviction_forgets:
  "consume ''b'' 1 (new_bucket 1 60\<lparr>tb_max_keys := 1, tb_hits := [(''a'', [1])], tb_order := [''a'']\<rparr>) =
    (True, new_bucket 1 60\<lparr>tb_max_keys := 1, tb_hits := [(''b'', [1])], tb_order := [''b'']\<rparr>)"
  by (simp add: consume_def new_bucket_def evict_oldest_def note_key_def hits_of_def push_bounded_def)

end
