(* ===== verification/CronLoop.thy ===== *)
theory CronLoop
  imports CircuitBreaker
begin

text \<open>
  \<open>daemon/cron_loop.py\<close>: the two background loops of the daemon.  An iteration of a loop is one
  step; what \<open>run_cron_sweep\<close> and \<open>run_dream_consolidation\<close> return or raise, the wall clock
  and the circuit state are its inputs.  The results kept for the health report have the
  type \<open>'r\<close>.
\<close>

subsection \<open>The circuit state as the loop reads it\<close>

text \<open>What the provider returns: nothing, an object with a \<open>name\<close> and its \<open>str\<close>, or any other object by its \<open>str\<close>.\<close>

datatype provided = NoState | NamedState string string | OtherState string

definition known_states :: "string list" where
  "known_states = [''CLOSED'', ''OPEN'', ''HALF_OPEN'']"

definition upper_char :: "char \<Rightarrow> char" where
  "upper_char c = (let n = (of_char c :: nat) in if 97 \<le> n \<and> n \<le> 122 then char_of (n - 32) else c)"

definition known_state :: "string \<Rightarrow> string" where
  "known_state t = (let s = map upper_char t in if s \<in> set known_states then s else ''CLOSED'')"

fun state_str :: "provided \<Rightarrow> string" where
  "state_str NoState = ''CLOSED''"
| "state_str (NamedState n t) = (if n \<noteq> [] then n else known_state t)"
| "state_str (OtherState t) = known_state t"

text \<open>The provider of \<open>lifespan.py\<close> hands over the breaker's enum member.\<close>

definition provided_by :: "breaker \<Rightarrow> provided" where
  "provided_by b =
     (let n = (case cb_state b of CLOSED \<Rightarrow> ''CLOSED'' | OPEN \<Rightarrow> ''OPEN'' | HALF_OPEN \<Rightarrow> ''HALF_OPEN'')
      in NamedState n (''CircuitState.'' @ n))"

subsection \<open>The loop object\<close>

record 'r cron_loop =
  cl_enabled :: bool
  cl_interval_min :: int
  cl_tasks :: nat
  cl_shutdown :: bool
  cl_running :: bool
  cl_last_sweep_at :: "real option"
  cl_last_sweep_iso :: "int option"
  cl_last_sweep_stats :: "'r option"
  cl_last_dream_at :: "real option"
  cl_last_dream_iso :: "int option"
  cl_last_dream_result :: "'r option"
  cl_tick_count :: nat
  cl_skipped :: nat

definition new_cron_loop :: "bool \<Rightarrow> int \<Rightarrow> 'r cron_loop" where
  "new_cron_loop enabled interval_min =
     \<lparr>cl_enabled = enabled, cl_interval_min = interval_min, cl_tasks = 0, cl_shutdown = False, cl_running = False,
      cl_last_sweep_at = None, cl_last_sweep_iso = None, cl_last_sweep_stats = None, cl_last_dream_at = None,
      cl_last_dream_iso = None, cl_last_dream_result = None, cl_tick_count = 0, cl_skipped = 0\<rparr>"

definition start_cron :: "'r cron_loop \<Rightarrow> 'r cron_loop" where
  "start_cron l =
     (if \<not> cl_enabled l then l
      else if cl_running l then l
      else l\<lparr>cl_shutdown := False, cl_running := True, cl_tasks := 2\<rparr>)"

definition stop_cron :: "'r cron_loop \<Rightarrow> 'r cron_loop" where
  "stop_cron l = (if \<not> cl_running l then l else l\<lparr>cl_shutdown := True, cl_tasks := 0, cl_running := False\<rparr>)"

definition sweep_interval_sec :: "'r cron_loop \<Rightarrow> int" where
  "sweep_interval_sec l = max 1 (cl_interval_min l * 60)"

text \<open>\<open>outcome\<close>: what the sweep returned (\<open>None\<close>: it raised), with the two clock readings after it.\<close>

definition sweep_tick :: "provided \<Rightarrow> 'r option \<Rightarrow> real \<Rightarrow> int \<Rightarrow> 'r cron_loop \<Rightarrow> 'r cron_loop" where
  "sweep_tick raw outcome mono_at iso_at l =
     (if state_str raw = ''OPEN'' then l\<lparr>cl_skipped := cl_skipped l + 1\<rparr>
      else case outcome of
          None \<Rightarrow> l
        | Some stats \<Rightarrow>
            l\<lparr>cl_last_sweep_at := Some mono_at, cl_last_sweep_iso := Some iso_at, cl_last_sweep_stats := Some stats,
              cl_tick_count := cl_tick_count l + 1\<rparr>)"

text \<open>An iteration of the sweep loop; \<open>si_shutdown\<close>: the shutdown event is set before the wait that follows it is over.\<close>

record 'r sweep_input =
  si_circuit :: provided
  si_outcome :: "'r option"
  si_mono :: real
  si_iso :: int
  si_shutdown :: bool

fun sweep_iterations :: "'r sweep_input list \<Rightarrow> 'r cron_loop \<Rightarrow> 'r cron_loop" where
  "sweep_iterations [] l = l"
| "sweep_iterations (x # xs) l =
     (let l' = sweep_tick (si_circuit x) (si_outcome x) (si_mono x) (si_iso x) l in
      if si_shutdown x then l' else sweep_iterations xs l')"

definition sweep_loop :: "bool \<Rightarrow> 'r sweep_input list \<Rightarrow> 'r cron_loop \<Rightarrow> 'r cron_loop" where
  "sweep_loop shutdown_in_delay xs l =
     (if shutdown_in_delay then l else if cl_shutdown l then l else sweep_iterations xs l)"

record 'r cron_snapshot =
  cn_enabled :: bool
  cn_running :: bool
  cn_tick_count :: nat
  cn_skipped :: nat
  cn_last_sweep_at :: "real option"
  cn_last_sweep_iso :: "int option"
  cn_last_sweep_stats :: "'r option"
  cn_last_dream_at :: "real option"
  cn_last_dream_iso :: "int option"
  cn_last_dream_result :: "'r option"

definition cron_snapshot :: "'r cron_loop \<Rightarrow> 'r cron_snapshot" where
  "cron_snapshot l =
     \<lparr>cn_enabled = cl_enabled l, cn_running = cl_running l, cn_tick_count = cl_tick_count l, cn_skipped = cl_skipped l,
      cn_last_sweep_at = cl_last_sweep_at l, cn_last_sweep_iso = cl_last_sweep_iso l, cn_last_sweep_stats = cl_last_sweep_stats l,
      cn_last_dream_at = cl_last_dream_at l, cn_last_dream_iso = cl_last_dream_iso l, cn_last_dream_result = cl_last_dream_result l\<rparr>"

subsection \<open>The dream loop\<close>

definition dream_hour_ict :: int where "dream_hour_ict = 2"
definition dream_minute_ict :: int where "dream_minute_ict = 30"

text \<open>An iteration: the UTC clock (its date as a day number, hour, minute), the circuit, what the dream run returns if it is
  started, and the readings after it.  The loop's local \<open>last_run_date\<close> is threaded through.\<close>

record 'r dream_check =
  dc_date :: int
  dc_hour :: int
  dc_minute :: int
  dc_circuit :: provided
  dc_outcome :: "'r option"
  dc_mono :: real
  dc_iso :: int

definition dream_due :: "int option \<Rightarrow> 'r dream_check \<Rightarrow> bool" where
  "dream_due last_run_date c \<longleftrightarrow>
     (dc_hour c + 7) mod 24 = dream_hour_ict \<and> dream_minute_ict \<le> dc_minute c \<and>
     last_run_date \<noteq> Some (dc_date c)"

definition dream_runs_now :: "int option \<Rightarrow> 'r dream_check \<Rightarrow> bool" where
  "dream_runs_now last_run_date c \<longleftrightarrow> dream_due last_run_date c \<and> state_str (dc_circuit c) \<noteq> ''OPEN''"

definition dream_tick :: "'r dream_check \<Rightarrow> int option \<times> 'r cron_loop \<Rightarrow> int option \<times> 'r cron_loop" where
  "dream_tick c sl =
     (let (last_run_date, l) = sl in
      if dream_runs_now last_run_date c then
        (case dc_outcome c of
           None \<Rightarrow> (last_run_date, l)
         | Some result \<Rightarrow>
             (Some (dc_date c),
              l\<lparr>cl_last_dream_at := Some (dc_mono c), cl_last_dream_iso := Some (dc_iso c),
                cl_last_dream_result := Some result\<rparr>))
      else (last_run_date, l))"

text \<open>The dates on which a run of checks completed a dream, in order: an iteration completed one when it moved
  \<open>last_run_date\<close>.\<close>

fun dream_dates :: "'r dream_check list \<Rightarrow> int option \<times> 'r cron_loop \<Rightarrow> int list" where
  "dream_dates [] sl = []"
| "dream_dates (c # cs) sl =
     (let sl' = dream_tick c sl in
      (if fst sl' = fst sl then [] else [dc_date c]) @ dream_dates cs sl')"

subsection \<open>Lemmas\<close>

text \<open>The string the loop compares is that of the breaker's state.\<close>

lemma open_iff: "state_str (provided_by b) = ''OPEN'' \<longleftrightarrow> cb_state b = OPEN"
  by (simp add: provided_by_def Let_def split: circuit_state.splits)

text \<open>Every iteration is counted as a sweep or as skipped, unless the sweep raised.\<close>

lemma sweep_iterations_count:
  "cl_tick_count (sweep_iterations xs l) + cl_skipped (sweep_iterations xs l) \<le> cl_tick_count l + cl_skipped l + length xs"
  "list_all (\<lambda>x. si_outcome x \<noteq> None \<and> \<not> si_shutdown x) xs \<Longrightarrow>
    cl_tick_count (sweep_iterations xs l) + cl_skipped (sweep_iterations xs l) = cl_tick_count l + cl_skipped l + length xs"
proof (induction xs arbitrary: l)
  case (Cons x xs)
  { case 1 show ?case
      using Cons.IH(1) [of "sweep_tick (si_circuit x) (si_outcome x) (si_mono x) (si_iso x) l"]
      by (auto simp: Let_def sweep_tick_def split: option.splits) }
  { case 2 then show ?case
      using Cons.IH(2) [of "sweep_tick (si_circuit x) (si_outcome x) (si_mono x) (si_iso x) l"]
      by (auto simp: Let_def sweep_tick_def split: option.splits) }
qed simp_all

lemma sweep_interval_pos: "1 \<le> sweep_interval_sec l"
  by (simp add: sweep_interval_sec_def)

lemma start_stop:
  "cl_enabled l \<Longrightarrow> cl_running (start_cron l)" "\<not> cl_running (stop_cron l)"
  "start_cron (start_cron l) = start_cron l" "stop_cron (stop_cron l) = stop_cron l"
  by (simp_all add: start_cron_def stop_cron_def)

definition dream_completes :: "int option \<Rightarrow> 'r dream_check \<Rightarrow> bool" where
  "dream_completes prev c \<longleftrightarrow> dream_runs_now prev c \<and> dc_outcome c \<noteq> None"

lemma completes_new_date: "dream_completes prev c \<Longrightarrow> prev \<noteq> Some (dc_date c)"
  by (simp add: dream_completes_def dream_runs_now_def dream_due_def)

lemma completes_in_window:
  "dream_completes prev c \<Longrightarrow>
    dc_hour c mod 24 = 19 \<and> 30 \<le> dc_minute c \<and> state_str (dc_circuit c) \<noteq> ''OPEN''"
proof -
  have "(h + 7) mod 24 = 2 \<Longrightarrow> h mod 24 = 19" for h :: int by presburger
  then show "dream_completes prev c \<Longrightarrow> ?thesis"
    by (simp add: dream_completes_def dream_runs_now_def dream_due_def dream_hour_ict_def dream_minute_ict_def)
qed

lemma dream_tick_date:
  "fst (dream_tick c (prev, l)) = (if dream_completes prev c then Some (dc_date c) else prev)"
  by (simp add: dream_tick_def dream_completes_def split: option.splits)

lemma dream_dates_step:
  "dream_dates (c # cs) (prev, l) =
     (if dream_completes prev c then dc_date c # dream_dates cs (Some (dc_date c), snd (dream_tick c (prev, l)))
      else dream_dates cs (prev, l))"
proof (cases "dream_completes prev c")
  case True
  then have "dream_tick c (prev, l) = (Some (dc_date c), snd (dream_tick c (prev, l)))"
    by (simp add: dream_tick_date prod_eq_iff)
  with True completes_new_date [OF True] show ?thesis by (simp add: Let_def dream_tick_date)
next
  case False
  then have "dream_tick c (prev, l) = (prev, l)"
    by (simp add: dream_tick_def dream_completes_def split: option.splits)
  with False show ?thesis by simp
qed

lemmas dream_dates_rules = dream_dates.simps(1) dream_dates_step

declare dream_dates.simps [simp del]
declare dream_dates_rules [simp]

lemma dream_dates_after:
  "sorted (map dc_date cs) \<Longrightarrow> \<forall>c \<in> set cs. d \<le> dc_date c \<Longrightarrow>
    distinct (dream_dates cs (Some d, l)) \<and> d \<notin> set (dream_dates cs (Some d, l)) \<and>
    set (dream_dates cs (Some d, l)) \<subseteq> dc_date ` set cs"
proof (induction cs arbitrary: d l)
  case (Cons c cs)
  show ?case
  proof (cases "dream_completes (Some d) c")
    case True
    then have "dc_date c \<noteq> d" by (auto dest: completes_new_date)
    with Cons.prems have d: "d < dc_date c" by force
    let ?r = "dream_dates cs (Some (dc_date c), snd (dream_tick c (Some d, l)))"
    have IH: "distinct ?r \<and> dc_date c \<notin> set ?r \<and> set ?r \<subseteq> dc_date ` set cs"
      using Cons.IH [of "dc_date c"] Cons.prems(1) by simp
    have "d \<notin> dc_date ` set cs" using d Cons.prems(1) by force
    with IH d True show ?thesis by auto
  next
    case False
    have "distinct (dream_dates cs (Some d, l)) \<and> d \<notin> set (dream_dates cs (Some d, l)) \<and>
        set (dream_dates cs (Some d, l)) \<subseteq> dc_date ` set cs"
      using Cons.prems by (intro Cons.IH) simp_all
    with False show ?thesis by auto
  qed
qed simp

lemma dream_dates_first:
  "sorted (map dc_date cs) \<Longrightarrow> distinct (dream_dates cs (None, l))"
proof (induction cs arbitrary: l)
  case (Cons c cs)
  then show ?case
    using dream_dates_after [of cs "dc_date c" "snd (dream_tick c (None, l))"] by auto
qed simp

lemma completes_first:
  "dream_completes None c \<Longrightarrow> dream_completes prev c \<or> prev = Some (dc_date c)"
  by (auto simp: dream_completes_def dream_runs_now_def dream_due_def)

lemma dream_dates_missed:
  "c \<in> set cs \<Longrightarrow> dream_completes None c \<Longrightarrow>
    dc_date c \<in> set (dream_dates cs (prev, l)) \<or> prev = Some (dc_date c)"
proof (induction cs arbitrary: prev l)
  case (Cons x cs)
  show ?case
  proof (cases "c = x")
    case True
    with Cons.prems completes_first [of x prev] show ?thesis by auto
  next
    case False
    with Cons have IH: "dc_date c \<in> set (dream_dates cs (p, m)) \<or> p = Some (dc_date c)" for p m by simp
    show ?thesis
      using IH [of prev l] IH [of "Some (dc_date x)" "snd (dream_tick x (prev, l))"] by auto
  qed
qed simp

lemma dream_dates_window:
  "d \<in> set (dream_dates cs (prev, l)) \<Longrightarrow>
    \<exists>c \<in> set cs. dc_date c = d \<and> dc_hour c mod 24 = 19 \<and> 30 \<le> dc_minute c \<and> state_str (dc_circuit c) \<noteq> ''OPEN''"
proof (induction cs arbitrary: prev l)
  case (Cons c cs)
  with completes_in_window [of prev c] show ?case by (auto split: if_splits)
qed simp


text \<open>A night: a check with the circuit open, two after it, and one on the next day.\<close>

definition night :: "nat dream_check list" where
  "night =
     [\<lparr>dc_date = 1, dc_hour = 19, dc_minute = 30, dc_circuit = NamedState ''OPEN'' [], dc_outcome = Some 0, dc_mono = 0, dc_iso = 0\<rparr>,
      \<lparr>dc_date = 1, dc_hour = 19, dc_minute = 31, dc_circuit = NamedState ''CLOSED'' [], dc_outcome = Some 0, dc_mono = 0, dc_iso = 0\<rparr>,
      \<lparr>dc_date = 1, dc_hour = 19, dc_minute = 32, dc_circuit = NamedState ''CLOSED'' [], dc_outcome = Some 0, dc_mono = 0, dc_iso = 0\<rparr>,
      \<lparr>dc_date = 2, dc_hour = 3, dc_minute = 30, dc_circuit = NamedState ''CLOSED'' [], dc_outcome = Some 0, dc_mono = 0, dc_iso = 0\<rparr>]"


end
