(* ===== verification/DedupPlan.thy ===== *)
theory DedupPlan
  imports Prelude "HOL-Library.AList" "HOL-Library.Char_ord" "HOL-Library.List_Lexorder" "HOL-Library.Product_Lexorder"
begin

text \<open>
  \<open>pipeline/dedup.py\<close>: which nodes of the knowledge graph are folded into which.  Planning is pure:
  it reads the rows of a snapshot and never the database.  Entities are merged when they share a name and their
  summaries restate each other, episodes when name and content are identical.

  A similarity is the exact quotient of two counts and a threshold the decimal it is written as.
\<close>

subsection \<open>Rows of a snapshot\<close>

record entity_row =
  en_uuid :: "string option"
  en_name :: "string option"
  en_summary :: "string option"
  en_created_at :: "string option"

record episodic_row =
  ed_uuid :: "string option"
  ed_name :: "string option"
  ed_content :: "string option"
  ed_created_at :: "string option"

record mention_row =
  mn_src :: "string option"
  mn_dst :: "string option"

record relation_row =
  rl_src :: "string option"
  rl_dst :: "string option"
  rl_fact :: "string option"

text \<open>\<open>x or ""\<close> and \<open>str(x)\<close>.\<close>

definition or_empty :: "string option \<Rightarrow> string" where
  "or_empty x = (case x of Some s \<Rightarrow> s | None \<Rightarrow> [])"

definition str_of :: "string option \<Rightarrow> string" where
  "str_of x = (case x of Some s \<Rightarrow> s | None \<Rightarrow> ''None'')"

text \<open>A \<open>defaultdict(list)\<close> filled by appending: the groups in the order in which their keys first occur.\<close>

definition first_keys :: "'k list \<Rightarrow> 'k list" where
  "first_keys ks = rev (remdups (rev ks))"

definition group_by :: "('a \<Rightarrow> 'k) \<Rightarrow> 'a list \<Rightarrow> ('k \<times> 'a list) list" where
  "group_by f xs = map (\<lambda>k. (k, filter (\<lambda>x. f x = k) xs)) (first_keys (map f xs))"

subsection \<open>Similarity\<close>

definition word_char :: "char \<Rightarrow> bool" where
  "word_char c \<longleftrightarrow> (let n = (of_char c :: nat) in (97 \<le> n \<and> n \<le> 122) \<or> (48 \<le> n \<and> n \<le> 57) \<or> n = 95)"

text \<open>\<open>findall\<close> of the maximal runs of word characters.\<close>

fun find_words :: "string \<Rightarrow> string \<Rightarrow> string list" where
  "find_words run [] = (if run = [] then [] else [rev run])"
| "find_words run (c # cs) =
     (if word_char c then find_words (c # run) cs
      else if run = [] then find_words [] cs
      else rev run # find_words [] cs)"

definition tokenize :: "string option \<Rightarrow> string set" where
  "tokenize t = set (find_words [] (py_lower (or_empty t)))"

definition jaccard :: "string set \<Rightarrow> string set \<Rightarrow> rat" where
  "jaccard a b =
     (if a = {} \<and> b = {} then 1 else of_nat (card (a \<inter> b)) / of_nat (card (a \<union> b)))"

definition similarity :: "entity_row \<Rightarrow> entity_row \<Rightarrow> rat" where
  "similarity x y = jaccard (tokenize (en_summary x)) (tokenize (en_summary y))"

text \<open>Escaping for a single-quoted literal: backslashes first, then quotes.\<close>

definition replace_char :: "char \<Rightarrow> string \<Rightarrow> string \<Rightarrow> string" where
  "replace_char c r s = concat (map (\<lambda>x. if x = c then r else [x]) s)"

definition backslash :: char where "backslash = CHR 92"

definition escape_cypher_string :: "string option \<Rightarrow> string" where
  "escape_cypher_string v =
     replace_char (CHR 39) [backslash, CHR 39] (replace_char backslash [backslash, backslash] (or_empty v))"

subsection \<open>Merging the entities of one name\<close>

text \<open>\<open>str(node.get("uuid"))\<close>.\<close>

definition uid :: "entity_row \<Rightarrow> string" where
  "uid e = str_of (en_uuid e)"

record merge =
  mg_name :: string
  mg_survivor :: string
  mg_victim :: string
  mg_similarity :: rat
  mg_survivor_len :: nat
  mg_victim_len :: nat

definition survivor_key :: "entity_row \<Rightarrow> int \<times> string \<times> string" where
  "survivor_key n = (- int (length (or_empty (en_summary n))), or_empty (en_created_at n), or_empty (en_uuid n))"

definition pick_survivor :: "entity_row list \<Rightarrow> entity_row" where
  "pick_survivor nodes = hd (sort_key survivor_key nodes)"

fun pairs :: "'a list \<Rightarrow> ('a \<times> 'a) list" where
  "pairs [] = []"
| "pairs (x # xs) = map (Pair x) xs @ pairs xs"

type_synonym best = "(rat \<times> entity_row \<times> entity_row) option"

definition weigh_pair :: "rat \<Rightarrow> entity_row \<times> entity_row \<Rightarrow> rat \<times> best \<Rightarrow> rat \<times> best" where
  "weigh_pair threshold p sb =
     (let (seen, best) = sb; (x, y) = p; score = similarity x y in
      (if seen < score then score else seen,
       if threshold \<le> score \<and> (case best of None \<Rightarrow> True | Some (s, _) \<Rightarrow> s < score) then Some (score, x, y) else best))"

definition scan_pairs :: "rat \<Rightarrow> entity_row list \<Rightarrow> rat \<Rightarrow> rat \<times> best" where
  "scan_pairs threshold nodes seen = fold (weigh_pair threshold) (pairs nodes) (seen, None)"

text \<open>What the planning loops accumulate.\<close>

record planning =
  pl_merges :: "merge list"
  pl_victims :: "(string \<times> string) list"
  pl_clusters :: nat
  pl_dup_nodes :: nat
  pl_max_seen :: rat
  pl_mergeable :: nat

text \<open>\<open>round(x, 4)\<close>, ties to even.\<close>

definition round4 :: "rat \<Rightarrow> rat" where
  "round4 x =
     (let n = \<lfloor>10000 * x\<rfloor>; d = 10000 * x - of_int n in
      of_int (if d < 1 / 2 \<or> (d = 1 / 2 \<and> even n) then n else n + 1) / 10000)"

definition note_merge :: "string \<Rightarrow> rat \<Rightarrow> entity_row \<Rightarrow> entity_row \<Rightarrow> planning \<Rightarrow> planning" where
  "note_merge name score keeper loser st =
     st\<lparr>pl_victims := AList.update (uid loser) (uid keeper) (pl_victims st),
        pl_merges := pl_merges st @
          [\<lparr>mg_name = name, mg_survivor = uid keeper, mg_victim = uid loser,
            mg_similarity = round4 score, mg_survivor_len = length (or_empty (en_summary keeper)),
            mg_victim_len = length (or_empty (en_summary loser))\<rparr>]\<rparr>"

lemma pairs_mem: "(x, y) \<in> set (pairs xs) \<Longrightarrow> x \<in> set xs \<and> y \<in> set xs"
  by (induction xs) auto

abbreviation sim :: "entity_row \<times> entity_row \<Rightarrow> rat" where
  "sim p \<equiv> similarity (fst p) (snd p)"

lemma weigh_pair_seen: "fst (weigh_pair threshold p sb) = max (fst sb) (sim p)"
  by (simp add: weigh_pair_def Let_def split_def max_def)

lemma weigh_pair_best:
  "snd (weigh_pair threshold p sb) =
     (if threshold \<le> sim p \<and> (case snd sb of None \<Rightarrow> True | Some (s, _) \<Rightarrow> s < sim p) then Some (sim p, p) else snd sb)"
  by (simp add: weigh_pair_def Let_def split_def)

lemma fold_best_mem:
  "snd (fold (weigh_pair threshold) ps sb) = Some (s, p) \<Longrightarrow>
    snd sb = Some (s, p) \<or> (p \<in> set ps \<and> s = sim p \<and> threshold \<le> s)"
proof (induction ps arbitrary: sb)
  case (Cons q ps)
  from Cons.prems have "snd (fold (weigh_pair threshold) ps (weigh_pair threshold q sb)) = Some (s, p)" by simp
  from Cons.IH [OF this] show ?case
    by (auto simp: weigh_pair_best split: if_splits)
qed simp

lemma scan_pairs_mem:
  assumes "scan_pairs threshold nodes seen = (m, Some (s, x, y))"
  shows "(x, y) \<in> set (pairs nodes)" "s = similarity x y" "threshold \<le> s" "x \<in> set nodes" "y \<in> set nodes"
  using fold_best_mem [of threshold "pairs nodes" "(seen, None)" s "(x, y)"] assms pairs_mem [of x y nodes]
  by (auto simp: scan_pairs_def)

function merge_cluster :: "rat \<Rightarrow> string \<Rightarrow> entity_row list \<Rightarrow> planning \<Rightarrow> planning" where
  "merge_cluster threshold name remaining st =
     (if length remaining \<le> 1 then st
      else case scan_pairs threshold remaining (pl_max_seen st) of
          (seen, None) \<Rightarrow> st\<lparr>pl_max_seen := seen\<rparr>
        | (seen, Some (score, x, y)) \<Rightarrow>
            (let st' = st\<lparr>pl_max_seen := seen, pl_mergeable := pl_mergeable st + 1\<rparr>;
                 keeper = pick_survivor [x, y];
                 loser = (if keeper = x then y else x)
             in if uid keeper = uid loser then st'
                else merge_cluster threshold name
                  (filter (\<lambda>n. uid n \<noteq> uid loser) remaining)
                  (note_merge name score keeper loser st')))"
  by pat_completeness auto

termination
proof (relation "measure (\<lambda>(threshold, name, remaining, st). length remaining)")
  fix threshold name and remaining :: "entity_row list" and st :: planning
    and seen best c score b x y st' keeper loser
  assume scan: "(seen, best) = scan_pairs threshold remaining (pl_max_seen st)" "best = Some c" "(score, b) = c" "(x, y) = b"
    and loser: "loser = (if keeper = x then y else x)"
  have "scan_pairs threshold remaining (pl_max_seen st) = (seen, Some (score, x, y))" using scan by (metis prod.inject)
  with loser have "loser \<in> set remaining" using scan_pairs_mem(4,5) by metis
  then show "((threshold, name, filter (\<lambda>n. uid n \<noteq> uid loser) remaining,
      note_merge name score keeper loser st'), threshold, name, remaining, st)
    \<in> measure (\<lambda>(threshold, name, remaining, st). length remaining)"
    using length_filter_less [of loser remaining "\<lambda>n. uid n \<noteq> uid loser"] by simp
qed simp

declare merge_cluster.simps [simp del]

definition merge_group :: "rat \<Rightarrow> string \<times> entity_row list \<Rightarrow> planning \<Rightarrow> planning" where
  "merge_group threshold g st =
     (if length (snd g) < 2 then st
      else merge_cluster threshold (fst g) (snd g)
        (st\<lparr>pl_clusters := pl_clusters st + 1, pl_dup_nodes := pl_dup_nodes st + length (snd g)\<rparr>))"

definition new_planning :: planning where
  "new_planning = \<lparr>pl_merges = [], pl_victims = [], pl_clusters = 0, pl_dup_nodes = 0, pl_max_seen = 0, pl_mergeable = 0\<rparr>"

definition name_groups :: "entity_row list \<Rightarrow> (string \<times> entity_row list) list" where
  "name_groups entities = group_by (\<lambda>e. or_empty (en_name e)) entities"

definition plan_merges :: "rat \<Rightarrow> entity_row list \<Rightarrow> planning" where
  "plan_merges threshold entities = fold (merge_group threshold) (name_groups entities) new_planning"

subsection \<open>Where the edges of a victim go\<close>

text \<open>Follows the chain of merges to its end; \<open>seen\<close> breaks a cycle.\<close>

function chain_end :: "(string \<times> string) list \<Rightarrow> string list \<Rightarrow> string \<Rightarrow> string" where
  "chain_end victims seen cur =
     (case map_of victims cur of
        Some nxt \<Rightarrow> if cur \<notin> set seen then chain_end victims (cur # seen) nxt else cur
      | None \<Rightarrow> cur)"
  by pat_completeness auto

termination
proof (relation "measure (\<lambda>(victims, seen, cur). card (fst ` set victims - set seen))")
  fix victims :: "(string \<times> string) list" and seen cur nxt
  assume "map_of victims cur = Some nxt" "cur \<notin> set seen"
  then have "cur \<in> fst ` set victims - set seen" by (auto dest: map_of_SomeD intro: rev_image_eqI)
  then have "card (fst ` set victims - set (cur # seen)) < card (fst ` set victims - set seen)"
    by (intro psubset_card_mono) auto
  then show "((victims, cur # seen, nxt), victims, seen, cur) \<in> measure (\<lambda>(victims, seen, cur). card (fst ` set victims - set seen))"
    by simp
qed simp

declare chain_end.simps [simp del]

definition redirect_of :: "(string \<times> string) list \<Rightarrow> string \<Rightarrow> string" where
  "redirect_of victims u = (if u \<in> fst ` set victims then chain_end victims [] u else u)"

definition is_redirected :: "(string \<times> string) list \<Rightarrow> string option \<Rightarrow> bool" where
  "is_redirected victims u \<longleftrightarrow> or_empty u \<in> fst ` set victims"

definition new_end :: "(string \<times> string) list \<Rightarrow> string option \<Rightarrow> string" where
  "new_end victims u = redirect_of victims (or_empty u)"

subsection \<open>Counting what the merges do to the edges\<close>

definition collisions :: "('e \<Rightarrow> 'k) \<Rightarrow> ('e \<Rightarrow> bool) \<Rightarrow> 'e list \<Rightarrow> nat" where
  "collisions key touched edges =
     sum_list (map (\<lambda>(k, group). if length group < 2 then 0
                                  else if list_ex touched group then length group - 1 else 0)
                   (group_by key edges))"

definition mention_key :: "(string \<times> string) list \<Rightarrow> mention_row \<Rightarrow> string \<times> string" where
  "mention_key v m = (or_empty (mn_src m), new_end v (mn_dst m))"

definition mention_touched :: "(string \<times> string) list \<Rightarrow> mention_row \<Rightarrow> bool" where
  "mention_touched v m = is_redirected v (mn_dst m)"

definition relation_key :: "(string \<times> string) list \<Rightarrow> relation_row \<Rightarrow> string \<times> string \<times> string" where
  "relation_key v r =
     (if new_end v (rl_src r) = new_end v (rl_dst r) then (''__self_loop__'', or_empty (rl_src r), or_empty (rl_dst r))
      else (new_end v (rl_src r), new_end v (rl_dst r), or_empty (rl_fact r)))"

definition relation_touched :: "(string \<times> string) list \<Rightarrow> relation_row \<Rightarrow> bool" where
  "relation_touched v r \<longleftrightarrow> is_redirected v (rl_src r) \<or> is_redirected v (rl_dst r)"

definition self_loop :: "(string \<times> string) list \<Rightarrow> relation_row \<Rightarrow> bool" where
  "self_loop v r \<longleftrightarrow> relation_touched v r \<and> new_end v (rl_src r) = new_end v (rl_dst r)"

record dedup_plan =
  dp_threshold :: rat
  dp_merges :: "merge list"
  dp_clusters_scanned :: nat
  dp_duplicate_name_nodes :: nat
  dp_mentions_to_redirect :: nat
  dp_relations_to_redirect :: nat
  dp_mentions_to_drop :: nat
  dp_relations_to_drop :: nat
  dp_self_loops_dropped :: nat
  dp_nodes_to_delete :: nat
  dp_summary_chars_saved :: nat
  dp_episodic_clusters :: nat
  dp_episodic_nodes :: nat
  dp_max_observed :: rat
  dp_mergeable_clusters :: nat

text \<open>The edge counts of the first two loops of the function are overwritten by the ones below.\<close>

definition plan_dedup :: "rat \<Rightarrow> entity_row list \<Rightarrow> mention_row list \<Rightarrow> relation_row list \<Rightarrow> dedup_plan" where
  "plan_dedup threshold entities mentions relations =
     (let st = plan_merges threshold entities; v = pl_victims st in
      \<lparr>dp_threshold = threshold, dp_merges = pl_merges st, dp_clusters_scanned = pl_clusters st,
       dp_duplicate_name_nodes = pl_dup_nodes st,
       dp_mentions_to_redirect = length (filter (mention_touched v) mentions),
       dp_relations_to_redirect = length (filter (relation_touched v) relations),
       dp_mentions_to_drop = collisions (mention_key v) (mention_touched v) mentions,
       dp_relations_to_drop = collisions (relation_key v) (relation_touched v) relations,
       dp_self_loops_dropped = length (filter (self_loop v) relations),
       dp_nodes_to_delete = length v,
       dp_summary_chars_saved = sum_list (map mg_victim_len (pl_merges st)),
       dp_episodic_clusters = 0, dp_episodic_nodes = 0,
       dp_max_observed = pl_max_seen st, dp_mergeable_clusters = pl_mergeable st\<rparr>)"

definition default_dedup_threshold :: rat where "default_dedup_threshold = 4 / 5"

definition plan_is_empty :: "dedup_plan \<Rightarrow> bool" where
  "plan_is_empty p \<longleftrightarrow> dp_merges p = []"

definition total_relations_removed :: "dedup_plan \<Rightarrow> nat" where
  "total_relations_removed p = dp_relations_to_drop p + dp_self_loops_dropped p"

subsection \<open>Folding identical episodes\<close>

record episodic_merge =
  em_name :: string
  em_survivor :: string
  em_victim :: string
  em_content_len :: nat

definition content_key :: "(string \<Rightarrow> string) \<Rightarrow> string option \<Rightarrow> string" where
  "content_key sha1 content = sha1 (or_empty content)"

definition episodic_key :: "(string \<Rightarrow> string) \<Rightarrow> episodic_row \<Rightarrow> string \<times> string" where
  "episodic_key sha1 n = (or_empty (ed_name n), content_key sha1 (ed_content n))"

definition pick_episodic_survivor :: "episodic_row list \<Rightarrow> episodic_row" where
  "pick_episodic_survivor nodes = hd (sort_key (\<lambda>n. (or_empty (ed_created_at n), or_empty (ed_uuid n))) nodes)"

definition fold_group :: "(string \<times> string) \<times> episodic_row list \<Rightarrow> episodic_merge list" where
  "fold_group g =
     (let nodes = snd g; keeper = pick_episodic_survivor nodes in
      if length nodes < 2 then []
      else map (\<lambda>n. \<lparr>em_name = fst (fst g), em_survivor = or_empty (ed_uuid keeper), em_victim = or_empty (ed_uuid n),
                     em_content_len = length (or_empty (ed_content n))\<rparr>)
             (filter (\<lambda>n. or_empty (ed_uuid n) \<noteq> [] \<and> or_empty (ed_uuid n) \<noteq> or_empty (ed_uuid keeper)) nodes))"

definition plan_episodic_exact_dups :: "(string \<Rightarrow> string) \<Rightarrow> episodic_row list \<Rightarrow> episodic_merge list" where
  "plan_episodic_exact_dups sha1 episodics = concat (map fold_group (group_by (episodic_key sha1) episodics))"

definition count_episodic_clusters :: "(string \<Rightarrow> string) \<Rightarrow> episodic_row list \<Rightarrow> nat" where
  "count_episodic_clusters sha1 episodics =
     length (filter (\<lambda>(k, nodes). 1 < length nodes) (group_by (episodic_key sha1) episodics))"


subsection \<open>Groups\<close>

lemma set_first_keys [simp]: "set (first_keys ks) = set ks"
  by (simp add: first_keys_def)

lemma distinct_first_keys [simp]: "distinct (first_keys ks)"
  by (simp add: first_keys_def)

lemma group_by_mem: "(k, g) \<in> set (group_by f xs) \<longleftrightarrow> k \<in> f ` set xs \<and> g = filter (\<lambda>x. f x = k) xs"
  by (auto simp: group_by_def)

lemma group_by_keys: "map fst (group_by f xs) = first_keys (map f xs)"
  by (simp add: group_by_def comp_def)

lemma group_by_distinct: "distinct (map fst (group_by f xs))"
  by (simp add: group_by_keys)

subsection \<open>The loop over one name\<close>

lemma pick_survivor_pair: "pick_survivor [x, y] = (if survivor_key x \<le> survivor_key y then x else y)"
  by (simp add: pick_survivor_def)

lemma pairs_filter: "pairs (filter P xs) = filter (\<lambda>(x, y). P x \<and> P y) (pairs xs)"
  by (induction xs) (auto simp: filter_map comp_def)

lemma pairs_distinct: "distinct (map f xs) \<Longrightarrow> (x, y) \<in> set (pairs xs) \<Longrightarrow> f x \<noteq> f y"
  by (induction xs) auto

lemma fold_best_none:
  "snd (fold (weigh_pair threshold) ps sb) = None \<longleftrightarrow> snd sb = None \<and> (\<forall>p \<in> set ps. sim p < threshold)"
proof (induction ps arbitrary: sb)
  case (Cons p ps)
  have "snd (fold (weigh_pair threshold) (p # ps) sb) = None \<longleftrightarrow>
      snd (weigh_pair threshold p sb) = None \<and> (\<forall>p \<in> set ps. sim p < threshold)"
    using Cons.IH [of "weigh_pair threshold p sb"] by simp
  also have "snd (weigh_pair threshold p sb) = None \<longleftrightarrow> snd sb = None \<and> sim p < threshold"
    by (auto simp: weigh_pair_best)
  finally show ?case by auto
qed simp

lemma fold_seen: "fst (fold (weigh_pair threshold) ps sb) = fold max (map sim ps) (fst sb)"
  by (induction ps arbitrary: sb) (simp_all add: weigh_pair_seen max.commute)

lemma scan_pairs_none:
  "snd (scan_pairs threshold nodes seen) = None \<longleftrightarrow> (\<forall>p \<in> set (pairs nodes). sim p < threshold)"
  by (simp add: scan_pairs_def fold_best_none)

lemma scan_pairs_seen: "fst (scan_pairs threshold nodes seen) = fold max (map sim (pairs nodes)) seen"
  by (simp add: scan_pairs_def fold_seen)

lemma fold_max_absorb: "set xs \<subseteq> set ys \<Longrightarrow> fold max xs (fold max ys (m :: rat)) = fold max ys m"
proof -
  have eq: "fold max zs k = Max (insert k (set zs))" for zs and k :: rat
    using Max.set_eq_fold [of k zs] by simp
  assume sub: "set xs \<subseteq> set ys"
  show ?thesis
    unfolding eq by (rule Max_eqI) (use sub in auto)
qed

lemma update_new: "k \<notin> fst ` set al \<Longrightarrow> AList.update k v al = al @ [(k, v)]"
  by (induction al) auto

text \<open>What one name contributes, for entities with different uuids.\<close>

definition merge_of :: "string \<Rightarrow> entity_row list \<Rightarrow> rat \<Rightarrow> merge \<Rightarrow> bool" where
  "merge_of name nodes threshold m \<longleftrightarrow>
     (\<exists>k \<in> set nodes. \<exists>l \<in> set nodes. uid k \<noteq> uid l \<and> survivor_key k \<le> survivor_key l \<and>
        threshold \<le> similarity k l \<and>
        m = \<lparr>mg_name = name, mg_survivor = uid k, mg_victim = uid l, mg_similarity = round4 (similarity k l),
              mg_survivor_len = length (or_empty (en_summary k)), mg_victim_len = length (or_empty (en_summary l))\<rparr>)"

lemma similarity_commute: "similarity x y = similarity y x"
  by (simp add: similarity_def jaccard_def Int_commute Un_commute conj_commute)

lemma merge_of_mono: "merge_of name nodes threshold m \<Longrightarrow> set nodes \<subseteq> set nodes' \<Longrightarrow> merge_of name nodes' threshold m"
  unfolding merge_of_def by blast

definition unmerged :: "merge list \<Rightarrow> entity_row list \<Rightarrow> entity_row list" where
  "unmerged ms nodes = filter (\<lambda>n. uid n \<notin> mg_victim ` set ms) nodes"

definition no_pair :: "rat \<Rightarrow> entity_row list \<Rightarrow> bool" where
  "no_pair threshold nodes \<longleftrightarrow> (\<forall>p \<in> set (pairs nodes). sim p < threshold)"

definition cluster_run :: "rat \<Rightarrow> string \<Rightarrow> entity_row list \<Rightarrow> planning \<Rightarrow> merge list \<Rightarrow> planning \<Rightarrow> bool" where
  "cluster_run threshold name nodes st ms st' \<longleftrightarrow>
     pl_merges st' = pl_merges st @ ms \<and>
     pl_victims st' = pl_victims st @ map (\<lambda>m. (mg_victim m, mg_survivor m)) ms \<and>
     pl_clusters st' = pl_clusters st \<and> pl_dup_nodes st' = pl_dup_nodes st \<and>
     pl_mergeable st' = pl_mergeable st + length ms \<and>
     pl_max_seen st' = fold max (map sim (pairs nodes)) (pl_max_seen st) \<and>
     (\<forall>m \<in> set ms. merge_of name nodes threshold m) \<and>
     distinct (map mg_victim ms) \<and> no_pair threshold (unmerged ms nodes)"

lemma merge_cluster_run:
  assumes "distinct (map uid nodes)" "uid ` set nodes \<inter> fst ` set (pl_victims st) = {}"
  shows "\<exists>ms. cluster_run threshold name nodes st ms (merge_cluster threshold name nodes st)"
  using assms
proof (induction threshold name nodes st rule: merge_cluster.induct)
  case (1 threshold name nodes st)
  obtain seen best where scan: "scan_pairs threshold nodes (pl_max_seen st) = (seen, best)" by fastforce
  then have seen: "seen = fold max (map sim (pairs nodes)) (pl_max_seen st)"
    using scan_pairs_seen [of threshold nodes "pl_max_seen st"] by simp
  show ?case
  proof (cases "length nodes \<le> 1")
    case True
    then have "pairs nodes = []" by (cases nodes) auto
    with True show ?thesis
      by (intro exI [of _ "[]"]) (simp add: cluster_run_def no_pair_def unmerged_def merge_cluster.simps)
  next
    case long: False
    show ?thesis
    proof (cases best)
      case None
      then have "no_pair threshold nodes"
        using scan scan_pairs_none [of threshold nodes "pl_max_seen st"] by (simp add: no_pair_def)
      with None scan long seen show ?thesis
        by (intro exI [of _ "[]"]) (simp add: cluster_run_def unmerged_def merge_cluster.simps [of _ _ nodes])
    next
      case (Some b)
      obtain score x y where b: "b = (score, x, y)" by (cases b)
      note found = scan_pairs_mem [OF scan [unfolded Some b]]
      define keeper where "keeper = pick_survivor [x, y]"
      define loser where "loser = (if keeper = x then y else x)"
      define rest where "rest = filter (\<lambda>n. uid n \<noteq> uid loser) nodes"
      define st1 where "st1 = st\<lparr>pl_max_seen := seen, pl_mergeable := pl_mergeable st + 1\<rparr>"
      have differ: "uid x \<noteq> uid y" using pairs_distinct [OF "1.prems"(1) found(1)] .
      then have two: "keeper \<in> set nodes" "loser \<in> set nodes" "uid keeper \<noteq> uid loser"
        "survivor_key keeper \<le> survivor_key loser" "similarity keeper loser = score"
        using found similarity_commute [of x y]
        by (auto simp: keeper_def loser_def pick_survivor_pair split: if_splits)
      let ?m = "\<lparr>mg_name = name, mg_survivor = uid keeper, mg_victim = uid loser, mg_similarity = round4 score,
        mg_survivor_len = length (or_empty (en_summary keeper)), mg_victim_len = length (or_empty (en_summary loser))\<rparr>"
      have fresh: "uid loser \<notin> fst ` set (pl_victims st)" using "1.prems"(2) two(2) by blast
      have st2: "pl_victims (note_merge name score keeper loser st1) = pl_victims st @ [(uid loser, uid keeper)]"
        using fresh by (simp add: note_merge_def st1_def update_new)
      have unfold: "merge_cluster threshold name nodes st =
          merge_cluster threshold name rest (note_merge name score keeper loser st1)"
        using long scan Some b two(3)
        by (simp add: merge_cluster.simps [of _ _ nodes] keeper_def loser_def rest_def st1_def Let_def)
      have rest: "set rest \<subseteq> set nodes" "distinct (map uid rest)"
          "uid ` set rest \<inter> fst ` set (pl_victims (note_merge name score keeper loser st1)) = {}"
        using "1.prems" by (auto simp: rest_def distinct_map_filter st2)
      have "\<exists>ms. cluster_run threshold name rest (note_merge name score keeper loser st1) ms
          (merge_cluster threshold name rest (note_merge name score keeper loser st1))"
        using "1.IH" [OF long scan [symmetric] Some b [symmetric] refl st1_def keeper_def loser_def]
          two(3) rest(2,3) by (simp add: rest_def)
      then obtain ms where run: "cluster_run threshold name rest (note_merge name score keeper loser st1) ms
          (merge_cluster threshold name nodes st)" unfolding unfold by blast
      have m: "merge_of name nodes threshold ?m" using two found(3) by (auto simp: merge_of_def)
      have ms: "merge_of name rest threshold m'" if "m' \<in> set ms" for m' using run that by (simp add: cluster_run_def)
      then have vic: "mg_victim m' \<in> uid ` set rest" if "m' \<in> set ms" for m' using that by (fastforce simp: merge_of_def)
      have kept: "unmerged (?m # ms) nodes = unmerged ms rest" by (auto simp: unmerged_def rest_def intro: filter_cong)
      have seen': "fold max (map sim (pairs rest)) seen = seen"
        unfolding seen rest_def pairs_filter by (rule fold_max_absorb) auto
      have "uid loser \<notin> uid ` set rest" by (auto simp: rest_def)
      with run m ms vic kept rest(1) st2 seen' show ?thesis
        by (intro exI [of _ "?m # ms"])
          (auto simp: cluster_run_def note_merge_def st1_def seen intro: merge_of_mono)
    qed
  qed
qed

subsection \<open>All names\<close>

definition group_run :: "rat \<Rightarrow> string \<times> entity_row list \<Rightarrow> merge list \<Rightarrow> bool" where
  "group_run threshold g ms \<longleftrightarrow> (\<forall>m \<in> set ms. merge_of (fst g) (snd g) threshold m) \<and>
     distinct (map mg_victim ms) \<and> no_pair threshold (unmerged ms (snd g))"

definition group_sims :: "(string \<times> entity_row list) list \<Rightarrow> rat list" where
  "group_sims gs = concat (map (\<lambda>g. map sim (pairs (snd g))) gs)"

definition plan_run :: "rat \<Rightarrow> (string \<times> entity_row list) list \<Rightarrow> planning \<Rightarrow> merge list list \<Rightarrow> planning \<Rightarrow> bool" where
  "plan_run threshold gs st mss st' \<longleftrightarrow>
     pl_merges st' = pl_merges st @ concat mss \<and>
     pl_victims st' = pl_victims st @ map (\<lambda>m. (mg_victim m, mg_survivor m)) (concat mss) \<and>
     pl_mergeable st' = pl_mergeable st + length (concat mss) \<and>
     pl_clusters st' = pl_clusters st + length (filter (\<lambda>g. 2 \<le> length (snd g)) gs) \<and>
     pl_max_seen st' = fold max (group_sims gs) (pl_max_seen st) \<and>
     list_all2 (group_run threshold) gs mss"

lemma group_run_victims: "group_run threshold g ms \<Longrightarrow> mg_victim ` set ms \<subseteq> uid ` set (snd g)"
  by (fastforce simp: group_run_def merge_of_def)

lemma merge_group_run:
  assumes "distinct (map uid (snd g))" "uid ` set (snd g) \<inter> fst ` set (pl_victims st) = {}"
  shows "\<exists>ms. plan_run threshold [g] st [ms] (merge_group threshold g st)"
proof (cases "length (snd g) < 2")
  case True
  then have "pairs (snd g) = []" by (cases "snd g") (auto simp: length_Suc_conv)
  with True show ?thesis
    by (intro exI [of _ "[]"])
      (simp add: plan_run_def merge_group_def group_run_def no_pair_def unmerged_def group_sims_def)
next
  case False
  let ?st = "st\<lparr>pl_clusters := pl_clusters st + 1, pl_dup_nodes := pl_dup_nodes st + length (snd g)\<rparr>"
  obtain ms where "cluster_run threshold (fst g) (snd g) ?st ms (merge_cluster threshold (fst g) (snd g) ?st)"
    using merge_cluster_run [of "snd g" ?st threshold "fst g"] assms by auto
  with False show ?thesis
    by (intro exI [of _ ms]) (simp add: plan_run_def cluster_run_def merge_group_def group_run_def group_sims_def)
qed

definition apart :: "(string \<times> entity_row list) list \<Rightarrow> bool" where
  "apart gs \<longleftrightarrow> (\<forall>g \<in> set gs. distinct (map uid (snd g))) \<and>
     sorted_wrt (\<lambda>g h. uid ` set (snd g) \<inter> uid ` set (snd h) = {}) gs"

lemma fold_groups_run:
  "apart gs \<Longrightarrow> \<forall>g \<in> set gs. uid ` set (snd g) \<inter> fst ` set (pl_victims st) = {} \<Longrightarrow>
    \<exists>mss. plan_run threshold gs st mss (fold (merge_group threshold) gs st)"
proof (induction gs arbitrary: st)
  case Nil
  then show ?case by (intro exI [of _ "[]"]) (simp add: plan_run_def group_sims_def)
next
  case (Cons g gs)
  let ?st = "merge_group threshold g st"
  obtain ms where g: "plan_run threshold [g] st [ms] ?st"
    using merge_group_run [of g st threshold] Cons.prems by (auto simp: apart_def)
  then have "group_run threshold g ms" by (simp add: plan_run_def)
  note group_run_victims [OF this]
  have victims: "fst ` set (pl_victims ?st) = fst ` set (pl_victims st) \<union> mg_victim ` set ms"
    using g by (simp add: plan_run_def image_Un image_image)
  have "\<forall>h \<in> set gs. uid ` set (snd h) \<inter> fst ` set (pl_victims ?st) = {}"
  proof
    fix h assume h: "h \<in> set gs"
    have "uid ` set (snd g) \<inter> uid ` set (snd h) = {}" "uid ` set (snd h) \<inter> fst ` set (pl_victims st) = {}"
      using Cons.prems h by (simp_all add: apart_def)
    with \<open>mg_victim ` set ms \<subseteq> uid ` set (snd g)\<close> show "uid ` set (snd h) \<inter> fst ` set (pl_victims ?st) = {}"
      unfolding victims by blast
  qed
  moreover have "apart gs" using Cons.prems(1) by (simp add: apart_def)
  ultimately obtain mss where "plan_run threshold gs ?st mss (fold (merge_group threshold) gs ?st)"
    using Cons.IH by blast
  with g show ?case
    by (intro exI [of _ "ms # mss"]) (auto simp: plan_run_def group_sims_def)
qed

lemma name_groups_mem:
  "g \<in> set (name_groups entities) \<Longrightarrow> e \<in> set (snd g) \<Longrightarrow> e \<in> set entities \<and> or_empty (en_name e) = fst g"
  by (auto simp: name_groups_def group_by_def)

lemma name_groups_apart:
  assumes "distinct (map uid entities)"
  shows "apart (name_groups entities)"
proof -
  let ?gs = "name_groups entities"
  have member: "g = (k, filter (\<lambda>e. or_empty (en_name e) = k) entities)" if "g \<in> set ?gs" "k = fst g" for g k
    using that by (auto simp: name_groups_def group_by_def)
  have "uid ` set (snd (?gs ! i)) \<inter> uid ` set (snd (?gs ! j)) = {}" if "i < j" "j < length ?gs" for i j
  proof -
    have "fst (?gs ! i) \<noteq> fst (?gs ! j)"
      using that group_by_distinct [of "\<lambda>e. or_empty (en_name e)" entities]
      by (simp add: name_groups_def distinct_conv_nth)
    moreover have "e = e'" if "e \<in> set entities" "e' \<in> set entities" "uid e = uid e'" for e e'
      using assms that by (auto simp: distinct_map dest: inj_onD)
    moreover have "a \<in> set entities \<and> or_empty (en_name a) = fst (?gs ! n)"
      if "n < length ?gs" "a \<in> set (snd (?gs ! n))" for a n
      using name_groups_mem [OF nth_mem [OF that(1)] that(2)] .
    ultimately have "uid a \<noteq> uid b" if "a \<in> set (snd (?gs ! i))" "b \<in> set (snd (?gs ! j))" for a b
      using that \<open>i < j\<close> \<open>j < length ?gs\<close> by (metis less_trans)
    then show ?thesis by blast
  qed
  then have "sorted_wrt (\<lambda>g h. uid ` set (snd g) \<inter> uid ` set (snd h) = {}) ?gs"
    by (simp add: sorted_wrt_iff_nth_less)
  moreover have "distinct (map uid (snd g))" if "g \<in> set ?gs" for g
    using member [OF that] assms by (metis distinct_map_filter snd_conv)
  ultimately show ?thesis by (simp add: apart_def)
qed

lemma plan_merges_run:
  "distinct (map uid entities) \<Longrightarrow>
    \<exists>mss. plan_run threshold (name_groups entities) new_planning mss (plan_merges threshold entities)"
  unfolding plan_merges_def using fold_groups_run [OF name_groups_apart, of entities new_planning threshold]
  by (simp add: new_planning_def)

definition same_name :: "entity_row \<Rightarrow> entity_row \<Rightarrow> bool" where
  "same_name x y \<longleftrightarrow> or_empty (en_name x) = or_empty (en_name y)"

lemma name_group_exists:
  "x \<in> set entities \<Longrightarrow>
    \<exists>g \<in> set (name_groups entities). fst g = or_empty (en_name x) \<and>
      snd g = filter (\<lambda>e. or_empty (en_name e) = or_empty (en_name x)) entities"
  by (auto simp: name_groups_def group_by_def)

lemma pairs_of_two: "x \<in> set xs \<Longrightarrow> y \<in> set xs \<Longrightarrow> x \<noteq> y \<Longrightarrow> (x, y) \<in> set (pairs xs) \<or> (y, x) \<in> set (pairs xs)"
  by (induction xs) auto

lemma list_all2_mem2: "list_all2 P xs ys \<Longrightarrow> y \<in> set ys \<Longrightarrow> \<exists>x \<in> set xs. P x y"
  by (metis in_set_conv_nth list_all2_conv_all_nth)

lemma list_all2_mem1: "list_all2 P xs ys \<Longrightarrow> x \<in> set xs \<Longrightarrow> \<exists>y \<in> set ys. P x y"
  by (metis in_set_conv_nth list_all2_conv_all_nth)

lemma victims_of_groups_distinct:
  "apart gs \<Longrightarrow> list_all2 (group_run threshold) gs mss \<Longrightarrow> distinct (map mg_victim (concat mss))"
proof (induction gs mss rule: list_induct2')
  case (4 g gs ms mss)
  have "mg_victim ` set ms \<subseteq> uid ` set (snd g)" using 4(3) group_run_victims [of threshold g ms] by simp
  moreover have "mg_victim ` set (concat mss) \<inter> uid ` set (snd g) = {}"
  proof -
    have "mg_victim ` set ms' \<inter> uid ` set (snd g) = {}" if ms': "ms' \<in> set mss" for ms'
    proof -
      obtain h where h: "h \<in> set gs" "group_run threshold h ms'"
        using list_all2_mem2 [of "group_run threshold" gs mss ms'] 4(3) ms' by auto
      then have "uid ` set (snd g) \<inter> uid ` set (snd h) = {}" using 4(2) by (simp add: apart_def)
      with group_run_victims [OF h(2)] show ?thesis by blast
    qed
    then show ?thesis by (auto simp: disjoint_iff)
  qed
  ultimately have disjoint: "mg_victim ` set ms \<inter> mg_victim ` set (concat mss) = {}" by blast
  have "apart gs" using 4(2) by (simp add: apart_def)
  moreover have "list_all2 (group_run threshold) gs mss" "distinct (map mg_victim ms)"
    using 4(3) by (simp, simp add: group_run_def)
  ultimately show ?case using 4(1) disjoint by simp
qed auto

lemma plan_facts:
  assumes "distinct (map uid entities)" and st: "plan_merges threshold entities = st"
  shows "\<And>m. m \<in> set (pl_merges st) \<Longrightarrow>
      \<exists>k \<in> set entities. \<exists>l \<in> set entities. same_name k l \<and> uid k = mg_survivor m \<and> uid l = mg_victim m \<and> uid k \<noteq> uid l \<and>
        survivor_key k \<le> survivor_key l \<and> threshold \<le> similarity k l \<and> mg_similarity m = round4 (similarity k l) \<and>
        mg_name m = or_empty (en_name k) \<and> mg_victim_len m = length (or_empty (en_summary l))"
    "pl_victims st = map (\<lambda>m. (mg_victim m, mg_survivor m)) (pl_merges st)"
    "distinct (map mg_victim (pl_merges st))"
    "\<And>x y. x \<in> set entities \<Longrightarrow> y \<in> set entities \<Longrightarrow> same_name x y \<Longrightarrow> x \<noteq> y \<Longrightarrow>
      uid x \<notin> mg_victim ` set (pl_merges st) \<Longrightarrow> uid y \<notin> mg_victim ` set (pl_merges st) \<Longrightarrow> similarity x y < threshold"
    "pl_mergeable st = length (pl_merges st)"
    "pl_max_seen st = fold max (group_sims (name_groups entities)) 0"
proof -
  obtain mss where run: "plan_run threshold (name_groups entities) new_planning mss st"
    using plan_merges_run [OF assms(1), of threshold] st by blast
  then have all: "list_all2 (group_run threshold) (name_groups entities) mss"
    and merges: "pl_merges st = concat mss"
    by (simp_all add: plan_run_def new_planning_def)
  show "pl_victims st = map (\<lambda>m. (mg_victim m, mg_survivor m)) (pl_merges st)"
    "pl_mergeable st = length (pl_merges st)"
    "pl_max_seen st = fold max (group_sims (name_groups entities)) 0"
    using run by (simp_all add: plan_run_def new_planning_def)
  show "distinct (map mg_victim (pl_merges st))"
    unfolding merges by (rule victims_of_groups_distinct [OF name_groups_apart [OF assms(1)] all])
  show "\<exists>k \<in> set entities. \<exists>l \<in> set entities. same_name k l \<and> uid k = mg_survivor m \<and> uid l = mg_victim m \<and>
        uid k \<noteq> uid l \<and> survivor_key k \<le> survivor_key l \<and> threshold \<le> similarity k l \<and>
        mg_similarity m = round4 (similarity k l) \<and> mg_name m = or_empty (en_name k) \<and>
        mg_victim_len m = length (or_empty (en_summary l))"
    if m: "m \<in> set (pl_merges st)" for m
  proof -
    obtain ms where "ms \<in> set mss" "m \<in> set ms" using m merges by auto
    then obtain g where g: "g \<in> set (name_groups entities)" "merge_of (fst g) (snd g) threshold m"
      using list_all2_mem2 [OF all] by (fastforce simp: group_run_def)
    from g(2) obtain k l where kl: "k \<in> set (snd g)" "l \<in> set (snd g)" "uid k \<noteq> uid l" "survivor_key k \<le> survivor_key l"
      "threshold \<le> similarity k l" "m = \<lparr>mg_name = fst g, mg_survivor = uid k, mg_victim = uid l, mg_similarity = round4 (similarity k l),
         mg_survivor_len = length (or_empty (en_summary k)), mg_victim_len = length (or_empty (en_summary l))\<rparr>"
      unfolding merge_of_def by blast
    note name_groups_mem [OF g(1) kl(1)] name_groups_mem [OF g(1) kl(2)]
    with kl(3-6) show ?thesis
      by (intro bexI [of _ k] bexI [of _ l]) (simp_all add: same_name_def)
  qed
  show "similarity x y < threshold"
    if xy: "x \<in> set entities" "y \<in> set entities" "same_name x y" "x \<noteq> y"
      "uid x \<notin> mg_victim ` set (pl_merges st)" "uid y \<notin> mg_victim ` set (pl_merges st)" for x y
  proof -
    obtain g where g: "g \<in> set (name_groups entities)"
      "snd g = filter (\<lambda>e. or_empty (en_name e) = or_empty (en_name x)) entities"
      using name_group_exists [OF xy(1)] by blast
    then obtain ms where ms: "ms \<in> set mss" "no_pair threshold (unmerged ms (snd g))"
      using list_all2_mem1 [OF all] by (fastforce simp: group_run_def)
    have "x \<in> set (unmerged ms (snd g))" "y \<in> set (unmerged ms (snd g))"
      using xy ms(1) merges g(2) by (auto simp: unmerged_def same_name_def)
    then show ?thesis
      using pairs_of_two [of x "unmerged ms (snd g)" y] ms(2) xy(4) similarity_commute [of x y]
      by (auto simp: no_pair_def)
  qed
qed

subsection \<open>Chains of merges\<close>

text \<open>A redirection that strictly lowers a rank ends at a node that is not redirected, and the end is related to
  the start by every transitive relation that holds along the links.\<close>

lemma chain_end_ranked:
  fixes rank :: "string \<Rightarrow> 'r :: order"
  shows "(\<And>a b. map_of v a = Some b \<Longrightarrow> rank b < rank a) \<Longrightarrow> (\<And>a b. map_of v a = Some b \<Longrightarrow> R a b) \<Longrightarrow> transp R \<Longrightarrow>
    \<forall>s \<in> set seen. rank cur < rank s \<Longrightarrow>
    map_of v (chain_end v seen cur) = None \<and> (chain_end v seen cur = cur \<or> R cur (chain_end v seen cur))"
proof (induction v seen cur rule: chain_end.induct)
  case (1 v seen cur)
  show ?case
  proof (cases "map_of v cur")
    case None
    then show ?thesis by (simp add: chain_end.simps)
  next
    case (Some nxt)
    have fresh: "cur \<notin> set seen" using "1.prems"(4) by auto
    have "\<forall>s \<in> set (cur # seen). rank nxt < rank s"
      using "1.prems"(1) [OF Some] "1.prems"(4) by auto
    then have IH: "map_of v (chain_end v (cur # seen) nxt) = None \<and>
        (chain_end v (cur # seen) nxt = nxt \<or> R nxt (chain_end v (cur # seen) nxt))"
      using "1.IH" [OF Some fresh] "1.prems"(1-3) by blast
    have "chain_end v seen cur = chain_end v (cur # seen) nxt"
      using Some fresh by (simp add: chain_end.simps [of v seen])
    with IH "1.prems"(2) [OF Some] "1.prems"(3) show ?thesis by (auto dest: transpD)
  qed
qed

definition entity_at :: "entity_row list \<Rightarrow> string \<Rightarrow> entity_row" where
  "entity_at entities u = the (find (\<lambda>e. uid e = u) entities)"

lemma entity_at_uid:
  assumes "distinct (map uid entities)" "e \<in> set entities"
  shows "entity_at entities (uid e) = e"
proof -
  obtain x where x: "find (\<lambda>x. uid x = uid e) entities = Some x"
    using assms(2) by (cases "find (\<lambda>x. uid x = uid e) entities") (auto simp: find_None_iff)
  then have "x \<in> set entities" "uid x = uid e" by (auto simp: find_Some_iff)
  with assms have "x = e" by (auto simp: distinct_map dest: inj_onD)
  with x show ?thesis by (simp add: entity_at_def)
qed

lemma survivor_key_uuid: "en_uuid k \<noteq> None \<Longrightarrow> en_uuid l \<noteq> None \<Longrightarrow> survivor_key k = survivor_key l \<Longrightarrow> uid k = uid l"
  by (auto simp: survivor_key_def uid_def str_of_def or_empty_def)

lemma survivor_key_summary:
  "survivor_key k \<le> survivor_key l \<Longrightarrow> length (or_empty (en_summary l)) \<le> length (or_empty (en_summary k))"
  by (auto simp: survivor_key_def less_eq_prod_def)

definition entities_ok :: "entity_row list \<Rightarrow> bool" where
  "entities_ok entities \<longleftrightarrow> distinct (map uid entities) \<and> (\<forall>e \<in> set entities. en_uuid e \<noteq> None)"

lemma uid_inj: "entities_ok entities \<Longrightarrow> x \<in> set entities \<Longrightarrow> y \<in> set entities \<Longrightarrow> uid x = uid y \<Longrightarrow> x = y"
  by (auto simp: entities_ok_def distinct_map dest: inj_onD)

text \<open>The entity named \<open>a\<close> may be folded into the one named \<open>b\<close>.\<close>

definition folds_into :: "entity_row list \<Rightarrow> string \<Rightarrow> string \<Rightarrow> bool" where
  "folds_into entities a b \<longleftrightarrow>
     (\<exists>l \<in> set entities. \<exists>k \<in> set entities. uid l = a \<and> uid k = b \<and> same_name k l \<and> survivor_key k < survivor_key l)"

lemma folds_into_trans:
  assumes "entities_ok entities"
  shows "transp (folds_into entities)"
proof (rule transpI)
  fix a b c
  assume "folds_into entities a b" "folds_into entities b c"
  then obtain l k l' k' where lk: "l \<in> set entities" "k \<in> set entities" "uid l = a" "uid k = b" "same_name k l"
    "survivor_key k < survivor_key l" "l' \<in> set entities" "k' \<in> set entities" "uid l' = b" "uid k' = c" "same_name k' l'"
    "survivor_key k' < survivor_key l'" unfolding folds_into_def by blast
  then have "l' = k" using uid_inj [OF assms] by metis
  with lk show "folds_into entities a c"
    unfolding folds_into_def same_name_def by (metis order_less_trans)
qed

lemma merge_links:
  assumes "entities_ok entities" "plan_merges threshold entities = st" "map_of (pl_victims st) a = Some b"
  shows "folds_into entities a b"
proof -
  have dist: "distinct (map uid entities)" using assms(1) by (simp add: entities_ok_def)
  note facts = plan_facts [OF dist assms(2)]
  have "(a, b) \<in> set (pl_victims st)" using assms(3) by (rule map_of_SomeD)
  then obtain m where "m \<in> set (pl_merges st)" "a = mg_victim m" "b = mg_survivor m" by (auto simp: facts(2))
  with facts(1) obtain k l where kl: "k \<in> set entities" "l \<in> set entities" "same_name k l" "uid k = b" "uid l = a"
    "uid k \<noteq> uid l" "survivor_key k \<le> survivor_key l" by blast
  then have "survivor_key k \<noteq> survivor_key l" using survivor_key_uuid assms(1) unfolding entities_ok_def by blast
  with kl show ?thesis unfolding folds_into_def by force
qed

lemma redirect_end:
  assumes "entities_ok entities" "plan_merges threshold entities = st" "l \<in> set entities"
  shows "\<exists>k \<in> set entities. uid k = redirect_of (pl_victims st) (uid l) \<and> same_name k l \<and>
    survivor_key k \<le> survivor_key l \<and> uid k \<notin> fst ` set (pl_victims st)"
proof (cases "uid l \<in> fst ` set (pl_victims st)")
  case False
  with assms(3) show ?thesis by (intro bexI [of _ l]) (auto simp: redirect_of_def same_name_def)
next
  case True
  let ?v = "pl_victims st" and ?u = "redirect_of (pl_victims st) (uid l)"
  have dist: "distinct (map uid entities)" using assms(1) by (simp add: entities_ok_def)
  have down: "survivor_key (entity_at entities b) < survivor_key (entity_at entities a)" if "map_of ?v a = Some b" for a b
    using merge_links [OF assms(1,2) that] entity_at_uid [OF dist] by (auto simp: folds_into_def)
  have u: "?u = chain_end ?v [] (uid l)" using True by (simp add: redirect_of_def)
  have chain: "map_of ?v ?u = None" "?u = uid l \<or> folds_into entities (uid l) ?u"
    using chain_end_ranked [where rank = "\<lambda>u. survivor_key (entity_at entities u)" and R = "folds_into entities" and v = ?v,
        OF down merge_links [OF assms(1,2)] folds_into_trans [OF assms(1)], of "[]" "uid l"] by (simp_all add: u)
  have "?u \<noteq> uid l" using chain(1) True by (metis map_of_eq_None_iff)
  with chain(2) obtain l' k where "l' \<in> set entities" "k \<in> set entities" "uid l' = uid l" "uid k = ?u" "same_name k l'"
    "survivor_key k < survivor_key l'" unfolding folds_into_def by blast
  moreover have "l' = l" using uid_inj [OF assms(1)] calculation(1,3) assms(3) by blast
  ultimately show ?thesis using chain(1) by (intro bexI [of _ k]) (auto simp: map_of_eq_None_iff)
qed

text \<open>A plan folds only what it may: every planned merge joins two entities of one name whose summaries reach the
  threshold, into the one with at least as much summary text; no entity is folded twice, and following
  the merges from a victim ends at an entity of the same name that stays in the graph and has at least as much text.\<close>

theorem plan_merges_justified:
  assumes "entities_ok entities" and "plan_merges threshold entities = st"
  shows "distinct (map mg_victim (pl_merges st)) \<and>
    (\<forall>m \<in> set (pl_merges st). \<exists>k \<in> set entities. \<exists>l \<in> set entities.
       uid k = mg_survivor m \<and> uid l = mg_victim m \<and> uid k \<noteq> uid l \<and> same_name k l \<and> threshold \<le> similarity k l \<and>
       length (or_empty (en_summary l)) \<le> length (or_empty (en_summary k))) \<and>
    (\<forall>l \<in> set entities. \<exists>k \<in> set entities. uid k = redirect_of (pl_victims st) (uid l) \<and> same_name k l \<and>
       uid k \<notin> mg_victim ` set (pl_merges st) \<and>
       length (or_empty (en_summary l)) \<le> length (or_empty (en_summary k)))"
proof (intro conjI ballI)
  have dist: "distinct (map uid entities)" using assms(1) by (simp add: entities_ok_def)
  note facts = plan_facts [OF dist assms(2)]
  show "distinct (map mg_victim (pl_merges st))" by (rule facts(3))
  show "\<exists>k \<in> set entities. \<exists>l \<in> set entities. uid k = mg_survivor m \<and> uid l = mg_victim m \<and> uid k \<noteq> uid l \<and>
      same_name k l \<and> threshold \<le> similarity k l \<and>
      length (or_empty (en_summary l)) \<le> length (or_empty (en_summary k))" if "m \<in> set (pl_merges st)" for m
    using facts(1) [OF that] survivor_key_summary by blast
  show "\<exists>k \<in> set entities. uid k = redirect_of (pl_victims st) (uid l) \<and> same_name k l \<and>
      uid k \<notin> mg_victim ` set (pl_merges st) \<and>
      length (or_empty (en_summary l)) \<le> length (or_empty (en_summary k))" if "l \<in> set entities" for l
    using redirect_end [OF assms that] survivor_key_summary facts(2) by (auto simp: image_image)
qed

text \<open>Three notes on one subject: two restate each other, the third does not.\<close>

definition note_of :: "string \<Rightarrow> string \<Rightarrow> entity_row" where
  "note_of u t = \<lparr>en_uuid = Some u, en_name = Some ''n'', en_summary = Some t, en_created_at = None\<rparr>"

definition three_notes :: "entity_row list" where
  "three_notes = [note_of ''a'' ''b c'', note_of ''d'' ''b c b'', note_of ''e'' ''x'']"

lemma three_notes_ok: "entities_ok three_notes"
  by (simp add: three_notes_def note_of_def entities_ok_def uid_def str_of_def)

theorem plan_merges_justified_witness:
  "map (\<lambda>m. (mg_victim m, mg_survivor m)) (pl_merges (plan_merges (4 / 5) three_notes)) = [(''a'', ''d'')] \<and>
    distinct (map mg_victim (pl_merges (plan_merges (4 / 5) three_notes)))"
proof -
  have "map (\<lambda>m. (mg_victim m, mg_survivor m)) (pl_merges (plan_merges (4 / 5) three_notes)) = [(''a'', ''d'')]"
    by code_simp
  with plan_merges_justified [OF three_notes_ok refl, of "4 / 5"] show ?thesis by blast
qed

lemma fold_max_ge: "(x :: rat) \<in> set xs \<Longrightarrow> x \<le> fold max xs m"
  using Max.set_eq_fold [of m xs] Max_ge [of "insert m (set xs)" x] by simp

lemma max_seen_ge:
  assumes "distinct (map uid entities)" "plan_merges threshold entities = st"
    and "x \<in> set entities" "y \<in> set entities" "same_name x y" "x \<noteq> y"
  shows "similarity x y \<le> pl_max_seen st"
proof -
  obtain g where g: "g \<in> set (name_groups entities)"
    "snd g = filter (\<lambda>e. or_empty (en_name e) = or_empty (en_name x)) entities"
    using name_group_exists [OF assms(3)] by blast
  then have "x \<in> set (snd g)" "y \<in> set (snd g)" using assms(3-5) by (auto simp: same_name_def)
  then have "(x, y) \<in> set (pairs (snd g)) \<or> (y, x) \<in> set (pairs (snd g))" using pairs_of_two assms(6) by metis
  then have "similarity x y \<in> sim ` set (pairs (snd g))" by (force simp: similarity_commute [of x y])
  then have "similarity x y \<in> set (group_sims (name_groups entities))" using g(1) by (auto simp: group_sims_def)
  then show ?thesis using plan_facts(6) [OF assms(1,2)] fold_max_ge by simp
qed

lemma no_merges_iff:
  assumes "distinct (map uid entities)"
  shows "pl_merges (plan_merges threshold entities) = [] \<longleftrightarrow>
    (\<forall>x \<in> set entities. \<forall>y \<in> set entities. same_name x y \<and> x \<noteq> y \<longrightarrow> similarity x y < threshold)"
    (is "?none \<longleftrightarrow> ?below")
proof
  note facts = plan_facts [OF assms refl]
  show ?below if ?none using facts(4) that by simp
  show ?none if below: ?below
  proof (rule ccontr)
    assume "\<not> ?none"
    then obtain m where "m \<in> set (pl_merges (plan_merges threshold entities))" by (meson list.set_sel(1))
    with facts(1) obtain k l where "k \<in> set entities" "l \<in> set entities" "same_name k l" "uid k \<noteq> uid l" "threshold \<le> similarity k l"
      by blast
    with below show False by force
  qed
qed

text \<open>A plan leaves nothing to merge: two entities of one name that it keeps are below the threshold, so planning again on
  what it keeps plans nothing; it plans nothing exactly if no pair of one name reaches the threshold, and the
  similarity it reports is at least that of every such pair.\<close>

theorem dedup_plan_complete:
  assumes "distinct (map uid entities)" and "plan_dedup threshold entities mentions relations = plan"
    and "filter (\<lambda>e. uid e \<notin> mg_victim ` set (dp_merges plan)) entities = kept"
  shows "(\<forall>x \<in> set kept. \<forall>y \<in> set kept. same_name x y \<and> x \<noteq> y \<longrightarrow> similarity x y < threshold) \<and>
    dp_merges (plan_dedup threshold kept mentions relations) = [] \<and>
    (dp_merges plan = [] \<longleftrightarrow>
      (\<forall>x \<in> set entities. \<forall>y \<in> set entities. same_name x y \<and> x \<noteq> y \<longrightarrow> similarity x y < threshold)) \<and>
    (\<forall>x \<in> set entities. \<forall>y \<in> set entities. same_name x y \<and> x \<noteq> y \<longrightarrow> similarity x y \<le> dp_max_observed plan)"
proof -
  have plan: "dp_merges plan = pl_merges (plan_merges threshold entities)"
    "dp_max_observed plan = pl_max_seen (plan_merges threshold entities)"
    using assms(2) by (auto simp: plan_dedup_def Let_def)
  have below: "\<forall>x \<in> set kept. \<forall>y \<in> set kept. same_name x y \<and> x \<noteq> y \<longrightarrow> similarity x y < threshold"
    using plan_facts(4) [OF assms(1) refl] assms(3) plan(1) by auto
  moreover have "distinct (map uid kept)" using assms(1,3) by (auto simp: distinct_map_filter)
  ultimately have "dp_merges (plan_dedup threshold kept mentions relations) = []"
    using no_merges_iff [of kept threshold] by (simp add: plan_dedup_def Let_def)
  with below show ?thesis
    using no_merges_iff [OF assms(1), of threshold] max_seen_ge [OF assms(1) refl] plan by simp
qed

theorem dedup_plan_complete_witness:
  "dp_merges (plan_dedup (4 / 5) (filter (\<lambda>e. uid e \<noteq> ''a'') three_notes) [] []) = []"
proof -
  have "mg_victim ` set (dp_merges (plan_dedup (4 / 5) three_notes [] [])) = {''a''}" by code_simp
  then have "filter (\<lambda>e. uid e \<notin> mg_victim ` set (dp_merges (plan_dedup (4 / 5) three_notes [] []))) three_notes =
      filter (\<lambda>e. uid e \<noteq> ''a'') three_notes" by simp
  moreover have "distinct (map uid three_notes)" using three_notes_ok by (simp add: entities_ok_def)
  ultimately show ?thesis using dedup_plan_complete [of three_notes "4 / 5" "[]" "[]"] by blast
qed

subsection \<open>What the counters count\<close>

text \<open>The number reported as mergeable clusters is the number of merges.\<close>

lemma mergeable_counts_merges:
  "distinct (map uid entities) \<Longrightarrow>
    dp_mergeable_clusters (plan_dedup threshold entities mentions relations) =
    length (dp_merges (plan_dedup threshold entities mentions relations))"
  using plan_facts(5) [of entities threshold] by (simp add: plan_dedup_def Let_def)

lemma nodes_to_delete_merges:
  "distinct (map uid entities) \<Longrightarrow>
    dp_nodes_to_delete (plan_dedup threshold entities mentions relations) =
    length (dp_merges (plan_dedup threshold entities mentions relations))"
  using plan_facts(2) [of entities threshold] by (simp add: plan_dedup_def Let_def)

text \<open>Two facts between the ends of a merge are two self-loops and one duplicate: three removals out of two edges.\<close>

lemma self_loops_counted_twice:
  "\<exists>entities relations. distinct (map uid entities) \<and>
     length relations < total_relations_removed (plan_dedup default_dedup_threshold entities [] relations)"
proof -
  let ?e = "\<lambda>u. \<lparr>en_uuid = Some u, en_name = Some ''n'', en_summary = Some ''text'', en_created_at = None\<rparr>"
  let ?r = "\<lparr>rl_src = Some ''a'', rl_dst = Some ''b'', rl_fact = None\<rparr>"
  show ?thesis
    by (rule exI [of _ "[?e ''a'', ?e ''b'']"], rule exI [of _ "[?r, ?r]"]) code_simp
qed

subsection \<open>Episodes\<close>

lemma hd_sort_key:
  assumes "xs \<noteq> []"
  shows "hd (sort_key f xs) \<in> set xs" "x \<in> set xs \<Longrightarrow> f (hd (sort_key f xs)) \<le> f x"
proof -
  obtain y ys where s: "sort_key f xs = y # ys" using assms by (metis list.exhaust sort_key_simps(1) set_empty set_sort)
  then have "set (y # ys) = set xs" "sorted (map f (y # ys))" by (metis set_sort, metis sorted_sort_key)
  with s show "hd (sort_key f xs) \<in> set xs" "x \<in> set xs \<Longrightarrow> f (hd (sort_key f xs)) \<le> f x" by auto
qed

lemma distinct_concat_groups:
  "distinct (map fst gs) \<Longrightarrow> \<forall>g \<in> set gs. distinct (map h (F g)) \<Longrightarrow>
    \<forall>g \<in> set gs. \<forall>g' \<in> set gs. \<forall>x \<in> set (F g). \<forall>y \<in> set (F g'). h x = h y \<longrightarrow> fst g = fst g' \<Longrightarrow>
    distinct (map h (concat (map F gs)))"
proof (induction gs)
  case (Cons g gs)
  have "h x \<noteq> h y" if "x \<in> set (F g)" "g' \<in> set gs" "y \<in> set (F g')" for x y g'
    using Cons.prems(1,3) that by (metis distinct.simps(2) image_eqI list.set_intros(1,2) list.set_map list.simps(9))
  then have "h ` set (F g) \<inter> h ` set (concat (map F gs)) = {}" by auto
  with Cons show ?case by simp
qed simp

lemma fold_group_mem:
  "m \<in> set (fold_group g) \<longleftrightarrow> 2 \<le> length (snd g) \<and>
    (\<exists>n \<in> set (snd g). or_empty (ed_uuid n) \<noteq> [] \<and> or_empty (ed_uuid n) \<noteq> or_empty (ed_uuid (pick_episodic_survivor (snd g))) \<and>
      m = \<lparr>em_name = fst (fst g), em_survivor = or_empty (ed_uuid (pick_episodic_survivor (snd g))),
           em_victim = or_empty (ed_uuid n), em_content_len = length (or_empty (ed_content n))\<rparr>)"
  by (auto simp: fold_group_def Let_def)

lemma fold_group_distinct: "distinct (map (\<lambda>n. or_empty (ed_uuid n)) (snd g)) \<Longrightarrow> distinct (map em_victim (fold_group g))"
  by (simp add: fold_group_def Let_def comp_def distinct_map_filter)

abbreviation eid :: "episodic_row \<Rightarrow> string" where
  "eid n \<equiv> or_empty (ed_uuid n)"

definition episodes_ok :: "episodic_row list \<Rightarrow> bool" where
  "episodes_ok es \<longleftrightarrow> distinct (map ed_uuid es) \<and> (\<forall>e \<in> set es. ed_uuid e \<noteq> None \<and> ed_uuid e \<noteq> Some [])"

lemma eid_some: "episodes_ok es \<Longrightarrow> e \<in> set es \<Longrightarrow> ed_uuid e = Some (eid e) \<and> eid e \<noteq> []"
  by (auto simp: episodes_ok_def or_empty_def split: option.splits)

lemma eid_inj: "episodes_ok es \<Longrightarrow> x \<in> set es \<Longrightarrow> y \<in> set es \<Longrightarrow> eid x = eid y \<Longrightarrow> x = y"
  using eid_some [of es x] eid_some [of es y] by (auto simp: episodes_ok_def distinct_map dest: inj_onD)

lemma episodic_group:
  assumes "episodes_ok es" "g \<in> set (group_by (episodic_key sha1) es)"
  shows "set (snd g) \<subseteq> set es" "\<forall>n \<in> set (snd g). episodic_key sha1 n = fst g" "distinct (map eid (snd g))"
  using assms eid_inj [OF assms(1)]
  by (auto simp: group_by_def distinct_map inj_on_def episodes_ok_def intro!: distinct_filter)

lemma same_group:
  assumes "episodes_ok es" "g \<in> set (group_by (episodic_key sha1) es)" "g' \<in> set (group_by (episodic_key sha1) es)"
    and "n \<in> set (snd g)" "n' \<in> set (snd g')" "eid n = eid n'"
  shows "n = n' \<and> g = g'"
proof -
  note G = episodic_group [OF assms(1,2)] episodic_group [OF assms(1,3)]
  have "n = n'" using eid_inj [OF assms(1)] G(1,4) assms(4-6) by (meson subsetD)
  moreover have "fst g = fst g'" using G(2,5) assms(4,5) calculation by auto
  ultimately show ?thesis using assms(2,3) by (auto simp: group_by_def prod_eq_iff)
qed

lemma pick_episodic:
  assumes "nodes \<noteq> []"
  shows "pick_episodic_survivor nodes \<in> set nodes"
    "n \<in> set nodes \<Longrightarrow> or_empty (ed_created_at (pick_episodic_survivor nodes)) \<le> or_empty (ed_created_at n)"
  using hd_sort_key(1) [OF assms, of "\<lambda>n. (or_empty (ed_created_at n), eid n)"]
    hd_sort_key(2) [OF assms, of n "\<lambda>n. (or_empty (ed_created_at n), eid n)"]
  by (auto simp: pick_episodic_survivor_def)

lemma episodic_merge_mem:
  assumes "episodes_ok es"
  shows "m \<in> set (plan_episodic_exact_dups sha1 es) \<longleftrightarrow>
    (\<exists>g \<in> set (group_by (episodic_key sha1) es). \<exists>n \<in> set (snd g). 2 \<le> length (snd g) \<and>
      eid n \<noteq> eid (pick_episodic_survivor (snd g)) \<and>
      m = \<lparr>em_name = fst (fst g), em_survivor = eid (pick_episodic_survivor (snd g)), em_victim = eid n,
           em_content_len = length (or_empty (ed_content n))\<rparr>)"
proof -
  have "m \<in> set (plan_episodic_exact_dups sha1 es) \<longleftrightarrow> (\<exists>g \<in> set (group_by (episodic_key sha1) es). m \<in> set (fold_group g))"
    by (simp add: plan_episodic_exact_dups_def)
  moreover have "eid n \<noteq> []" if "g \<in> set (group_by (episodic_key sha1) es)" "n \<in> set (snd g)" for g n
    using episodic_group(1) [OF assms that(1)] that(2) eid_some [OF assms] by blast
  ultimately show ?thesis unfolding fold_group_mem by blast
qed

lemma episodic_merge_sound:
  assumes "episodes_ok es" "m \<in> set (plan_episodic_exact_dups sha1 es)"
  shows "\<exists>k \<in> set es. \<exists>v \<in> set es. ed_uuid k = Some (em_survivor m) \<and> ed_uuid v = Some (em_victim m) \<and>
      episodic_key sha1 k = episodic_key sha1 v \<and> or_empty (ed_created_at k) \<le> or_empty (ed_created_at v)"
proof -
  obtain g n where g: "g \<in> set (group_by (episodic_key sha1) es)" "n \<in> set (snd g)"
    "em_victim m = eid n" "em_survivor m = eid (pick_episodic_survivor (snd g))"
    using assms(2) unfolding episodic_merge_mem [OF assms(1)] by auto
  then have "snd g \<noteq> []" by auto
  note K = pick_episodic(1) [OF this] pick_episodic(2) [OF this g(2)] and G = episodic_group [OF assms(1) g(1)]
  have "pick_episodic_survivor (snd g) \<in> set es" "n \<in> set es"
    "episodic_key sha1 (pick_episodic_survivor (snd g)) = episodic_key sha1 n" using G(1,2) K(1) g(2) by auto
  then show ?thesis using eid_some [OF assms(1)] K(2) g(3,4) by metis
qed

lemma episodic_victims_distinct:
  assumes "episodes_ok es"
  shows "distinct (map em_victim (plan_episodic_exact_dups sha1 es))"
  unfolding plan_episodic_exact_dups_def
proof (rule distinct_concat_groups)
  let ?gs = "group_by (episodic_key sha1) es"
  show "distinct (map fst ?gs)" by (rule group_by_distinct)
  show "\<forall>g \<in> set ?gs. distinct (map em_victim (fold_group g))"
    using episodic_group(3) [OF assms] fold_group_distinct by blast
  show "\<forall>g \<in> set ?gs. \<forall>g' \<in> set ?gs. \<forall>x \<in> set (fold_group g). \<forall>y \<in> set (fold_group g').
      em_victim x = em_victim y \<longrightarrow> fst g = fst g'"
  proof (intro ballI impI)
    fix g g' x y
    assume g: "g \<in> set ?gs" "g' \<in> set ?gs" "x \<in> set (fold_group g)" "y \<in> set (fold_group g')" "em_victim x = em_victim y"
    then obtain n n' where "n \<in> set (snd g)" "n' \<in> set (snd g')" "eid n = eid n'" by (auto simp: fold_group_mem)
    with same_group [OF assms g(1,2)] show "fst g = fst g'" by blast
  qed
qed

lemma episodic_survivor_kept:
  assumes "episodes_ok es" "m \<in> set (plan_episodic_exact_dups sha1 es)" "m' \<in> set (plan_episodic_exact_dups sha1 es)"
  shows "em_survivor m \<noteq> em_victim m'"
proof
  assume eq: "em_survivor m = em_victim m'"
  obtain g where g: "g \<in> set (group_by (episodic_key sha1) es)" "2 \<le> length (snd g)"
    "em_survivor m = eid (pick_episodic_survivor (snd g))"
    using assms(2) unfolding episodic_merge_mem [OF assms(1)] by auto
  obtain g' n where g': "g' \<in> set (group_by (episodic_key sha1) es)" "n \<in> set (snd g')"
    "eid n \<noteq> eid (pick_episodic_survivor (snd g'))" "em_victim m' = eid n"
    using assms(3) unfolding episodic_merge_mem [OF assms(1)] by auto
  have "snd g \<noteq> []" using g(2) by auto
  moreover have "eid (pick_episodic_survivor (snd g)) = eid n" using g(3) g'(4) eq by simp
  ultimately have "pick_episodic_survivor (snd g) = n \<and> g = g'"
    using same_group [OF assms(1) g(1) g'(1) pick_episodic(1) g'(2)] by blast
  with g'(3) show False by auto
qed

lemma episodic_pair_folded:
  assumes "episodes_ok es" "x \<in> set es" "y \<in> set es" "x \<noteq> y" "episodic_key sha1 x = episodic_key sha1 y"
  shows "eid x \<in> em_victim ` set (plan_episodic_exact_dups sha1 es) \<or> eid y \<in> em_victim ` set (plan_episodic_exact_dups sha1 es)"
proof -
  define g where "g = (episodic_key sha1 x, filter (\<lambda>n. episodic_key sha1 n = episodic_key sha1 x) es)"
  have g: "g \<in> set (group_by (episodic_key sha1) es)" using assms(2) by (simp add: group_by_mem g_def)
  have mem: "x \<in> set (snd g)" "y \<in> set (snd g)" using assms(2,3,5) by (auto simp: g_def)
  then have "card {x, y} \<le> card (set (snd g))" by (intro card_mono) auto
  then have two: "2 \<le> length (snd g)" using assms(4) card_length [of "snd g"] by simp
  have victim: "eid n \<in> em_victim ` set (plan_episodic_exact_dups sha1 es)"
    if "n \<in> set (snd g)" "eid n \<noteq> eid (pick_episodic_survivor (snd g))" for n
    by (rule rev_image_eqI [of "\<lparr>em_name = fst (fst g), em_survivor = eid (pick_episodic_survivor (snd g)), em_victim = eid n,
           em_content_len = length (or_empty (ed_content n))\<rparr>"])
      (use episodic_merge_mem [OF assms(1)] g two that in auto)
  have "eid x \<noteq> eid y" using eid_inj [OF assms(1)] assms(2-4) by blast
  then show ?thesis using victim mem by metis
qed

text \<open>An episode is folded only into one with the same name and content digest that is no younger, no episode is folded
  twice or both folded and folded into, and of the episodes kept no two agree in name and digest.\<close>

theorem episodic_plan_exact:
  assumes "episodes_ok es" and "plan_episodic_exact_dups sha1 es = ms"
  shows "(\<forall>m \<in> set ms. \<exists>k \<in> set es. \<exists>v \<in> set es. ed_uuid k = Some (em_survivor m) \<and> ed_uuid v = Some (em_victim m) \<and>
      episodic_key sha1 k = episodic_key sha1 v \<and> or_empty (ed_created_at k) \<le> or_empty (ed_created_at v)) \<and>
    distinct (map em_victim ms) \<and> em_survivor ` set ms \<inter> em_victim ` set ms = {} \<and>
    (\<forall>x \<in> set es. \<forall>y \<in> set es. x \<noteq> y \<and> episodic_key sha1 x = episodic_key sha1 y \<longrightarrow>
       eid x \<in> em_victim ` set ms \<or> eid y \<in> em_victim ` set ms)"
  using episodic_merge_sound [OF assms(1), of _ sha1] episodic_victims_distinct [OF assms(1), of sha1]
    episodic_survivor_kept [OF assms(1), of _ sha1] episodic_pair_folded [OF assms(1), of _ _ sha1]
  unfolding assms(2) by blast

theorem episodic_plan_exact_witness:
  "\<exists>es. plan_episodic_exact_dups id es = [\<lparr>em_name = ''n'', em_survivor = ''a'', em_victim = ''b'', em_content_len = 1\<rparr>] \<and>
    distinct (map em_victim (plan_episodic_exact_dups id es))"
proof -
  let ?e = "\<lambda>u d. \<lparr>ed_uuid = Some u, ed_name = Some ''n'', ed_content = Some ''c'', ed_created_at = Some d\<rparr>"
  let ?es = "[?e ''b'' ''2026-02'', ?e ''a'' ''2026-01'']"
  have "episodes_ok ?es" by (simp add: episodes_ok_def)
  from episodic_plan_exact [OF this refl, of id] have "distinct (map em_victim (plan_episodic_exact_dups id ?es))" by blast
  moreover have "plan_episodic_exact_dups id ?es = [\<lparr>em_name = ''n'', em_survivor = ''a'', em_victim = ''b'', em_content_len = 1\<rparr>]"
    by code_simp
  ultimately show ?thesis by blast
qed

end
