(* ===== verification/DreamCluster.thy ===== *)
theory DreamCluster
  imports DedupPlan PyNumber "HOL-Library.Multiset"
begin

text \<open>
  \<open>pipeline/dream_phases.py\<close>, phase 1: the entity graph, its connected components, and label propagation.
  A dict from a node to the set of its neighbours is an association list; the order in which Python iterates over a
  set is a parameter \<open>it\<close>, any rearrangement of the sorted list of its elements.
\<close>

type_synonym adjacency = "(string \<times> string list) list"

definition nbrs :: "adjacency \<Rightarrow> string \<Rightarrow> string list" where
  "nbrs adj u = (case map_of adj u of Some vs \<Rightarrow> vs | None \<Rightarrow> [])"

subsection \<open>The entity graph\<close>

definition add_nbr :: "string \<Rightarrow> string \<Rightarrow> adjacency \<Rightarrow> adjacency" where
  "add_nbr u v adj = AList.update u (List.insert v (nbrs adj u)) adj"

definition add_relation :: "relation_row \<Rightarrow> adjacency \<Rightarrow> adjacency" where
  "add_relation r adj =
     (let src = str_of (rl_src r); dst = str_of (rl_dst r) in
      if src \<notin> fst ` set adj \<or> dst \<notin> fst ` set adj \<or> src = dst then adj
      else add_nbr dst src (add_nbr src dst adj))"

definition build_adjacency :: "entity_row list \<Rightarrow> relation_row list \<Rightarrow> adjacency" where
  "build_adjacency entities relations =
     fold add_relation relations (map (\<lambda>u. (u, [])) (remdups (map uid entities)))"

definition count_low_degree :: "adjacency \<Rightarrow> nat \<Rightarrow> nat" where
  "count_low_degree adj min_degree = length (filter (\<lambda>(u, vs). length vs < min_degree) adj)"

subsection \<open>Connected components\<close>

definition adj_vertices :: "adjacency \<Rightarrow> string set" where
  "adj_vertices adj = \<Union> (set ` snd ` set adj)"

lemma nbrs_vertices: "set (nbrs adj u) \<subseteq> adj_vertices adj"
proof (cases "map_of adj u")
  case (Some vs)
  then have "vs \<in> snd ` set adj" by (metis map_of_SomeD image_eqI snd_conv)
  with Some show ?thesis by (auto simp: nbrs_def adj_vertices_def)
qed (simp add: nbrs_def)

lemma adj_vertices_finite [simp]: "finite (adj_vertices adj)"
  by (simp add: adj_vertices_def)

text \<open>The stack has its top at the head.\<close>

function visit :: "adjacency \<Rightarrow> string list \<Rightarrow> string list \<Rightarrow> string list \<Rightarrow> string list \<times> string list" where
  "visit adj seen [] part = (seen, part)"
| "visit adj seen (node # stack) part =
     (let fresh = filter (\<lambda>v. v \<notin> set seen) (sort (remdups (nbrs adj node))) in
      visit adj (fresh @ seen) (rev fresh @ stack) (part @ [node]))"
  by pat_completeness auto

termination visit
proof (relation "measures [\<lambda>(adj, seen, stack, part). card (adj_vertices adj - set seen), \<lambda>(adj, seen, stack, part). length stack]")
  fix adj :: adjacency and seen :: "string list" and node :: string and stack part fresh
  assume fresh: "fresh = filter (\<lambda>v. v \<notin> set seen) (sort (remdups (nbrs adj node)))"
  have sub: "set fresh \<subseteq> adj_vertices adj - set seen" using nbrs_vertices [of adj node] fresh by auto
  show "((adj, fresh @ seen, rev fresh @ stack, part @ [node]), adj, seen, node # stack, part)
      \<in> measures [\<lambda>(adj, seen, stack, part). card (adj_vertices adj - set seen), \<lambda>(adj, seen, stack, part). length stack]"
  proof (cases "fresh = []")
    case False
    with sub have "adj_vertices adj - set (fresh @ seen) \<subset> adj_vertices adj - set seen" by (cases fresh) auto
    then have "card (adj_vertices adj - set (fresh @ seen)) < card (adj_vertices adj - set seen)" by (intro psubset_card_mono) auto
    then show ?thesis by simp
  qed simp
qed simp

definition add_component :: "adjacency \<Rightarrow> string \<Rightarrow> string list \<times> string list list \<Rightarrow> string list \<times> string list list" where
  "add_component adj u acc =
     (let (seen, comps) = acc in
      if u \<in> set seen then acc
      else case visit adj (u # seen) [u] [] of (seen', part) \<Rightarrow> (seen', comps @ [sort part]))"

definition component_key :: "string list \<Rightarrow> int \<times> string" where
  "component_key c = (- int (length c), case c of [] \<Rightarrow> [] | u # us \<Rightarrow> u)"

definition connected_components :: "adjacency \<Rightarrow> string list list" where
  "connected_components adj =
     sort_key component_key (snd (fold (add_component adj) (sort (map fst adj)) ([], [])))"

subsection \<open>Partitions\<close>

type_synonym labels = "(string \<times> nat) list"

definition label_of :: "labels \<Rightarrow> string \<Rightarrow> nat" where
  "label_of ls u = (case map_of ls u of Some l \<Rightarrow> l | None \<Rightarrow> 0)"

definition label_groups :: "labels \<Rightarrow> string list list" where
  "label_groups ls = map (\<lambda>(l, us). map fst us) (group_by snd ls)"

fun joined :: "string \<Rightarrow> string list \<Rightarrow> string" where
  "joined sep [] = []"
| "joined sep [x] = x"
| "joined sep (x # xs) = x @ sep @ joined sep xs"

definition canonical :: "string list list \<Rightarrow> string list list" where
  "canonical groups = sort (map sort groups)"

definition partition_blob :: "labels \<Rightarrow> string" where
  "partition_blob ls =
     concat (map (\<lambda>g. decimal (length g) @ '':'' @ joined [CHR 31] g) (canonical (label_groups ls)))"

definition partition_hash :: "(string \<Rightarrow> string) \<Rightarrow> labels \<Rightarrow> string" where
  "partition_hash digest ls = take 16 (digest (partition_blob ls))"

subsection \<open>Label propagation\<close>

text \<open>All nodes, in sorted order, and the symmetric adjacency.\<close>

definition graph_nodes :: "adjacency \<Rightarrow> string list" where
  "graph_nodes adj = sort (remdups (map fst adj @ concat (map snd adj)))"

definition neighbours :: "adjacency \<Rightarrow> string \<Rightarrow> string \<Rightarrow> bool" where
  "neighbours adj u v \<longleftrightarrow> u \<noteq> v \<and> (v \<in> set (nbrs adj u) \<or> u \<in> set (nbrs adj v))"

definition symmetric :: "(string list \<Rightarrow> string list) \<Rightarrow> adjacency \<Rightarrow> adjacency" where
  "symmetric it adj = map (\<lambda>u. (u, it (filter (neighbours adj u) (graph_nodes adj)))) (graph_nodes adj)"

definition tally :: "nat list \<Rightarrow> (nat \<times> nat) list" where
  "tally labs = map (\<lambda>l. (l, count_list labs l)) (first_keys labs)"

text \<open>\<open>min(tally.items(), key=lambda kv: (-kv[1], kv[0]))[0]\<close>\<close>

definition most_common :: "nat list \<Rightarrow> nat" where
  "most_common labs = fst (hd (sort_key (\<lambda>(l, n). (- int n, l)) (tally labs)))"

definition new_label :: "adjacency \<Rightarrow> string list \<Rightarrow> labels \<Rightarrow> string \<Rightarrow> nat" where
  "new_label adj pinned ls u =
     (if u \<in> set pinned then label_of ls u
      else let labs = map (label_of ls) (filter (\<lambda>v. v \<notin> set pinned) (nbrs adj u)) in
        if labs = [] then label_of ls u else most_common labs)"

definition sweep_labels :: "adjacency \<Rightarrow> string list \<Rightarrow> string list \<Rightarrow> labels \<Rightarrow> labels" where
  "sweep_labels adj pinned nodes ls = map (\<lambda>u. (u, new_label adj pinned ls u)) nodes"

record rounds_result =
  rr_labels :: labels
  rr_rounds :: nat
  rr_converged :: bool
  rr_cycle :: bool
  rr_oscillating :: "string list"

fun run_rounds :: "(labels \<Rightarrow> labels) \<Rightarrow> string list \<Rightarrow> nat \<Rightarrow> nat \<Rightarrow> labels list \<Rightarrow> labels \<Rightarrow> rounds_result" where
  "run_rounds sweep nodes 0 k seen ls =
     \<lparr>rr_labels = ls, rr_rounds = k, rr_converged = False, rr_cycle = False, rr_oscillating = []\<rparr>"
| "run_rounds sweep nodes (Suc n) k seen ls =
     (let new = sweep ls in
      if new = ls then
        \<lparr>rr_labels = new, rr_rounds = Suc k, rr_converged = True, rr_cycle = False, rr_oscillating = []\<rparr>
      else if new \<in> set seen then
        \<lparr>rr_labels = new, rr_rounds = Suc k, rr_converged = False, rr_cycle = True,
         rr_oscillating = filter (\<lambda>u. label_of new u \<noteq> label_of ls u) nodes\<rparr>
      else run_rounds sweep nodes n (Suc k) (new # seen) new)"

text \<open>\<open>comp_of\<close> is given at every call.\<close>

definition resolve_cycle :: "(string \<Rightarrow> nat) \<Rightarrow> string list \<Rightarrow> labels \<Rightarrow> labels" where
  "resolve_cycle comp_of oscillating ls =
     (let members = sort (remdups oscillating); groups = group_by comp_of members in
      map (\<lambda>(u, l). (u, if u \<in> set members then label_of ls (hd (snd (hd (filter (\<lambda>g. fst g = comp_of u) groups)))) else l)) ls)"

definition component_index :: "string list list \<Rightarrow> string \<Rightarrow> nat" where
  "component_index comps u = (case find (\<lambda>(i, c). u \<in> set c) (rev (enumerate 0 comps)) of Some (i, c) \<Rightarrow> i | None \<Rightarrow> 0)"

record cluster_result =
  cr_nodes :: nat
  cr_communities :: nat
  cr_rounds :: nat
  cr_converged :: bool
  cr_cycle :: bool
  cr_oscillating :: nat
  cr_pinned :: nat
  cr_components :: nat
  cr_largest_component :: nat
  cr_largest_community :: nat
  cr_min_degree :: nat
  cr_hash :: string
  cr_oversized :: bool

definition initial_labels :: "string list \<Rightarrow> labels" where
  "initial_labels nodes = map (\<lambda>(i, u). (u, i)) (enumerate 0 nodes)"

definition low_degree :: "adjacency \<Rightarrow> nat \<Rightarrow> string list" where
  "low_degree adj min_degree = map fst (filter (\<lambda>(u, vs). length vs < min_degree) adj)"

text \<open>The labels at the end, and how they were reached.\<close>

definition final_labels :: "adjacency \<Rightarrow> nat \<Rightarrow> nat \<Rightarrow> labels \<times> rounds_result" where
  "final_labels adj min_degree max_rounds =
     (let nodes = map fst adj; pinned = low_degree adj min_degree; ls = initial_labels nodes;
          r = run_rounds (sweep_labels adj pinned nodes) nodes max_rounds 0 [ls] ls;
          comp_of = component_index (connected_components adj)
      in (if rr_oscillating r = [] then rr_labels r else resolve_cycle comp_of (rr_oscillating r) (rr_labels r), r))"

definition default_max_rounds :: nat where "default_max_rounds = 1000"

definition default_min_degree :: nat where "default_min_degree = 3"

definition cluster_graph ::
  "(string \<Rightarrow> string) \<Rightarrow> (string list \<Rightarrow> string list) \<Rightarrow> adjacency \<Rightarrow> nat \<Rightarrow> nat \<Rightarrow> cluster_result" where
  "cluster_graph digest it raw min_degree max_rounds =
     (let adj = symmetric it raw; nodes = map fst adj in
      if nodes = [] then
        \<lparr>cr_nodes = 0, cr_communities = 0, cr_rounds = 0, cr_converged = True, cr_cycle = False, cr_oscillating = 0,
         cr_pinned = 0, cr_components = 0, cr_largest_component = 0, cr_largest_community = 0, cr_min_degree = min_degree,
         cr_hash = partition_hash digest [], cr_oversized = False\<rparr>
      else let
          comps = connected_components adj; (ls, r) = final_labels adj min_degree max_rounds;
          sizes = map length (label_groups ls); largest = fold max sizes 0;
          floor = (case comps of c # cs \<Rightarrow> length c | [] \<Rightarrow> 0)
        in \<lparr>cr_nodes = length nodes, cr_communities = length sizes, cr_rounds = rr_rounds r, cr_converged = rr_converged r,
            cr_cycle = rr_cycle r, cr_oscillating = length (rr_oscillating r), cr_pinned = length (low_degree adj min_degree),
            cr_components = length comps, cr_largest_component = floor, cr_largest_community = largest,
            cr_min_degree = min_degree, cr_hash = partition_hash digest ls, cr_oversized = (floor < largest)\<rparr>)"

definition plan_clustering ::
  "(string \<Rightarrow> string) \<Rightarrow> (string list \<Rightarrow> string list) \<Rightarrow> entity_row list \<Rightarrow> relation_row list \<Rightarrow> nat \<Rightarrow> cluster_result" where
  "plan_clustering digest it entities relations min_degree =
     cluster_graph digest it (build_adjacency entities relations) min_degree default_max_rounds"

lemma cluster_example:
  "let r = cluster_graph id id [(''a'', [''b'']), (''b'', []), (''c'', [''d'']), (''e'', [])] 0 10 in
    (cr_nodes r, cr_communities r, cr_rounds r, cr_cycle r, cr_components r, cr_largest_community r) = (5, 3, 2, True, 3, 2)"
  by code_simp

subsection \<open>Connectedness\<close>

inductive reaches :: "adjacency \<Rightarrow> string \<Rightarrow> string \<Rightarrow> bool" for adj where
  self: "reaches adj u u"
| step: "reaches adj u v \<Longrightarrow> w \<in> set (nbrs adj v) \<Longrightarrow> reaches adj u w"

lemma reaches_trans: "reaches adj v w \<Longrightarrow> reaches adj u v \<Longrightarrow> reaches adj u w"
  by (induction rule: reaches.induct) (auto intro: reaches.intros)

text \<open>A symmetric adjacency over its own nodes.\<close>

definition adj_ok :: "adjacency \<Rightarrow> bool" where
  "adj_ok adj \<longleftrightarrow> distinct (map fst adj) \<and> sorted (map fst adj) \<and>
     (\<forall>u v. v \<in> set (nbrs adj u) \<longrightarrow> u \<in> set (nbrs adj v) \<and> v \<in> set (map fst adj)) \<and> (\<forall>u. distinct (nbrs adj u))"

lemma reaches_sym:
  assumes "adj_ok adj" "reaches adj u v"
  shows "reaches adj v u"
  using assms(2)
proof induction
  case (step u v w)
  then have "v \<in> set (nbrs adj w)" using assms(1) by (simp add: adj_ok_def)
  with step.IH show ?case by (meson reaches.intros reaches_trans)
qed (rule reaches.self)

lemma reaches_node: "reaches adj u v \<Longrightarrow> adj_ok adj \<Longrightarrow> u \<in> set (map fst adj) \<Longrightarrow> v \<in> set (map fst adj)"
  by (induction rule: reaches.induct) (simp_all add: adj_ok_def)

definition sealed :: "adjacency \<Rightarrow> string set \<Rightarrow> bool" where
  "sealed adj A \<longleftrightarrow> (\<forall>u \<in> A. set (nbrs adj u) \<subseteq> A)"

lemma sealed_reaches: "reaches adj u v \<Longrightarrow> sealed adj A \<Longrightarrow> u \<in> A \<Longrightarrow> v \<in> A"
  by (induction rule: reaches.induct) (auto simp: sealed_def)

subsection \<open>The traversal\<close>

text \<open>\<open>old\<close>: what earlier traversals have seen.\<close>

definition visiting :: "adjacency \<Rightarrow> string set \<Rightarrow> string \<Rightarrow> string list \<Rightarrow> string list \<Rightarrow> string list \<Rightarrow> bool" where
  "visiting adj old start seen stack part \<longleftrightarrow>
     set seen = old \<union> set part \<union> set stack \<and> distinct (part @ stack) \<and> old \<inter> set (part @ stack) = {} \<and>
     start \<in> set (part @ stack) \<and> (\<forall>v \<in> set (part @ stack). reaches adj start v) \<and>
     (\<forall>v \<in> set part. set (nbrs adj v) \<subseteq> set seen)"

lemma visiting_step:
  assumes "visiting adj old start seen (node # stack) part"
    and fresh: "fresh = filter (\<lambda>v. v \<notin> set seen) (sort (remdups (nbrs adj node)))"
  shows "visiting adj old start (fresh @ seen) (rev fresh @ stack) (part @ [node])"
proof -
  have f: "set fresh = set (nbrs adj node) - set seen" "distinct fresh" using fresh by auto
  note v = assms(1) [unfolded visiting_def]
  have r: "reaches adj start w" if "w \<in> set fresh" for w
    using that f(1) v by (auto intro: reaches.step)
  show ?thesis
    unfolding visiting_def
  proof (intro conjI)
    show "set (fresh @ seen) = old \<union> set (part @ [node]) \<union> set (rev fresh @ stack)" using v by auto
    show "distinct ((part @ [node]) @ rev fresh @ stack)" using v f by auto
    show "old \<inter> set ((part @ [node]) @ rev fresh @ stack) = {}" using v f(1) by auto
    show "start \<in> set ((part @ [node]) @ rev fresh @ stack)" using v by auto
    show "\<forall>w \<in> set ((part @ [node]) @ rev fresh @ stack). reaches adj start w" using v r by auto
    have "\<forall>w \<in> set part. set (nbrs adj w) \<subseteq> set seen" using v by blast
    then show "\<forall>w \<in> set (part @ [node]). set (nbrs adj w) \<subseteq> set (fresh @ seen)" using f(1) by auto
  qed
qed

lemma visit_done:
  "visiting adj old start seen stack part \<Longrightarrow> visit adj seen stack part = (seen', part') \<Longrightarrow> visiting adj old start seen' [] part'"
proof (induction adj seen stack part rule: visit.induct)
  case (2 adj seen node stack part)
  from "2.IH" [OF refl visiting_step [OF "2.prems"(1) refl]] "2.prems"(2) show ?case by (simp add: Let_def)
qed simp

lemma visit_component:
  assumes ok: "adj_ok adj" and old: "sealed adj (set seen)" "u \<notin> set seen"
    and run: "visit adj (u # seen) [u] [] = (seen', part)"
  shows "set part = {v. reaches adj u v}" "distinct part" "set seen' = set seen \<union> set part" "sealed adj (set seen')"
proof -
  have "visiting adj (set seen) u (u # seen) [u] []" using old(2) by (auto simp: visiting_def reaches.self)
  note visited = visit_done [OF this run, unfolded visiting_def append_Nil2]
  have fin: "set seen' = set seen \<union> set part" "distinct part" "set seen \<inter> set part = {}" "u \<in> set part"
    "\<forall>v \<in> set part. reaches adj u v" "\<forall>v \<in> set part. set (nbrs adj v) \<subseteq> set seen'"
    using visited by (simp, blast, blast, blast, blast, blast)
  have "sealed adj (set part)"
    unfolding sealed_def
  proof (intro ballI subsetI)
    fix v w
    assume v: "v \<in> set part" "w \<in> set (nbrs adj v)"
    then have "w \<in> set seen \<or> w \<in> set part" using fin(1,6) by auto
    moreover have "w \<notin> set seen"
    proof
      assume "w \<in> set seen"
      moreover have "v \<in> set (nbrs adj w)" using v(2) ok by (simp add: adj_ok_def)
      ultimately have "v \<in> set seen" using old(1) by (auto simp: sealed_def)
      with v(1) fin(3) show False by auto
    qed
    ultimately show "w \<in> set part" by blast
  qed
  with fin(4,5) show "set part = {v. reaches adj u v}" using sealed_reaches by auto
  show "distinct part" "set seen' = set seen \<union> set part" by (fact fin)+
  with old(1) \<open>sealed adj (set part)\<close> show "sealed adj (set seen')" by (auto simp: sealed_def)
qed

text \<open>The parts found so far.\<close>

definition parts_ok :: "adjacency \<Rightarrow> string list \<times> string list list \<Rightarrow> bool" where
  "parts_ok adj acc \<longleftrightarrow> sealed adj (set (fst acc)) \<and> set (fst acc) = \<Union> (set ` set (snd acc)) \<and>
     (\<forall>c \<in> set (snd acc). sorted c \<and> distinct c \<and> (\<exists>u \<in> set c. set c = {v. reaches adj u v})) \<and>
     set (fst acc) \<subseteq> set (map fst adj) \<and> distinct (concat (snd acc))"

lemma add_component_ok:
  assumes "adj_ok adj" "parts_ok adj acc" and node: "u \<in> set (map fst adj)"
  shows "parts_ok adj (add_component adj u acc)" "set (fst (add_component adj u acc)) \<supseteq> insert u (set (fst acc))"
proof -
  obtain seen comps where acc: "acc = (seen, comps)" by (cases acc)
  obtain seen' part where run: "visit adj (u # seen) [u] [] = (seen', part)" by (cases "visit adj (u # seen) [u] []")
  have cl: "sealed adj (set seen)" and un: "set seen = \<Union> (set ` set comps)" using assms(2) unfolding parts_ok_def acc fst_conv snd_conv by blast+
  have "parts_ok adj (add_component adj u acc) \<and> set (fst (add_component adj u acc)) \<supseteq> insert u (set (fst acc))"
  proof (cases "u \<in> set seen")
    case False
    note v = visit_component [OF assms(1) cl False run]
    have nodes: "set part \<subseteq> set (map fst adj)" using v(1) reaches_node [OF _ assms(1) node] by auto
    have u: "u \<in> set part" using v(1) by (simp add: reaches.self)
    have "set part \<inter> set seen = {}"
    proof (rule ccontr)
      assume "set part \<inter> set seen \<noteq> {}"
      then obtain w where "reaches adj u w" "w \<in> set seen" using v(1) by auto
      then have "u \<in> set seen" using sealed_reaches [OF _ cl] reaches_sym [OF assms(1)] by blast
      with False show False by blast
    qed
    with v u un nodes assms(2) run False show ?thesis
      by (auto simp: parts_ok_def add_component_def acc)
  qed (use assms(2) in \<open>auto simp: add_component_def acc\<close>)
  then show "parts_ok adj (add_component adj u acc)" "set (fst (add_component adj u acc)) \<supseteq> insert u (set (fst acc))" by blast+
qed

lemma add_components_ok:
  "adj_ok adj \<Longrightarrow> parts_ok adj acc \<Longrightarrow> set us \<subseteq> set (map fst adj) \<Longrightarrow>
    parts_ok adj (fold (add_component adj) us acc) \<and> set us \<union> set (fst acc) \<subseteq> set (fst (fold (add_component adj) us acc))"
proof (induction us arbitrary: acc)
  case (Cons u us)
  have u: "u \<in> set (map fst adj)" using Cons.prems(3) by simp
  from Cons.IH [OF Cons.prems(1) add_component_ok(1) [OF Cons.prems(1,2) u]] add_component_ok(2) [OF Cons.prems(1,2) u] Cons.prems(3)
  show ?case by auto
qed simp

lemma components_ok:
  assumes "adj_ok adj"
  shows "\<And>c. c \<in> set (connected_components adj) \<Longrightarrow> sorted c \<and> distinct c \<and> (\<exists>u \<in> set c. set c = {v. reaches adj u v})"
    "distinct (concat (connected_components adj))" "set (concat (connected_components adj)) = set (map fst adj)"
    "sorted (map component_key (connected_components adj))"
proof -
  let ?acc = "fold (add_component adj) (sort (map fst adj)) ([], [])"
  have "parts_ok adj ([], [])" by (simp add: parts_ok_def sealed_def)
  from add_components_ok [OF assms this, of "sort (map fst adj)"]
  have ok: "parts_ok adj ?acc" and all: "set (map fst adj) \<subseteq> set (fst ?acc)" by simp_all
  define cs where "cs = snd ?acc"
  have parts: "set (fst ?acc) = \<Union> (set ` set cs)" "distinct (concat cs)" "set (fst ?acc) \<subseteq> set (map fst adj)"
    "\<forall>c \<in> set cs. sorted c \<and> distinct c \<and> (\<exists>u \<in> set c. set c = {v. reaches adj u v})"
    using ok unfolding parts_ok_def cs_def by blast+
  have m: "mset (connected_components adj) = mset cs" by (simp add: connected_components_def cs_def)
  then have s: "set (connected_components adj) = set cs" by (metis set_mset_mset)
  show "sorted c \<and> distinct c \<and> (\<exists>u \<in> set c. set c = {v. reaches adj u v})" if "c \<in> set (connected_components adj)" for c
    using that parts(4) s by blast
  have "mset (concat (connected_components adj)) = mset (concat cs)"
    using m by (simp only: mset_concat mset_map flip: sum_mset_sum_list)
  from mset_eq_imp_distinct_iff [OF this] parts(2) show "distinct (concat (connected_components adj))" by blast
  show "set (concat (connected_components adj)) = set (map fst adj)"
    unfolding set_concat s using all parts(1,3) by blast
  show "sorted (map component_key (connected_components adj))" by (simp add: connected_components_def)
qed

subsection \<open>The symmetric graph\<close>

text \<open>An iteration order of sets.\<close>

definition shuffles :: "(string list \<Rightarrow> string list) \<Rightarrow> bool" where
  "shuffles it \<longleftrightarrow> (\<forall>xs. mset (it xs) = mset xs)"

lemma shuffles_simps:
  assumes "shuffles it"
  shows "set (it xs) = set xs" "distinct (it xs) = distinct xs" "length (it xs) = length xs"
proof -
  have m: "mset (it xs) = mset xs" using assms by (simp add: shuffles_def)
  show "set (it xs) = set xs" using m by (metis set_mset_mset)
  show "distinct (it xs) = distinct xs" using mset_eq_imp_distinct_iff [OF m] .
  show "length (it xs) = length xs" using mset_eq_length [OF m] .
qed

lemma symmetric_nodes [simp]: "map fst (symmetric it adj) = graph_nodes adj"
  by (simp add: symmetric_def comp_def)

lemma graph_nodes_ok [simp]: "sorted (graph_nodes adj)" "distinct (graph_nodes adj)"
  by (simp_all add: graph_nodes_def)

lemma nbrs_node: "v \<in> set (nbrs adj u) \<Longrightarrow> u \<in> set (graph_nodes adj) \<and> v \<in> set (graph_nodes adj)"
proof (cases "map_of adj u")
  case (Some vs)
  then have "(u, vs) \<in> set adj" by (rule map_of_SomeD)
  then have "u \<in> set (graph_nodes adj)" "set vs \<subseteq> set (graph_nodes adj)" unfolding graph_nodes_def set_sort set_remdups by force+
  moreover assume "v \<in> set (nbrs adj u)"
  ultimately show ?thesis using Some by (auto simp: nbrs_def)
qed (simp add: nbrs_def)

lemma neighbours_sym: "neighbours adj u v = neighbours adj v u"
  by (auto simp: neighbours_def)

lemma symmetric_nbrs:
  assumes "shuffles it"
  shows "nbrs (symmetric it adj) u = (if u \<in> set (graph_nodes adj) then it (filter (neighbours adj u) (graph_nodes adj)) else [])"
proof -
  let ?f = "\<lambda>u. it (filter (neighbours adj u) (graph_nodes adj))"
  have "map_of (map (\<lambda>u. (u, ?f u)) us) u = (if u \<in> set us then Some (?f u) else None)" for us
    by (induction us) auto
  then show ?thesis by (simp add: nbrs_def symmetric_def)
qed

lemma symmetric_mem:
  assumes "shuffles it"
  shows "v \<in> set (nbrs (symmetric it adj) u) \<longleftrightarrow> neighbours adj u v"
  using nbrs_node [of v adj u] nbrs_node [of u adj v]
  by (auto simp: symmetric_nbrs [OF assms] shuffles_simps [OF assms] neighbours_def)

lemma symmetric_ok:
  assumes "shuffles it"
  shows "adj_ok (symmetric it adj)"
proof -
  have "v \<in> set (graph_nodes adj)" if "neighbours adj u v" for u v
    using that nbrs_node [of v adj u] nbrs_node [of u adj v] by (auto simp: neighbours_def)
  moreover have "distinct (nbrs (symmetric it adj) u)" for u
    by (simp add: symmetric_nbrs [OF assms] shuffles_simps [OF assms])
  ultimately show ?thesis
    unfolding adj_ok_def symmetric_nodes symmetric_mem [OF assms] using neighbours_sym by (simp add: distinct_map) blast
qed

subsection \<open>Independence of the order\<close>

definition same_nbrs :: "adjacency \<Rightarrow> adjacency \<Rightarrow> bool" where
  "same_nbrs adj adj' \<longleftrightarrow> map fst adj = map fst adj' \<and> (\<forall>u. mset (nbrs adj u) = mset (nbrs adj' u))"

lemma symmetric_same:
  assumes "shuffles it" "shuffles it'" "graph_nodes raw = graph_nodes raw'" "neighbours raw = neighbours raw'"
  shows "same_nbrs (symmetric it raw) (symmetric it' raw')"
  using assms by (simp add: same_nbrs_def symmetric_nbrs shuffles_def)

lemma visit_same:
  "(\<And>u. set (nbrs adj u) = set (nbrs adj' u)) \<Longrightarrow> visit adj seen stack part = visit adj' seen stack part"
proof (induction adj seen stack part rule: visit.induct)
  case (2 adj seen node stack part)
  have "sort (remdups (nbrs adj node)) = sort (remdups (nbrs adj' node))"
    using "2.prems" by (metis sorted_list_of_set_sort_remdups)
  with "2.IH" [OF refl "2.prems"] show ?case by (simp add: Let_def)
qed simp

lemma components_same:
  assumes "same_nbrs adj adj'"
  shows "connected_components adj = connected_components adj'"
proof -
  have "set (nbrs adj u) = set (nbrs adj' u)" for u using assms by (metis same_nbrs_def set_mset_mset)
  then have v: "visit adj = visit adj'" using visit_same [of adj adj'] by blast
  have "add_component adj = add_component adj'" unfolding add_component_def [abs_def] v ..
  with assms show ?thesis by (simp add: connected_components_def same_nbrs_def)
qed

lemma tally_set: "set (tally labs) = (\<lambda>l. (l, count_list labs l)) ` set labs"
  by (simp add: tally_def)

lemma most_common_least:
  assumes "labs \<noteq> []"
  shows "most_common labs \<in> set labs"
    "l \<in> set labs \<Longrightarrow> (- int (count_list labs (most_common labs)), most_common labs) \<le> (- int (count_list labs l), l)"
proof -
  let ?key = "\<lambda>(l :: nat, n). (- int n, l)" and ?h = "hd (sort_key (\<lambda>(l, n). (- int n, l)) (tally labs))"
  have ne: "tally labs \<noteq> []" using assms tally_set [of labs] by auto
  have h: "?h \<in> set (tally labs)" using hd_sort_key(1) [OF ne, of ?key] by simp
  then have "?h = (most_common labs, count_list labs (most_common labs))" "most_common labs \<in> set labs"
    by (auto simp: tally_set most_common_def)
  moreover have "?key ?h \<le> ?key (l, count_list labs l)" if "l \<in> set labs" for l
    using hd_sort_key(2) [OF ne, of "(l, count_list labs l)" ?key] that by (auto simp: tally_set)
  ultimately show "most_common labs \<in> set labs"
    "l \<in> set labs \<Longrightarrow> (- int (count_list labs (most_common labs)), most_common labs) \<le> (- int (count_list labs l), l)"
    by auto
qed

lemma most_common_mset:
  assumes "mset labs = mset labs'"
  shows "most_common labs = most_common labs'"
proof (cases "labs = []")
  case False
  have eq: "set labs = set labs'" "count_list labs = count_list labs'" "labs' \<noteq> []"
    using assms False by (metis set_mset_mset, metis count_mset ext, auto)
  have "(- int (count_list labs (most_common labs)), most_common labs) = (- int (count_list labs (most_common labs')), most_common labs')"
    using most_common_least [OF False] most_common_least [OF eq(3)] eq by (metis order_antisym)
  then show ?thesis by simp
qed (use assms in simp)

lemma new_label_same:
  assumes "same_nbrs adj adj'"
  shows "new_label adj pinned ls u = new_label adj' pinned ls u"
proof -
  let ?labs = "\<lambda>adj. map (label_of ls) (filter (\<lambda>v. v \<notin> set pinned) (nbrs adj u))"
  have "mset (nbrs adj u) = mset (nbrs adj' u)" using assms by (simp add: same_nbrs_def)
  then have m: "mset (?labs adj) = mset (?labs adj')" by (simp add: mset_filter)
  then have "?labs adj = [] \<longleftrightarrow> ?labs adj' = []" by (metis mset_zero_iff)
  with most_common_mset [OF m] show ?thesis by (simp add: new_label_def Let_def)
qed

lemma low_degree_same:
  assumes "same_nbrs adj adj'" "distinct (map fst adj)"
  shows "low_degree adj k = low_degree adj' k"
proof -
  have low: "low_degree adj k = filter (\<lambda>u. length (nbrs adj u) < k) (map fst adj)" if "distinct (map fst adj)" for adj
    using that by (induction adj) (auto simp: low_degree_def nbrs_def intro!: filter_cong split: if_splits)
  have "length (nbrs adj u) = length (nbrs adj' u)" for u using assms(1) by (metis same_nbrs_def mset_eq_length)
  with low [of adj] low [of adj'] assms show ?thesis by (simp add: same_nbrs_def)
qed

text \<open>C20: Clustering depends on the undirected graph alone: not on the order of the dict, not on the order in which sets are
  iterated, and not on the direction in which an edge is listed.\<close>

theorem clustering_order_independent:
  assumes "shuffles it" "shuffles it'" "graph_nodes raw = graph_nodes raw'" "neighbours raw = neighbours raw'"
  shows "cluster_graph digest it raw min_degree max_rounds = cluster_graph digest it' raw' min_degree max_rounds"
proof -
  let ?a = "symmetric it raw" and ?b = "symmetric it' raw'"
  have same: "same_nbrs ?a ?b" using symmetric_same [OF assms] .
  have "distinct (map fst ?a)" by simp
  note eqs = components_same [OF same] low_degree_same [OF same this]
  have "sweep_labels ?a = sweep_labels ?b" using new_label_same [OF same] by (simp add: sweep_labels_def fun_eq_iff)
  then have "final_labels ?a min_degree max_rounds = final_labels ?b min_degree max_rounds"
    using eqs assms(3) by (simp add: final_labels_def)
  with eqs assms(3) show ?thesis unfolding cluster_graph_def Let_def symmetric_nodes by simp
qed

theorem clustering_order_independent_witness:
  "cluster_graph id rev [(''b'', []), (''a'', [''b''])] 0 10 = cluster_graph id id [(''a'', [''b'']), (''b'', [''a''])] 0 10"
proof (rule clustering_order_independent)
  show "graph_nodes [(''b'', []), (''a'', [''b''])] = graph_nodes [(''a'', [''b'']), (''b'', [''a''])]" by code_simp
  show "neighbours [(''b'', []), (''a'', [''b''])] = neighbours [(''a'', [''b'']), (''b'', [''a''])]"
    by (auto simp: neighbours_def nbrs_def fun_eq_iff split: if_splits)
qed (simp_all add: shuffles_def)

subsection \<open>Communities\<close>

text \<open>Every label is the rank of a node in the same component; a pinned node has its own, and nobody else has it.\<close>

abbreviation rank :: "string list \<Rightarrow> string \<Rightarrow> nat" where
  "rank nodes \<equiv> label_of (initial_labels nodes)"

definition owner :: "adjacency \<Rightarrow> string list \<Rightarrow> string \<Rightarrow> string \<Rightarrow> bool" where
  "owner adj pinned u v \<longleftrightarrow> v \<in> set (map fst adj) \<and> reaches adj u v \<and> (u \<in> set pinned \<or> v \<in> set pinned \<longrightarrow> u = v)"

definition owned :: "adjacency \<Rightarrow> string list \<Rightarrow> labels \<Rightarrow> bool" where
  "owned adj pinned ls \<longleftrightarrow> map fst ls = map fst adj \<and>
     (\<forall>u \<in> set (map fst adj). \<exists>v. label_of ls u = rank (map fst adj) v \<and> owner adj pinned u v)"

lemma initial_labels_nodes [simp]: "map fst (initial_labels nodes) = nodes"
proof -
  have "map fst (initial_labels nodes) = map snd (enumerate 0 nodes)" by (simp add: initial_labels_def comp_def case_prod_beta')
  then show ?thesis by simp
qed

lemma rank_nth:
  assumes "u \<in> set nodes"
  shows "nodes ! rank nodes u = u"
proof -
  have "u \<in> fst ` set (initial_labels nodes)" using assms by (metis initial_labels_nodes list.set_map)
  then obtain i where i: "map_of (initial_labels nodes) u = Some i" by (metis map_of_eq_None_iff not_None_eq)
  then have "(i, u) \<in> set (enumerate 0 nodes)" by (auto simp: initial_labels_def dest: map_of_SomeD)
  then show ?thesis using i by (auto simp: in_set_enumerate_eq label_of_def)
qed

lemma rank_inj: "u \<in> set nodes \<Longrightarrow> v \<in> set nodes \<Longrightarrow> rank nodes u = rank nodes v \<Longrightarrow> u = v"
  by (metis rank_nth)

lemma initial_owned: "owned adj pinned (initial_labels (map fst adj))"
  unfolding owned_def owner_def by (auto intro: reaches.self)

lemma label_of_map: "u \<in> set nodes \<Longrightarrow> label_of (map (\<lambda>u. (u, f u)) nodes) u = f u"
proof -
  assume u: "u \<in> set nodes"
  have "map_of (map (\<lambda>u. (u, f u)) us) u = (if u \<in> set us then Some (f u) else None)" for us by (induction us) auto
  with u show ?thesis by (simp add: label_of_def)
qed

lemma owner_nbr:
  assumes "adj_ok adj" "v \<in> set (nbrs adj u)" "u \<notin> set pinned" "v \<notin> set pinned" "owner adj pinned v w"
  shows "owner adj pinned u w"
  using assms reaches.step [OF reaches.self assms(2)] reaches_trans [of adj v w u] by (auto simp: owner_def)

lemma sweep_owned:
  assumes ok: "adj_ok adj" and ls: "owned adj pinned ls"
  shows "owned adj pinned (sweep_labels adj pinned (map fst adj) ls)"
  unfolding owned_def
proof (intro conjI ballI)
  show "map fst (sweep_labels adj pinned (map fst adj) ls) = map fst adj" by (simp add: sweep_labels_def comp_def)
  fix u
  assume u: "u \<in> set (map fst adj)"
  let ?vs = "filter (\<lambda>v. v \<notin> set pinned) (nbrs adj u)"
  have new: "label_of (sweep_labels adj pinned (map fst adj) ls) u = new_label adj pinned ls u"
    unfolding sweep_labels_def using label_of_map [OF u] .
  show "\<exists>v. label_of (sweep_labels adj pinned (map fst adj) ls) u = rank (map fst adj) v \<and> owner adj pinned u v"
  proof (cases "u \<in> set pinned \<or> ?vs = []")
    case True
    then have "new_label adj pinned ls u = label_of ls u" by (auto simp: new_label_def Let_def)
    with ls u new show ?thesis unfolding owned_def by metis
  next
    case False
    then have "new_label adj pinned ls u = most_common (map (label_of ls) ?vs)" by (simp add: new_label_def Let_def)
    moreover have "most_common (map (label_of ls) ?vs) \<in> set (map (label_of ls) ?vs)" using False by (intro most_common_least) simp
    ultimately obtain v where v: "v \<in> set (nbrs adj u)" "v \<notin> set pinned" "new_label adj pinned ls u = label_of ls v" by auto
    have "v \<in> set (map fst adj)" using ok v(1) by (simp add: adj_ok_def)
    then obtain w where "label_of ls v = rank (map fst adj) w" "owner adj pinned v w" using ls by (auto simp: owned_def)
    with owner_nbr [OF ok v(1) _ v(2)] False v(3) new show ?thesis by auto
  qed
qed

lemma run_rounds_owned:
  assumes "adj_ok adj" "owned adj pinned ls" "nodes = map fst adj" "sweep = sweep_labels adj pinned nodes"
  shows "owned adj pinned (rr_labels (run_rounds sweep nodes n k seen ls)) \<and>
    set (rr_oscillating (run_rounds sweep nodes n k seen ls)) \<subseteq> set nodes - set pinned"
  using assms(2)
proof (induction n arbitrary: k seen ls)
  case (Suc n)
  let ?new = "sweep ls"
  have new: "owned adj pinned ?new" using sweep_owned [OF assms(1) Suc.prems] assms(3,4) by simp
  have "label_of ?new u = label_of ls u" if "u \<in> set nodes" "u \<in> set pinned" for u
    using label_of_map [OF that(1)] that(2) by (simp add: assms(4) sweep_labels_def new_label_def)
  then have "set (filter (\<lambda>u. label_of ?new u \<noteq> label_of ls u) nodes) \<subseteq> set nodes - set pinned" by auto
  with new Suc.IH [OF new] Suc.prems show ?case by (simp add: Let_def)
qed simp

lemma component_index_nth:
  assumes "u \<in> set (concat comps)"
  shows "component_index comps u < length comps \<and> u \<in> set (comps ! component_index comps u)"
proof -
  let ?P = "\<lambda>(i :: nat, c). u \<in> set c"
  obtain c where c: "c \<in> set comps" "u \<in> set c" using assms by auto
  then obtain i where "i < length comps" "comps ! i = c" by (metis in_set_conv_nth)
  then have "(i, c) \<in> set (rev (enumerate 0 comps))" by (simp add: in_set_enumerate_eq)
  with c(2) have "find ?P (rev (enumerate 0 comps)) \<noteq> None" by (auto simp: find_None_iff)
  then obtain x where x: "find ?P (rev (enumerate 0 comps)) = Some x" by auto
  then have "x \<in> set (enumerate 0 comps)" "u \<in> set (snd x)" using find_SomeD [OF x] by (auto simp: case_prod_beta')
  moreover have "component_index comps u = fst x" using x by (simp add: component_index_def case_prod_beta')
  ultimately show ?thesis by (simp add: in_set_enumerate_eq)
qed

lemma same_index_reaches:
  assumes ok: "adj_ok adj" and "u \<in> set (map fst adj)" "v \<in> set (map fst adj)"
    and "component_index (connected_components adj) u = component_index (connected_components adj) v"
  shows "reaches adj u v"
proof -
  let ?cs = "connected_components adj"
  have "u \<in> set (concat ?cs)" "v \<in> set (concat ?cs)" using components_ok(3) [OF ok] assms(2,3) by auto
  from component_index_nth [OF this(1)] component_index_nth [OF this(2)] assms(4)
  obtain c where c: "c \<in> set ?cs" "u \<in> set c" "v \<in> set c" by (metis nth_mem)
  then obtain r where "reaches adj r u" "reaches adj r v" using components_ok(1) [OF ok c(1)] by blast
  then show ?thesis using reaches_sym [OF ok] reaches_trans by blast
qed

lemma label_of_relabel:
  "map_of ls u = Some l \<Longrightarrow> label_of (map (\<lambda>(u, l). (u, f u l)) ls) u = f u l"
proof -
  have "map_of (map (\<lambda>(u, l). (u, f u l)) xs) u = map_option (f u) (map_of xs u)" for xs by (induction xs) auto
  then show "map_of ls u = Some l \<Longrightarrow> ?thesis" by (simp add: label_of_def)
qed

lemma group_lookup:
  assumes "u \<in> set xs"
  shows "snd (hd (filter (\<lambda>g. fst g = f u) (group_by f xs))) = filter (\<lambda>x. f x = f u) xs"
proof -
  let ?gs = "filter (\<lambda>g. fst g = f u) (group_by f xs)"
  have "(f u, filter (\<lambda>x. f x = f u) xs) \<in> set ?gs" using assms by (simp add: group_by_mem)
  then have "hd ?gs \<in> set ?gs" by (metis empty_iff empty_set hd_in_set)
  moreover obtain k g where "hd ?gs = (k, g)" by (cases "hd ?gs")
  ultimately show ?thesis by (simp add: group_by_mem)
qed

lemma resolve_cycle_owned:
  assumes ok: "adj_ok adj" and ls: "owned adj pinned ls" and osc: "set osc \<subseteq> set (map fst adj) - set pinned"
  shows "owned adj pinned (resolve_cycle (component_index (connected_components adj)) osc ls)"
proof -
  let ?ix = "component_index (connected_components adj)" and ?ms = "sort (remdups osc)"
  let ?g = "\<lambda>u. snd (hd (filter (\<lambda>g. fst g = ?ix u) (group_by ?ix ?ms)))"
  let ?f = "\<lambda>u l. if u \<in> set ?ms then label_of ls (hd (?g u)) else l"
  let ?ls = "resolve_cycle ?ix osc ls"
  have r: "?ls = map (\<lambda>(u, l). (u, ?f u l)) ls" by (simp add: resolve_cycle_def Let_def)
  have keys: "map fst ?ls = map fst adj" using ls unfolding r owned_def by (simp add: comp_def case_prod_beta')
  have lab: "label_of ?ls u = ?f u (label_of ls u)" if "u \<in> set (map fst adj)" for u
  proof -
    have "u \<in> fst ` set ls" using that ls by (metis owned_def list.set_map)
    then obtain l where "map_of ls u = Some l" by (metis map_of_eq_None_iff not_None_eq)
    then have l: "map_of ls u = Some l" "label_of ls u = l" by (simp_all add: label_of_def)
    show ?thesis unfolding r l(2) by (rule label_of_relabel [OF l(1)])
  qed
  have member: "hd (?g u) \<in> set ?ms \<and> ?ix (hd (?g u)) = ?ix u" if u: "u \<in> set ?ms" for u
  proof -
    have g: "?g u = filter (\<lambda>x. ?ix x = ?ix u) ?ms" using group_lookup [OF u] .
    have "hd (filter (\<lambda>x. ?ix x = ?ix u) ?ms) \<in> set (filter (\<lambda>x. ?ix x = ?ix u) ?ms)" using u by (intro hd_in_set) (auto simp: filter_empty_conv)
    then show ?thesis unfolding g by auto
  qed
  show ?thesis
    unfolding owned_def
  proof (intro conjI ballI, rule keys)
    fix u
    assume u: "u \<in> set (map fst adj)"
    show "\<exists>v. label_of ?ls u = rank (map fst adj) v \<and> owner adj pinned u v"
    proof (cases "u \<in> set ?ms")
      case True
      then obtain w where w: "w = hd (?g u)" "w \<in> set ?ms" "?ix w = ?ix u" using member by blast
      have free: "w \<in> set (map fst adj)" "w \<notin> set pinned" "u \<notin> set pinned" using w(2) osc True by auto
      then obtain v where v: "label_of ls w = rank (map fst adj) v" "owner adj pinned w v" using ls unfolding owned_def by blast
      have "reaches adj u w" using same_index_reaches [OF ok u free(1)] w(3) by simp
      then have "reaches adj u v" "v \<in> set (map fst adj)" "v \<notin> set pinned"
        using v(2) free(2) reaches_trans unfolding owner_def by blast+
      then have "owner adj pinned u v" using free(3) by (simp add: owner_def)
      moreover have "label_of ?ls u = label_of ls w" unfolding lab [OF u] w(1) using True by (simp only: if_True)
      ultimately show ?thesis using v(1) by metis
    next
      case False
      then have "label_of ?ls u = label_of ls u" unfolding lab [OF u] by (simp only: if_False)
      with ls u show ?thesis unfolding owned_def by metis
    qed
  qed
qed

lemma final_labels_owned:
  assumes "adj_ok adj"
  shows "owned adj (low_degree adj k) (fst (final_labels adj k n))"
  using run_rounds_owned [OF assms initial_owned refl refl] resolve_cycle_owned [OF assms]
  by (simp add: final_labels_def Let_def)

lemma fold_max_le: "(\<forall>x \<in> set xs. x \<le> b) \<Longrightarrow> m \<le> (b :: nat) \<Longrightarrow> fold max xs m \<le> b"
  by (induction xs arbitrary: m) auto

lemma label_group:
  assumes "owned adj pinned ls" "adj_ok adj" "us \<in> set (label_groups ls)"
  shows "us \<noteq> []" "distinct us" "set us \<subseteq> set (map fst adj)" "\<And>u v. u \<in> set us \<Longrightarrow> v \<in> set us \<Longrightarrow> label_of ls u = label_of ls v"
proof -
  have keys: "map fst ls = map fst adj" and dist: "distinct (map fst ls)" using assms(1,2) by (auto simp: owned_def adj_ok_def)
  obtain l where l: "l \<in> snd ` set ls" "us = map fst (filter (\<lambda>x. snd x = l) ls)"
    using assms(3) by (auto simp: label_groups_def group_by_mem)
  show "us \<noteq> []" using l by (auto simp: filter_empty_conv)
  show "distinct us" using l(2) dist by (simp add: distinct_map_filter)
  show "set us \<subseteq> set (map fst adj)" using l(2) unfolding keys [symmetric] by auto
  have "label_of ls u = l" if "u \<in> set us" for u
  proof -
    have "(u, l) \<in> set ls" using that l(2) by auto
    then have "map_of ls u = Some l" using dist by simp
    then show ?thesis by (simp add: label_of_def)
  qed
  then show "\<And>u v. u \<in> set us \<Longrightarrow> v \<in> set us \<Longrightarrow> label_of ls u = label_of ls v" by simp
qed

lemma owned_reaches:
  assumes "adj_ok adj" "owned adj pinned ls" "u \<in> set (map fst adj)" "v \<in> set (map fst adj)" "label_of ls u = label_of ls v"
  shows "reaches adj u v \<and> (u \<in> set pinned \<longrightarrow> u = v)"
proof -
  obtain x where x: "label_of ls u = rank (map fst adj) x" "owner adj pinned u x" using assms(2,3) unfolding owned_def by blast
  obtain y where y: "label_of ls v = rank (map fst adj) y" "owner adj pinned v y" using assms(2,4) unfolding owned_def by blast
  have "x = y"
  proof (rule rank_inj)
    show "x \<in> set (map fst adj)" "y \<in> set (map fst adj)" using x(2) y(2) unfolding owner_def by blast+
    show "rank (map fst adj) x = rank (map fst adj) y" using x(1) y(1) assms(5) by metis
  qed
  with x(2) y(2) have o: "owner adj pinned u x" "owner adj pinned v x" by blast+
  then have "reaches adj u x" "reaches adj v x" unfolding owner_def by blast+
  from this(1) reaches_sym [OF assms(1) this(2)] have "reaches adj u x" "reaches adj x v" .
  then have "reaches adj u v" using reaches_trans by blast
  moreover have "u = v" if "u \<in> set pinned" using o that unfolding owner_def by blast
  ultimately show ?thesis by blast
qed

lemma group_size:
  assumes ok: "adj_ok adj" and ls: "owned adj pinned ls" and us: "us \<in> set (label_groups ls)"
  shows "length us \<le> (case connected_components adj of c # cs \<Rightarrow> length c | [] \<Rightarrow> 0)"
proof -
  note g = label_group [OF ls ok us]
  note cs = components_ok [OF ok]
  obtain u where u: "u \<in> set us" using g(1) by (meson hd_in_set)
  then have "u \<in> set (concat (connected_components adj))" using g(3) cs(3) by blast
  then obtain c where c: "c \<in> set (connected_components adj)" "u \<in> set c" by auto
  then obtain r where r: "set c = {v. reaches adj r v}" using cs(1) by blast
  have "set us \<subseteq> set c"
  proof
    fix v
    assume v: "v \<in> set us"
    have "reaches adj u v" using owned_reaches [OF ok ls] g(3,4) u v by blast
    with r c(2) show "v \<in> set c" using reaches_trans by blast
  qed
  then have "length us \<le> length c" using g(2) card_mono [of "set c" "set us"] cs(1) [OF c(1)] by (simp add: distinct_card)
  moreover obtain c0 rest where hd: "connected_components adj = c0 # rest" using c(1) by (cases "connected_components adj") auto
  moreover have "component_key c0 \<le> component_key c" using cs(4) c(1) hd by (cases "c = c0") auto
  then have "length c \<le> length c0" by (auto simp: component_key_def)
  ultimately show ?thesis by simp
qed

text \<open>C21: A community never joins two connected components, a node below the minimum degree is a community of its own, and
  therefore the largest community is never larger than the largest component: the caveat that it is cannot occur.\<close>

theorem communities_in_components:
  assumes it: "shuffles it" and adj: "symmetric it raw = adj" and ls: "fst (final_labels adj min_degree max_rounds) = ls"
  shows "map fst ls = graph_nodes raw \<and>
    (\<forall>u \<in> set (graph_nodes raw). \<forall>v \<in> set (graph_nodes raw). label_of ls u = label_of ls v \<longrightarrow>
       reaches adj u v \<and> (u \<in> set (low_degree adj min_degree) \<longrightarrow> u = v)) \<and>
    \<not> cr_oversized (cluster_graph digest it raw min_degree max_rounds)"
proof -
  have ok: "adj_ok adj" and nodes: "map fst adj = graph_nodes raw" using symmetric_ok [OF it, of raw] adj by auto
  have owned: "owned adj (low_degree adj min_degree) ls" using final_labels_owned [OF ok, of min_degree max_rounds] unfolding ls .
  let ?floor = "case connected_components adj of c # cs \<Rightarrow> length c | [] \<Rightarrow> 0"
  have "fold max (map length (label_groups ls)) 0 \<le> ?floor" using group_size [OF ok owned] by (intro fold_max_le) auto
  moreover obtain r where "final_labels adj min_degree max_rounds = (ls, r)" using ls by (cases "final_labels adj min_degree max_rounds") simp
  ultimately have "\<not> cr_oversized (cluster_graph digest it raw min_degree max_rounds)"
    unfolding cluster_graph_def Let_def adj by simp
  moreover have "map fst ls = graph_nodes raw" using owned nodes by (simp add: owned_def)
  ultimately show ?thesis using owned_reaches [OF ok owned] unfolding nodes by blast
qed

theorem communities_in_components_witness:
  "shuffles rev \<and> label_of (fst (final_labels (symmetric rev [(''a'', [''b'']), (''c'', [''d''])]) 0 10)) ''a'' = 0 \<and>
    \<not> cr_oversized (cluster_graph id rev [(''a'', [''b'']), (''c'', [''d''])] 0 10)"
  using communities_in_components [of rev "[(''a'', [''b'']), (''c'', [''d''])]", OF _ refl refl, where digest = id and min_degree = 0 and max_rounds = 10]
  by (simp add: shuffles_def) code_simp

text \<open>The components are the classes of connected nodes, each once, sorted, the largest first.\<close>

theorem components_exact:
  assumes "shuffles it" and "symmetric it raw = adj"
  shows "(\<forall>c \<in> set (connected_components adj). sorted c \<and> distinct c \<and> (\<exists>u \<in> set c. set c = {v. reaches adj u v})) \<and>
    distinct (concat (connected_components adj)) \<and> set (concat (connected_components adj)) = set (graph_nodes raw) \<and>
    sorted (map component_key (connected_components adj))"
proof -
  have ok: "adj_ok adj" and nodes: "map fst adj = graph_nodes raw" using symmetric_ok [OF assms(1), of raw] assms(2) by auto
  from components_ok [OF ok] nodes show ?thesis by simp
qed

theorem components_exact_witness:
  "connected_components (symmetric rev [(''a'', [''b'']), (''c'', []), (''d'', [''b''])]) = [[''a'', ''b'', ''d''], [''c'']] \<and>
    {v. reaches (symmetric rev [(''a'', [''b'']), (''c'', []), (''d'', [''b''])]) ''c'' v} = {''c''}"
proof -
  let ?adj = "symmetric rev [(''a'', [''b'']), (''c'', []), (''d'', [''b''])]"
  have cs: "connected_components ?adj = [[''a'', ''b'', ''d''], [''c'']]" by code_simp
  have "shuffles rev" by (simp add: shuffles_def)
  from components_exact [OF this refl, of "[(''a'', [''b'']), (''c'', []), (''d'', [''b''])]"] cs show ?thesis by auto
qed

end
