(* ===== verification/GraphStore.thy ===== *)
theory GraphStore
  imports PyValue DedupPlan
begin

text \<open>
  The property graph as the Cypher statements of \<open>pipeline/dedup_apply.py\<close> and
  \<open>pipeline/dream_apply.py\<close> see it, and the driver call they go through.  Nodes and edges are listed in scan order and
  carry their property maps; an edge refers to its ends by node identity, not by uuid.  A statement is
  a function on the graph.  The driver answers it, refuses it before it took effect, or loses the reply
  after it did; which of the three is decided by the number of the statement, so that every pattern of
  failures, a crash of the process among them, is a function.
\<close>

datatype node_label = Entity | Episodic | OtherLabel

datatype edge_type = Mentions | RelatesTo | OtherEdge

record gnode =
  gn_id :: nat
  gn_label :: node_label
  gn_props :: pydict

record gedge =
  ge_type :: edge_type
  ge_src :: nat
  ge_dst :: nat
  ge_props :: pydict

record graph =
  gr_nodes :: "gnode list"
  gr_edges :: "gedge list"

text \<open>A property read as text; absent, null and other values are \<open>None\<close>.\<close>

definition tprop :: "pydict \<Rightarrow> string \<Rightarrow> string option" where
  "tprop d k = (case dict_get d k of Some (PyStr s) \<Rightarrow> Some s | _ \<Rightarrow> None)"

abbreviation nuid :: "gnode \<Rightarrow> string option" where
  "nuid n \<equiv> tprop (gn_props n) ''uuid''"

abbreviation euid :: "gedge \<Rightarrow> string option" where
  "euid e \<equiv> tprop (ge_props e) ''uuid''"

text \<open>A null property is not stored.\<close>

definition opt_prop :: "string \<Rightarrow> pyval \<Rightarrow> pydict" where
  "opt_prop k v = (if v = PyNone then [] else [(k, v)])"

definition opt_text :: "string option \<Rightarrow> pyval" where
  "opt_text t = (case t of Some s \<Rightarrow> PyStr s | None \<Rightarrow> PyNone)"

subsection \<open>Patterns\<close>

definition node_at :: "graph \<Rightarrow> nat \<Rightarrow> gnode option" where
  "node_at g i = find (\<lambda>n. gn_id n = i) (gr_nodes g)"

text \<open>The ends of an edge, if it matches \<open>(a:A)-[e:T]->(b:B)\<close>.\<close>

definition ends :: "edge_type \<Rightarrow> node_label \<Rightarrow> node_label \<Rightarrow> graph \<Rightarrow> gedge \<Rightarrow> (gnode \<times> gnode) option" where
  "ends ty la lb g e =
     (if ge_type e \<noteq> ty then None
      else case (node_at g (ge_src e), node_at g (ge_dst e)) of
          (Some a, Some b) \<Rightarrow> if gn_label a = la \<and> gn_label b = lb then Some (a, b) else None
        | _ \<Rightarrow> None)"

definition match_edges ::
  "edge_type \<Rightarrow> node_label \<Rightarrow> node_label \<Rightarrow> (gedge \<Rightarrow> gnode \<Rightarrow> gnode \<Rightarrow> bool) \<Rightarrow> graph \<Rightarrow> (gedge \<times> gnode \<times> gnode) list" where
  "match_edges ty la lb p g =
     concat (map (\<lambda>e. case ends ty la lb g e of Some (a, b) \<Rightarrow> if p e a b then [(e, a, b)] else [] | None \<Rightarrow> [])
       (gr_edges g))"

definition match_nodes :: "node_label \<Rightarrow> (gnode \<Rightarrow> bool) \<Rightarrow> graph \<Rightarrow> gnode list" where
  "match_nodes l p g = filter (\<lambda>n. gn_label n = l \<and> p n) (gr_nodes g)"

text \<open>\<open>(v)--()\<close>: some edge starts or ends at the node.\<close>

definition has_edge :: "graph \<Rightarrow> gnode \<Rightarrow> bool" where
  "has_edge g n \<longleftrightarrow> list_ex (\<lambda>e. ge_src e = gn_id n \<or> ge_dst e = gn_id n) (gr_edges g)"

definition uuid_in :: "string list \<Rightarrow> gnode \<Rightarrow> bool" where
  "uuid_in us n = (case nuid n of Some u \<Rightarrow> u \<in> set us | None \<Rightarrow> False)"

subsection \<open>Writes\<close>

text \<open>\<open>MATCH (s:A {uuid: $a}), (t:B {uuid: $b}) CREATE (s)-[e:T {...}]->(t) RETURN count(*)\<close>\<close>

definition create_edge ::
  "edge_type \<Rightarrow> node_label \<Rightarrow> string \<Rightarrow> node_label \<Rightarrow> string \<Rightarrow> pydict \<Rightarrow> graph \<Rightarrow> nat \<times> graph" where
  "create_edge ty la a lb b props g =
     (let new = concat (map (\<lambda>s. map (\<lambda>t. \<lparr>ge_type = ty, ge_src = gn_id s, ge_dst = gn_id t, ge_props = props\<rparr>)
                              (match_nodes lb (\<lambda>n. nuid n = Some b) g))
                          (match_nodes la (\<lambda>n. nuid n = Some a) g))
      in (length new, g\<lparr>gr_edges := gr_edges g @ new\<rparr>))"

text \<open>\<open>MATCH (:A {uuid: $a})-[e:T]->(:B {uuid: $b}) WHERE e.uuid = $u DELETE e\<close>\<close>

definition is_edge :: "edge_type \<Rightarrow> node_label \<Rightarrow> string \<Rightarrow> node_label \<Rightarrow> string \<Rightarrow> string option \<Rightarrow> graph \<Rightarrow> gedge \<Rightarrow> bool" where
  "is_edge ty la a lb b u g e =
     (case ends ty la lb g e of
        Some (s, t) \<Rightarrow> nuid s = Some a \<and> nuid t = Some b \<and> u \<noteq> None \<and> euid e = u
      | None \<Rightarrow> False)"

definition delete_edge ::
  "edge_type \<Rightarrow> node_label \<Rightarrow> string \<Rightarrow> node_label \<Rightarrow> string \<Rightarrow> string option \<Rightarrow> graph \<Rightarrow> graph" where
  "delete_edge ty la a lb b u g = g\<lparr>gr_edges := filter (\<lambda>e. \<not> is_edge ty la a lb b u g e) (gr_edges g)\<rparr>"

text \<open>\<open>DETACH DELETE\<close> of the nodes that satisfy a condition.\<close>

definition detach_delete :: "(gnode \<Rightarrow> bool) \<Rightarrow> graph \<Rightarrow> graph" where
  "detach_delete p g =
     (let gone = map gn_id (filter p (gr_nodes g)) in
      g\<lparr>gr_nodes := filter (\<lambda>n. \<not> p n) (gr_nodes g),
        gr_edges := filter (\<lambda>e. ge_src e \<notin> set gone \<and> ge_dst e \<notin> set gone) (gr_edges g)\<rparr>)"

subsection \<open>The driver\<close>

datatype reply = Answered | Refused | ReplyLost

type_synonym session = "graph \<times> nat"

definition run_query :: "(nat \<Rightarrow> reply) \<Rightarrow> (graph \<Rightarrow> 'a \<times> graph) \<Rightarrow> session \<Rightarrow> 'a option \<times> session" where
  "run_query driver statement ss =
     (let (g, n) = ss in
      case driver n of
        Answered \<Rightarrow> (case statement g of (a, g') \<Rightarrow> (Some a, (g', Suc n)))
      | Refused \<Rightarrow> (None, (g, Suc n))
      | ReplyLost \<Rightarrow> (case statement g of (a, g') \<Rightarrow> (None, (g', Suc n))))"

definition read_query :: "(nat \<Rightarrow> reply) \<Rightarrow> (graph \<Rightarrow> 'a) \<Rightarrow> session \<Rightarrow> 'a option \<times> session" where
  "read_query driver f ss = run_query driver (\<lambda>g. (f g, g)) ss"

definition write_query :: "(nat \<Rightarrow> reply) \<Rightarrow> (graph \<Rightarrow> graph) \<Rightarrow> session \<Rightarrow> unit option \<times> session" where
  "write_query driver f ss = run_query driver (\<lambda>g. ((), f g)) ss"

lemma read_query_graph [simp]: "fst (snd (read_query driver f ss)) = fst ss"
  by (auto simp: read_query_def run_query_def Let_def split: prod.splits reply.splits)

lemma read_query_Some: "read_query driver f ss = (Some a, ss') \<Longrightarrow> a = f (fst ss) \<and> fst ss' = fst ss"
  by (auto simp: read_query_def run_query_def Let_def split: prod.splits reply.splits)

lemma read_query_keeps: "read_query driver f ss = (r, ss') \<Longrightarrow> fst ss' = fst ss"
  by (metis read_query_graph snd_conv)

lemma write_query_cases:
  "write_query driver f ss = (r, ss') \<Longrightarrow>
    (fst ss' = f (fst ss)) \<or> (r = None \<and> fst ss' = fst ss)"
  by (auto simp: write_query_def run_query_def Let_def split: prod.splits reply.splits)

lemma run_query_cases:
  "run_query driver f ss = (r, ss') \<Longrightarrow>
    (r = Some (fst (f (fst ss))) \<and> fst ss' = snd (f (fst ss))) \<or>
    (r = None \<and> (fst ss' = fst ss \<or> fst ss' = snd (f (fst ss))))"
  by (auto simp: run_query_def Let_def split: prod.splits reply.splits)

text \<open>A driver that answers everything.\<close>

abbreviation calm :: "nat \<Rightarrow> reply" where
  "calm \<equiv> \<lambda>n. Answered"

lemma calm_simps [simp]:
  "read_query calm f (g, n) = (Some (f g), (g, Suc n))"
  "write_query calm h (g, n) = (Some (), (h g, Suc n))"
  "run_query calm k (g, n) = (Some (fst (k g)), (snd (k g), Suc n))"
  by (simp_all add: read_query_def write_query_def run_query_def split: prod.splits)

subsection \<open>What the writes do to the links\<close>

definition gr_ok :: "graph \<Rightarrow> bool" where
  "gr_ok g \<longleftrightarrow> distinct (map gn_id (gr_nodes g))"

text \<open>Some edge of a kind whose properties satisfy a condition joins the nodes with two uuids.\<close>

definition linked ::
  "edge_type \<Rightarrow> node_label \<Rightarrow> node_label \<Rightarrow> (pydict \<Rightarrow> bool) \<Rightarrow> graph \<Rightarrow> string \<Rightarrow> string \<Rightarrow> bool" where
  "linked ty la lb q g a b \<longleftrightarrow>
     (\<exists>e \<in> set (gr_edges g). \<exists>s t. ends ty la lb g e = Some (s, t) \<and> nuid s = Some a \<and> nuid t = Some b \<and> q (ge_props e))"

lemma ends_nodes: "gr_nodes g = gr_nodes g' \<Longrightarrow> ends ty la lb g e = ends ty la lb g' e"
  by (simp add: ends_def node_at_def)

lemma match_edges_mem:
  "(e, a, b) \<in> set (match_edges ty la lb p g) \<longleftrightarrow> e \<in> set (gr_edges g) \<and> ends ty la lb g e = Some (a, b) \<and> p e a b"
  by (fastforce simp: match_edges_def split: option.splits if_splits)

lemma node_at_mem: "gr_ok g \<Longrightarrow> n \<in> set (gr_nodes g) \<Longrightarrow> node_at g (gn_id n) = Some n"
proof -
  assume ok: "gr_ok g" and n: "n \<in> set (gr_nodes g)"
  obtain m where m: "find (\<lambda>x. gn_id x = gn_id n) (gr_nodes g) = Some m"
    using n by (cases "find (\<lambda>x. gn_id x = gn_id n) (gr_nodes g)") (auto simp: find_None_iff)
  then have "m \<in> set (gr_nodes g)" "gn_id m = gn_id n" by (auto simp: find_Some_iff)
  with ok n have "m = n" by (auto simp: gr_ok_def distinct_map dest: inj_onD)
  with m show ?thesis by (simp add: node_at_def)
qed

lemma node_at_Some: "node_at g i = Some n \<Longrightarrow> n \<in> set (gr_nodes g) \<and> gn_id n = i"
  by (auto simp: node_at_def find_Some_iff)

lemma ends_Some:
  "ends ty la lb g e = Some (s, t) \<longleftrightarrow> ge_type e = ty \<and> node_at g (ge_src e) = Some s \<and> node_at g (ge_dst e) = Some t \<and>
     gn_label s = la \<and> gn_label t = lb"
  by (auto simp: ends_def split: option.splits if_splits)

lemma create_edge_nodes [simp]: "gr_nodes (snd (create_edge ty la a lb b props g)) = gr_nodes g"
  by (simp add: create_edge_def Let_def)

lemma delete_edge_nodes [simp]: "gr_nodes (delete_edge ty la a lb b u g) = gr_nodes g"
  by (simp add: delete_edge_def)

lemma create_edge_ok [simp]: "gr_ok (snd (create_edge ty la a lb b props g)) = gr_ok g"
  by (simp add: gr_ok_def)

lemma delete_edge_ok [simp]: "gr_ok (delete_edge ty la a lb b u g) = gr_ok g"
  by (simp add: gr_ok_def)

lemma create_edge_mem:
  "e \<in> set (gr_edges (snd (create_edge ty la a lb b props g))) \<longleftrightarrow>
    e \<in> set (gr_edges g) \<or>
    (\<exists>s \<in> set (match_nodes la (\<lambda>n. nuid n = Some a) g). \<exists>t \<in> set (match_nodes lb (\<lambda>n. nuid n = Some b) g).
       e = \<lparr>ge_type = ty, ge_src = gn_id s, ge_dst = gn_id t, ge_props = props\<rparr>)"
  by (auto simp: create_edge_def Let_def)

lemma create_edge_count:
  "0 < fst (create_edge ty la a lb b props g) \<longleftrightarrow>
    match_nodes la (\<lambda>n. nuid n = Some a) g \<noteq> [] \<and> match_nodes lb (\<lambda>n. nuid n = Some b) g \<noteq> []"
  by (cases "match_nodes la (\<lambda>n. nuid n = Some a) g"; cases "match_nodes lb (\<lambda>n. nuid n = Some b) g")
    (auto simp: create_edge_def Let_def)

lemma delete_edge_mem:
  "e \<in> set (gr_edges (delete_edge ty la a lb b u g)) \<longleftrightarrow> e \<in> set (gr_edges g) \<and> \<not> is_edge ty la a lb b u g e"
  by (simp add: delete_edge_def)

lemma linked_create:
  "linked ty' la' lb' q g x y \<Longrightarrow> linked ty' la' lb' q (snd (create_edge ty la a lb b props g)) x y"
  unfolding linked_def using ends_nodes [OF create_edge_nodes] create_edge_mem by metis

lemma linked_created:
  assumes "gr_ok g" "0 < fst (create_edge ty la a lb b props g)" "q props"
  shows "linked ty la lb q (snd (create_edge ty la a lb b props g)) a b"
proof -
  obtain s t where st: "s \<in> set (match_nodes la (\<lambda>n. nuid n = Some a) g)" "t \<in> set (match_nodes lb (\<lambda>n. nuid n = Some b) g)"
    using assms(2) unfolding create_edge_count by (meson last_in_set)
  let ?e = "\<lparr>ge_type = ty, ge_src = gn_id s, ge_dst = gn_id t, ge_props = props\<rparr>"
  have "?e \<in> set (gr_edges (snd (create_edge ty la a lb b props g)))" using st create_edge_mem by blast
  moreover have "ends ty la lb (snd (create_edge ty la a lb b props g)) ?e = Some (s, t)"
    using st node_at_mem [OF assms(1)] by (simp add: ends_nodes [OF create_edge_nodes] ends_Some match_nodes_def)
  ultimately show ?thesis using st assms(3) unfolding linked_def by (force simp: match_nodes_def)
qed

lemma linked_create_only:
  assumes "gr_ok g" "linked ty' la' lb' q (snd (create_edge ty la a lb b props g)) x y"
  shows "linked ty' la' lb' q g x y \<or> (ty' = ty \<and> x = a \<and> y = b)"
proof -
  obtain e s t where e: "e \<in> set (gr_edges (snd (create_edge ty la a lb b props g)))" "ends ty' la' lb' g e = Some (s, t)"
    "nuid s = Some x" "nuid t = Some y" "q (ge_props e)"
    using assms(2) unfolding linked_def by (auto simp: ends_nodes [OF create_edge_nodes])
  show ?thesis
  proof (cases "e \<in> set (gr_edges g)")
    case True
    with e show ?thesis unfolding linked_def by blast
  next
    case False
    with e(1) obtain s' t' where "s' \<in> set (gr_nodes g)" "t' \<in> set (gr_nodes g)" "nuid s' = Some a" "nuid t' = Some b"
      "e = \<lparr>ge_type = ty, ge_src = gn_id s', ge_dst = gn_id t', ge_props = props\<rparr>"
      unfolding create_edge_mem match_nodes_def by auto
    then show ?thesis using e(2-4) node_at_mem [OF assms(1)] by (auto simp: ends_Some)
  qed
qed

lemma linked_delete:
  assumes "linked ty' la' lb' q g x y"
    and "ty' \<noteq> ty \<or> la' \<noteq> la \<or> lb' \<noteq> lb \<or> x \<noteq> a \<or> y \<noteq> b \<or> (\<forall>e \<in> set (gr_edges g). ge_type e = ty \<and> q (ge_props e) \<longrightarrow> u = None \<or> euid e \<noteq> u)"
  shows "linked ty' la' lb' q (delete_edge ty la a lb b u g) x y"
proof -
  obtain e s t where e: "e \<in> set (gr_edges g)" "ends ty' la' lb' g e = Some (s, t)" "nuid s = Some x" "nuid t = Some y" "q (ge_props e)"
    using assms(1) unfolding linked_def by blast
  have "\<not> is_edge ty la a lb b u g e"
    using e assms(2) by (auto simp: is_edge_def ends_Some split: option.splits)
  then have "e \<in> set (gr_edges (delete_edge ty la a lb b u g))" using e(1) by (simp add: delete_edge_def)
  with e show ?thesis unfolding linked_def by (auto simp: ends_nodes [OF delete_edge_nodes])
qed

lemma linked_delete_only:
  assumes "linked ty' la' lb' q (delete_edge ty la a lb b u g) x y"
  shows "linked ty' la' lb' q g x y"
proof -
  obtain e s t where "e \<in> set (gr_edges g)" "ends ty' la' lb' g e = Some (s, t)" "nuid s = Some x" "nuid t = Some y" "q (ge_props e)"
    using assms unfolding linked_def ends_nodes [OF delete_edge_nodes] by (auto simp: delete_edge_mem)
  then show ?thesis unfolding linked_def by blast
qed

subsection \<open>Moving an edge\<close>

text \<open>CREATE, and DELETE of the old edge only when something was created.  The result: what was created, whether the
  move went through without an exception, and the session.\<close>

definition create_then_delete ::
  "(nat \<Rightarrow> reply) \<Rightarrow> (graph \<Rightarrow> nat \<times> graph) \<Rightarrow> (graph \<Rightarrow> graph) \<Rightarrow> session \<Rightarrow> nat option \<times> bool \<times> session" where
  "create_then_delete driver create delete ss =
     (case run_query driver create ss of
        (None, ss1) \<Rightarrow> (None, False, ss1)
      | (Some n, ss1) \<Rightarrow>
          if n = 0 then (Some 0, True, ss1)
          else (case write_query driver delete ss1 of (r, ss2) \<Rightarrow> (Some n, r \<noteq> None, ss2)))"

lemma create_then_delete_range:
  assumes "create_then_delete driver create delete ss = (r, ok, ss')"
  shows "fst ss' = fst ss \<or> fst ss' = snd (create (fst ss)) \<or> fst ss' = delete (snd (create (fst ss)))"
proof -
  obtain a ss1 where c: "run_query driver create ss = (a, ss1)" by (cases "run_query driver create ss")
  obtain b ss2 where d: "write_query driver delete ss1 = (b, ss2)" by (cases "write_query driver delete ss1")
  have "ss' = ss1 \<or> ss' = ss2" using assms c d by (auto simp: create_then_delete_def split: option.splits if_splits)
  with run_query_cases [OF c] write_query_cases [OF d] show ?thesis
    using assms c d by (auto simp: create_then_delete_def split: option.splits if_splits)
qed

text \<open>The interface of a move: a fact about the graph, a CREATE that makes it true of the new key and a DELETE that takes it
  from the old key alone.  Whatever the driver does, the fact is then lost of no key but, to
  the new one, of the old.\<close>

locale edge_move =
  fixes inv :: "graph \<Rightarrow> bool"
    and holds :: "graph \<Rightarrow> 'k \<Rightarrow> bool"
    and create :: "graph \<Rightarrow> nat \<times> graph"
    and delete :: "graph \<Rightarrow> graph"
    and old :: 'k
    and new :: 'k
  assumes create_inv: "inv g \<Longrightarrow> inv (snd (create g))"
    and delete_inv: "inv g \<Longrightarrow> inv (delete g)"
    and create_keeps: "inv g \<Longrightarrow> holds g k \<Longrightarrow> holds (snd (create g)) k"
    and create_makes: "inv g \<Longrightarrow> 0 < fst (create g) \<Longrightarrow> holds (snd (create g)) new"
    and create_only: "inv g \<Longrightarrow> holds (snd (create g)) k \<Longrightarrow> holds g k \<or> k = new"
    and delete_keeps: "inv g \<Longrightarrow> holds g k \<Longrightarrow> k \<noteq> old \<Longrightarrow> holds (delete g) k"
    and delete_only: "inv g \<Longrightarrow> holds (delete g) k \<Longrightarrow> holds g k"
begin

definition moved :: "graph \<Rightarrow> graph \<Rightarrow> bool" where
  "moved g g' \<longleftrightarrow> inv g' \<and> (\<forall>k. holds g k \<longrightarrow> holds g' k \<or> (k = old \<and> holds g' new)) \<and>
     (\<forall>k. holds g' k \<longrightarrow> holds g k \<or> k = new)"

lemma moved_not: "inv g \<Longrightarrow> moved g g"
  by (simp add: moved_def)

lemma moved_created: "inv g \<Longrightarrow> moved g (snd (create g))"
  using create_inv create_keeps create_only by (simp add: moved_def)

lemma moved_both: "inv g \<Longrightarrow> old \<noteq> new \<Longrightarrow> 0 < fst (create g) \<Longrightarrow> moved g (delete (snd (create g)))"
  unfolding moved_def using create_inv delete_inv create_keeps create_makes create_only delete_keeps delete_only by metis

lemma guarded_move:
  assumes "inv (fst ss)" "old \<noteq> new" "create_then_delete driver create delete ss = (r, ok, ss')"
  shows "moved (fst ss) (fst ss')"
proof -
  obtain a ss1 where c: "run_query driver create ss = (a, ss1)" by (cases "run_query driver create ss")
  show ?thesis
  proof (cases a)
    case None
    with c assms(3) have "ss' = ss1" by (simp add: create_then_delete_def)
    with run_query_cases [OF c] show ?thesis
      using None moved_not [OF assms(1)] moved_created [OF assms(1)] by auto
  next
    case (Some n)
    have created: "fst ss1 = snd (create (fst ss))" "n = fst (create (fst ss))" using run_query_cases [OF c] Some by auto
    show ?thesis
    proof (cases "n = 0")
      case True
      with c Some assms(3) have "ss' = ss1" by (simp add: create_then_delete_def)
      then show ?thesis using created(1) moved_created [OF assms(1)] by simp
    next
      case False
      obtain b ss2 where d: "write_query driver delete ss1 = (b, ss2)" by (cases "write_query driver delete ss1")
      with c Some False assms(3) have "ss' = ss2" by (simp add: create_then_delete_def)
      with write_query_cases [OF d] show ?thesis
        using created False moved_created [OF assms(1)] moved_both [OF assms(1,2)] by auto
    qed
  qed
qed

text \<open>The same without the check of the count, where the CREATE is known to match.\<close>

lemma unguarded_move:
  assumes "inv (fst ss)" "old \<noteq> new" "0 < fst (create (fst ss))"
    and "run_query driver create ss = (Some n, ss1)" "write_query driver delete ss1 = (r, ss2)"
  shows "moved (fst ss) (fst ss2)"
  using run_query_cases [OF assms(4)] write_query_cases [OF assms(5)] moved_created [OF assms(1)] moved_both [OF assms(1-3)]
  by auto

lemma failed_create:
  assumes "inv (fst ss)" "run_query driver create ss = (None, ss1)"
  shows "moved (fst ss) (fst ss1)"
  using run_query_cases [OF assms(2)] moved_not [OF assms(1)] moved_created [OF assms(1)] by auto

end

definition mentioned :: "graph \<Rightarrow> string \<times> string \<Rightarrow> bool" where
  "mentioned g k \<longleftrightarrow> linked Mentions Episodic Entity (\<lambda>p. True) g (fst k) (snd k)"

interpretation mention_move: edge_move gr_ok mentioned "create_edge Mentions Episodic s' Entity t' props"
    "delete_edge Mentions Episodic s Entity t u" "(s, t)" "(s', t')"
  for s t u s' t' props
proof unfold_locales
  fix g k
  assume ok: "gr_ok g"
  show "0 < fst (create_edge Mentions Episodic s' Entity t' props g) \<Longrightarrow>
      mentioned (snd (create_edge Mentions Episodic s' Entity t' props g)) (s', t')"
    using linked_created [OF ok] by (simp add: mentioned_def)
  show "mentioned g k \<Longrightarrow> mentioned (snd (create_edge Mentions Episodic s' Entity t' props g)) k" unfolding mentioned_def by (rule linked_create)
  show "mentioned (snd (create_edge Mentions Episodic s' Entity t' props g)) k \<Longrightarrow> mentioned g k \<or> k = (s', t')"
    using linked_create_only [OF ok, of Mentions Episodic Entity "\<lambda>p. True" Mentions Episodic s' Entity t' props "fst k" "snd k"]
    unfolding mentioned_def prod_eq_iff by auto
  show "mentioned g k \<Longrightarrow> k \<noteq> (s, t) \<Longrightarrow> mentioned (delete_edge Mentions Episodic s Entity t u g) k"
    unfolding mentioned_def by (rule linked_delete) (auto simp: prod_eq_iff)
  show "mentioned (delete_edge Mentions Episodic s Entity t u g) k \<Longrightarrow> mentioned g k" unfolding mentioned_def by (rule linked_delete_only)
qed simp_all

text \<open>Facts: the relation edges with uuid \<open>u\<close> all state the fact \<open>f\<close>.\<close>

abbreviation fact_of :: "pydict \<Rightarrow> string option" where
  "fact_of p \<equiv> tprop p ''fact''"

type_synonym fact_key = "string \<times> string \<times> string option"

definition related :: "graph \<Rightarrow> fact_key \<Rightarrow> bool" where
  "related g k \<longleftrightarrow> linked RelatesTo Entity Entity (\<lambda>p. fact_of p = snd (snd k)) g (fst k) (fst (snd k))"

definition facts_in :: "(string option \<times> string option) set \<Rightarrow> graph \<Rightarrow> bool" where
  "facts_in P g \<longleftrightarrow> (\<forall>e \<in> set (gr_edges g). ge_type e = RelatesTo \<longrightarrow> (euid e, fact_of (ge_props e)) \<in> P)"

definition one_fact :: "(string option \<times> string option) set \<Rightarrow> bool" where
  "one_fact P \<longleftrightarrow> (\<forall>u f f'. (Some u, f) \<in> P \<and> (Some u, f') \<in> P \<longrightarrow> f = f')"

definition facts_ok :: "(string option \<times> string option) set \<Rightarrow> pydict \<Rightarrow> graph \<Rightarrow> bool" where
  "facts_ok P p g \<longleftrightarrow> gr_ok g \<and> facts_in P g \<and> one_fact P \<and> (tprop p ''uuid'', fact_of p) \<in> P"

interpretation fact_move: edge_move "facts_ok P p" related "create_edge RelatesTo Entity a' Entity b' p"
    "delete_edge RelatesTo Entity a Entity b (tprop p ''uuid'')" "(a, b, fact_of p)" "(a', b', fact_of p)"
  for P a b a' b' p
proof unfold_locales
  fix g k
  let ?c = "snd (create_edge RelatesTo Entity a' Entity b' p g)" and ?d = "delete_edge RelatesTo Entity a Entity b (tprop p ''uuid'') g"
  assume inv: "facts_ok P p g"
  then have ok: "gr_ok g" by (simp add: facts_ok_def)
  show "facts_ok P p ?c" using inv by (auto simp: facts_ok_def facts_in_def create_edge_mem)
  show "facts_ok P p ?d" using inv by (auto simp: facts_ok_def facts_in_def delete_edge_mem)
  show "0 < fst (create_edge RelatesTo Entity a' Entity b' p g) \<Longrightarrow> related ?c (a', b', fact_of p)"
    using linked_created [OF ok] by (simp add: related_def)
  show "related g k \<Longrightarrow> related ?c k" unfolding related_def by (rule linked_create)
  show "related ?c k \<Longrightarrow> related g k \<or> k = (a', b', fact_of p)"
  proof -
    assume r: "related ?c k"
    then obtain e s t where e: "e \<in> set (gr_edges ?c)" "ends RelatesTo Entity Entity g e = Some (s, t)" "nuid s = Some (fst k)"
      "nuid t = Some (fst (snd k))" "fact_of (ge_props e) = snd (snd k)"
      unfolding related_def linked_def by (auto simp: ends_nodes [OF create_edge_nodes])
    show ?thesis
    proof (cases "e \<in> set (gr_edges g)")
      case True
      with e show ?thesis unfolding related_def linked_def by blast
    next
      case False
      with e(1) have "ge_props e = p" by (auto simp: create_edge_mem)
      with r e(5) linked_create_only [OF ok r [unfolded related_def]] show ?thesis by (auto simp: prod_eq_iff related_def)
    qed
  qed
  show "related g k \<Longrightarrow> k \<noteq> (a, b, fact_of p) \<Longrightarrow> related ?d k"
    using inv unfolding related_def by (intro linked_delete) (auto simp: prod_eq_iff facts_ok_def facts_in_def one_fact_def)
  show "related ?d k \<Longrightarrow> related g k" unfolding related_def by (rule linked_delete_only)
qed

end
