(* ===== verification/DedupApply.thy ===== *)
theory DedupApply
  imports GraphStore
begin

text \<open>
  \<open>pipeline/dedup_apply.py\<close>, the entity half: reading a snapshot of the graph, and applying a plan to the graph
  in four phases (mentions, relations, duplicate relations, victims).  Endpoint, name and text
  properties are strings or absent.
\<close>

subsection \<open>Reading a snapshot\<close>

datatype read_error = EntitiesRead | EpisodicsRead | MentionsRead | RelationsRead

record snapshot =
  sn_entities :: "entity_row list"
  sn_episodics :: "episodic_row list"
  sn_mentions :: "mention_row list"
  sn_relations :: "relation_row list"

text \<open>\<open>str(x) if x else None\<close> and \<open>x or y\<close>.\<close>

definition nonempty :: "string option \<Rightarrow> string option" where
  "nonempty x = (if x = Some [] then None else x)"

definition or_else :: "string option \<Rightarrow> string option \<Rightarrow> string option" where
  "or_else x y = (if nonempty x = None then y else x)"

definition in_group :: "string \<Rightarrow> gnode \<Rightarrow> bool" where
  "in_group gid n \<longleftrightarrow> tprop (gn_props n) ''group_id'' = Some gid"

definition entity_row_of :: "gnode \<Rightarrow> entity_row" where
  "entity_row_of n =
     \<lparr>en_uuid = nuid n, en_name = tprop (gn_props n) ''name'', en_summary = tprop (gn_props n) ''summary'',
      en_created_at = nonempty (tprop (gn_props n) ''created_at'')\<rparr>"

definition episodic_row_of :: "gnode \<Rightarrow> episodic_row" where
  "episodic_row_of n =
     \<lparr>ed_uuid = nuid n, ed_name = tprop (gn_props n) ''name'', ed_content = tprop (gn_props n) ''content'',
      ed_created_at = nonempty (tprop (gn_props n) ''created_at'')\<rparr>"

definition mention_row_of :: "gedge \<times> gnode \<times> gnode \<Rightarrow> mention_row" where
  "mention_row_of m = (case m of (e, s, n) \<Rightarrow> \<lparr>mn_src = nuid s, mn_dst = nuid n\<rparr>)"

definition relation_row_of :: "gedge \<times> gnode \<times> gnode \<Rightarrow> relation_row" where
  "relation_row_of m =
     (case m of (e, a, b) \<Rightarrow>
        (let s = tprop (ge_props e) ''source_node_uuid''; t = tprop (ge_props e) ''target_node_uuid'' in
         \<lparr>rl_src = or_else s t, rl_dst = or_else t s, rl_fact = tprop (ge_props e) ''fact''\<rparr>))"

definition entities_q :: "string \<Rightarrow> graph \<Rightarrow> entity_row list" where
  "entities_q gid g = map entity_row_of (match_nodes Entity (in_group gid) g)"

definition episodic_q :: "string \<Rightarrow> graph \<Rightarrow> episodic_row list" where
  "episodic_q gid g = map episodic_row_of (match_nodes Episodic (in_group gid) g)"

definition mentions_q :: "string \<Rightarrow> graph \<Rightarrow> mention_row list" where
  "mentions_q gid g = map mention_row_of (match_edges Mentions Episodic Entity (\<lambda>e s n. in_group gid n) g)"

definition relations_q :: "string \<Rightarrow> graph \<Rightarrow> relation_row list" where
  "relations_q gid g = map relation_row_of (match_edges RelatesTo Entity Entity (\<lambda>e a b. in_group gid a) g)"

definition rows_or_error :: "'e \<Rightarrow> 'r list option \<Rightarrow> 'r list \<times> 'e list" where
  "rows_or_error err r = (case r of Some rows \<Rightarrow> (rows, []) | None \<Rightarrow> ([], [err]))"

definition load_graph_snapshot :: "(nat \<Rightarrow> reply) \<Rightarrow> string \<Rightarrow> session \<Rightarrow> snapshot \<times> read_error list \<times> session" where
  "load_graph_snapshot driver gid ss0 =
     (let (r1, ss1) = read_query driver (entities_q gid) ss0;
          (r2, ss2) = read_query driver (episodic_q gid) ss1;
          (r3, ss3) = read_query driver (mentions_q gid) ss2;
          (r4, ss4) = read_query driver (relations_q gid) ss3
      in (\<lparr>sn_entities = fst (rows_or_error EntitiesRead r1), sn_episodics = fst (rows_or_error EpisodicsRead r2),
           sn_mentions = fst (rows_or_error MentionsRead r3), sn_relations = fst (rows_or_error RelationsRead r4)\<rparr>,
          snd (rows_or_error EntitiesRead r1) @ snd (rows_or_error EpisodicsRead r2) @
          snd (rows_or_error MentionsRead r3) @ snd (rows_or_error RelationsRead r4), ss4))"

subsection \<open>Counters\<close>

datatype dedup_error =
    MentionsReadFailed
  | MentionSkipped "string option"
  | MentionNotCreated "string option"
  | MentionMoveFailed "string option"
  | RelationsReadFailed
  | SelfLoopDropFailed "string option"
  | RelationMoveFailed "string option"
  | CollapseFailed
  | NodeDeleteFailed

record dedup_counters =
  ct_applied :: bool
  ct_nodes_deleted :: nat
  ct_mentions_moved :: nat
  ct_relations_moved :: nat
  ct_self_loops :: nat
  ct_duplicates :: nat
  ct_errors :: "dedup_error list"
  ct_planned :: "(nat \<times> nat \<times> nat) option"

definition new_counters :: "bool \<Rightarrow> dedup_counters" where
  "new_counters applied =
     \<lparr>ct_applied = applied, ct_nodes_deleted = 0, ct_mentions_moved = 0, ct_relations_moved = 0, ct_self_loops = 0,
      ct_duplicates = 0, ct_errors = [], ct_planned = None\<rparr>"

definition add_error :: "dedup_error \<Rightarrow> dedup_counters \<Rightarrow> dedup_counters" where
  "add_error x c = c\<lparr>ct_errors := ct_errors c @ [x]\<rparr>"

definition redirect_map :: "('m \<Rightarrow> string) \<Rightarrow> ('m \<Rightarrow> string) \<Rightarrow> 'm list \<Rightarrow> (string \<times> string) list" where
  "redirect_map victim survivor ms = fold (\<lambda>m v. AList.update (victim m) (survivor m) v) ms []"

type_synonym run = "dedup_counters \<times> session"

subsection \<open>Phase A: mentions\<close>

record mention_edge =
  me_uuid :: "string option"
  me_src :: "string option"
  me_dst :: "string option"
  me_created :: "string option"
  me_group :: "string option"

definition mention_edge_of :: "gedge \<times> gnode \<times> gnode \<Rightarrow> mention_edge" where
  "mention_edge_of m =
     (case m of (e, s, v) \<Rightarrow>
        \<lparr>me_uuid = euid e, me_src = nuid s, me_dst = nuid v, me_created = tprop (ge_props e) ''created_at'',
         me_group = tprop (ge_props e) ''group_id''\<rparr>)"

definition mentions_of_victims :: "string list \<Rightarrow> graph \<Rightarrow> mention_edge list" where
  "mentions_of_victims victims g =
     map mention_edge_of (match_edges Mentions Episodic Entity (\<lambda>e s v. uuid_in victims v) g)"

definition default_group :: string where "default_group = ''graphiti_memory''"

definition mention_props :: "mention_edge \<Rightarrow> pydict" where
  "mention_props r =
     opt_prop ''uuid'' (opt_text (me_uuid r)) @
     [(''group_id'', PyStr (case nonempty (me_group r) of Some s \<Rightarrow> s | None \<Rightarrow> default_group))] @
     opt_prop ''created_at'' (opt_text (nonempty (me_created r)))"

definition move_mention ::
  "(nat \<Rightarrow> reply) \<Rightarrow> (string \<Rightarrow> string) \<Rightarrow> mention_edge \<Rightarrow> run \<Rightarrow> run" where
  "move_mention driver rt r cs =
     (let (c, ss) = cs; src = or_empty (me_src r); dst = or_empty (me_dst r); new = rt dst in
      if src = [] \<or> dst = [] then (add_error (MentionSkipped (me_uuid r)) c, ss)
      else if new = dst then (c, ss)
      else case create_then_delete driver (create_edge Mentions Episodic src Entity new (mention_props r))
             (delete_edge Mentions Episodic src Entity dst (me_uuid r)) ss of
          (Some n, True, ss') \<Rightarrow>
            if n = 0 then (add_error (MentionNotCreated (me_uuid r)) c, ss')
            else (c\<lparr>ct_mentions_moved := ct_mentions_moved c + 1\<rparr>, ss')
        | (_, _, ss') \<Rightarrow> (add_error (MentionMoveFailed (me_uuid r)) c, ss'))"

definition phase_a :: "(nat \<Rightarrow> reply) \<Rightarrow> (string \<Rightarrow> string) \<Rightarrow> string list \<Rightarrow> run \<Rightarrow> run" where
  "phase_a driver rt victims cs =
     (let (c, ss) = cs in
      case read_query driver (mentions_of_victims victims) ss of
        (None, ss1) \<Rightarrow> (add_error MentionsReadFailed c, ss1)
      | (Some rows, ss1) \<Rightarrow> fold (move_mention driver rt) rows (c, ss1))"

subsection \<open>Phase B: relations\<close>

record relation_edge =
  re_src :: "string option"
  re_dst :: "string option"
  re_props :: pydict

abbreviation re_uuid :: "relation_edge \<Rightarrow> string option" where
  "re_uuid r \<equiv> tprop (re_props r) ''uuid''"

definition relation_edge_of :: "gedge \<times> gnode \<times> gnode \<Rightarrow> relation_edge" where
  "relation_edge_of m = (case m of (e, a, b) \<Rightarrow> \<lparr>re_src = nuid a, re_dst = nuid b, re_props = ge_props e\<rparr>)"

definition relations_of_victims :: "string list \<Rightarrow> graph \<Rightarrow> relation_edge list" where
  "relations_of_victims victims g =
     map relation_edge_of (match_edges RelatesTo Entity Entity (\<lambda>e a b. uuid_in victims a \<or> uuid_in victims b) g)"

definition prop_or_null :: "pydict \<Rightarrow> string \<Rightarrow> pyval" where
  "prop_or_null d k = (case dict_get d k of Some v \<Rightarrow> v | None \<Rightarrow> PyNone)"

definition text_prop :: "pydict \<Rightarrow> string \<Rightarrow> pydict" where
  "text_prop d k = opt_prop k (opt_text (nonempty (tprop d k)))"

text \<open>The properties the moved edge gets; the old edge's others are not carried over.\<close>

definition relation_props :: "string \<Rightarrow> string \<Rightarrow> pydict \<Rightarrow> pydict" where
  "relation_props s2 d2 d =
     opt_prop ''uuid'' (opt_text (tprop d ''uuid'')) @
     [(''source_node_uuid'', PyStr s2), (''target_node_uuid'', PyStr d2), (''group_id'', PyStr default_group)] @
     opt_prop ''fact'' (opt_text (tprop d ''fact'')) @ opt_prop ''name'' (opt_text (tprop d ''name'')) @
     text_prop d ''created_at'' @ text_prop d ''valid_at'' @ text_prop d ''reference_time'' @
     [(''episodes'', let v = prop_or_null d ''episodes'' in if py_truthy v then v else PyList [])]"

text \<open>A null endpoint matches no node.\<close>

definition delete_relation :: "relation_edge \<Rightarrow> graph \<Rightarrow> graph" where
  "delete_relation r g =
     (case (re_src r, re_dst r) of
        (Some s, Some d) \<Rightarrow> delete_edge RelatesTo Entity s Entity d (re_uuid r) g
      | _ \<Rightarrow> g)"

definition move_relation :: "(nat \<Rightarrow> reply) \<Rightarrow> (string \<Rightarrow> string) \<Rightarrow> relation_edge \<Rightarrow> run \<Rightarrow> run" where
  "move_relation driver rt r cs =
     (let (c, ss) = cs; src = str_of (re_src r); dst = str_of (re_dst r); s2 = rt src; d2 = rt dst in
      if s2 = src \<and> d2 = dst then (c, ss)
      else if s2 = d2 then
        (let c1 = c\<lparr>ct_self_loops := ct_self_loops c + 1\<rparr> in
         case write_query driver (delete_relation r) ss of
           (None, ss1) \<Rightarrow> (add_error (SelfLoopDropFailed (re_uuid r)) c1, ss1)
         | (Some _, ss1) \<Rightarrow> (c1, ss1))
      else case run_query driver (create_edge RelatesTo Entity s2 Entity d2 (relation_props s2 d2 (re_props r))) ss of
          (None, ss1) \<Rightarrow> (add_error (RelationMoveFailed (re_uuid r)) c, ss1)
        | (Some _, ss1) \<Rightarrow>
            (case write_query driver (delete_relation r) ss1 of
               (None, ss2) \<Rightarrow> (add_error (RelationMoveFailed (re_uuid r)) c, ss2)
             | (Some _, ss2) \<Rightarrow> (c\<lparr>ct_relations_moved := ct_relations_moved c + 1\<rparr>, ss2)))"

definition phase_b :: "(nat \<Rightarrow> reply) \<Rightarrow> (string \<Rightarrow> string) \<Rightarrow> string list \<Rightarrow> run \<Rightarrow> run" where
  "phase_b driver rt victims cs =
     (let (c, ss) = cs in
      case read_query driver (relations_of_victims victims) ss of
        (None, ss1) \<Rightarrow> (add_error RelationsReadFailed c, ss1)
      | (Some rows, ss1) \<Rightarrow> fold (move_relation driver rt) rows (c, ss1))"

subsection \<open>Phase C: duplicate relations\<close>

text \<open>The grouping key of a relation edge: uuids of its ends and fact.\<close>

definition relation_group :: "graph \<Rightarrow> gedge \<Rightarrow> (string option \<times> string option \<times> string option) option" where
  "relation_group g e =
     (case ends RelatesTo Entity Entity g e of
        Some (a, b) \<Rightarrow> Some (nuid a, nuid b, tprop (ge_props e) ''fact'')
      | None \<Rightarrow> None)"

text \<open>How many edges with a uuid repeat the key of another.\<close>

definition duplicate_relations :: "graph \<Rightarrow> nat" where
  "duplicate_relations g =
     (let es = filter (\<lambda>e. relation_group g e \<noteq> None) (gr_edges g) in
      sum_list (map (\<lambda>(k, group). length (filter (\<lambda>e. euid e \<noteq> None) group) - 1) (group_by (relation_group g) es)))"

text \<open>Deletes all edges of a group but the first.\<close>

fun keep_first :: "('e \<Rightarrow> 'k option) \<Rightarrow> 'k list \<Rightarrow> 'e list \<Rightarrow> 'e list" where
  "keep_first key seen [] = []"
| "keep_first key seen (e # es) =
     (case key e of
        None \<Rightarrow> e # keep_first key seen es
      | Some k \<Rightarrow> if k \<in> set seen then keep_first key seen es else e # keep_first key (k # seen) es)"

definition collapse_relations :: "graph \<Rightarrow> graph" where
  "collapse_relations g = g\<lparr>gr_edges := keep_first (relation_group g) [] (gr_edges g)\<rparr>"

definition phase_c :: "(nat \<Rightarrow> reply) \<Rightarrow> run \<Rightarrow> run" where
  "phase_c driver cs =
     (let (c, ss) = cs in
      case read_query driver duplicate_relations ss of
        (None, ss1) \<Rightarrow> (add_error CollapseFailed c, ss1)
      | (Some n, ss1) \<Rightarrow>
          (let c1 = c\<lparr>ct_duplicates := n\<rparr> in
           if n = 0 then (c1, ss1)
           else case write_query driver collapse_relations ss1 of
               (None, ss2) \<Rightarrow> (add_error CollapseFailed c1, ss2)
             | (Some _, ss2) \<Rightarrow> (c1, ss2)))"

subsection \<open>Phase D: victims\<close>

function chunks :: "nat \<Rightarrow> 'a list \<Rightarrow> 'a list list" where
  "chunks n xs = (if xs = [] \<or> n = 0 then [] else take n xs # chunks n (drop n xs))"
  by pat_completeness auto
termination by (relation "measure (\<lambda>(n, xs). length xs)") auto

declare chunks.simps [simp del]

definition edgeless_entity :: "string list \<Rightarrow> graph \<Rightarrow> gnode \<Rightarrow> bool" where
  "edgeless_entity us g n \<longleftrightarrow> gn_label n = Entity \<and> uuid_in us n \<and> \<not> has_edge g n"

definition delete_edgeless :: "string list \<Rightarrow> graph \<Rightarrow> graph" where
  "delete_edgeless us g = detach_delete (edgeless_entity us g) g"

definition count_edgeless :: "string list \<Rightarrow> graph \<Rightarrow> nat" where
  "count_edgeless us g = length (filter (edgeless_entity us g) (gr_nodes g))"

definition delete_chunk :: "(nat \<Rightarrow> reply) \<Rightarrow> string list \<Rightarrow> run \<Rightarrow> run" where
  "delete_chunk driver chunk cs =
     (let (c, ss) = cs in
      case read_query driver (count_edgeless chunk) ss of
        (None, ss1) \<Rightarrow> (add_error NodeDeleteFailed c, ss1)
      | (Some n, ss1) \<Rightarrow>
          (case write_query driver (delete_edgeless chunk) ss1 of
             (None, ss2) \<Rightarrow> (add_error NodeDeleteFailed c, ss2)
           | (Some _, ss2) \<Rightarrow> (c\<lparr>ct_nodes_deleted := ct_nodes_deleted c + n\<rparr>, ss2)))"

definition default_batch :: nat where "default_batch = 200"

definition apply_plan :: "(nat \<Rightarrow> reply) \<Rightarrow> dedup_plan \<Rightarrow> bool \<Rightarrow> nat \<Rightarrow> session \<Rightarrow> run" where
  "apply_plan driver plan apply_it batch ss =
     (let c = new_counters apply_it; redirect = redirect_map mg_victim mg_survivor (dp_merges plan);
          rt = redirect_of redirect; victims = map fst redirect in
      if plan_is_empty plan then (c, ss)
      else if \<not> apply_it then
        (c\<lparr>ct_planned := Some (dp_nodes_to_delete plan, dp_mentions_to_redirect plan, dp_relations_to_redirect plan)\<rparr>, ss)
      else fold (delete_chunk driver) (chunks batch victims)
             (phase_c driver (phase_b driver rt victims (phase_a driver rt victims (c, ss)))))"

subsection \<open>What a run carries over\<close>

lemma dict_get_append: "dict_get (d @ d') k = (case dict_get d k of Some v \<Rightarrow> Some v | None \<Rightarrow> dict_get d' k)"
  by (simp add: dict_get_def map_add_def split: option.splits)

lemma dict_get_opt [simp]: "dict_get (opt_prop k v) k' = (if k' = k \<and> v \<noteq> PyNone then Some v else None)"
  by (simp add: opt_prop_def)

lemma opt_text_eq [simp]: "opt_text x = PyNone \<longleftrightarrow> x = None" "opt_text x = PyStr t \<longleftrightarrow> x = Some t"
  by (auto simp: opt_text_def split: option.splits)

lemma opt_text_Some [simp]: "opt_text (Some t) = PyStr t"
  by (simp add: opt_text_def)

lemma tprop_opt: "tprop (opt_prop k (opt_text x) @ d) k = (case x of Some t \<Rightarrow> Some t | None \<Rightarrow> tprop d k)"
  by (auto simp: tprop_def dict_get_append split: option.splits)

lemma relation_props_same [simp]:
  "tprop (relation_props s2 d2 d) ''uuid'' = tprop d ''uuid''" "fact_of (relation_props s2 d2 d) = fact_of d"
  by (cases "tprop d ''uuid''"; cases "tprop d ''fact''";
      simp add: relation_props_def text_prop_def tprop_def dict_get_append opt_text_def)+

text \<open>The graph \<open>g\<close> reached from \<open>g0\<close> still has every mention and every fact, at its old place or at the place it is redirected
  to; only a fact between two nodes that become one may be gone.\<close>

definition carried :: "(string \<Rightarrow> string) \<Rightarrow> (string option \<times> string option) set \<Rightarrow> graph \<Rightarrow> graph \<Rightarrow> bool" where
  "carried rt P g0 g \<longleftrightarrow> gr_ok g \<and> facts_in P g \<and> gr_nodes g = gr_nodes g0 \<and>
     (\<forall>s t. mentioned g0 (s, t) \<longrightarrow> mentioned g (s, t) \<or> mentioned g (s, rt t)) \<and>
     (\<forall>s t. mentioned g (s, t) \<longrightarrow> mentioned g0 (s, t) \<or> (\<exists>t0. mentioned g0 (s, t0) \<and> t = rt t0)) \<and>
     (\<forall>a b f. related g0 (a, b, f) \<and> rt a \<noteq> rt b \<longrightarrow> related g (a, b, f) \<or> related g (rt a, rt b, f))"

lemma carried_refl: "gr_ok g \<Longrightarrow> facts_in P g \<Longrightarrow> carried rt P g g"
  by (simp add: carried_def)

lemma related_other_create:
  "gr_ok g \<Longrightarrow> related (snd (create_edge Mentions la a lb b p g)) k \<longleftrightarrow> related g k"
  unfolding related_def using linked_create_only [of g RelatesTo Entity Entity] linked_create by fastforce

lemma related_other_delete: "related (delete_edge Mentions la a lb b u g) k \<longleftrightarrow> related g k"
  unfolding related_def by (auto intro: linked_delete dest: linked_delete_only)

lemma mentioned_other_create:
  "gr_ok g \<Longrightarrow> mentioned (snd (create_edge RelatesTo la a lb b p g)) k \<longleftrightarrow> mentioned g k"
  unfolding mentioned_def using linked_create_only [of g Mentions Episodic Entity] linked_create by fastforce

lemma mentioned_other_delete: "mentioned (delete_edge RelatesTo la a lb b u g) k \<longleftrightarrow> mentioned g k"
  unfolding mentioned_def by (auto intro: linked_delete dest: linked_delete_only)

lemma carried_mention:
  assumes base: "carried rt P g0 g" and idem: "\<And>u. rt (rt u) = rt u"
    and move: "mention_move.moved s t s (rt t) g g'" "gr_nodes g' = gr_nodes g" "facts_in P g'" "\<And>k. related g' k = related g k"
    and old: "mentioned g0 (s, t)"
  shows "carried rt P g0 g'"
proof -
  have keep: "mentioned g' (x, y) \<or> (x = s \<and> y = t \<and> mentioned g' (s, rt t))" if "mentioned g (x, y)" for x y
    using move(1) that by (simp add: mention_move.moved_def)
  have only: "mentioned g (x, y) \<or> (x = s \<and> y = rt t)" if "mentioned g' (x, y)" for x y
    using move(1) that by (simp add: mention_move.moved_def)
  have "mentioned g' (x, y) \<or> mentioned g' (x, rt y)" if "mentioned g0 (x, y)" for x y
  proof -
    from base that consider "mentioned g (x, y)" | "mentioned g (x, rt y)" unfolding carried_def by blast
    then show ?thesis
    proof cases
      case 1
      with keep [OF 1] show ?thesis by auto
    next
      case 2
      with keep [OF 2] idem [of y] show ?thesis by auto
    qed
  qed
  moreover have "mentioned g0 (x, y) \<or> (\<exists>t0. mentioned g0 (x, t0) \<and> y = rt t0)" if "mentioned g' (x, y)" for x y
  proof (cases "mentioned g (x, y)")
    case True
    with base show ?thesis by (simp add: carried_def)
  next
    case False
    with only [OF that] old show ?thesis by auto
  qed
  ultimately show ?thesis using base move by (simp add: carried_def mention_move.moved_def)
qed

lemma move_mention_carried:
  assumes idem: "\<And>u. rt (rt u) = rt u" and base: "carried rt P g0 (fst (snd cs))"
    and row: "or_empty (me_src r) \<noteq> [] \<and> or_empty (me_dst r) \<noteq> [] \<longrightarrow> mentioned g0 (or_empty (me_src r), or_empty (me_dst r))"
  shows "carried rt P g0 (fst (snd (move_mention driver rt r cs)))"
proof -
  obtain c ss where cs: "cs = (c, ss)" by (cases cs)
  let ?s = "or_empty (me_src r)" and ?t = "or_empty (me_dst r)"
  let ?create = "create_edge Mentions Episodic ?s Entity (rt ?t) (mention_props r)"
    and ?delete = "delete_edge Mentions Episodic ?s Entity ?t (me_uuid r)"
  obtain n ok ss' where run: "create_then_delete driver ?create ?delete ss = (n, ok, ss')"
    by (cases "create_then_delete driver ?create ?delete ss")
  show ?thesis
  proof (cases "?s = [] \<or> ?t = [] \<or> rt ?t = ?t")
    case True
    then show ?thesis using base by (auto simp: move_mention_def cs Let_def)
  next
    case False
    then have res: "fst (snd (move_mention driver rt r cs)) = fst ss'"
      using run by (auto simp: move_mention_def cs Let_def split: option.splits bool.splits)
    have g: "gr_ok (fst ss)" "facts_in P (fst ss)" using base by (simp_all add: cs carried_def)
    have "mention_move.moved ?s ?t ?s (rt ?t) (fst ss) (fst ss')"
      using mention_move.guarded_move [OF g(1) _ run] False by auto
    moreover have "gr_nodes (fst ss') = gr_nodes (fst ss)" "facts_in P (fst ss')"
      using create_then_delete_range [OF run] g(2) by (auto simp: facts_in_def create_edge_mem delete_edge_mem)
    moreover have "related (fst ss') k = related (fst ss) k" for k
      using create_then_delete_range [OF run] related_other_create [OF g(1)] related_other_delete by metis
    moreover have "carried rt P g0 (fst ss)" "mentioned g0 (?s, ?t)" using base row False by (simp_all add: cs)
    ultimately show ?thesis unfolding res using carried_mention [OF _ idem] by metis
  qed
qed

lemma fold_carried:
  "(\<And>r cs. r \<in> set rows \<Longrightarrow> Q (fst (snd cs)) \<Longrightarrow> Q (fst (snd (f r cs)))) \<Longrightarrow> Q (fst (snd cs)) \<Longrightarrow>
    Q (fst (snd (fold f rows (cs :: 'c \<times> session))))"
  by (induction rows arbitrary: cs) auto

lemma mentions_of_victims_mem:
  assumes "r \<in> set (mentions_of_victims victims g)"
    "or_empty (me_src r) \<noteq> []" "or_empty (me_dst r) \<noteq> []"
  shows "mentioned g (or_empty (me_src r), or_empty (me_dst r))"
proof -
  obtain e a b where "(e, a, b) \<in> set (match_edges Mentions Episodic Entity (\<lambda>e s v. uuid_in victims v) g)"
    "r = mention_edge_of (e, a, b)" using assms(1) unfolding mentions_of_victims_def by auto
  with assms(2,3) show ?thesis
    unfolding match_edges_mem mentioned_def linked_def mention_edge_of_def or_empty_def by (fastforce split: option.splits)
qed

lemma phase_a_carried:
  assumes "\<And>u. rt (rt u) = rt u" "carried rt P g0 (fst (snd cs))" "fst (snd cs) = g0"
  shows "carried rt P g0 (fst (snd (phase_a driver rt victims cs)))"
proof -
  obtain c ss where cs: "cs = (c, ss)" by (cases cs)
  obtain rows ss1 where read: "read_query driver (mentions_of_victims victims) ss = (rows, ss1)"
    by (cases "read_query driver (mentions_of_victims victims) ss")
  show ?thesis
  proof (cases rows)
    case None
    with read assms show ?thesis using read_query_keeps [OF read] by (simp add: phase_a_def cs)
  next
    case (Some rs)
    have "rs = mentions_of_victims victims g0" "fst ss1 = g0"
      using read_query_Some [of driver _ ss rs ss1] read Some assms(3) by (auto simp: cs)
    then have "carried rt P g0 (fst (snd (fold (move_mention driver rt) rs (c, ss1))))"
      using assms(2,3) mentions_of_victims_mem
      by (intro fold_carried [where Q = "carried rt P g0"] move_mention_carried [OF assms(1)]) (auto simp: cs)
    with read Some show ?thesis by (simp add: phase_a_def cs)
  qed
qed

definition has_entity :: "graph \<Rightarrow> string \<Rightarrow> bool" where
  "has_entity g u \<longleftrightarrow> match_nodes Entity (\<lambda>n. nuid n = Some u) g \<noteq> []"

lemma has_entity_nodes: "gr_nodes g = gr_nodes g' \<Longrightarrow> has_entity g u = has_entity g' u"
  by (simp add: has_entity_def match_nodes_def)

lemma has_entity_node: "n \<in> set (gr_nodes g) \<Longrightarrow> gn_label n = Entity \<Longrightarrow> nuid n = Some u \<Longrightarrow> has_entity g u"
  by (auto simp: has_entity_def match_nodes_def filter_empty_conv)

lemma carried_fact:
  assumes base: "carried rt P g0 g" and idem: "\<And>u. rt (rt u) = rt u"
    and move: "fact_move.moved P p a b (rt a) (rt b) g g'" "gr_nodes g' = gr_nodes g" "\<And>k. mentioned g' k = mentioned g k"
  shows "carried rt P g0 g'"
proof -
  have keep: "related g' (x, y, f) \<or> (x = a \<and> y = b \<and> f = fact_of p \<and> related g' (rt a, rt b, f))"
    if "related g (x, y, f)" for x y f
    using move(1) that by (auto simp: fact_move.moved_def)
  have "related g' (x, y, f) \<or> related g' (rt x, rt y, f)" if "related g0 (x, y, f)" "rt x \<noteq> rt y" for x y f
  proof -
    from base that consider "related g (x, y, f)" | "related g (rt x, rt y, f)" unfolding carried_def by blast
    then show ?thesis
    proof cases
      case 1
      with keep [OF 1] show ?thesis by auto
    next
      case 2
      with keep [OF 2] idem [of x] idem [of y] show ?thesis by auto
    qed
  qed
  with base move show ?thesis by (simp add: carried_def fact_move.moved_def facts_ok_def)
qed

lemma carried_self_loop:
  assumes base: "carried rt P g0 g" and idem: "\<And>u. rt (rt u) = rt u" and loop: "rt a = rt b"
  shows "carried rt P g0 (delete_edge RelatesTo Entity a Entity b u g)"
proof -
  let ?g = "delete_edge RelatesTo Entity a Entity b u g"
  have keep: "related ?g (x, y, f)" if "related g (x, y, f)" "rt x \<noteq> rt y" for x y f
    using that loop unfolding related_def by (intro linked_delete) auto
  have "related ?g (x, y, f) \<or> related ?g (rt x, rt y, f)" if "related g0 (x, y, f)" "rt x \<noteq> rt y" for x y f
  proof -
    from base that consider "related g (x, y, f)" | "related g (rt x, rt y, f)" unfolding carried_def by blast
    then show ?thesis
    proof cases
      case 1
      with keep that(2) show ?thesis by blast
    next
      case 2
      moreover have "rt (rt x) \<noteq> rt (rt y)" using that(2) by (simp add: idem)
      ultimately show ?thesis using keep by blast
    qed
  qed
  with base show ?thesis by (simp add: carried_def mentioned_other_delete facts_in_def delete_edge_mem)
qed

lemma delete_relation_cases:
  "delete_relation r g = g \<or>
    (\<exists>s d. re_src r = Some s \<and> re_dst r = Some d \<and> delete_relation r g = delete_edge RelatesTo Entity s Entity d (re_uuid r) g)"
  by (auto simp: delete_relation_def split: option.splits)

definition relation_row_ok :: "(string option \<times> string option) set \<Rightarrow> graph \<Rightarrow> relation_edge \<Rightarrow> bool" where
  "relation_row_ok P g r \<longleftrightarrow> (re_uuid r, fact_of (re_props r)) \<in> P \<and>
     (\<forall>s. re_src r = Some s \<longrightarrow> has_entity g s) \<and> (\<forall>d. re_dst r = Some d \<longrightarrow> has_entity g d)"

lemma move_relation_carried:
  assumes idem: "\<And>u. rt (rt u) = rt u" and base: "carried rt P g0 (fst (snd cs))" and one: "one_fact P"
    and row: "relation_row_ok P g0 r" and ends: "\<And>u. has_entity g0 u \<Longrightarrow> has_entity g0 (rt u)"
  shows "carried rt P g0 (fst (snd (move_relation driver rt r cs)))"
proof -
  obtain c ss where cs: "cs = (c, ss)" by (cases cs)
  let ?s = "str_of (re_src r)" and ?d = "str_of (re_dst r)"
  define p where "p = relation_props (rt ?s) (rt ?d) (re_props r)"
  let ?create = "create_edge RelatesTo Entity (rt ?s) Entity (rt ?d) p"
  have base': "carried rt P g0 (fst ss)" using base by (simp add: cs)
  have inv: "facts_ok P p (fst ss)" using base' row one by (simp add: carried_def facts_ok_def relation_row_ok_def p_def)
  have nodes: "gr_nodes (fst ss) = gr_nodes g0" and ok: "gr_ok (fst ss)" using base' by (simp_all add: carried_def)
  show ?thesis
  proof (cases "rt ?s = ?s \<and> rt ?d = ?d")
    case True
    then show ?thesis using base' by (simp add: move_relation_def cs Let_def)
  next
    case moves: False
    show ?thesis
    proof (cases "rt ?s = rt ?d")
      case True
      obtain x ss1 where w: "write_query driver (delete_relation r) ss = (x, ss1)" by (cases "write_query driver (delete_relation r) ss")
      have res: "fst (snd (move_relation driver rt r cs)) = fst ss1"
        using moves True w by (auto simp: move_relation_def cs Let_def split: option.splits)
      have "carried rt P g0 (delete_relation r (fst ss))"
        using delete_relation_cases [of r "fst ss"] base' carried_self_loop [OF base' idem] True by (auto simp: str_of_def)
      with write_query_cases [OF w] base' show ?thesis unfolding res by auto
    next
      case apart: False
      obtain n ss1 where c: "run_query driver ?create ss = (n, ss1)" by (cases "run_query driver ?create ss")
      obtain x ss2 where w: "write_query driver (delete_relation r) ss1 = (x, ss2)" by (cases "write_query driver (delete_relation r) ss1")
      have res: "fst (snd (move_relation driver rt r cs)) = (if n = None then fst ss1 else fst ss2)"
        using moves apart c w by (auto simp: move_relation_def cs Let_def p_def split: option.splits)
      have key: "(?s, ?d, fact_of p) \<noteq> (rt ?s, rt ?d, fact_of p)" using moves by auto
      have done1: "fact_move.moved P p ?s ?d (rt ?s) (rt ?d) (fst ss) (fst ss1)"
        using run_query_cases [OF c] fact_move.moved_not [OF inv] fact_move.moved_created [OF inv] by auto
      have done2: "fact_move.moved P p ?s ?d (rt ?s) (rt ?d) (fst ss) (fst ss2)" if "n = Some m" for m
      proof (cases "delete_relation r = (\<lambda>g. g)")
        case True
        with write_query_cases [OF w] done1 show ?thesis by auto
      next
        case False
        then obtain s d where sd: "re_src r = Some s" "re_dst r = Some d"
          by (auto simp: delete_relation_def fun_eq_iff split: option.splits)
        then have "has_entity g0 (rt ?s)" "has_entity g0 (rt ?d)" using row ends by (auto simp: relation_row_ok_def str_of_def)
        then have "0 < fst (?create (fst ss))"
          unfolding create_edge_count using has_entity_nodes [OF nodes] by (simp add: has_entity_def)
        moreover have "delete_relation r = delete_edge RelatesTo Entity ?s Entity ?d (tprop p ''uuid'')"
          using sd by (auto simp: delete_relation_def fun_eq_iff p_def str_of_def)
        ultimately show ?thesis using fact_move.unguarded_move [OF inv key _ c [unfolded that]] w by simp
      qed
      have frame1: "gr_nodes (fst ss1) = gr_nodes (fst ss) \<and> gr_ok (fst ss1) \<and> (\<forall>k. mentioned (fst ss1) k = mentioned (fst ss) k)"
        using run_query_cases [OF c] ok mentioned_other_create [OF ok] by auto
      have frame2: "gr_nodes (fst ss2) = gr_nodes (fst ss) \<and> (\<forall>k. mentioned (fst ss2) k = mentioned (fst ss) k)"
        using write_query_cases [OF w] frame1 delete_relation_cases [of r "fst ss1"] by (auto simp: mentioned_other_delete)
      show ?thesis
        unfolding res using carried_fact [OF base' idem done1] carried_fact [OF base' idem done2] frame1 frame2
        by (cases n) auto
    qed
  qed
qed

lemma relations_of_victims_ok:
  assumes "r \<in> set (relations_of_victims victims g)" "facts_in P g"
  shows "relation_row_ok P g r"
proof -
  obtain e a b where e: "e \<in> set (gr_edges g)" "ends RelatesTo Entity Entity g e = Some (a, b)" "r = relation_edge_of (e, a, b)"
    using assms(1) unfolding relations_of_victims_def by (auto simp: match_edges_mem)
  have "has_entity g u" if "n \<in> set (gr_nodes g)" "gn_label n = Entity" "nuid n = Some u" for n u
    using that by (auto simp: has_entity_def match_nodes_def filter_empty_conv)
  with e assms(2) show ?thesis
    by (auto simp: relation_row_ok_def relation_edge_of_def facts_in_def ends_Some dest!: node_at_Some)
qed

lemma phase_b_carried:
  assumes "\<And>u. rt (rt u) = rt u" "carried rt P g0 (fst (snd cs))" "one_fact P"
    and "\<And>u. has_entity g0 u \<Longrightarrow> has_entity g0 (rt u)"
  shows "carried rt P g0 (fst (snd (phase_b driver rt victims cs)))"
proof -
  obtain c ss where cs: "cs = (c, ss)" by (cases cs)
  obtain rows ss1 where read: "read_query driver (relations_of_victims victims) ss = (rows, ss1)"
    by (cases "read_query driver (relations_of_victims victims) ss")
  show ?thesis
  proof (cases rows)
    case None
    with read assms show ?thesis using read_query_keeps [OF read] by (simp add: phase_b_def cs)
  next
    case (Some rs)
    have rs: "rs = relations_of_victims victims (fst ss)" "fst ss1 = fst ss"
      using read_query_Some [of driver _ ss rs ss1] read Some by auto
    have base: "carried rt P g0 (fst ss)" using assms(2) by (simp add: cs)
    have "relation_row_ok P g0 r" if "r \<in> set rs" for r
      using relations_of_victims_ok [of r victims "fst ss" P] that rs base has_entity_nodes [of "fst ss" g0]
      by (simp add: carried_def relation_row_ok_def)
    then have "carried rt P g0 (fst (snd (fold (move_relation driver rt) rs (c, ss1))))"
      using base rs(2) by (intro fold_carried [where Q = "carried rt P g0"] move_relation_carried [OF assms(1) _ assms(3) _ assms(4)]) auto
    with read Some show ?thesis by (simp add: phase_b_def cs)
  qed
qed

lemma keep_first_sub: "set (keep_first key seen es) \<subseteq> set es"
proof (induction es arbitrary: seen)
  case (Cons e es)
  show ?case
  proof (cases "key e")
    case None
    with Cons.IH [of seen] show ?thesis by auto
  next
    case (Some k)
    with Cons.IH [of seen] Cons.IH [of "k # seen"] show ?thesis by auto
  qed
qed simp

lemma keep_first_other: "e \<in> set es \<Longrightarrow> key e = None \<Longrightarrow> e \<in> set (keep_first key seen es)"
  by (induction es arbitrary: seen) (auto split: option.split)

lemma keep_first_key:
  "e \<in> set es \<Longrightarrow> key e = Some k \<Longrightarrow> k \<notin> set seen \<Longrightarrow> \<exists>e' \<in> set (keep_first key seen es). key e' = Some k"
proof (induction es arbitrary: seen)
  case (Cons x es)
  show ?case
  proof (cases "key x = Some k")
    case True
    with Cons.prems show ?thesis by auto
  next
    case False
    with Cons.prems have e: "e \<in> set es" by auto
    show ?thesis
    proof (cases "key x")
      case None
      with Cons.IH [OF e Cons.prems(2,3)] show ?thesis by auto
    next
      case (Some k')
      with False have "k \<notin> set (k' # seen)" using Cons.prems(3) by auto
      from Cons.IH [OF e Cons.prems(2) this] Cons.IH [OF e Cons.prems(2,3)] Some show ?thesis by auto
    qed
  qed
qed simp

lemma collapse_carried:
  assumes "carried rt P g0 g"
  shows "carried rt P g0 (collapse_relations g)"
proof -
  let ?g = "collapse_relations g"
  have nodes: "gr_nodes ?g = gr_nodes g" by (simp add: collapse_relations_def)
  note same = ends_nodes [OF nodes]
  have sub: "set (gr_edges ?g) \<subseteq> set (gr_edges g)" using keep_first_sub [of "relation_group g" "[]" "gr_edges g"] by (simp add: collapse_relations_def)
  have rel: "related ?g (a, b, f)" if r: "related g (a, b, f)" for a b f
  proof -
    have key: "relation_group g e = Some (Some a, Some b, f) \<longleftrightarrow>
        (\<exists>s t. ends RelatesTo Entity Entity g e = Some (s, t) \<and> nuid s = Some a \<and> nuid t = Some b \<and> fact_of (ge_props e) = f)" for e
      by (auto simp: relation_group_def split: option.splits)
    obtain e s t where e: "e \<in> set (gr_edges g)" "ends RelatesTo Entity Entity g e = Some (s, t)"
        "nuid s = Some a" "nuid t = Some b" "fact_of (ge_props e) = f"
      using r unfolding related_def linked_def by auto
    from e(2-5) have "relation_group g e = Some (Some a, Some b, f)" using key by blast
    with e(1) obtain e' where "e' \<in> set (gr_edges ?g)" "relation_group g e' = Some (Some a, Some b, f)"
      using keep_first_key [of e "gr_edges g" "relation_group g" _ "[]"] by (auto simp: collapse_relations_def)
    then show ?thesis unfolding related_def linked_def same key by auto
  qed
  have men: "mentioned ?g k = mentioned g k" for k
  proof -
    have "e \<in> set (gr_edges ?g)" if "e \<in> set (gr_edges g)" "ge_type e = Mentions" for e
      using that keep_first_other [of e "gr_edges g" "relation_group g"]
      by (simp add: collapse_relations_def relation_group_def ends_def)
    then show ?thesis unfolding mentioned_def linked_def same using sub by (auto simp: ends_Some; blast)
  qed
  have "facts_in P ?g" "gr_ok ?g" using assms sub nodes by (auto simp: carried_def facts_in_def gr_ok_def)
  with assms rel men nodes show ?thesis unfolding carried_def by metis
qed

lemma phase_c_carried:
  assumes "carried rt P g0 (fst (snd cs))"
  shows "carried rt P g0 (fst (snd (phase_c driver cs)))"
proof -
  obtain c ss where cs: "cs = (c, ss)" by (cases cs)
  obtain n ss1 where read: "read_query driver duplicate_relations ss = (n, ss1)"
    by (cases "read_query driver duplicate_relations ss")
  obtain x ss2 where w: "write_query driver collapse_relations ss1 = (x, ss2)" by (cases "write_query driver collapse_relations ss1")
  have "fst ss1 = fst ss" using read_query_keeps [OF read] .
  moreover have "fst (snd (phase_c driver cs)) = fst ss1 \<or> fst (snd (phase_c driver cs)) = fst ss2"
    using read w by (auto simp: phase_c_def cs Let_def split: option.splits)
  ultimately show ?thesis using write_query_cases [OF w] assms collapse_carried by (auto simp: cs)
qed

subsection \<open>Deleting the victims\<close>

lemma delete_edgeless_edges [simp]: "gr_edges (delete_edgeless us g) = gr_edges g"
  by (auto simp: delete_edgeless_def detach_delete_def Let_def edgeless_entity_def has_edge_def list_ex_iff filter_id_conv)

lemma delete_edgeless_nodes [simp]: "gr_nodes (delete_edgeless us g) = filter (\<lambda>n. \<not> edgeless_entity us g n) (gr_nodes g)"
  by (simp add: delete_edgeless_def detach_delete_def Let_def)

lemma delete_edgeless_ok: "gr_ok g \<Longrightarrow> gr_ok (delete_edgeless us g)"
  by (simp add: gr_ok_def distinct_map_filter)

lemma delete_edgeless_end:
  assumes "gr_ok g" "e \<in> set (gr_edges g)" "i = ge_src e \<or> i = ge_dst e"
  shows "node_at (delete_edgeless us g) i = node_at g i"
proof (cases "node_at g i")
  case None
  then have "node_at (delete_edgeless us g) i = None" by (auto simp: node_at_def find_None_iff)
  with None show ?thesis by simp
next
  case (Some n)
  then have n: "n \<in> set (gr_nodes g)" "gn_id n = i" using node_at_Some by blast+
  with assms(2,3) have "\<not> edgeless_entity us g n" by (auto simp: edgeless_entity_def has_edge_def list_ex_iff)
  then have "n \<in> set (gr_nodes (delete_edgeless us g))" using n(1) by simp
  from node_at_mem [OF delete_edgeless_ok [OF assms(1)] this] n(2) Some show ?thesis by simp
qed

lemma delete_edgeless_linked:
  assumes "gr_ok g"
  shows "linked ty la lb q (delete_edgeless us g) a b = linked ty la lb q g a b"
proof -
  have "ends ty la lb (delete_edgeless us g) e = ends ty la lb g e" if "e \<in> set (gr_edges g)" for e
    using delete_edgeless_end [OF assms that] by (simp add: ends_def)
  then show ?thesis by (simp add: linked_def)
qed

definition only_victims_gone :: "string list \<Rightarrow> graph \<Rightarrow> graph \<Rightarrow> bool" where
  "only_victims_gone victims g0 g \<longleftrightarrow> set (gr_nodes g) \<subseteq> set (gr_nodes g0) \<and>
     (\<forall>n \<in> set (gr_nodes g0). n \<in> set (gr_nodes g) \<or> (gn_label n = Entity \<and> uuid_in victims n))"

text \<open>The links of \<open>g\<close> are those of \<open>g1\<close>, and some victims are gone.\<close>

definition deleted_from :: "string list \<Rightarrow> graph \<Rightarrow> graph \<Rightarrow> bool" where
  "deleted_from victims g1 g \<longleftrightarrow> gr_ok g \<and> only_victims_gone victims g1 g \<and> gr_edges g = gr_edges g1 \<and>
     (\<forall>k. mentioned g k = mentioned g1 k) \<and> (\<forall>k. related g k = related g1 k)"

lemma uuid_in_mono: "set us \<subseteq> set vs \<Longrightarrow> uuid_in us n \<Longrightarrow> uuid_in vs n"
  by (auto simp: uuid_in_def split: option.splits)

lemma delete_edgeless_from:
  assumes "deleted_from victims g1 g" "set us \<subseteq> set victims"
  shows "deleted_from victims g1 (delete_edgeless us g)"
proof -
  have ok: "gr_ok g" using assms(1) by (simp add: deleted_from_def)
  have "mentioned (delete_edgeless us g) k = mentioned g k" "related (delete_edgeless us g) k' = related g k'" for k k'
    using delete_edgeless_linked [OF ok] by (simp_all add: mentioned_def related_def)
  with assms show ?thesis
    by (auto simp: deleted_from_def only_victims_gone_def delete_edgeless_ok edgeless_entity_def intro: uuid_in_mono)
qed

lemma delete_chunk_from:
  assumes "deleted_from victims g1 (fst (snd cs))" "set us \<subseteq> set victims"
  shows "deleted_from victims g1 (fst (snd (delete_chunk driver us cs)))"
proof -
  obtain c ss where cs: "cs = (c, ss)" by (cases cs)
  obtain n ss1 where read: "read_query driver (count_edgeless us) ss = (n, ss1)" by (cases "read_query driver (count_edgeless us) ss")
  obtain x ss2 where w: "write_query driver (delete_edgeless us) ss1 = (x, ss2)" by (cases "write_query driver (delete_edgeless us) ss1")
  have "fst ss1 = fst ss" using read_query_keeps [OF read] .
  moreover have "fst (snd (delete_chunk driver us cs)) = fst ss1 \<or> fst (snd (delete_chunk driver us cs)) = fst ss2"
    using read w by (auto simp: delete_chunk_def cs split: option.splits)
  ultimately show ?thesis using write_query_cases [OF w] assms delete_edgeless_from by (auto simp: cs)
qed

lemma chunks_sub: "us \<in> set (chunks n xs) \<Longrightarrow> set us \<subseteq> set xs"
proof (induction n xs rule: chunks.induct)
  case (1 n xs)
  show ?case
  proof (cases "xs = [] \<or> n = 0")
    case True
    with "1.prems" show ?thesis by (auto simp: chunks.simps)
  next
    case False
    with "1.prems" have "us = take n xs \<or> us \<in> set (chunks n (drop n xs))" by (simp add: chunks.simps [of n xs])
    with "1.IH" [OF False] show ?thesis by (meson order_trans set_drop_subset set_take_subset)
  qed
qed

lemma phase_d_from:
  assumes "gr_ok (fst (snd cs))"
  shows "deleted_from victims (fst (snd cs)) (fst (snd (fold (delete_chunk driver) (chunks batch victims) cs)))"
  using assms
  by (intro fold_carried [where Q = "deleted_from victims (fst (snd cs))"] delete_chunk_from chunks_sub)
    (auto simp: deleted_from_def only_victims_gone_def)

text \<open>What applying a plan may do to a graph.\<close>

definition knowledge_kept :: "(string \<Rightarrow> string) \<Rightarrow> string list \<Rightarrow> graph \<Rightarrow> graph \<Rightarrow> bool" where
  "knowledge_kept rt victims g0 g \<longleftrightarrow> only_victims_gone victims g0 g \<and>
     (\<forall>s t. mentioned g0 (s, t) \<longrightarrow> mentioned g (s, t) \<or> mentioned g (s, rt t)) \<and>
     (\<forall>s t. mentioned g (s, t) \<longrightarrow> mentioned g0 (s, t) \<or> (\<exists>t0. mentioned g0 (s, t0) \<and> t = rt t0)) \<and>
     (\<forall>a b f. related g0 (a, b, f) \<and> rt a \<noteq> rt b \<longrightarrow> related g (a, b, f) \<or> related g (rt a, rt b, f))"

definition fact_ids :: "graph \<Rightarrow> (string option \<times> string option) set" where
  "fact_ids g = (\<lambda>e. (euid e, fact_of (ge_props e))) ` {e \<in> set (gr_edges g). ge_type e = RelatesTo}"

lemma facts_in_ids: "facts_in (fact_ids g) g"
  by (auto simp: facts_in_def fact_ids_def)

lemma redirect_map_distinct_gen:
  "distinct (map fst v @ map victim ms) \<Longrightarrow>
    fold (\<lambda>m v. AList.update (victim m) (survivor m) v) ms v = v @ map (\<lambda>m. (victim m, survivor m)) ms"
proof (induction ms arbitrary: v)
  case (Cons m ms)
  then have "victim m \<notin> fst ` set v" by auto
  with Cons show ?case by (simp add: update_new)
qed simp

lemma redirect_map_distinct:
  "distinct (map victim ms) \<Longrightarrow> redirect_map victim survivor ms = map (\<lambda>m. (victim m, survivor m)) ms"
  unfolding redirect_map_def using redirect_map_distinct_gen [of "[]" victim ms survivor] by simp

lemma plan_redirect:
  assumes "distinct (map uid entities)" "plan_dedup threshold entities mentions relations = plan"
  shows "redirect_map mg_victim mg_survivor (dp_merges plan) = pl_victims (plan_merges threshold entities)"
proof -
  have "dp_merges plan = pl_merges (plan_merges threshold entities)" using assms(2) by (auto simp: plan_dedup_def Let_def)
  then show ?thesis using plan_facts(2,3) [OF assms(1) refl, of threshold] by (simp add: redirect_map_distinct)
qed

lemma redirect_outside: "u \<notin> fst ` set v \<Longrightarrow> redirect_of v u = u"
  by (simp add: redirect_of_def)

lemma victim_entity:
  assumes "distinct (map uid entities)" "plan_merges threshold entities = st" "u \<in> fst ` set (pl_victims st)"
  shows "\<exists>l \<in> set entities. uid l = u"
  using plan_facts(1,2) [OF assms(1,2)] assms(3) by fastforce

lemma plan_redirect_idem:
  assumes "entities_ok entities" "plan_merges threshold entities = st"
  shows "redirect_of (pl_victims st) (redirect_of (pl_victims st) u) = redirect_of (pl_victims st) u"
proof (cases "u \<in> fst ` set (pl_victims st)")
  case True
  have "distinct (map uid entities)" using assms(1) by (simp add: entities_ok_def)
  then obtain l where l: "l \<in> set entities" "uid l = u" using victim_entity [OF _ assms(2) True] by blast
  from redirect_end [OF assms l(1)] l(2) show ?thesis by (metis redirect_outside)
qed (simp add: redirect_outside)

lemma entities_q_mem:
  "x \<in> set (entities_q gid g) \<longleftrightarrow> (\<exists>n \<in> set (gr_nodes g). gn_label n = Entity \<and> in_group gid n \<and> x = entity_row_of n)"
  by (auto simp: entities_q_def match_nodes_def)

lemma plan_redirect_entity:
  assumes "entities_ok (entities_q gid g)" "plan_merges threshold (entities_q gid g) = st" "has_entity g u"
  shows "has_entity g (redirect_of (pl_victims st) u)"
proof (cases "u \<in> fst ` set (pl_victims st)")
  case True
  have "distinct (map uid (entities_q gid g))" using assms(1) by (simp add: entities_ok_def)
  then obtain l where l: "l \<in> set (entities_q gid g)" "uid l = u" using victim_entity [OF _ assms(2) True] by blast
  from redirect_end [OF assms(1,2) l(1)] l(2) obtain k where k: "k \<in> set (entities_q gid g)" "uid k = redirect_of (pl_victims st) u"
    by blast
  then obtain n where n: "n \<in> set (gr_nodes g)" "gn_label n = Entity" "k = entity_row_of n" unfolding entities_q_mem by blast
  have "en_uuid k \<noteq> None" using assms(1) k(1) by (simp add: entities_ok_def)
  then have "nuid n = Some (uid k)" using n(3) by (auto simp: entity_row_of_def uid_def str_of_def)
  with n(1,2) k(2) show ?thesis by (auto simp: has_entity_def match_nodes_def filter_empty_conv)
qed (use assms(3) in \<open>simp add: redirect_outside\<close>)

text \<open>C3: Applying the plan of a snapshot loses no knowledge, whichever statements fail, lose their reply or are never reached: every
  mention is still there, at its old entity or at the one it was folded into, and none is invented; so is every fact between two
  entities that stay apart; and only planned victims are deleted.\<close>

theorem dedup_loses_nothing:
  assumes "gr_ok g0" "entities_ok (entities_q gid g0)" "one_fact (fact_ids g0)"
    and plan: "plan_dedup threshold (entities_q gid g0) mentions relations = plan"
    and v: "redirect_map mg_victim mg_survivor (dp_merges plan) = v"
    and run: "apply_plan driver plan apply_it batch (g0, n) = (c, (g, n'))"
  shows "knowledge_kept (redirect_of v) (map fst v) g0 g"
proof -
  let ?rt = "redirect_of v" and ?P = "fact_ids g0" and ?c0 = "(new_counters apply_it, (g0, n))"
  obtain st where st: "plan_merges threshold (entities_q gid g0) = st" by blast
  have "distinct (map uid (entities_q gid g0))" using assms(2) by (simp add: entities_ok_def)
  then have vst: "v = pl_victims st" using plan_redirect [OF _ plan] v st by simp
  note idem = plan_redirect_idem [OF assms(2) st, folded vst] and ents = plan_redirect_entity [OF assms(2) st, folded vst]
  have base: "carried ?rt ?P g0 g0" using carried_refl [OF assms(1) facts_in_ids] .
  show ?thesis
  proof (cases "plan_is_empty plan \<or> \<not> apply_it")
    case True
    then have "g = g0" using run True by (auto simp: apply_plan_def Let_def split: if_splits)
    then show ?thesis by (simp add: knowledge_kept_def only_victims_gone_def)
  next
    case False
    define cs where "cs = phase_c driver (phase_b driver ?rt (map fst v) (phase_a driver ?rt (map fst v) ?c0))"
    have "carried ?rt ?P g0 (fst (snd cs))" unfolding cs_def
      by (intro phase_c_carried phase_b_carried phase_a_carried idem ents assms(3)) (simp_all add: base)
    moreover have "deleted_from (map fst v) (fst (snd cs)) g"
      using phase_d_from [of cs "map fst v" driver batch] calculation False run v
      by (simp add: apply_plan_def Let_def cs_def carried_def)
    ultimately show ?thesis by (auto simp: carried_def deleted_from_def knowledge_kept_def only_victims_gone_def)
  qed
qed


text \<open>Two entities of one name, a third, an episode that mentions the second one and a fact that starts there.\<close>

definition sample_graph :: graph where
  "sample_graph =
     (let entity = \<lambda>i u n. \<lparr>gn_id = i, gn_label = Entity,
            gn_props = [(''uuid'', PyStr u), (''name'', PyStr n), (''summary'', PyStr ''note''), (''group_id'', PyStr ''g'')]\<rparr> in
      \<lparr>gr_nodes = [entity 0 ''a'' ''cat'', entity 1 ''b'' ''cat'', entity 2 ''c'' ''dog'',
          \<lparr>gn_id = 3, gn_label = Episodic, gn_props = [(''uuid'', PyStr ''x''), (''group_id'', PyStr ''g'')]\<rparr>],
       gr_edges =
         [\<lparr>ge_type = Mentions, ge_src = 3, ge_dst = 1, ge_props = [(''uuid'', PyStr ''m'')]\<rparr>,
          \<lparr>ge_type = RelatesTo, ge_src = 1, ge_dst = 2, ge_props = [(''uuid'', PyStr ''r''), (''fact'', PyStr ''f'')]\<rparr>]\<rparr>)"

definition sample_plan :: dedup_plan where
  "sample_plan = plan_dedup (4 / 5) (entities_q ''g'' sample_graph) (mentions_q ''g'' sample_graph) (relations_q ''g'' sample_graph)"

lemma sample_victims: "redirect_map mg_victim mg_survivor (dp_merges sample_plan) = [(''b'', ''a'')]"
  by code_simp

theorem dedup_loses_nothing_witness:
  "knowledge_kept (redirect_of [(''b'', ''a'')]) [''b''] sample_graph
     (fst (snd (apply_plan (\<lambda>n. if n = 2 then ReplyLost else Answered) sample_plan True 200 (sample_graph, 0))))"
proof -
  let ?run = "apply_plan (\<lambda>n. if n = 2 then ReplyLost else Answered) sample_plan True 200 (sample_graph, 0)"
  obtain c g n where run: "?run = (c, (g, n))" by (cases ?run) auto
  have "gr_ok sample_graph" "entities_ok (entities_q ''g'' sample_graph)" by (code_simp, code_simp)
  moreover have "one_fact (fact_ids sample_graph)"
    by (auto simp: one_fact_def fact_ids_def sample_graph_def tprop_def dict_get_def)
  ultimately show ?thesis
    using dedup_loses_nothing [OF _ _ _ sample_plan_def [symmetric] sample_victims run] by (simp add: run)
qed

end
