(* ===== verification/DedupDone.thy ===== *)
theory DedupDone
  imports DedupApply
begin

text \<open>
  What applying a plan achieves when the driver answers every statement, and what it does not carry over.
\<close>

subsection \<open>Edges that keep a victim alive\<close>

definition victim_edge :: "string list \<Rightarrow> graph \<Rightarrow> gedge \<Rightarrow> bool" where
  "victim_edge victims g e \<longleftrightarrow>
     (\<exists>n \<in> set (gr_nodes g). gn_label n = Entity \<and> uuid_in victims n \<and> (ge_src e = gn_id n \<or> ge_dst e = gn_id n))"

text \<open>The edges the phases can move: a mention or a relation that has a uuid, between nodes that have one.\<close>

definition movable :: "graph \<Rightarrow> gedge \<Rightarrow> bool" where
  "movable g e \<longleftrightarrow> euid e \<noteq> None \<and>
     ((\<exists>s t x y. ends Mentions Episodic Entity g e = Some (s, t) \<and> nuid s = Some x \<and> nuid t = Some y \<and> x \<noteq> [] \<and> y \<noteq> []) \<or>
      (\<exists>s t x y. ends RelatesTo Entity Entity g e = Some (s, t) \<and> nuid s = Some x \<and> nuid t = Some y))"

lemma victim_edge_nodes: "gr_nodes g = gr_nodes g' \<Longrightarrow> victim_edge victims g e = victim_edge victims g' e"
  by (simp add: victim_edge_def)

lemma is_edge_nodes: "gr_nodes g = gr_nodes g' \<Longrightarrow> is_edge ty la a lb b u g e = is_edge ty la a lb b u g' e"
  using ends_nodes [of g g'] by (simp add: is_edge_def)

lemma uuid_in_Some: "nuid n = Some u \<Longrightarrow> uuid_in us n \<longleftrightarrow> u \<in> set us"
  by (simp add: uuid_in_def)

text \<open>A new edge between nodes that are no victims is no victim's edge.\<close>

lemma new_edge_harmless:
  assumes "gr_ok g" "s \<in> set (match_nodes la (\<lambda>n. nuid n = Some a) g)" "t \<in> set (match_nodes lb (\<lambda>n. nuid n = Some b) g)"
    and "la = Entity \<longrightarrow> a \<notin> set victims" "lb = Entity \<longrightarrow> b \<notin> set victims"
  shows "\<not> victim_edge victims g \<lparr>ge_type = ty, ge_src = gn_id s, ge_dst = gn_id t, ge_props = p\<rparr>"
proof -
  have st: "s \<in> set (gr_nodes g)" "gn_label s = la" "nuid s = Some a" "t \<in> set (gr_nodes g)" "gn_label t = lb" "nuid t = Some b"
    using assms(2,3) unfolding match_nodes_def by simp_all
  have same: "m = n" if "m \<in> set (gr_nodes g)" "n \<in> set (gr_nodes g)" "gn_id m = gn_id n" for m n
    using node_at_mem [OF assms(1) that(1)] node_at_mem [OF assms(1) that(2)] that(3) by (metis option.inject)
  have ends: "\<not> (gn_label m = Entity \<and> uuid_in victims m)" if "m \<in> {s, t}" for m
    using that st(2,5) assms(4,5) uuid_in_Some [OF st(3), of victims] uuid_in_Some [OF st(6), of victims] by blast
  show ?thesis
  proof
    assume "victim_edge victims g \<lparr>ge_type = ty, ge_src = gn_id s, ge_dst = gn_id t, ge_props = p\<rparr>"
    then obtain m where m: "m \<in> set (gr_nodes g)" "gn_label m = Entity" "uuid_in victims m" "gn_id s = gn_id m \<or> gn_id t = gn_id m"
      unfolding victim_edge_def by auto
    then have "m \<in> {s, t}" using same st(1,4) by blast
    with ends m(2,3) show False by blast
  qed
qed

text \<open>A step of a phase that answers, reports no error and leaves no bad edge but old ones it does not hit.\<close>

definition tally :: "dedup_counters \<Rightarrow> dedup_error list \<times> nat" where
  [simp]: "tally c = (ct_errors c, ct_nodes_deleted c)"

definition clears :: "(run \<Rightarrow> run) \<Rightarrow> (gedge \<Rightarrow> bool) \<Rightarrow> (gedge \<Rightarrow> bool) \<Rightarrow> gnode list \<Rightarrow> bool" where
  "clears step bad hit nodes \<longleftrightarrow> (\<forall>c g n. gr_nodes g = nodes \<longrightarrow>
     (\<exists>c' g' n'. step (c, (g, n)) = (c', (g', n')) \<and> tally c' = tally c \<and> gr_nodes g' = nodes \<and>
        (\<forall>e \<in> set (gr_edges g'). bad e \<longrightarrow> e \<in> set (gr_edges g) \<and> \<not> hit e)))"

lemma clearsI:
  assumes "\<And>c g n. gr_nodes g = nodes \<Longrightarrow> \<exists>c' g' n'. step (c, (g, n)) = (c', (g', n')) \<and> tally c' = tally c \<and>
    gr_nodes g' = nodes \<and> (\<forall>e \<in> set (gr_edges g'). bad e \<longrightarrow> e \<in> set (gr_edges g) \<and> \<not> hit e)"
  shows "clears step bad hit nodes"
  using assms by (simp add: clears_def)

lemma clearsE:
  assumes "clears step bad hit nodes" "gr_nodes g = nodes"
  obtains c' g' n' where "step (c, (g, n)) = (c', (g', n'))" "tally c' = tally c" "gr_nodes g' = nodes"
    "\<And>e. e \<in> set (gr_edges g') \<Longrightarrow> bad e \<Longrightarrow> e \<in> set (gr_edges g) \<and> \<not> hit e"
  using assms unfolding clears_def by metis

lemma fold_clears:
  assumes "\<And>r. r \<in> set rows \<Longrightarrow> clears (step r) bad (hit r) nodes"
  shows "clears (fold step rows) bad (\<lambda>e. \<exists>r \<in> set rows. hit r e) nodes"
  using assms
proof (induction rows)
  case Nil
  show ?case by (rule clearsI) simp
next
  case (Cons r rows)
  show ?case
  proof (rule clearsI)
    fix c :: dedup_counters and g :: graph and n :: nat
    assume "gr_nodes g = nodes"
    then obtain c1 g1 n1 where s1: "step r (c, (g, n)) = (c1, (g1, n1))" "tally c1 = tally c" "gr_nodes g1 = nodes"
        "\<And>e. e \<in> set (gr_edges g1) \<Longrightarrow> bad e \<Longrightarrow> e \<in> set (gr_edges g) \<and> \<not> hit r e"
      using clearsE [of "step r"] Cons.prems by (metis list.set_intros(1))
    have "clears (fold step rows) bad (\<lambda>e. \<exists>r \<in> set rows. hit r e) nodes" using Cons by simp
    from clearsE [OF this s1(3)] obtain c2 g2 n2 where "fold step rows (c1, (g1, n1)) = (c2, (g2, n2))" "tally c2 = tally c1"
      "gr_nodes g2 = nodes" "\<And>e. e \<in> set (gr_edges g2) \<Longrightarrow> bad e \<Longrightarrow> e \<in> set (gr_edges g1) \<and> \<not> (\<exists>r \<in> set rows. hit r e)" by metis
    with s1 show "\<exists>c' g' n'. fold step (r # rows) (c, (g, n)) = (c', (g', n')) \<and> tally c' = tally c \<and> gr_nodes g' = nodes \<and>
        (\<forall>e \<in> set (gr_edges g'). bad e \<longrightarrow> e \<in> set (gr_edges g) \<and> \<not> (\<exists>r \<in> set (r # rows). hit r e))" by auto
  qed
qed

definition avoids :: "(string \<Rightarrow> string) \<Rightarrow> string list \<Rightarrow> graph \<Rightarrow> bool" where
  "avoids rt victims g0 \<longleftrightarrow> (\<forall>u. rt u \<notin> set victims) \<and> (\<forall>u. has_entity g0 u \<longrightarrow> has_entity g0 (rt u))"

text \<open>Phase A on one row.\<close>

abbreviation hits_mention :: "graph \<Rightarrow> mention_edge \<Rightarrow> gedge \<Rightarrow> bool" where
  "hits_mention g r \<equiv> is_edge Mentions Episodic (or_empty (me_src r)) Entity (or_empty (me_dst r)) (me_uuid r) g"

lemma move_mention_clears:
  assumes ok: "gr_ok g0" and rt: "avoids rt victims g0"
    and row: "me_src r = Some x" "me_dst r = Some y" "x \<noteq> []" "y \<noteq> []" "y \<in> set victims"
      "match_nodes Episodic (\<lambda>n. nuid n = Some x) g0 \<noteq> []" "has_entity g0 y"
  shows "clears (move_mention calm rt r) (victim_edge victims g0) (hits_mention g0 r) (gr_nodes g0)"
proof (rule clearsI)
  fix c :: dedup_counters and g :: graph and n :: nat
  assume nodes: "gr_nodes g = gr_nodes g0"
  let ?create = "create_edge Mentions Episodic x Entity (rt y) (mention_props r)"
  let ?g' = "delete_edge Mentions Episodic x Entity y (me_uuid r) (snd (?create g))"
  have "gr_ok g" using ok nodes by (simp add: gr_ok_def)
  have new: "rt y \<notin> set victims" "has_entity g0 (rt y)" using rt row(7) by (auto simp: avoids_def)
  then have "rt y \<noteq> y" using row(5) by auto
  have same: "match_nodes l p g = match_nodes l p g0" for l p by (simp add: match_nodes_def nodes)
  have "0 < fst (?create g)" using new(2) row(6) unfolding create_edge_count same by (simp add: has_entity_def)
  then have run: "move_mention calm rt r (c, (g, n)) = (c\<lparr>ct_mentions_moved := ct_mentions_moved c + 1\<rparr>, (?g', Suc (Suc n)))"
    using row \<open>rt y \<noteq> y\<close> by (simp add: move_mention_def Let_def or_empty_def create_then_delete_def)
  have "e \<in> set (gr_edges g) \<and> \<not> hits_mention g0 r e" if e: "e \<in> set (gr_edges ?g')" "victim_edge victims g0 e" for e
  proof
    have hit: "\<not> is_edge Mentions Episodic x Entity y (me_uuid r) g0 e"
      using e(1) is_edge_nodes [of "snd (?create g)" g0] nodes by (simp add: delete_edge_mem)
    then show "\<not> hits_mention g0 r e" using row by (simp add: or_empty_def)
    show "e \<in> set (gr_edges g)"
    proof (rule ccontr)
      assume "e \<notin> set (gr_edges g)"
      with e(1) obtain s t where "s \<in> set (match_nodes Episodic (\<lambda>n. nuid n = Some x) g)" "t \<in> set (match_nodes Entity (\<lambda>n. nuid n = Some (rt y)) g)"
        "e = \<lparr>ge_type = Mentions, ge_src = gn_id s, ge_dst = gn_id t, ge_props = mention_props r\<rparr>"
        unfolding delete_edge_mem create_edge_mem by blast
      with new_edge_harmless [OF \<open>gr_ok g\<close>] new(1) have "\<not> victim_edge victims g e" by blast
      with e(2) victim_edge_nodes [OF nodes] show False by blast
    qed
  qed
  with run nodes show "\<exists>c' g' n'. move_mention calm rt r (c, (g, n)) = (c', (g', n')) \<and> tally c' = tally c \<and> gr_nodes g' = gr_nodes g0 \<and>
      (\<forall>e \<in> set (gr_edges g'). victim_edge victims g0 e \<longrightarrow> e \<in> set (gr_edges g) \<and> \<not> hits_mention g0 r e)" by simp
qed

lemma phase_a_clears:
  assumes ok: "gr_ok g" and rt: "avoids rt victims g"
    and mov: "\<And>e. e \<in> set (gr_edges g) \<Longrightarrow> victim_edge victims g e \<Longrightarrow> movable g e"
  shows "\<exists>c' g' n'. phase_a calm rt victims (c, (g, n)) = (c', (g', n')) \<and> tally c' = tally c \<and> gr_nodes g' = gr_nodes g \<and>
    (\<forall>e \<in> set (gr_edges g'). victim_edge victims g e \<longrightarrow> e \<in> set (gr_edges g) \<and> ge_type e \<noteq> Mentions)"
proof -
  let ?rows = "mentions_of_victims victims g"
  have row: "\<exists>x y. me_src r = Some x \<and> me_dst r = Some y \<and> x \<noteq> [] \<and> y \<noteq> [] \<and> y \<in> set victims \<and>
      match_nodes Episodic (\<lambda>n. nuid n = Some x) g \<noteq> [] \<and> has_entity g y" if r: "r \<in> set ?rows" for r
  proof -
    obtain e s t where e: "e \<in> set (gr_edges g)" "ends Mentions Episodic Entity g e = Some (s, t)" "uuid_in victims t"
      "r = mention_edge_of (e, s, t)" using r unfolding mentions_of_victims_def by (auto simp: match_edges_mem)
    then have st: "s \<in> set (gr_nodes g)" "gn_label s = Episodic" "t \<in> set (gr_nodes g)" "gn_label t = Entity" "gn_id t = ge_dst e"
      using node_at_Some unfolding ends_Some by blast+
    have "victim_edge victims g e" using st e(3) unfolding victim_edge_def by metis
    from mov [OF e(1) this] e(2) obtain x y where xy: "nuid s = Some x" "nuid t = Some y" "x \<noteq> []" "y \<noteq> []"
      unfolding movable_def by (auto simp: ends_Some)
    with e(3,4) st show ?thesis
      by (auto simp: mention_edge_of_def uuid_in_Some has_entity_node match_nodes_def filter_empty_conv)
  qed
  have "clears (fold (move_mention calm rt) ?rows) (victim_edge victims g) (\<lambda>e. \<exists>r \<in> set ?rows. hits_mention g r e) (gr_nodes g)"
    using row move_mention_clears [OF ok rt] by (intro fold_clears) blast
  from clearsE [OF this refl, of c "Suc n"] obtain c' g' n' where run: "fold (move_mention calm rt) ?rows (c, (g, Suc n)) = (c', (g', n'))"
      "tally c' = tally c" "gr_nodes g' = gr_nodes g"
      "\<And>e. e \<in> set (gr_edges g') \<Longrightarrow> victim_edge victims g e \<Longrightarrow> e \<in> set (gr_edges g) \<and> \<not> (\<exists>r \<in> set ?rows. hits_mention g r e)"
    by metis
  have "ge_type e \<noteq> Mentions" if e: "e \<in> set (gr_edges g)" "victim_edge victims g e" "\<not> (\<exists>r \<in> set ?rows. hits_mention g r e)" for e
  proof
    assume "ge_type e = Mentions"
    with mov [OF e(1,2)] obtain s t x y where st: "ends Mentions Episodic Entity g e = Some (s, t)" "nuid s = Some x" "nuid t = Some y"
        "euid e \<noteq> None" unfolding movable_def ends_Some by auto
    obtain m where m: "m \<in> set (gr_nodes g)" "gn_label m = Entity" "uuid_in victims m" "ge_src e = gn_id m \<or> ge_dst e = gn_id m"
      using e(2) unfolding victim_edge_def by blast
    have "m = t" using m node_at_mem [OF ok m(1)] st(1) unfolding ends_Some by auto
    with m(3) st(1) e(1) have "mention_edge_of (e, s, t) \<in> set ?rows" unfolding mentions_of_victims_def by (simp add: match_edges_mem rev_image_eqI)
    with e(3) have "\<not> hits_mention g (mention_edge_of (e, s, t)) e" by blast
    with st show False by (simp add: is_edge_def mention_edge_of_def or_empty_def)
  qed
  with run show ?thesis by (auto simp: phase_a_def)
qed

text \<open>Phase B on one row.\<close>

abbreviation hits_relation :: "graph \<Rightarrow> relation_edge \<Rightarrow> gedge \<Rightarrow> bool" where
  "hits_relation g r \<equiv> is_edge RelatesTo Entity (str_of (re_src r)) Entity (str_of (re_dst r)) (re_uuid r) g"

lemma move_relation_clears:
  assumes ok: "gr_ok g0" and rt: "avoids rt victims g0"
    and row: "re_src r = Some x" "re_dst r = Some y" "x \<in> set victims \<or> y \<in> set victims"
  shows "clears (move_relation calm rt r) (victim_edge victims g0) (hits_relation g0 r) (gr_nodes g0)"
proof (rule clearsI)
  fix c :: dedup_counters and g :: graph and n :: nat
  assume nodes: "gr_nodes g = gr_nodes g0"
  let ?create = "create_edge RelatesTo Entity (rt x) Entity (rt y) (relation_props (rt x) (rt y) (re_props r))"
  let ?delete = "delete_edge RelatesTo Entity x Entity y (re_uuid r)"
  have gok: "gr_ok g" using ok nodes by (simp add: gr_ok_def)
  have new: "rt x \<notin> set victims" "rt y \<notin> set victims" using rt by (auto simp: avoids_def)
  then have moves: "\<not> (rt x = x \<and> rt y = y)" using row(3) by auto
  have kept: "\<not> hits_relation g0 r e" if "e \<in> set (gr_edges (?delete h))" "gr_nodes h = gr_nodes g0" for h e
    using that is_edge_nodes [OF that(2)] row(1,2) by (simp add: delete_edge_mem str_of_def)
  show "\<exists>c' g' n'. move_relation calm rt r (c, (g, n)) = (c', (g', n')) \<and> tally c' = tally c \<and> gr_nodes g' = gr_nodes g0 \<and>
      (\<forall>e \<in> set (gr_edges g'). victim_edge victims g0 e \<longrightarrow> e \<in> set (gr_edges g) \<and> \<not> hits_relation g0 r e)"
  proof (cases "rt x = rt y")
    case True
    then have "move_relation calm rt r (c, (g, n)) = (c\<lparr>ct_self_loops := ct_self_loops c + 1\<rparr>, (?delete g, Suc n))"
      using row moves by (simp add: move_relation_def Let_def str_of_def delete_relation_def)
    then show ?thesis using nodes kept [OF _ nodes] by (simp add: delete_edge_mem)
  next
    case False
    let ?g' = "?delete (snd (?create g))"
    have run: "move_relation calm rt r (c, (g, n)) = (c\<lparr>ct_relations_moved := ct_relations_moved c + 1\<rparr>, (?g', Suc (Suc n)))"
      using row moves False by (simp add: move_relation_def Let_def str_of_def delete_relation_def)
    have "e \<in> set (gr_edges g)" if e: "e \<in> set (gr_edges ?g')" "victim_edge victims g0 e" for e
    proof (rule ccontr)
      assume "e \<notin> set (gr_edges g)"
      with e(1) obtain s t where "s \<in> set (match_nodes Entity (\<lambda>n. nuid n = Some (rt x)) g)" "t \<in> set (match_nodes Entity (\<lambda>n. nuid n = Some (rt y)) g)"
        "e = \<lparr>ge_type = RelatesTo, ge_src = gn_id s, ge_dst = gn_id t, ge_props = relation_props (rt x) (rt y) (re_props r)\<rparr>"
        unfolding delete_edge_mem create_edge_mem by blast
      with new_edge_harmless [OF gok] new have "\<not> victim_edge victims g e" by blast
      with e(2) victim_edge_nodes [OF nodes] show False by blast
    qed
    with run nodes kept [of _ "snd (?create g)"] show ?thesis by simp
  qed
qed

lemma phase_b_clears:
  assumes ok: "gr_ok g" and rt: "avoids rt victims g"
    and mov: "\<And>e. e \<in> set (gr_edges g) \<Longrightarrow> victim_edge victims g e \<Longrightarrow> movable g e \<and> ge_type e \<noteq> Mentions"
  shows "\<exists>c' g' n'. phase_b calm rt victims (c, (g, n)) = (c', (g', n')) \<and> tally c' = tally c \<and> gr_nodes g' = gr_nodes g \<and>
    (\<forall>e \<in> set (gr_edges g'). \<not> victim_edge victims g e)"
proof -
  let ?rows = "relations_of_victims victims g"
  have row: "\<exists>x y. re_src r = Some x \<and> re_dst r = Some y \<and> (x \<in> set victims \<or> y \<in> set victims)" if r: "r \<in> set ?rows" for r
  proof -
    obtain e s t where e: "e \<in> set (gr_edges g)" "ends RelatesTo Entity Entity g e = Some (s, t)" "uuid_in victims s \<or> uuid_in victims t"
      "r = relation_edge_of (e, s, t)" using r unfolding relations_of_victims_def by (auto simp: match_edges_mem)
    then have st: "s \<in> set (gr_nodes g)" "gn_label s = Entity" "gn_id s = ge_src e"
        "t \<in> set (gr_nodes g)" "gn_label t = Entity" "gn_id t = ge_dst e"
      using node_at_Some unfolding ends_Some by blast+
    have "victim_edge victims g e" using st e(3) unfolding victim_edge_def by metis
    from mov [OF e(1) this] e(2) obtain x y where xy: "nuid s = Some x" "nuid t = Some y"
      unfolding movable_def by (auto simp: ends_Some)
    with e(3,4) show ?thesis by (auto simp: relation_edge_of_def uuid_in_Some)
  qed
  have "clears (fold (move_relation calm rt) ?rows) (victim_edge victims g) (\<lambda>e. \<exists>r \<in> set ?rows. hits_relation g r e) (gr_nodes g)"
    using row move_relation_clears [OF ok rt] by (intro fold_clears) blast
  from clearsE [OF this refl, of c "Suc n"] obtain c' g' n' where run: "fold (move_relation calm rt) ?rows (c, (g, Suc n)) = (c', (g', n'))"
      "tally c' = tally c" "gr_nodes g' = gr_nodes g"
      "\<And>e. e \<in> set (gr_edges g') \<Longrightarrow> victim_edge victims g e \<Longrightarrow> e \<in> set (gr_edges g) \<and> \<not> (\<exists>r \<in> set ?rows. hits_relation g r e)"
    by metis
  have "\<not> victim_edge victims g e" if e: "e \<in> set (gr_edges g)" "\<not> (\<exists>r \<in> set ?rows. hits_relation g r e)" for e
  proof
    assume v: "victim_edge victims g e"
    with mov [OF e(1)] obtain s t x y where st: "ends RelatesTo Entity Entity g e = Some (s, t)" "nuid s = Some x" "nuid t = Some y"
        "euid e \<noteq> None" unfolding movable_def ends_Some by auto
    obtain m where m: "m \<in> set (gr_nodes g)" "uuid_in victims m" "ge_src e = gn_id m \<or> ge_dst e = gn_id m"
      using v unfolding victim_edge_def by blast
    then have "m = s \<or> m = t" using node_at_mem [OF ok m(1)] st(1) unfolding ends_Some by auto
    with m(2) st(1) e(1) have "relation_edge_of (e, s, t) \<in> set ?rows"
      unfolding relations_of_victims_def by (auto simp: match_edges_mem rev_image_eqI)
    with e(2) have "\<not> hits_relation g (relation_edge_of (e, s, t)) e" by blast
    with st show False by (simp add: is_edge_def relation_edge_of_def str_of_def)
  qed
  with run show ?thesis unfolding phase_b_def by (auto; blast)
qed

lemma phase_c_calm:
  "\<exists>c' g' n'. phase_c calm (c, (g, n)) = (c', (g', n')) \<and> tally c' = tally c \<and> gr_nodes g' = gr_nodes g \<and>
    set (gr_edges g') \<subseteq> set (gr_edges g)"
  using keep_first_sub [of "relation_group g" "[]" "gr_edges g"]
  by (auto simp: phase_c_def Let_def collapse_relations_def)

subsection \<open>The victims go\<close>

lemma edgeless_victim:
  assumes "\<forall>e \<in> set (gr_edges g). \<not> victim_edge victims g e" "set us \<subseteq> set victims" "n \<in> set (gr_nodes g)"
  shows "edgeless_entity us g n \<longleftrightarrow> gn_label n = Entity \<and> uuid_in us n"
  using assms uuid_in_mono [OF assms(2), of n] unfolding edgeless_entity_def has_edge_def list_ex_iff victim_edge_def by metis

lemma uuid_in_append: "uuid_in (us @ vs) n \<longleftrightarrow> uuid_in us n \<or> uuid_in vs n"
  by (simp add: uuid_in_def split: option.split)

lemma delete_chunks_calm:
  assumes "\<forall>e \<in> set (gr_edges g). \<not> victim_edge victims g e" "\<forall>us \<in> set css. set us \<subseteq> set victims"
  shows "\<exists>c' g' n'. fold (delete_chunk calm) css (c, (g, n)) = (c', (g', n')) \<and> ct_errors c' = ct_errors c \<and>
    ct_nodes_deleted c' + length (gr_nodes g') = ct_nodes_deleted c + length (gr_nodes g) \<and> gr_edges g' = gr_edges g \<and>
    gr_nodes g' = filter (\<lambda>n. \<not> (gn_label n = Entity \<and> uuid_in (concat css) n)) (gr_nodes g)"
  using assms
proof (induction css arbitrary: c g n)
  case Nil
  then show ?case by (simp add: uuid_in_def option.case_eq_if)
next
  case (Cons us css)
  let ?g = "delete_edgeless us g" and ?c = "c\<lparr>ct_nodes_deleted := ct_nodes_deleted c + count_edgeless us g\<rparr>"
  have step: "delete_chunk calm us (c, (g, n)) = (?c, (?g, Suc (Suc n)))" by (simp add: delete_chunk_def)
  have same: "edgeless_entity us g m \<longleftrightarrow> gn_label m = Entity \<and> uuid_in us m" if "m \<in> set (gr_nodes g)" for m
    using edgeless_victim [OF Cons.prems(1) _ that] Cons.prems(2) by simp
  have nodes: "gr_nodes ?g = filter (\<lambda>n. \<not> (gn_label n = Entity \<and> uuid_in us n)) (gr_nodes g)"
    using same by (simp cong: filter_cong)
  have count: "count_edgeless us g + length (gr_nodes ?g) = length (gr_nodes g)"
    using sum_length_filter_compl [of "edgeless_entity us g" "gr_nodes g"] by (simp add: count_edgeless_def)
  have "\<forall>e \<in> set (gr_edges ?g). \<not> victim_edge victims ?g e" using Cons.prems(1) by (auto simp: victim_edge_def)
  from Cons.IH [OF this, of ?c "Suc (Suc n)"] Cons.prems(2) obtain c' g' n' where rest:
    "fold (delete_chunk calm) css (?c, (?g, Suc (Suc n))) = (c', (g', n'))" "ct_errors c' = ct_errors ?c"
    "ct_nodes_deleted c' + length (gr_nodes g') = ct_nodes_deleted ?c + length (gr_nodes ?g)" "gr_edges g' = gr_edges ?g"
    "gr_nodes g' = filter (\<lambda>n. \<not> (gn_label n = Entity \<and> uuid_in (concat css) n)) (gr_nodes ?g)" by auto
  have "gr_nodes g' = filter (\<lambda>n. \<not> (gn_label n = Entity \<and> uuid_in (concat (us # css)) n)) (gr_nodes g)"
    unfolding rest(5) nodes filter_filter by (rule filter_cong) (auto simp: uuid_in_append)
  with rest(1-4) step count show ?case by simp
qed

lemma concat_chunks: "0 < n \<Longrightarrow> concat (chunks n xs) = xs"
proof (induction n xs rule: chunks.induct)
  case (1 n xs)
  then show ?case by (cases "xs = []") (simp_all add: chunks.simps [of n xs] chunks.simps [of n "[]"])
qed

text \<open>C10: Applying a plan finishes its job when the driver answers: if every edge at a victim is a mention or a relation that has a
  uuid and ends in nodes that have one, the run reports no error, every victim is gone, the deletions are counted, and every other node
  is still there.\<close>

theorem dedup_removes_victims:
  assumes "gr_ok g0" "entities_ok (entities_q gid g0)"
    and plan: "plan_dedup threshold (entities_q gid g0) mentions relations = plan" "\<not> plan_is_empty plan"
    and v: "redirect_map mg_victim mg_survivor (dp_merges plan) = v"
    and mov: "\<forall>e \<in> set (gr_edges g0). victim_edge (map fst v) g0 e \<longrightarrow> movable g0 e"
    and run: "apply_plan calm plan True batch (g0, n) = (c, (g, n'))" "0 < batch"
  shows "ct_errors c = [] \<and> gr_nodes g = filter (\<lambda>n. \<not> (gn_label n = Entity \<and> uuid_in (map fst v) n)) (gr_nodes g0) \<and>
    ct_nodes_deleted c + length (gr_nodes g) = length (gr_nodes g0)"
proof -
  let ?rt = "redirect_of v" and ?vs = "map fst v"
  obtain st where st: "plan_merges threshold (entities_q gid g0) = st" by blast
  have "distinct (map uid (entities_q gid g0))" using assms(2) by (simp add: entities_ok_def)
  then have vst: "v = pl_victims st" using plan_redirect [OF _ plan(1)] v st by simp
  note ents = plan_redirect_entity [OF assms(2) st, folded vst]
  have "?rt u \<notin> set ?vs" for u
  proof (cases "u \<in> set ?vs")
    case True
    then obtain l where l: "l \<in> set (entities_q gid g0)" "uid l = u"
      using victim_entity [OF \<open>distinct (map uid (entities_q gid g0))\<close> st] vst by auto
    from redirect_end [OF assms(2) st l(1)] l(2) vst show ?thesis by (metis list.set_map)
  qed (simp add: redirect_outside)
  with ents have rt: "avoids ?rt ?vs g0" by (simp add: avoids_def)
  let ?bad = "\<lambda>g. \<forall>e \<in> set (gr_edges g). \<not> victim_edge ?vs g0 e"
  obtain ca ga na where A: "phase_a calm ?rt ?vs (new_counters True, (g0, n)) = (ca, (ga, na))" "tally ca = ([], 0)" "gr_nodes ga = gr_nodes g0"
      "\<forall>e \<in> set (gr_edges ga). victim_edge ?vs g0 e \<longrightarrow> e \<in> set (gr_edges g0) \<and> ge_type e \<noteq> Mentions"
    using phase_a_clears [OF assms(1) rt, of "new_counters True" n] mov by (auto simp: new_counters_def)
  have "gr_ok ga" "avoids ?rt ?vs ga" using assms(1) rt A(3) has_entity_nodes [OF A(3)] by (simp_all add: gr_ok_def avoids_def)
  moreover have "movable ga e \<longleftrightarrow> movable g0 e" for e using ends_nodes [OF A(3)] by (simp add: movable_def)
  ultimately obtain cb gb nb where B: "phase_b calm ?rt ?vs (ca, (ga, na)) = (cb, (gb, nb))" "tally cb = ([], 0)" "gr_nodes gb = gr_nodes g0" "?bad gb"
    using phase_b_clears [of ga ?rt ?vs ca na] A(2-4) mov victim_edge_nodes [OF A(3)] by auto
  obtain cc gc nc where C: "phase_c calm (cb, (gb, nb)) = (cc, (gc, nc))" "tally cc = ([], 0)" "gr_nodes gc = gr_nodes g0" "?bad gc"
    using phase_c_calm [of cb gb nb] B(2-4) by (auto; blast)
  have "?bad gc \<longleftrightarrow> (\<forall>e \<in> set (gr_edges gc). \<not> victim_edge ?vs gc e)" using victim_edge_nodes [OF C(3)] by simp
  moreover have "fold (delete_chunk calm) (chunks batch ?vs) (cc, (gc, nc)) = (c, (g, n'))"
    using run(1) plan(2) v A(1) B(1) C(1) by (simp add: apply_plan_def Let_def)
  moreover have "ct_nodes_deleted cc = 0" using C(2) by simp
  ultimately show ?thesis
    using delete_chunks_calm [of gc ?vs "chunks batch ?vs" cc nc] chunks_sub [of _ batch ?vs] C(2-4) concat_chunks [OF run(2), of ?vs] by auto
qed

theorem dedup_removes_victims_witness:
  "map nuid (gr_nodes (fst (snd (apply_plan calm sample_plan True 200 (sample_graph, 0))))) = [Some ''a'', Some ''c'', Some ''x'']"
proof -
  let ?run = "apply_plan calm sample_plan True 200 (sample_graph, 0)"
  obtain c g n where run: "?run = (c, (g, n))" by (cases ?run) auto
  have "gr_ok sample_graph" "entities_ok (entities_q ''g'' sample_graph)" "\<not> plan_is_empty sample_plan" by (code_simp, code_simp, code_simp)
  moreover have "\<forall>e \<in> set (gr_edges sample_graph). movable sample_graph e"
    by (simp add: movable_def sample_graph_def ends_def node_at_def tprop_def dict_get_def)
  moreover have "map nuid (filter (\<lambda>n. \<not> (gn_label n = Entity \<and> uuid_in [''b''] n)) (gr_nodes sample_graph)) = [Some ''a'', Some ''c'', Some ''x'']"
    by code_simp
  ultimately show ?thesis
    using dedup_removes_victims [OF _ _ sample_plan_def [symmetric] _ sample_victims _ run] by (simp add: run)
qed

subsection \<open>What a move does not carry over\<close>

text \<open>A moved relation has the properties listed here and no other, so an expiry date is lost; and of the two spellings of its
  ends it gets one.\<close>

lemma moved_relation_forgets:
  "k \<notin> {''uuid'', ''source_node_uuid'', ''target_node_uuid'', ''group_id'', ''fact'', ''name'', ''created_at'', ''valid_at'',
      ''reference_time'', ''episodes''} \<Longrightarrow> dict_get (relation_props s d p) k = None"
  by (simp add: relation_props_def text_prop_def dict_get_append)

lemma moved_relation_loses_expiry:
  "tprop (relation_props s d p) ''expired_at'' = None" "tprop (relation_props s d p) ''src_uuid'' = None"
  using moved_relation_forgets [of "''expired_at''"] moved_relation_forgets [of "''src_uuid''"] by (simp_all add: tprop_def)

text \<open>Whatever the group of the graph, a moved relation is in the default one.\<close>

lemma moved_relation_group: "tprop (relation_props s d p) ''group_id'' = Some default_group"
  by (simp add: relation_props_def tprop_def dict_get_append)

text \<open>A mention move that stops between its two statements leaves two edges, and the next run, which creates the new edge again,
  leaves two at the survivor: the duplicates that are collapsed are relations only.\<close>

definition mention_count :: "graph \<Rightarrow> nat" where
  "mention_count g = length (filter (\<lambda>e. ge_type e = Mentions) (gr_edges g))"

definition dedup_run :: "(nat \<Rightarrow> reply) \<Rightarrow> graph \<Rightarrow> graph" where
  "dedup_run driver g =
     fst (snd (apply_plan driver (plan_dedup (4 / 5) (entities_q ''g'' g) (mentions_q ''g'' g) (relations_q ''g'' g)) True 200 (g, 0)))"

lemma interrupted_mention_doubles:
  "map mention_count [sample_graph, dedup_run (\<lambda>n. if n = 2 then Refused else Answered) sample_graph,
     dedup_run calm (dedup_run (\<lambda>n. if n = 2 then Refused else Answered) sample_graph)] = [1, 2, 2]"
  by code_simp

text \<open>A dry run sends no statement and reports the plan's numbers.\<close>

lemma dry_run_only_reports:
  "apply_plan driver plan False batch ss = (c, ss') \<Longrightarrow>
    ss' = ss \<and> ct_errors c = [] \<and>
    (\<not> plan_is_empty plan \<longrightarrow> ct_planned c = Some (dp_nodes_to_delete plan, dp_mentions_to_redirect plan, dp_relations_to_redirect plan))"
  by (auto simp: apply_plan_def Let_def new_counters_def split: if_splits)

end
