(* ===== verification/EpisodicFold.thy ===== *)
theory EpisodicFold
  imports DedupApply QueueReads "HOL-Library.Multiset"
begin

text \<open>
  \<open>pipeline/dedup_apply.py\<close>, the episodic half: folding byte-identical episodes into one, with an undo row written for
  every victim before a node is deleted.  The undo writer is a function on the queue's tables (\<open>None\<close>: it raised);
  \<open>json.dumps\<close> is a parameter.
\<close>

subsection \<open>Statements\<close>

definition mentions_from :: "string list \<Rightarrow> graph \<Rightarrow> mention_edge list" where
  "mentions_from sources g = map mention_edge_of (match_edges Mentions Episodic Entity (\<lambda>e s t. uuid_in sources s) g)"

definition mention_in :: "string list \<Rightarrow> gedge \<Rightarrow> bool" where
  "mention_in us e \<longleftrightarrow> ge_type e = Mentions \<and> (case euid e of Some u \<Rightarrow> u \<in> set us | None \<Rightarrow> False)"

definition drop_mentions :: "string list \<Rightarrow> graph \<Rightarrow> graph" where
  "drop_mentions us g = g\<lparr>gr_edges := filter (\<lambda>e. \<not> mention_in us e) (gr_edges g)\<rparr>"

definition count_mentions :: "graph \<Rightarrow> nat" where
  "count_mentions g = length (filter (\<lambda>e. ge_type e = Mentions) (gr_edges g))"

definition delete_mentions_by_uuid :: "(nat \<Rightarrow> reply) \<Rightarrow> string list \<Rightarrow> session \<Rightarrow> int option \<times> session" where
  "delete_mentions_by_uuid driver us ss =
     (if us = [] then (Some 0, ss)
      else case read_query driver count_mentions ss of
          (None, ss1) \<Rightarrow> (None, ss1)
        | (Some before, ss1) \<Rightarrow>
            (case write_query driver (drop_mentions us) ss1 of
               (None, ss2) \<Rightarrow> (None, ss2)
             | (Some _, ss2) \<Rightarrow>
                 (case read_query driver count_mentions ss2 of
                    (None, ss3) \<Rightarrow> (None, ss3)
                  | (Some after, ss3) \<Rightarrow> (Some (int before - int after), ss3))))"

definition episode_props :: "string list \<Rightarrow> graph \<Rightarrow> (string option \<times> pydict) list" where
  "episode_props victims g = map (\<lambda>n. (nuid n, gn_props n)) (match_nodes Episodic (uuid_in victims) g)"

definition emptied :: "string list \<Rightarrow> graph \<Rightarrow> gnode \<Rightarrow> bool" where
  "emptied us g n \<longleftrightarrow> gn_label n = Episodic \<and> uuid_in us n \<and>
     \<not> list_ex (\<lambda>e. ge_type e = Mentions \<and> ge_src e = gn_id n) (gr_edges g)"

definition count_emptied :: "string list \<Rightarrow> graph \<Rightarrow> nat" where
  "count_emptied us g = length (filter (emptied us g) (gr_nodes g))"

definition delete_emptied :: "string list \<Rightarrow> graph \<Rightarrow> graph" where
  "delete_emptied us g = detach_delete (emptied us g) g"

subsection \<open>Counters\<close>

datatype fold_error =
    VictimMentionsReadFailed
  | NoMentionsSeen nat
  | SurvivorReadFailed
  | FoldSkipped "string option"
  | NoSurvivor "string option" string
  | FoldDropFailed
  | FoldNotCreated "string option"
  | FoldMoveFailed "string option"
  | UndoBuildFailed
  | UndoIncomplete nat nat
  | NoUndoWriter
  | UndoWriteFailed
  | UndoShort int nat
  | FoldDeleteFailed

record fold_counters =
  fd_applied :: bool
  fd_merges :: nat
  fd_victims :: nat
  fd_rewired :: nat
  fd_moved :: nat
  fd_dropped :: nat
  fd_created :: nat
  fd_intra_dup :: nat
  fd_dedupe_dropped :: nat
  fd_accounted :: nat
  fd_deleted :: nat
  fd_not_empty :: int
  fd_undo_written :: int
  fd_errors :: "fold_error list"
  fd_planned :: "(nat \<times> nat \<times> nat) option"

definition new_fold_counters :: "bool \<Rightarrow> episodic_merge list \<Rightarrow> fold_counters" where
  "new_fold_counters applied merges =
     \<lparr>fd_applied = applied, fd_merges = length merges, fd_victims = 0, fd_rewired = 0, fd_moved = 0, fd_dropped = 0,
      fd_created = 0, fd_intra_dup = 0, fd_dedupe_dropped = 0, fd_accounted = 0, fd_deleted = 0, fd_not_empty = 0,
      fd_undo_written = 0, fd_errors = [], fd_planned = None\<rparr>"

definition fold_errors :: "fold_error list \<Rightarrow> fold_counters \<Rightarrow> fold_counters" where
  "fold_errors xs c = c\<lparr>fd_errors := fd_errors c @ xs\<rparr>"

subsection \<open>The plan of the rewire\<close>

text \<open>The targets the survivors mention already.\<close>

definition targets_of :: "mention_edge list \<Rightarrow> string \<Rightarrow> string list" where
  "targets_of rows u =
     map (\<lambda>r. or_empty (me_dst r)) (filter (\<lambda>r. or_empty (me_src r) = u \<and> u \<noteq> [] \<and> or_empty (me_dst r) \<noteq> []) rows)"

definition resolved :: "mention_edge \<Rightarrow> bool" where
  "resolved r \<longleftrightarrow> or_empty (me_src r) \<noteq> [] \<and> or_empty (me_dst r) \<noteq> []"

definition victim_edge_of :: "mention_edge \<Rightarrow> mention_edge" where
  "victim_edge_of r = r\<lparr>me_uuid := Some (str_of (me_uuid r))\<rparr>"

abbreviation src_of :: "mention_edge \<Rightarrow> string" where
  "src_of r \<equiv> or_empty (me_src r)"

abbreviation dst_of :: "mention_edge \<Rightarrow> string" where
  "dst_of r \<equiv> or_empty (me_dst r)"

text \<open>Of the rows with one source and target the first is unique, the others are duplicates.\<close>

fun split_dups :: "(string \<times> string) list \<Rightarrow> mention_edge list \<Rightarrow> mention_edge list \<times> mention_edge list" where
  "split_dups seen [] = ([], [])"
| "split_dups seen (r # rs) =
     (if (src_of r, dst_of r) \<in> set seen then (case split_dups seen rs of (us, ds) \<Rightarrow> (us, r # ds))
      else (case split_dups ((src_of r, dst_of r) # seen) rs of (us, ds) \<Rightarrow> (r # us, ds)))"

record rewire_plan =
  rw_drop :: "mention_edge list"
  rw_dedupe :: "mention_edge list"
  rw_create :: "mention_edge list"
  rw_errors :: "fold_error list"

definition new_rewire :: rewire_plan where
  "new_rewire = \<lparr>rw_drop = [], rw_dedupe = [], rw_create = [], rw_errors = []\<rparr>"

definition plan_row :: "(string \<Rightarrow> string) \<Rightarrow> (string \<Rightarrow> string list) \<Rightarrow> mention_edge \<Rightarrow> rewire_plan \<Rightarrow> rewire_plan" where
  "plan_row rt targets r p =
     (let survivor = rt (src_of r) in
      if survivor = src_of r then p\<lparr>rw_errors := rw_errors p @ [NoSurvivor (me_uuid r) (src_of r)]\<rparr>
      else if dst_of r \<in> set (targets survivor) then p\<lparr>rw_drop := rw_drop p @ [r]\<rparr>
      else if (survivor, dst_of r) \<in> set (map (\<lambda>q. (rt (src_of q), dst_of q)) (rw_create p)) then p\<lparr>rw_dedupe := rw_dedupe p @ [r]\<rparr>
      else p\<lparr>rw_create := rw_create p @ [r]\<rparr>)"

definition plan_rewire :: "(string \<Rightarrow> string) \<Rightarrow> (string \<Rightarrow> string list) \<Rightarrow> mention_edge list \<Rightarrow> rewire_plan" where
  "plan_rewire rt targets rows = fold (plan_row rt targets) rows new_rewire"

text \<open>The edges to drop before anything is moved.\<close>

definition redundant :: "rewire_plan \<Rightarrow> mention_edge list \<Rightarrow> string list" where
  "redundant p dups = map (\<lambda>r. or_empty (me_uuid r)) (rw_drop p @ rw_dedupe p @ dups)"

subsection \<open>Moving one mention\<close>

type_synonym fold_run = "fold_counters \<times> session"

definition rewire_mention :: "(nat \<Rightarrow> reply) \<Rightarrow> (string \<Rightarrow> string) \<Rightarrow> mention_edge \<Rightarrow> fold_run \<Rightarrow> fold_run" where
  "rewire_mention driver rt r cs =
     (let (c, ss) = cs in
      case create_then_delete driver (create_edge Mentions Episodic (rt (src_of r)) Entity (dst_of r) (mention_props r))
             (delete_edge Mentions Episodic (src_of r) Entity (dst_of r) (me_uuid r)) ss of
        (None, _, ss') \<Rightarrow> (fold_errors [FoldMoveFailed (me_uuid r)] c, ss')
      | (Some n, ok, ss') \<Rightarrow>
          if n = 0 then (fold_errors [FoldNotCreated (me_uuid r)] c, ss')
          else if ok then (c\<lparr>fd_created := fd_created c + 1, fd_moved := fd_moved c + 1\<rparr>, ss')
          else (fold_errors [FoldMoveFailed (me_uuid r)] (c\<lparr>fd_created := fd_created c + 1\<rparr>), ss'))"

subsection \<open>Undo rows\<close>

definition undo_mention :: "string \<Rightarrow> mention_edge \<Rightarrow> pyval" where
  "undo_mention gid r =
     PyDict [(''edge_uuid'', opt_text (me_uuid r)), (''src_uuid'', PyStr (src_of r)), (''dst_uuid'', PyStr (dst_of r)),
             (''created_at'', opt_text (nonempty (me_created r))), (''group_id'', opt_text (or_else (me_group r) (Some gid)))]"

definition props_by_uuid :: "(string option \<times> pydict) list \<Rightarrow> (string \<times> pydict) list" where
  "props_by_uuid rows = fold (\<lambda>(u, p) d. case nonempty u of Some s \<Rightarrow> AList.update s p d | None \<Rightarrow> d) rows []"

definition undo_entry_of ::
  "(pyval \<Rightarrow> string) \<Rightarrow> string \<Rightarrow> (string \<times> string) list \<Rightarrow> mention_edge list \<Rightarrow> string \<Rightarrow> pydict \<Rightarrow> undo_entry" where
  "undo_entry_of dumps gid survivors edges victim props =
     \<lparr>ue_victim = victim, ue_survivor = or_empty (map_of survivors victim), ue_snapshot = dumps (PyDict props),
      ue_mentions = dumps (PyList (map (undo_mention gid) (filter (\<lambda>r. src_of r = victim) edges))), ue_created_at = None\<rparr>"

definition build_episodic_undo_rows ::
  "(nat \<Rightarrow> reply) \<Rightarrow> (pyval \<Rightarrow> string) \<Rightarrow> episodic_merge list \<Rightarrow> mention_edge list \<Rightarrow> string \<Rightarrow> session \<Rightarrow>
     undo_entry list option \<times> session" where
  "build_episodic_undo_rows driver dumps merges edges gid ss =
     (let victims = map em_victim merges; survivors = redirect_map em_victim em_survivor merges in
      if victims = [] then (Some [], ss)
      else case read_query driver (episode_props victims) ss of
          (None, ss1) \<Rightarrow> (None, ss1)
        | (Some rows, ss1) \<Rightarrow>
            (Some (concat (map (\<lambda>v. case map_of (props_by_uuid rows) v of
                 None \<Rightarrow> []
               | Some p \<Rightarrow> [undo_entry_of dumps gid survivors edges v p]) victims)), ss1))"

subsection \<open>Folding\<close>

definition delete_emptied_chunk :: "(nat \<Rightarrow> reply) \<Rightarrow> string list \<Rightarrow> fold_run \<Rightarrow> fold_run" where
  "delete_emptied_chunk driver chunk cs =
     (let (c, ss) = cs in
      case read_query driver (count_emptied chunk) ss of
        (None, ss1) \<Rightarrow> (fold_errors [FoldDeleteFailed] c, ss1)
      | (Some n, ss1) \<Rightarrow>
          (case write_query driver (delete_emptied chunk) ss1 of
             (None, ss2) \<Rightarrow> (fold_errors [FoldDeleteFailed] c, ss2)
           | (Some _, ss2) \<Rightarrow>
               (c\<lparr>fd_deleted := fd_deleted c + n, fd_not_empty := fd_not_empty c + (int (length chunk) - int n)\<rparr>, ss2)))"

type_synonym undo_writer = "undo_entry list \<Rightarrow> store \<Rightarrow> int option \<times> store"

text \<open>The numbers of the plan, which a dry run reports.\<close>

definition planned_counters :: "mention_edge list \<Rightarrow> mention_edge list \<Rightarrow> rewire_plan \<Rightarrow> fold_counters \<Rightarrow> fold_counters" where
  "planned_counters edges dups p c =
     c\<lparr>fd_intra_dup := length dups, fd_rewired := length edges, fd_moved := length (rw_create p), fd_dropped := length (rw_drop p),
       fd_dedupe_dropped := length (rw_dedupe p), fd_created := length (rw_create p), fd_accounted := length edges\<rparr>"

text \<open>Undo rows first, then the emptied victims.\<close>

definition undo_and_delete ::
  "(nat \<Rightarrow> reply) \<Rightarrow> (pyval \<Rightarrow> string) \<Rightarrow> undo_writer option \<Rightarrow> string \<Rightarrow> nat \<Rightarrow> episodic_merge list \<Rightarrow> string list \<Rightarrow>
     mention_edge list \<Rightarrow> fold_run \<times> store \<Rightarrow> fold_run \<times> store" where
  "undo_and_delete driver dumps writer gid batch merges victims edges x =
     (let ((c, ss), s) = x; (built, ss1) = build_episodic_undo_rows driver dumps merges edges gid ss;
          rows = (case built of Some rs \<Rightarrow> rs | None \<Rightarrow> []);
          c1 = (if built = None then fold_errors [UndoBuildFailed] c else c);
          refuse = (\<lambda>e c. (fold_errors [e] c)\<lparr>fd_not_empty := int (length victims)\<rparr>) in
      if length rows < length victims then ((refuse (UndoIncomplete (length rows) (length victims)) c1, ss1), s)
      else case writer of
          None \<Rightarrow> ((refuse NoUndoWriter c1, ss1), s)
        | Some w \<Rightarrow>
            (let (answer, s1) = w rows s; n = (case answer of Some n \<Rightarrow> n | None \<Rightarrow> 0);
                 c2 = (if answer = None then fold_errors [UndoWriteFailed] c1 else c1)\<lparr>fd_undo_written := n\<rparr> in
             if n < int (length victims) then ((refuse (UndoShort n (length victims)) c2, ss1), s1)
             else (fold (delete_emptied_chunk driver) (chunks batch victims) (c2, ss1), s1)))"

definition apply_episodic_plan ::
  "(nat \<Rightarrow> reply) \<Rightarrow> (pyval \<Rightarrow> string) \<Rightarrow> episodic_merge list \<Rightarrow> bool \<Rightarrow> nat \<Rightarrow> undo_writer option \<Rightarrow> string \<Rightarrow>
     session \<times> store \<Rightarrow> fold_run \<times> store" where
  "apply_episodic_plan driver dumps merges apply_it batch writer gid x =
     (let (ss, s) = x; c = new_fold_counters apply_it merges in
      if merges = [] then ((c, ss), s)
      else
        let redirect = redirect_map em_victim em_survivor merges; rt = redirect_of redirect; victims = map fst redirect;
            c1 = c\<lparr>fd_victims := length victims\<rparr> in
        case read_query driver (mentions_from victims) ss of
          (None, ss1) \<Rightarrow> ((fold_errors [VictimMentionsReadFailed] c1, ss1), s)
        | (Some rows, ss1) \<Rightarrow>
            if rows = [] then ((fold_errors [NoMentionsSeen (length victims)] c1, ss1), s)
            else
              let (kept, ss2) = read_query driver (mentions_from (remdups (map rt victims))) ss1;
                  c2 = (if kept = None then fold_errors [SurvivorReadFailed] c1 else c1);
                  targets = targets_of (case kept of Some ks \<Rightarrow> ks | None \<Rightarrow> []);
                  c3 = fold_errors (map (\<lambda>r. FoldSkipped (me_uuid r)) (filter (\<lambda>r. \<not> resolved r) rows)) c2;
                  edges = map victim_edge_of (filter resolved rows); (uniques, dups) = split_dups [] edges;
                  p = plan_rewire rt targets uniques;
                  c4 = planned_counters edges dups p (fold_errors (rw_errors p) c3) in
              if \<not> apply_it then
                ((c4\<lparr>fd_planned := Some (length victims, length (rw_drop p) + length (rw_dedupe p), length (rw_create p))\<rparr>, ss2), s)
              else
                let (dropped, ss3) = delete_mentions_by_uuid driver (redundant p dups) ss2;
                    c5 = (if dropped = None then fold_errors [FoldDropFailed] c4 else c4);
                    (c6, ss4) = fold (rewire_mention driver rt) (rw_create p) (c5\<lparr>fd_created := 0, fd_moved := 0\<rparr>, ss3)
                in undo_and_delete driver dumps writer gid batch merges victims uniques ((c6, ss4), s))"

subsection \<open>What a fold may do to the graph\<close>

lemma delete_mentions_range:
  assumes "delete_mentions_by_uuid driver us ss = (r, ss')"
  shows "fst ss' = fst ss \<or> fst ss' = drop_mentions us (fst ss)"
proof (cases "us = []")
  case False
  obtain a ss1 where 1: "read_query driver count_mentions ss = (a, ss1)" by (cases "read_query driver count_mentions ss")
  obtain b ss2 where 2: "write_query driver (drop_mentions us) ss1 = (b, ss2)" by (cases "write_query driver (drop_mentions us) ss1")
  obtain d ss3 where 3: "read_query driver count_mentions ss2 = (d, ss3)" by (cases "read_query driver count_mentions ss2")
  have "ss' = ss1 \<or> ss' = ss2 \<or> ss' = ss3"
    using assms False 1 2 3 by (auto simp: delete_mentions_by_uuid_def split: option.splits)
  with read_query_keeps [OF 1] write_query_cases [OF 2] read_query_keeps [OF 3] show ?thesis by auto
qed (use assms in \<open>simp add: delete_mentions_by_uuid_def\<close>)

text \<open>The knowledge of a graph: which entities the episodes of a cluster mention.\<close>

definition cluster_mentions :: "(string \<Rightarrow> string) \<Rightarrow> graph \<Rightarrow> (string \<times> string) set" where
  "cluster_mentions rt g = {(rt s, t) | s t. mentioned g (s, t)}"

lemma cluster_moved:
  assumes "mention_move.moved s t (rt s) t g g'" "rt (rt s) = rt s" "(rt s, t) \<in> cluster_mentions rt g"
  shows "cluster_mentions rt g' = cluster_mentions rt g"
proof
  show "cluster_mentions rt g' \<subseteq> cluster_mentions rt g"
  proof
    fix k
    assume "k \<in> cluster_mentions rt g'"
    then obtain x y where k: "k = (rt x, y)" "mentioned g' (x, y)" by (auto simp: cluster_mentions_def)
    then have "mentioned g (x, y) \<or> (x, y) = (rt s, t)" using assms(1) by (simp add: mention_move.moved_def)
    then show "k \<in> cluster_mentions rt g" using k(1) assms(2,3) by (auto simp: cluster_mentions_def)
  qed
  show "cluster_mentions rt g \<subseteq> cluster_mentions rt g'"
  proof
    fix k
    assume "k \<in> cluster_mentions rt g"
    then obtain x y where k: "k = (rt x, y)" "mentioned g (x, y)" by (auto simp: cluster_mentions_def)
    then have "mentioned g' (x, y) \<or> ((x, y) = (s, t) \<and> mentioned g' (rt s, t))" using assms(1) by (simp add: mention_move.moved_def)
    then show "k \<in> cluster_mentions rt g'"
    proof
      assume "(x, y) = (s, t) \<and> mentioned g' (rt s, t)"
      then have "k = (rt (rt s), t)" "mentioned g' (rt s, t)" using k(1) assms(2) by auto
      then show ?thesis by (auto simp: cluster_mentions_def)
    qed (use k(1) in \<open>auto simp: cluster_mentions_def\<close>)
  qed
qed

lemma rewire_mention_keeps:
  assumes "gr_ok (fst (snd cs))" "rt (src_of r) \<noteq> src_of r" "rt (rt (src_of r)) = rt (src_of r)"
    and "(rt (src_of r), dst_of r) \<in> cluster_mentions rt (fst (snd cs))"
  shows "gr_ok (fst (snd (rewire_mention driver rt r cs)))"
    "gr_nodes (fst (snd (rewire_mention driver rt r cs))) = gr_nodes (fst (snd cs))"
    "cluster_mentions rt (fst (snd (rewire_mention driver rt r cs))) = cluster_mentions rt (fst (snd cs))"
proof -
  obtain c ss where cs: "cs = (c, ss)" by (cases cs)
  let ?create = "create_edge Mentions Episodic (rt (src_of r)) Entity (dst_of r) (mention_props r)"
    and ?delete = "delete_edge Mentions Episodic (src_of r) Entity (dst_of r) (me_uuid r)"
  obtain n ok ss' where run: "create_then_delete driver ?create ?delete ss = (n, ok, ss')"
    by (cases "create_then_delete driver ?create ?delete ss")
  have res: "fst (snd (rewire_mention driver rt r cs)) = fst ss'"
    using run by (auto simp: rewire_mention_def cs split: option.splits)
  have ok: "gr_ok (fst ss)" using assms(1) by (simp add: cs)
  have "(src_of r, dst_of r) \<noteq> (rt (src_of r), dst_of r)" using assms(2) by auto
  from mention_move.guarded_move [OF ok this run]
  have moved: "mention_move.moved (src_of r) (dst_of r) (rt (src_of r)) (dst_of r) (fst ss) (fst ss')" .
  then show "gr_ok (fst (snd (rewire_mention driver rt r cs)))" unfolding res by (simp add: mention_move.moved_def)
  show "gr_nodes (fst (snd (rewire_mention driver rt r cs))) = gr_nodes (fst (snd cs))"
    unfolding res using create_then_delete_range [OF run] by (auto simp: cs)
  show "cluster_mentions rt (fst (snd (rewire_mention driver rt r cs))) = cluster_mentions rt (fst (snd cs))"
    unfolding res using cluster_moved [where rt = rt, OF moved assms(3)] assms(4) by (simp add: cs)
qed

text \<open>The graph has the nodes of \<open>g0\<close> and its knowledge.\<close>

definition same_knowledge :: "(string \<Rightarrow> string) \<Rightarrow> graph \<Rightarrow> graph \<Rightarrow> bool" where
  "same_knowledge rt g0 g \<longleftrightarrow> gr_ok g \<and> gr_nodes g = gr_nodes g0 \<and> cluster_mentions rt g = cluster_mentions rt g0"

lemma rewire_all_keeps:
  assumes "\<And>u. rt (rt u) = rt u"
    and "\<And>r. r \<in> set rs \<Longrightarrow> rt (src_of r) \<noteq> src_of r \<and> mentioned g0 (src_of r, dst_of r)"
    and "same_knowledge rt g0 (fst (snd cs))"
  shows "same_knowledge rt g0 (fst (snd (fold (rewire_mention driver rt) rs cs)))"
proof (rule fold_carried [where Q = "same_knowledge rt g0"])
  fix r cs
  assume r: "r \<in> set rs" and k: "same_knowledge rt g0 (fst (snd (cs :: fold_run)))"
  then have "(rt (src_of r), dst_of r) \<in> cluster_mentions rt (fst (snd cs))"
    using assms(2) by (auto simp: same_knowledge_def cluster_mentions_def)
  with rewire_mention_keeps [of cs rt r driver] r k assms(1,2) show "same_knowledge rt g0 (fst (snd (rewire_mention driver rt r cs)))"
    by (simp add: same_knowledge_def)
qed (rule assms(3))

subsection \<open>Rows and their plan\<close>

lemma split_dups_parts:
  "split_dups seen rs = (us, ds) \<Longrightarrow>
    mset rs = mset us + mset ds \<and> (\<forall>r \<in> set rs. (src_of r, dst_of r) \<in> set seen \<or> (\<exists>q \<in> set us. src_of q = src_of r \<and> dst_of q = dst_of r))"
proof (induction rs arbitrary: seen us ds)
  case (Cons r rs)
  show ?case
  proof (cases "(src_of r, dst_of r) \<in> set seen")
    case True
    obtain us' ds' where rec: "split_dups seen rs = (us', ds')" by (cases "split_dups seen rs")
    with True Cons.prems have "us = us'" "ds = r # ds'" by auto
    with Cons.IH [OF rec] True show ?thesis by auto
  next
    case False
    obtain us' ds' where rec: "split_dups ((src_of r, dst_of r) # seen) rs = (us', ds')" by (cases "split_dups ((src_of r, dst_of r) # seen) rs")
    with False Cons.prems have "us = r # us'" "ds = ds'" by auto
    with Cons.IH [OF rec] False show ?thesis by fastforce
  qed
qed simp

definition rewire_rows :: "rewire_plan \<Rightarrow> mention_edge multiset" where
  "rewire_rows p = mset (rw_drop p) + mset (rw_dedupe p) + mset (rw_create p)"

definition rewire_covers :: "(string \<Rightarrow> string) \<Rightarrow> (string \<Rightarrow> string list) \<Rightarrow> rewire_plan \<Rightarrow> mention_edge \<Rightarrow> bool" where
  "rewire_covers rt targets p r \<longleftrightarrow> dst_of r \<in> set (targets (rt (src_of r))) \<or>
     (\<exists>q \<in> set (rw_create p). rt (src_of q) = rt (src_of r) \<and> dst_of q = dst_of r)"

lemma plan_row_step:
  assumes "rt (src_of r) \<noteq> src_of r"
  shows "rewire_rows (plan_row rt targets r p) = add_mset r (rewire_rows p)"
    "rewire_covers rt targets (plan_row rt targets r p) r"
    "rewire_covers rt targets p q \<Longrightarrow> rewire_covers rt targets (plan_row rt targets r p) q"
    "rw_errors (plan_row rt targets r p) = rw_errors p"
  using assms by (auto simp: plan_row_def rewire_rows_def rewire_covers_def Let_def)

lemma plan_rewire_gen:
  assumes "\<And>r. r \<in> set rs \<Longrightarrow> rt (src_of r) \<noteq> src_of r" "fold (plan_row rt targets) rs p = p'"
  shows "rewire_rows p' = mset rs + rewire_rows p \<and> rw_errors p' = rw_errors p \<and> (\<forall>r \<in> set rs. rewire_covers rt targets p' r) \<and>
    (\<forall>q. rewire_covers rt targets p q \<longrightarrow> rewire_covers rt targets p' q)"
  using assms
proof (induction rs arbitrary: p)
  case (Cons r rs)
  from Cons.IH [of "plan_row rt targets r p"] Cons.prems plan_row_step [of rt r targets p] show ?case by simp
qed simp

lemma plan_rewire_rows:
  assumes "\<And>r. r \<in> set rs \<Longrightarrow> rt (src_of r) \<noteq> src_of r" "plan_rewire rt targets rs = p"
  shows "rewire_rows p = mset rs" "rw_errors p = []" "\<And>r. r \<in> set rs \<Longrightarrow> rewire_covers rt targets p r"
  using plan_rewire_gen [OF assms(1), of rs targets new_rewire p] assms(2)
  by (auto simp: plan_rewire_def new_rewire_def rewire_rows_def)

subsection \<open>Dropping redundant mentions\<close>

text \<open>Every mention has a uuid, and no two share one.\<close>

definition mentions_ok :: "graph \<Rightarrow> bool" where
  "mentions_ok g \<longleftrightarrow> distinct (map euid (filter (\<lambda>e. ge_type e = Mentions) (gr_edges g))) \<and>
     (\<forall>e \<in> set (gr_edges g). ge_type e = Mentions \<longrightarrow> euid e \<noteq> None)"

lemma mention_uuid_inj:
  "mentions_ok g \<Longrightarrow> e \<in> set (gr_edges g) \<Longrightarrow> e' \<in> set (gr_edges g) \<Longrightarrow> ge_type e = Mentions \<Longrightarrow> ge_type e' = Mentions \<Longrightarrow>
    euid e = euid e' \<Longrightarrow> e = e'"
  by (auto simp: mentions_ok_def distinct_map dest: inj_onD)

lemma row_uuids_subseq:
  "subseq (map (\<lambda>x. me_uuid (mention_edge_of x)) (concat (map (\<lambda>e. case ends Mentions la lb g e of
      Some (a, b) \<Rightarrow> if p e a b then [(e, a, b)] else [] | None \<Rightarrow> []) es)))
    (map euid (filter (\<lambda>e. ge_type e = Mentions) es))"
proof (induction es)
  case (Cons e es)
  then show ?case by (cases "ends Mentions la lb g e") (auto simp: mention_edge_of_def ends_Some)
qed simp

lemma mentions_from_uuids:
  assumes "mentions_ok g"
  shows "distinct (map me_uuid (mentions_from sources g))"
proof -
  have "subseq (map me_uuid (mentions_from sources g)) (map euid (filter (\<lambda>e. ge_type e = Mentions) (gr_edges g)))"
    using row_uuids_subseq [where la = Episodic and lb = Entity and g = g and p = "\<lambda>e s t. uuid_in sources s" and es = "gr_edges g"]
    by (simp add: mentions_from_def match_edges_def comp_def)
  with assms show ?thesis unfolding mentions_ok_def by (blast intro: subseq_distinct)
qed

lemma mentions_fromE:
  assumes "r \<in> set (mentions_from sources g)"
  obtains e s t where "e \<in> set (gr_edges g)" "ends Mentions Episodic Entity g e = Some (s, t)" "uuid_in sources s"
    "me_uuid r = euid e" "me_src r = nuid s" "me_dst r = nuid t"
  using assms unfolding mentions_from_def by (auto simp: match_edges_mem mention_edge_of_def)

lemma resolved_row:
  assumes "mentions_ok g" "r \<in> set (map victim_edge_of (filter resolved (mentions_from sources g)))"
  obtains e s t u where "e \<in> set (gr_edges g)" "ends Mentions Episodic Entity g e = Some (s, t)" "src_of r \<in> set sources"
    "me_uuid r = Some u" "euid e = Some u" "nuid s = Some (src_of r)" "nuid t = Some (dst_of r)"
proof -
  obtain r0 where r0: "r0 \<in> set (mentions_from sources g)" "resolved r0" "r = victim_edge_of r0" using assms(2) by auto
  obtain e s t where e: "e \<in> set (gr_edges g)" "ends Mentions Episodic Entity g e = Some (s, t)" "uuid_in sources s"
    "me_uuid r0 = euid e" "me_src r0 = nuid s" "me_dst r0 = nuid t" using r0(1) by (rule mentions_fromE)
  have "ge_type e = Mentions" using e(2) by (simp add: ends_Some)
  then obtain u where u: "euid e = Some u" using assms(1) e(1) by (auto simp: mentions_ok_def)
  show thesis
    by (rule that [OF e(1,2) _ _ u])
      (use e r0 u in \<open>auto simp: victim_edge_of_def resolved_def str_of_def or_empty_def uuid_in_def split: option.splits\<close>)
qed

lemma drop_mentions_mem: "e \<in> set (gr_edges (drop_mentions us g)) \<longleftrightarrow> e \<in> set (gr_edges g) \<and> \<not> mention_in us e"
  by (simp add: drop_mentions_def)

lemma drop_mentions_nodes [simp]: "gr_nodes (drop_mentions us g) = gr_nodes g"
  by (simp add: drop_mentions_def)

lemma edge_mentions:
  "e \<in> set (gr_edges g) \<Longrightarrow> ends Mentions Episodic Entity g e = Some (s, t) \<Longrightarrow> nuid s = Some x \<Longrightarrow> nuid t = Some y \<Longrightarrow> mentioned g (x, y)"
  unfolding mentioned_def linked_def by auto

lemma redundant_rows:
  assumes "\<forall>u \<in> set victims. rt u \<notin> set victims"
    and rows: "map victim_edge_of (filter resolved (mentions_from victims g)) = edges" and ok: "mentions_ok g"
    and split: "split_dups [] edges = (us, ds)" and p: "plan_rewire rt targets us = p"
  shows "mset edges = rewire_rows p + mset ds" "distinct (map me_uuid edges)"
    "\<And>r. r \<in> set edges \<Longrightarrow> rewire_covers rt targets p r" "rw_errors p = []"
    "\<And>r. r \<in> set edges \<Longrightarrow> rt (src_of r) \<noteq> src_of r"
proof -
  show moves: "rt (src_of r) \<noteq> src_of r" if "r \<in> set edges" for r
    using resolved_row [OF ok, of r victims] that rows assms(1) by metis
  have parts: "mset edges = mset us + mset ds"
    and cover: "\<And>r. r \<in> set edges \<Longrightarrow> \<exists>q \<in> set us. src_of q = src_of r \<and> dst_of q = dst_of r"
    using split_dups_parts [OF split] by auto
  have sub: "set us \<subseteq> set edges" using parts by (metis mset_subset_eq_add_left set_mset_mono set_mset_mset)
  note plan = plan_rewire_rows [OF _ p]
  have plan': "rewire_rows p = mset us" "rw_errors p = []" "\<And>r. r \<in> set us \<Longrightarrow> rewire_covers rt targets p r"
    using plan moves sub by blast+
  show "mset edges = rewire_rows p + mset ds" "rw_errors p = []" using parts plan' by simp_all
  show "rewire_covers rt targets p r" if r: "r \<in> set edges" for r
  proof -
    obtain q where q: "q \<in> set us" "src_of q = src_of r" "dst_of q = dst_of r" using cover [OF r] by blast
    from plan'(3) [OF q(1)] show ?thesis unfolding rewire_covers_def q(2,3) .
  qed
  have "me_uuid (victim_edge_of r) = me_uuid r" if "r \<in> set (mentions_from victims g)" for r
    using that
  proof (rule mentions_fromE)
    fix e s t
    assume "e \<in> set (gr_edges g)" "ends Mentions Episodic Entity g e = Some (s, t)" "me_uuid r = euid e"
    then have "me_uuid r \<noteq> None" using ok by (auto simp: mentions_ok_def ends_Some)
    then show ?thesis by (auto simp: victim_edge_of_def str_of_def)
  qed
  then have "map me_uuid edges = map me_uuid (filter resolved (mentions_from victims g))" unfolding rows [symmetric] by simp
  then show "distinct (map me_uuid edges)" using mentions_from_uuids [OF ok] by (simp add: distinct_map_filter)
qed

lemma rewire_parts:
  assumes "mset edges = rewire_rows p + mset ds"
  shows "set edges = set (rw_create p) \<union> set (rw_drop p @ rw_dedupe p @ ds)"
proof -
  have "set_mset (mset edges) = set_mset (rewire_rows p + mset ds)" using assms by simp
  then show ?thesis by (auto simp: rewire_rows_def)
qed

lemma mset_distinct_apart:
  assumes "mset zs = mset (xs @ ys)" "distinct (map f zs)" "x \<in> set xs" "y \<in> set ys"
  shows "f x \<noteq> f y"
proof -
  have "mset (map f zs) = mset (map f (xs @ ys))" using assms(1) by simp
  from mset_eq_imp_distinct_iff [OF this] assms(2) have "distinct (map f xs @ map f ys)" by (simp only: map_append)
  then have "set (map f xs) \<inter> set (map f ys) = {}" by (simp only: distinct_append)
  moreover have "f x \<in> set (map f xs)" "f y \<in> set (map f ys)" using assms(3,4) by simp_all
  ultimately show ?thesis by (metis disjoint_iff)
qed

lemma rewire_apart:
  assumes "mset edges = rewire_rows p + mset ds" "distinct (map me_uuid edges)"
    and "q \<in> set (rw_create p)" "r \<in> set (rw_drop p @ rw_dedupe p @ ds)"
  shows "me_uuid q \<noteq> me_uuid r"
proof -
  have "mset edges = mset (rw_create p @ rw_drop p @ rw_dedupe p @ ds)" using assms(1) by (simp add: rewire_rows_def)
  from mset_distinct_apart [OF this assms(2-4)] show ?thesis .
qed

definition kept_ok :: "(string \<Rightarrow> string) \<Rightarrow> graph \<Rightarrow> mention_edge list \<Rightarrow> bool" where
  "kept_ok rt g kept \<longleftrightarrow> (\<forall>r \<in> set kept. \<exists>sources. r \<in> set (mentions_from sources g))"

lemma targets_ofE:
  assumes "y \<in> set (targets_of kept x)" "kept_ok rt g kept"
  obtains e s t where "e \<in> set (gr_edges g)" "ends Mentions Episodic Entity g e = Some (s, t)" "nuid s = Some x" "nuid t = Some y"
proof -
  obtain r where r: "r \<in> set kept" "or_empty (me_src r) = x" "or_empty (me_dst r) = y" "x \<noteq> []" "y \<noteq> []"
    using assms(1) by (auto simp: targets_of_def)
  then obtain sources where "r \<in> set (mentions_from sources g)" using assms(2) by (auto simp: kept_ok_def)
  then show thesis
  proof (rule mentions_fromE)
    fix e s t
    assume e: "e \<in> set (gr_edges g)" "ends Mentions Episodic Entity g e = Some (s, t)" "me_src r = nuid s" "me_dst r = nuid t"
    have "nuid s = Some x" "nuid t = Some y" using r e by (auto simp: or_empty_def split: option.splits)
    with e show thesis using that by blast
  qed
qed

lemma dropped_edge:
  assumes ok: "mentions_ok g" and rows: "map victim_edge_of (filter resolved (mentions_from victims g)) = edges"
    and parts: "mset edges = rewire_rows p + mset ds"
    and e: "e \<in> set (gr_edges g)" "mention_in (redundant p ds) e"
  obtains r s t where "r \<in> set (rw_drop p @ rw_dedupe p @ ds)" "r \<in> set edges" "me_uuid r = euid e"
    "ends Mentions Episodic Entity g e = Some (s, t)" "nuid s = Some (src_of r)" "nuid t = Some (dst_of r)" "src_of r \<in> set victims"
proof -
  obtain u where u: "euid e = Some u" "u \<in> set (redundant p ds)" "ge_type e = Mentions"
    using e(2) by (auto simp: mention_in_def split: option.splits)
  obtain r where r: "r \<in> set (rw_drop p @ rw_dedupe p @ ds)" "or_empty (me_uuid r) = u" using u(2) by (auto simp: redundant_def)
  have re: "r \<in> set edges" using rewire_parts [OF parts] r(1) by blast
  obtain e' s t u' where e': "e' \<in> set (gr_edges g)" "ends Mentions Episodic Entity g e' = Some (s, t)" "src_of r \<in> set victims"
      "me_uuid r = Some u'" "euid e' = Some u'" "nuid s = Some (src_of r)" "nuid t = Some (dst_of r)"
    using resolved_row [OF ok, of r victims] re rows by metis
  have "u' = u" using r(2) e'(4) by (simp add: or_empty_def)
  moreover have "ge_type e' = Mentions" using e'(2) by (simp add: ends_Some)
  ultimately have "e' = e" using mention_uuid_inj [OF ok e'(1) e(1)] u(1,3) e'(5) by simp
  with e' r(1) re show thesis using that by metis
qed

lemma drop_keeps_knowledge:
  assumes gok: "gr_ok g" and ok: "mentions_ok g" and idem: "\<And>u. rt (rt u) = rt u"
    and vs: "\<forall>u \<in> set victims. rt u \<notin> set victims"
    and rows: "map victim_edge_of (filter resolved (mentions_from victims g)) = edges"
    and split: "split_dups [] edges = (us, ds)" and kept: "kept_ok rt g kept"
    and p: "plan_rewire rt (targets_of kept) us = p"
  shows "same_knowledge rt g (drop_mentions (redundant p ds) g)"
proof -
  let ?g = "drop_mentions (redundant p ds) g"
  note facts = redundant_rows [OF vs rows ok split p]
  note dropped = dropped_edge [OF ok rows facts(1)]
  have same: "ends ty la lb ?g e = ends ty la lb g e" for ty la lb e by (rule ends_nodes) simp
  have survives: "mentioned ?g (x, y)" if "e \<in> set (gr_edges g)" "ends Mentions Episodic Entity g e = Some (s, t)"
      "nuid s = Some x" "nuid t = Some y" "\<not> mention_in (redundant p ds) e" for e s t x y
    using that edge_mentions [of e ?g s t x y] by (simp add: drop_mentions_mem same)
  have "mentioned g k" if "mentioned ?g k" for k
    using that unfolding mentioned_def linked_def same by (meson drop_mentions_mem)
  then have "cluster_mentions rt ?g \<subseteq> cluster_mentions rt g" by (auto simp: cluster_mentions_def)
  moreover have "cluster_mentions rt g \<subseteq> cluster_mentions rt ?g"
  proof
    fix k
    assume "k \<in> cluster_mentions rt g"
    then obtain x y where k: "k = (rt x, y)" and m: "mentioned g (x, y)" by (auto simp: cluster_mentions_def)
    from m obtain e s t where e: "e \<in> set (gr_edges g)" "ends Mentions Episodic Entity g e = Some (s, t)"
        "nuid s = Some x" "nuid t = Some y" by (auto simp: mentioned_def linked_def)
    show "k \<in> cluster_mentions rt ?g"
    proof (cases "mention_in (redundant p ds) e")
      case False
      from survives [OF e False] k show ?thesis by (auto simp: cluster_mentions_def)
    next
      case True
      from dropped [OF e(1) True] obtain r where r: "r \<in> set edges" "src_of r = x" "dst_of r = y"
        using e(2-4) by (metis option.inject prod.inject)
      from facts(3) [OF r(1)] consider "y \<in> set (targets_of kept (rt x))"
        | q where "q \<in> set (rw_create p)" "rt (src_of q) = rt x" "dst_of q = y"
        unfolding rewire_covers_def r(2,3) by blast
      then show ?thesis
      proof cases
        case 1
        then obtain e2 s2 t2 where e2: "e2 \<in> set (gr_edges g)" "ends Mentions Episodic Entity g e2 = Some (s2, t2)"
            "nuid s2 = Some (rt x)" "nuid t2 = Some y" using targets_ofE [OF _ kept] by blast
        have x: "x \<in> set victims" using resolved_row [OF ok, of r victims] r rows by metis
        have "\<not> mention_in (redundant p ds) e2"
        proof
          assume "mention_in (redundant p ds) e2"
          from dropped [OF e2(1) this] have "rt x \<in> set victims" using e2(2,3) by (metis option.inject prod.inject)
          with vs x show False by blast
        qed
        from survives [OF e2 this] have "(rt (rt x), y) \<in> cluster_mentions rt ?g" by (auto simp: cluster_mentions_def)
        then show ?thesis using k idem by simp
      next
        case (2 q)
        have qe: "q \<in> set edges" using rewire_parts [OF facts(1)] 2(1) by blast
        then obtain e2 s2 t2 u where e2: "e2 \<in> set (gr_edges g)" "ends Mentions Episodic Entity g e2 = Some (s2, t2)"
            "me_uuid q = Some u" "euid e2 = Some u" "nuid s2 = Some (src_of q)" "nuid t2 = Some (dst_of q)"
          using resolved_row [OF ok, of q victims] rows by metis
        have "\<not> mention_in (redundant p ds) e2"
        proof
          assume "mention_in (redundant p ds) e2"
          from dropped [OF e2(1) this] obtain r' where "r' \<in> set (rw_drop p @ rw_dedupe p @ ds)" "me_uuid r' = euid e2" by metis
          with rewire_apart [OF facts(1,2) 2(1)] e2(3,4) show False by metis
        qed
        from survives [OF e2(1,2,5,6) this] have "(rt (src_of q), dst_of q) \<in> cluster_mentions rt ?g" by (auto simp: cluster_mentions_def)
        then show ?thesis using k 2(2,3) by simp
      qed
    qed
  qed
  ultimately show ?thesis using gok by (simp add: same_knowledge_def gr_ok_def)
qed

lemma edges_mention:
  assumes "mentions_ok g" "map victim_edge_of (filter resolved (mentions_from victims g)) = edges" "r \<in> set edges"
  shows "mentioned g (src_of r, dst_of r)"
  using resolved_row [OF assms(1), of r victims] assms(2,3) edge_mentions by metis

subsection \<open>Deleting the victims\<close>

lemma delete_emptied_nodes [simp]: "gr_nodes (delete_emptied us g) = filter (\<lambda>n. \<not> emptied us g n) (gr_nodes g)"
  by (simp add: delete_emptied_def detach_delete_def Let_def)

lemma delete_emptied_mentioned:
  assumes ok: "gr_ok g"
  shows "mentioned (delete_emptied us g) k = mentioned g k"
proof -
  let ?g = "delete_emptied us g"
  have ok': "gr_ok ?g" using ok by (simp add: gr_ok_def distinct_map_filter)
  have edge: "e \<in> set (gr_edges ?g) \<longleftrightarrow> e \<in> set (gr_edges g)"
    and same: "ends Mentions Episodic Entity ?g e = Some (s, t) \<longleftrightarrow> ends Mentions Episodic Entity g e = Some (s, t)"
    if "ends Mentions Episodic Entity g e = Some (s, t) \<or> ends Mentions Episodic Entity ?g e = Some (s, t)" "e \<in> set (gr_edges g)" for e s t
  proof -
    have st: "s \<in> set (gr_nodes g)" "t \<in> set (gr_nodes g)" "gn_id s = ge_src e" "gn_id t = ge_dst e" "ge_type e = Mentions" "gn_label t = Entity"
      using that(1) node_at_Some [of g] node_at_Some [of ?g] by (auto simp: ends_Some)
    have live: "\<not> emptied us g s" "\<not> emptied us g t"
      using st that(2) by (auto simp: emptied_def list_ex_iff)
    have at: "node_at g (ge_src e) = Some s" "node_at g (ge_dst e) = Some t" using node_at_mem [OF ok] st by metis+
    have "node_at ?g (ge_src e) = Some s" "node_at ?g (ge_dst e) = Some t"
      using node_at_mem [OF ok', of s] node_at_mem [OF ok', of t] st live by simp_all
    with at show "ends Mentions Episodic Entity ?g e = Some (s, t) \<longleftrightarrow> ends Mentions Episodic Entity g e = Some (s, t)"
      by (simp add: ends_Some)
    have "n = s" if "n \<in> set (gr_nodes g)" "gn_id n = ge_src e" for n using node_at_mem [OF ok that(1)] at(1) that(2) by simp
    moreover have "n = t" if "n \<in> set (gr_nodes g)" "gn_id n = ge_dst e" for n using node_at_mem [OF ok that(1)] at(2) that(2) by simp
    ultimately show "e \<in> set (gr_edges ?g) \<longleftrightarrow> e \<in> set (gr_edges g)"
      using live by (auto simp: delete_emptied_def detach_delete_def Let_def)
  qed
  have sub: "e \<in> set (gr_edges g)" if "e \<in> set (gr_edges ?g)" for e
    using that by (simp add: delete_emptied_def detach_delete_def Let_def)
  show ?thesis unfolding mentioned_def linked_def using edge same sub by metis
qed

text \<open>The later graph has the mentions of the earlier one, and the nodes that are gone satisfy \<open>p\<close>.\<close>

definition fewer_nodes :: "(gnode \<Rightarrow> bool) \<Rightarrow> graph \<Rightarrow> graph \<Rightarrow> bool" where
  "fewer_nodes p g1 g \<longleftrightarrow> gr_ok g \<and> set (gr_nodes g) \<subseteq> set (gr_nodes g1) \<and> (\<forall>k. mentioned g k = mentioned g1 k) \<and>
     (\<forall>n \<in> set (gr_nodes g1). n \<in> set (gr_nodes g) \<or> p n)"

lemma fewer_nodes_refl: "gr_ok g \<Longrightarrow> fewer_nodes p g g"
  by (simp add: fewer_nodes_def)

abbreviation victim_episode :: "string list \<Rightarrow> gnode \<Rightarrow> bool" where
  "victim_episode victims n \<equiv> gn_label n = Episodic \<and> uuid_in victims n"

lemma delete_emptied_from:
  assumes "fewer_nodes (victim_episode victims) g1 g" "set us \<subseteq> set victims"
  shows "fewer_nodes (victim_episode victims) g1 (delete_emptied us g)"
proof -
  have ok: "gr_ok g" using assms(1) by (simp add: fewer_nodes_def)
  then have "gr_ok (delete_emptied us g)" by (simp add: gr_ok_def distinct_map_filter)
  with assms show ?thesis
    using delete_emptied_mentioned [OF ok] by (auto simp: fewer_nodes_def emptied_def intro: uuid_in_mono)
qed

lemma delete_emptied_chunk_from:
  assumes "fewer_nodes (victim_episode victims) g1 (fst (snd cs))" "set us \<subseteq> set victims"
  shows "fewer_nodes (victim_episode victims) g1 (fst (snd (delete_emptied_chunk driver us cs)))"
proof -
  obtain c ss where cs: "cs = (c, ss)" by (cases cs)
  obtain n ss1 where read: "read_query driver (count_emptied us) ss = (n, ss1)" by (cases "read_query driver (count_emptied us) ss")
  obtain x ss2 where w: "write_query driver (delete_emptied us) ss1 = (x, ss2)" by (cases "write_query driver (delete_emptied us) ss1")
  have "fst ss1 = fst ss" using read_query_keeps [OF read] .
  moreover have "fst (snd (delete_emptied_chunk driver us cs)) = fst ss1 \<or> fst (snd (delete_emptied_chunk driver us cs)) = fst ss2"
    using read w by (auto simp: delete_emptied_chunk_def cs split: option.splits)
  ultimately show ?thesis using write_query_cases [OF w] assms delete_emptied_from by (auto simp: cs)
qed

subsection \<open>Undo rows\<close>

definition undo_saves :: "(pyval \<Rightarrow> string) \<Rightarrow> undo_entry list \<Rightarrow> gnode \<Rightarrow> bool" where
  "undo_saves dumps rows n \<longleftrightarrow>
     (\<exists>r \<in> set rows. nuid n = Some (ue_victim r) \<and> ue_snapshot r = dumps (PyDict (gn_props n)))"

text \<open>Episodes have different uuids.\<close>

definition episodes_apart :: "graph \<Rightarrow> bool" where
  "episodes_apart g \<longleftrightarrow> (\<forall>m \<in> set (gr_nodes g). \<forall>n \<in> set (gr_nodes g).
     gn_label m = Episodic \<and> gn_label n = Episodic \<and> nuid m = nuid n \<and> nuid m \<noteq> None \<longrightarrow> m = n)"

lemma props_by_uuid_gen:
  "map_of (fold (\<lambda>(u, p) d. case nonempty u of Some s \<Rightarrow> AList.update s p d | None \<Rightarrow> d) rows d) v = Some q \<Longrightarrow>
    (Some v, q) \<in> set rows \<or> map_of d v = Some q"
proof (induction rows arbitrary: d)
  case (Cons x rows)
  obtain u p where x: "x = (u, p)" by (cases x)
  show ?case
  proof (cases "nonempty u")
    case None
    with Cons show ?thesis by (auto simp: x)
  next
    case (Some w)
    then have "u = Some w" by (auto simp: nonempty_def split: if_splits)
    with Cons.IH [of "AList.update w p d"] Cons.prems Some show ?thesis by (auto simp: x update_conv' split: if_splits)
  qed
qed simp

lemma concat_options: "length (concat (map (\<lambda>v. case f v of None \<Rightarrow> [] | Some p \<Rightarrow> [h v p]) vs)) \<le> length vs"
  by (induction vs) (auto split: option.splits)

lemma concat_all_options:
  "length vs \<le> length (concat (map (\<lambda>v. case f v of None \<Rightarrow> [] | Some p \<Rightarrow> [h v p]) vs)) \<Longrightarrow> v \<in> set vs \<Longrightarrow> f v \<noteq> None"
proof (induction vs)
  case (Cons w vs)
  with concat_options [where f = f and h = h and vs = vs] show ?case by (cases "f w") auto
qed simp

lemma undo_rows_complete:
  assumes "build_episodic_undo_rows driver dumps merges edges gid ss = (Some rows, ss')" "length merges \<le> length rows"
    and apart: "episodes_apart (fst ss)" and n: "n \<in> set (gr_nodes (fst ss))" "victim_episode (map em_victim merges) n"
  shows "undo_saves dumps rows n"
proof -
  let ?vs = "map em_victim merges" and ?survivors = "redirect_map em_victim em_survivor merges"
  have "?vs \<noteq> []" using n(2) by (auto simp: uuid_in_def split: option.splits)
  then obtain ps where ps: "ps = episode_props ?vs (fst ss)"
    "rows = concat (map (\<lambda>v. case map_of (props_by_uuid ps) v of None \<Rightarrow> [] | Some p \<Rightarrow> [undo_entry_of dumps gid ?survivors edges v p]) ?vs)"
    using assms(1) read_query_Some [of driver "episode_props ?vs" ss] by (auto simp: build_episodic_undo_rows_def Let_def split: option.splits prod.splits)
  obtain u where u: "nuid n = Some u" "u \<in> set ?vs" using n(2) by (auto simp: uuid_in_def split: option.splits)
  then obtain q where q: "map_of (props_by_uuid ps) u = Some q"
    using concat_all_options [where vs = ?vs and f = "map_of (props_by_uuid ps)" and h = "undo_entry_of dumps gid ?survivors edges"] assms(2) ps(2)
    by (auto simp: ps(2))
  then have "(Some u, q) \<in> set ps" using props_by_uuid_gen [of ps "[]"] by (simp add: props_by_uuid_def)
  then obtain m where m: "m \<in> set (gr_nodes (fst ss))" "gn_label m = Episodic" "nuid m = Some u" "q = gn_props m"
    unfolding ps(1) by (auto simp: episode_props_def match_nodes_def)
  then have "m = n" using apart n u(1) unfolding episodes_apart_def by auto
  moreover have "undo_entry_of dumps gid ?survivors edges u q \<in> set rows" using ps(2) u(2) q by force
  ultimately show ?thesis using m u(1) unfolding undo_saves_def by (force simp: undo_entry_of_def)
qed

subsection \<open>A run\<close>

definition merges_apart :: "episodic_merge list \<Rightarrow> bool" where
  "merges_apart ms \<longleftrightarrow> distinct (map em_victim ms) \<and> em_survivor ` set ms \<inter> em_victim ` set ms = {}"

lemma plan_apart: "episodes_ok es \<Longrightarrow> merges_apart (plan_episodic_exact_dups sha1 es)"
  using episodic_victims_distinct [of es sha1] episodic_survivor_kept [of es _ sha1] by (auto simp: merges_apart_def)

abbreviation fold_redirect :: "episodic_merge list \<Rightarrow> (string \<times> string) list" where
  "fold_redirect ms \<equiv> redirect_map em_victim em_survivor ms"

lemma fold_redirect_pairs:
  "merges_apart ms \<Longrightarrow> fold_redirect ms = map (\<lambda>m. (em_victim m, em_survivor m)) ms"
  by (simp add: merges_apart_def redirect_map_distinct)

lemma fold_redirect_survivor:
  assumes "merges_apart ms" "m \<in> set ms"
  shows "redirect_of (fold_redirect ms) (em_victim m) = em_survivor m"
proof -
  let ?v = "fold_redirect ms"
  have v: "?v = map (\<lambda>m. (em_victim m, em_survivor m)) ms" using fold_redirect_pairs [OF assms(1)] .
  have dom: "fst ` set ?v = em_victim ` set ms" unfolding v by force
  have "distinct (map fst ?v)" using assms(1) by (simp add: v merges_apart_def comp_def)
  moreover have "(em_victim m, em_survivor m) \<in> set ?v" using assms(2) by (simp add: v)
  ultimately have "map_of ?v (em_victim m) = Some (em_survivor m)" by simp
  moreover have "em_survivor m \<notin> fst ` set ?v" using assms by (auto simp: dom merges_apart_def)
  then have "map_of ?v (em_survivor m) = None" by (simp add: map_of_eq_None_iff)
  ultimately show ?thesis using assms(2) dom by (simp add: redirect_of_def chain_end.simps)
qed

lemma fold_redirect_ok:
  assumes "merges_apart ms"
  shows "\<forall>u \<in> set (map fst (fold_redirect ms)). redirect_of (fold_redirect ms) u \<notin> set (map fst (fold_redirect ms))"
    "redirect_of (fold_redirect ms) (redirect_of (fold_redirect ms) u) = redirect_of (fold_redirect ms) u"
    "map fst (fold_redirect ms) = map em_victim ms"
proof -
  show v: "map fst (fold_redirect ms) = map em_victim ms" using fold_redirect_pairs [OF assms] by simp
  show 1: "\<forall>u \<in> set (map fst (fold_redirect ms)). redirect_of (fold_redirect ms) u \<notin> set (map fst (fold_redirect ms))"
    unfolding v using fold_redirect_survivor [OF assms] assms by (auto simp: merges_apart_def)
  show "redirect_of (fold_redirect ms) (redirect_of (fold_redirect ms) u) = redirect_of (fold_redirect ms) u"
    using 1 redirect_outside [of _ "fold_redirect ms"] by (metis list.set_map)
qed

text \<open>The stages of a run: the graph stays as it is, or redundant mentions are dropped (or not), mentions are moved, and
  the undo rows and deletions follow.\<close>

definition fold_staged ::
  "(nat \<Rightarrow> reply) \<Rightarrow> (pyval \<Rightarrow> string) \<Rightarrow> episodic_merge list \<Rightarrow> nat \<Rightarrow> undo_writer option \<Rightarrow> string \<Rightarrow> graph \<Rightarrow> store \<Rightarrow>
     fold_run \<times> store \<Rightarrow> bool" where
  "fold_staged driver dumps merges batch writer gid g0 s out \<longleftrightarrow>
     (\<exists>kept us ds edges p c3 g1 n1 c4 ss4.
        (let v = fold_redirect merges; rt = redirect_of v; victims = map fst v in
          kept_ok rt g0 kept \<and> map victim_edge_of (filter resolved (mentions_from victims g0)) = edges \<and>
          split_dups [] edges = (us, ds) \<and> plan_rewire rt (targets_of kept) us = p \<and>
          (g1 = g0 \<or> g1 = drop_mentions (redundant p ds) g0) \<and>
          fold (rewire_mention driver rt) (rw_create p) (c3, (g1, n1)) = (c4, ss4) \<and>
          undo_and_delete driver dumps writer gid batch merges victims us ((c4, ss4), s) = out))"

lemma kept_okI: "read_query driver (mentions_from vs) ss = (kept, ss') \<Longrightarrow> fst ss = g \<Longrightarrow>
    kept_ok rt g (case kept of Some ks \<Rightarrow> ks | None \<Rightarrow> [])"
  using read_query_Some [of driver "mentions_from vs" ss] by (auto simp: kept_ok_def split: option.split)

lemma apply_episodic_stages:
  assumes run: "apply_episodic_plan driver dumps merges apply_it batch writer gid ((g0, n0), s) = ((c, (g, n)), s')"
  shows "(g = g0 \<and> s' = s) \<or> (apply_it \<and> fold_staged driver dumps merges batch writer gid g0 s ((c, (g, n)), s'))"
proof -
  let ?v = "fold_redirect merges"
  let ?rt = "redirect_of ?v" and ?vs = "map fst ?v"
  obtain rows ss1 where r1: "read_query driver (mentions_from ?vs) (g0, n0) = (rows, ss1)"
    by (cases "read_query driver (mentions_from ?vs) (g0, n0)")
  obtain kept ss2 where r2: "read_query driver (mentions_from (remdups (map ?rt ?vs))) ss1 = (kept, ss2)"
    by (cases "read_query driver (mentions_from (remdups (map ?rt ?vs))) ss1")
  have g: "fst ss1 = g0" "fst ss2 = g0" using read_query_keeps [OF r1] read_query_keeps [OF r2] by auto
  show ?thesis
  proof (cases "merges = [] \<or> rows = None \<or> rows = Some [] \<or> \<not> apply_it")
    case True
    then show ?thesis using run r1 r2 g
      by (auto simp: apply_episodic_plan_def Let_def split: option.splits prod.splits if_splits)
  next
    case False
    then obtain rs where rs: "rows = Some rs" "rs \<noteq> []" by auto
    then have read: "rs = mentions_from ?vs g0" using read_query_Some [of driver "mentions_from ?vs" "(g0, n0)" rs ss1] r1 by simp
    define ks where "ks = (case kept of Some ks \<Rightarrow> ks | None \<Rightarrow> [])"
    define edges where "edges = map victim_edge_of (filter resolved rs)"
    obtain us ds where sd: "split_dups [] edges = (us, ds)" by (cases "split_dups [] edges")
    define p where "p = plan_rewire ?rt (targets_of ks) us"
    obtain dropped ss3 where del: "delete_mentions_by_uuid driver (redundant p ds) ss2 = (dropped, ss3)"
      by (cases "delete_mentions_by_uuid driver (redundant p ds) ss2")
    obtain g1 n1 where ss3: "ss3 = (g1, n1)" by (cases ss3)
    have g1: "g1 = g0 \<or> g1 = drop_mentions (redundant p ds) g0" using delete_mentions_range [OF del] g(2) ss3 by auto
    have "\<exists>c3. undo_and_delete driver dumps writer gid batch merges ?vs us
        (fold (rewire_mention driver ?rt) (rw_create p) (c3, (g1, n1)), s) = ((c, (g, n)), s')"
      using run False r1 r2 rs sd del ss3
      by (auto simp: apply_episodic_plan_def Let_def ks_def [symmetric] edges_def [symmetric] p_def [symmetric] split: prod.splits)
    then obtain c3 where c3: "undo_and_delete driver dumps writer gid batch merges ?vs us
        (fold (rewire_mention driver ?rt) (rw_create p) (c3, (g1, n1)), s) = ((c, (g, n)), s')" by blast
    obtain c4 ss4 where f: "fold (rewire_mention driver ?rt) (rw_create p) (c3, (g1, n1)) = (c4, ss4)"
      by (cases "fold (rewire_mention driver ?rt) (rw_create p) (c3, (g1, n1))")
    have "kept_ok ?rt g0 ks" unfolding ks_def using kept_okI [OF r2 g(1)] .
    with False sd g1 f c3 read edges_def p_def show ?thesis unfolding fold_staged_def Let_def by metis
  qed
qed

lemma undo_and_delete_outcome:
  assumes run: "undo_and_delete driver dumps writer gid batch merges victims edges ((c0, ss0), s) = ((c, (g, n)), s')"
    and ok: "gr_ok (fst ss0)"
  shows "(g = fst ss0 \<and> (s' = s \<or> (\<exists>w rows. writer = Some w \<and> s' = snd (w rows s)))) \<or>
    (fewer_nodes (victim_episode victims) (fst ss0) g \<and>
      (\<exists>w rows k ss1. writer = Some w \<and> build_episodic_undo_rows driver dumps merges edges gid ss0 = (Some rows, ss1) \<and>
         length victims \<le> length rows \<and> w rows s = (Some k, s') \<and> int (length victims) \<le> k))"
proof -
  obtain built ss1 where b: "build_episodic_undo_rows driver dumps merges edges gid ss0 = (built, ss1)"
    by (cases "build_episodic_undo_rows driver dumps merges edges gid ss0")
  have g1: "fst ss1 = fst ss0"
    using b read_query_keeps [of driver "episode_props (map em_victim merges)" ss0]
    by (auto simp: build_episodic_undo_rows_def Let_def split: if_splits option.splits prod.splits)
  define rows where "rows = (case built of Some rs \<Rightarrow> rs | None \<Rightarrow> [])"
  define c1 where "c1 = (if built = None then fold_errors [UndoBuildFailed] c0 else c0)"
  show ?thesis
  proof (cases "length rows < length victims \<or> writer = None")
    case True
    then have "(g, n) = ss1 \<and> s' = s" using run b
      by (auto simp: undo_and_delete_def Let_def rows_def [symmetric] split: option.splits if_splits)
    with g1 show ?thesis by auto
  next
    case False
    then obtain w where w: "writer = Some w" by auto
    obtain answer s1 where ws: "w rows s = (answer, s1)" by (cases "w rows s")
    define k where "k = (case answer of Some k \<Rightarrow> k | None \<Rightarrow> 0)"
    have s': "s' = s1"
      and cases: "\<exists>c2. if k < int (length victims) then (g, n) = ss1
        else fold (delete_emptied_chunk driver) (chunks batch victims) (c2, ss1) = (c, (g, n))"
      using run b w ws False
      by (auto simp: undo_and_delete_def Let_def rows_def [symmetric] k_def [symmetric] c1_def [symmetric] split: if_splits)
    show ?thesis
    proof (cases "k < int (length victims)")
      case True
      with cases g1 w ws s' show ?thesis by (metis fst_conv snd_conv)
    next
      case enough: False
      then obtain c2 where f: "fold (delete_emptied_chunk driver) (chunks batch victims) (c2, ss1) = (c, (g, n))" using cases by auto
      show ?thesis
      proof (cases "victims = []")
        case True
        then have "(g, n) = ss1" using f by (simp add: chunks.simps)
        with g1 w ws s' show ?thesis by (metis fst_conv snd_conv)
      next
        case some: False
        then have "answer = Some k" using enough by (cases answer) (auto simp: k_def)
        moreover have "built = Some rows" using False some by (cases built) (auto simp: rows_def)
        moreover have "fewer_nodes (victim_episode victims) (fst ss0) g"
        proof -
          have "fewer_nodes (victim_episode victims) (fst ss0)
              (fst (snd (fold (delete_emptied_chunk driver) (chunks batch victims) (c2, ss1))))"
            using ok g1
            by (intro fold_carried [where Q = "fewer_nodes (victim_episode victims) (fst ss0)"] delete_emptied_chunk_from chunks_sub)
              (simp_all add: fewer_nodes_refl)
          then show ?thesis using f by simp
        qed
        ultimately show ?thesis using w ws s' b False enough by auto
      qed
    qed
  qed
qed

lemma fold_staged_knowledge:
  assumes "fold_staged driver dumps merges batch writer gid g0 s ((c, (g, n)), s')"
    and "gr_ok g0" "mentions_ok g0" "merges_apart merges"
  obtains g2 n2 c4 us where "same_knowledge (redirect_of (fold_redirect merges)) g0 g2"
    "undo_and_delete driver dumps writer gid batch merges (map fst (fold_redirect merges)) us ((c4, (g2, n2)), s) = ((c, (g, n)), s')"
proof -
  let ?v = "fold_redirect merges"
  let ?rt = "redirect_of ?v" and ?vs = "map fst ?v"
  obtain kept us ds edges p c3 g1 n1 c4 ss4 where st: "kept_ok ?rt g0 kept"
    "map victim_edge_of (filter resolved (mentions_from ?vs g0)) = edges"
    "split_dups [] edges = (us, ds)" "plan_rewire ?rt (targets_of kept) us = p"
    "g1 = g0 \<or> g1 = drop_mentions (redundant p ds) g0"
    "fold (rewire_mention driver ?rt) (rw_create p) (c3, (g1, n1)) = (c4, ss4)"
    "undo_and_delete driver dumps writer gid batch merges ?vs us ((c4, ss4), s) = ((c, (g, n)), s')"
    using assms(1) unfolding fold_staged_def Let_def by blast
  note redirect = fold_redirect_ok [OF assms(4)]
  note facts = redundant_rows [OF redirect(1) st(2) assms(3) st(3,4)]
  have "same_knowledge ?rt g0 g1"
    using st(5) drop_keeps_knowledge [OF assms(2,3) redirect(2,1) st(2,3,1,4)] assms(2) by (auto simp: same_knowledge_def)
  moreover have "?rt (src_of r) \<noteq> src_of r \<and> mentioned g0 (src_of r, dst_of r)" if "r \<in> set (rw_create p)" for r
    using that rewire_parts [OF facts(1)] facts(5) edges_mention [OF assms(3) st(2)] by blast
  ultimately have "same_knowledge ?rt g0 (fst (snd (fold (rewire_mention driver ?rt) (rw_create p) (c3, (g1, n1)))))"
    by (intro rewire_all_keeps [OF redirect(2)]) auto
  then have "same_knowledge ?rt g0 (fst ss4)" by (simp add: st(6))
  with that [of "fst ss4" us c4 "snd ss4"] st(7) show thesis by simp
qed

text \<open>C5: Folding identical episodes changes nothing about what the episodes of a fold mention together, whichever statements
  fail, lose their reply or are never reached, as long as no two mentions share a uuid.\<close>

theorem fold_keeps_knowledge:
  assumes "episodes_ok es" "plan_episodic_exact_dups sha1 es = merges" "gr_ok g0" "mentions_ok g0"
    and "apply_episodic_plan driver dumps merges apply_it batch writer gid ((g0, n0), s) = ((c, (g, n)), s')"
  shows "cluster_mentions (redirect_of (fold_redirect merges)) g = cluster_mentions (redirect_of (fold_redirect merges)) g0"
proof (rule disjE [OF apply_episodic_stages [OF assms(5)]])
  assume "apply_it \<and> fold_staged driver dumps merges batch writer gid g0 s ((c, (g, n)), s')"
  then have staged: "fold_staged driver dumps merges batch writer gid g0 s ((c, (g, n)), s')" by blast
  have apart: "merges_apart merges" using plan_apart [OF assms(1), of sha1] assms(2) by simp
  obtain g2 n2 c4 us where k: "same_knowledge (redirect_of (fold_redirect merges)) g0 g2"
    and u: "undo_and_delete driver dumps writer gid batch merges (map fst (fold_redirect merges)) us ((c4, (g2, n2)), s) = ((c, (g, n)), s')"
    using fold_staged_knowledge [OF staged assms(3,4) apart] .
  then have ok: "gr_ok (fst (g2, n2))" by (simp add: same_knowledge_def)
  have "g = g2 \<or> (\<forall>k. mentioned g k = mentioned g2 k)"
    using undo_and_delete_outcome [OF u ok] by (auto simp: fewer_nodes_def)
  then have "cluster_mentions (redirect_of (fold_redirect merges)) g = cluster_mentions (redirect_of (fold_redirect merges)) g2"
    by (auto simp: cluster_mentions_def)
  with k show ?thesis by (simp add: same_knowledge_def)
qed simp

text \<open>The undo writer of the queue, for a run.\<close>

definition queue_undo_writer :: "string \<Rightarrow> int \<Rightarrow> undo_writer" where
  "queue_undo_writer run now rows s = (case record_episodic_undo_sync run rows now s of (n, s') \<Rightarrow> (Some n, s'))"

text \<open>C6: An episode that a fold deletes was a planned victim whose mentions had gone, and the queue's undo table has a row of this run
  with its complete properties; without an undo writer nothing is deleted.\<close>

theorem fold_deletes_with_undo:
  assumes "episodes_ok es" "plan_episodic_exact_dups sha1 es = merges" "gr_ok g0" "mentions_ok g0" "episodes_apart g0"
    and "apply_episodic_plan driver dumps merges apply_it batch writer gid ((g0, n0), s) = ((c, (g, n)), s')"
    and "writer = None \<or> writer = Some (queue_undo_writer run now)"
    and "m \<in> set (gr_nodes g0)" "m \<notin> set (gr_nodes g)"
  shows "writer \<noteq> None \<and> gn_label m = Episodic \<and> (\<exists>u. nuid m = Some u \<and> u \<in> em_victim ` set merges \<and>
    (\<exists>r \<in> set (st_undo s'). un_run_id r = run \<and> un_victim r = u \<and> un_snapshot r = dumps (PyDict (gn_props m))))"
proof -
  have apart: "merges_apart merges" using plan_apart [OF assms(1), of sha1] assms(2) by simp
  have "g \<noteq> g0" using assms(8,9) by blast
  then have staged: "fold_staged driver dumps merges batch writer gid g0 s ((c, (g, n)), s')"
    using apply_episodic_stages [OF assms(6)] by blast
  obtain g2 n2 c4 us where k: "same_knowledge (redirect_of (fold_redirect merges)) g0 g2"
    and u: "undo_and_delete driver dumps writer gid batch merges (map fst (fold_redirect merges)) us ((c4, (g2, n2)), s) = ((c, (g, n)), s')"
    using fold_staged_knowledge [OF staged assms(3,4) apart] .
  let ?vs = "map em_victim merges"
  have vs: "map fst (fold_redirect merges) = ?vs" using fold_redirect_ok(3) [OF apart] .
  have g2: "gr_nodes g2 = gr_nodes g0" and ok: "gr_ok (fst (g2, n2))" using k by (simp_all add: same_knowledge_def)
  from undo_and_delete_outcome [OF u ok] g2 assms(8,9) obtain w rows j ss1 where o:
    "fewer_nodes (victim_episode ?vs) g2 g" "writer = Some w"
    "build_episodic_undo_rows driver dumps merges us gid (g2, n2) = (Some rows, ss1)" "length ?vs \<le> length rows" "w rows s = (Some j, s')"
    unfolding vs by auto
  have victim: "victim_episode ?vs m" using o(1) g2 assms(8,9) by (auto simp: fewer_nodes_def)
  have "episodes_apart (fst (g2, n2))" using assms(5) g2 by (simp add: episodes_apart_def)
  then have "undo_saves dumps rows m" using undo_rows_complete [OF o(3)] o(4) g2 assms(8) victim by simp
  then obtain r where r: "r \<in> set rows" "nuid m = Some (ue_victim r)" "ue_snapshot r = dumps (PyDict (gn_props m))"
    by (auto simp: undo_saves_def)
  have "s' = snd (record_episodic_undo_sync run rows now s)"
    using o(2,5) assms(7) by (auto simp: queue_undo_writer_def split: prod.splits)
  then have "undo_row_of run now r \<in> set (st_undo s')" using r(1)
    by (auto simp: record_episodic_undo_sync_def record_episodic_undo_def)
  moreover have "ue_victim r \<in> set ?vs" using victim r(2) by (simp add: uuid_in_def)
  ultimately show ?thesis using o(2) victim r(2,3) by (force simp: undo_row_of_def)
qed

subsection \<open>What a dry run says\<close>

text \<open>The counters of the mentions.\<close>

definition mention_counters :: "fold_counters \<Rightarrow> nat list" where
  "mention_counters c = [fd_rewired c, fd_moved c, fd_dropped c, fd_created c, fd_intra_dup c, fd_dedupe_dropped c, fd_accounted c]"

lemma mention_counters_frame [simp]:
  "mention_counters (fold_errors xs c) = mention_counters c"
  "mention_counters (c\<lparr>fd_not_empty := k\<rparr>) = mention_counters c"
  "mention_counters (c\<lparr>fd_undo_written := k\<rparr>) = mention_counters c"
  "mention_counters (c\<lparr>fd_deleted := i, fd_not_empty := k\<rparr>) = mention_counters c"
  "mention_counters (c\<lparr>fd_deleted := i\<rparr>) = mention_counters c"
  "mention_counters (c\<lparr>fd_planned := x\<rparr>) = mention_counters c"
  by (simp_all add: mention_counters_def fold_errors_def)

lemma delete_chunks_counters:
  "mention_counters (fst (fold (delete_emptied_chunk driver) css cs)) = mention_counters (fst cs)"
proof (induction css arbitrary: cs)
  case (Cons us css)
  have "mention_counters (fst (delete_emptied_chunk driver us cs)) = mention_counters (fst cs)"
    by (auto simp: delete_emptied_chunk_def split: prod.splits option.splits)
  with Cons show ?case by simp
qed simp

lemma undo_and_delete_counters:
  "mention_counters (fst (fst (undo_and_delete driver dumps writer gid batch merges victims edges ((c, ss), s)))) = mention_counters c"
  by (auto simp: undo_and_delete_def Let_def delete_chunks_counters split: prod.splits option.splits)

definition has_episode :: "graph \<Rightarrow> string \<Rightarrow> bool" where
  "has_episode g u \<longleftrightarrow> match_nodes Episodic (\<lambda>n. nuid n = Some u) g \<noteq> []"

text \<open>The nodes a row needs.\<close>

definition row_ready :: "(string \<Rightarrow> string) \<Rightarrow> graph \<Rightarrow> mention_edge \<Rightarrow> bool" where
  "row_ready rt g r \<longleftrightarrow> has_episode g (rt (src_of r)) \<and> has_entity g (dst_of r)"

lemma row_ready_nodes: "gr_nodes g = gr_nodes g' \<Longrightarrow> row_ready rt g r = row_ready rt g' r"
  by (simp add: row_ready_def has_episode_def has_entity_def match_nodes_def)

lemma rewire_calm:
  assumes "row_ready rt g r"
  shows "\<exists>g'. rewire_mention calm rt r (c, (g, n)) = (c\<lparr>fd_created := fd_created c + 1, fd_moved := fd_moved c + 1\<rparr>, (g', Suc (Suc n))) \<and>
    gr_nodes g' = gr_nodes g"
proof -
  have "0 < fst (create_edge Mentions Episodic (rt (src_of r)) Entity (dst_of r) (mention_props r) g)"
    using assms unfolding create_edge_count by (simp add: row_ready_def has_episode_def has_entity_def)
  then show ?thesis by (simp add: rewire_mention_def create_then_delete_def)
qed

lemma rewire_all_calm:
  "\<forall>r \<in> set rs. row_ready rt g r \<Longrightarrow>
    \<exists>ss. fold (rewire_mention calm rt) rs (c, (g, n)) = (c\<lparr>fd_created := fd_created c + length rs, fd_moved := fd_moved c + length rs\<rparr>, ss)"
proof (induction rs arbitrary: c g n)
  case (Cons r rs)
  obtain g' where g': "rewire_mention calm rt r (c, (g, n)) = (c\<lparr>fd_created := fd_created c + 1, fd_moved := fd_moved c + 1\<rparr>, (g', Suc (Suc n)))"
    "gr_nodes g' = gr_nodes g" using rewire_calm [of rt g r c n] Cons.prems by auto
  have "\<forall>r \<in> set rs. row_ready rt g' r" using Cons.prems row_ready_nodes [OF g'(2)] by simp
  from Cons.IH [OF this, of "c\<lparr>fd_created := fd_created c + 1, fd_moved := fd_moved c + 1\<rparr>" "Suc (Suc n)"] g'(1) show ?case by auto
qed simp

lemma row_nodes:
  assumes "mentions_ok g" "map victim_edge_of (filter resolved (mentions_from victims g)) = edges" "r \<in> set edges"
  shows "src_of r \<in> set victims" "has_entity g (dst_of r)"
proof -
  obtain e s t u where e: "ends Mentions Episodic Entity g e = Some (s, t)" "src_of r \<in> set victims" "nuid t = Some (dst_of r)"
    using resolved_row [OF assms(1), of r victims] assms(2,3) by metis
  then show "src_of r \<in> set victims" "has_entity g (dst_of r)"
    using node_at_Some [of g "ge_dst e" t] has_entity_node by (auto simp: ends_Some)
qed

lemma survivor_episode:
  assumes "episodes_ok (episodic_q gid g)" "plan_episodic_exact_dups sha1 (episodic_q gid g) = merges"
    and "u \<in> set (map em_victim merges)"
  shows "has_episode g (redirect_of (fold_redirect merges) u)"
proof -
  obtain m where m: "m \<in> set merges" "u = em_victim m" using assms(3) by auto
  have "merges_apart merges" using plan_apart [OF assms(1), of sha1] assms(2) by simp
  then have "redirect_of (fold_redirect merges) u = em_survivor m" using fold_redirect_survivor m by simp
  moreover obtain k where "k \<in> set (episodic_q gid g)" "ed_uuid k = Some (em_survivor m)"
    using episodic_merge_sound [OF assms(1), of m sha1] m(1) assms(2) by auto
  then obtain n where "n \<in> set (gr_nodes g)" "gn_label n = Episodic" "nuid n = Some (em_survivor m)"
    by (auto simp: episodic_q_def match_nodes_def episodic_row_of_def)
  ultimately show ?thesis by (auto simp: has_episode_def match_nodes_def filter_empty_conv)
qed

lemma delete_mentions_calm:
  "\<exists>k g' n'. delete_mentions_by_uuid calm us (g, n) = (Some k, (g', n')) \<and> gr_nodes g' = gr_nodes g"
  by (simp add: delete_mentions_by_uuid_def)

text \<open>C19: Where every mention has a uuid of its own and the driver answers every statement of both runs, a dry run reports
  the numbers of mentions the real run ends with.\<close>

theorem dry_run_predicts:
  assumes "episodes_ok (episodic_q gid0 g0)" "plan_episodic_exact_dups sha1 (episodic_q gid0 g0) = merges" "mentions_ok g0"
    and dry: "apply_episodic_plan calm dumps merges False batch writer gid ((g0, n0), s) = ((c, ss), s1)"
    and real: "apply_episodic_plan calm dumps merges True batch writer gid ((g0, n0), s) = ((c', ss'), s1')"
  shows "mention_counters c' = mention_counters c"
proof -
  let ?v = "fold_redirect merges"
  let ?rt = "redirect_of ?v" and ?vs = "map fst ?v"
  have apart: "merges_apart merges" using plan_apart [OF assms(1), of sha1] assms(2) by simp
  note redirect = fold_redirect_ok [OF apart]
  define rs where "rs = mentions_from ?vs g0"
  define ks where "ks = mentions_from (remdups (map ?rt ?vs)) g0"
  define edges where "edges = map victim_edge_of (filter resolved rs)"
  obtain us ds where sd: "split_dups [] edges = (us, ds)" by (cases "split_dups [] edges")
  define p where "p = plan_rewire ?rt (targets_of ks) us"
  note facts = redundant_rows [OF redirect(1) edges_def [unfolded rs_def, symmetric] assms(3) sd p_def [symmetric]]
  obtain k g1 n1 where del: "delete_mentions_by_uuid calm (redundant p ds) (g0, Suc (Suc n0)) = (Some k, (g1, n1))" "gr_nodes g1 = gr_nodes g0"
    using delete_mentions_calm by blast
  have ready: "\<forall>r \<in> set (rw_create p). row_ready ?rt g1 r"
  proof
    fix r
    assume "r \<in> set (rw_create p)"
    then have "r \<in> set edges" using rewire_parts [OF facts(1)] by blast
    from row_nodes [OF assms(3) edges_def [unfolded rs_def, symmetric] this] survivor_episode [OF assms(1,2)] redirect(3)
    have "row_ready ?rt g0 r" by (simp add: row_ready_def)
    then show "row_ready ?rt g1 r" using row_ready_nodes [OF del(2)] by simp
  qed
  show ?thesis
  proof (cases "merges = [] \<or> rs = []")
    case True
    with dry real show ?thesis
      by (auto simp: apply_episodic_plan_def Let_def rs_def [symmetric] new_fold_counters_def mention_counters_def fold_errors_def split: if_splits)
  next
    case False
    have "mention_counters c = [length edges, length (rw_create p), length (rw_drop p), length (rw_create p), length ds, length (rw_dedupe p), length edges]"
      using dry False sd
      by (auto simp: apply_episodic_plan_def Let_def rs_def [symmetric] ks_def [symmetric] edges_def [symmetric] p_def [symmetric]
          planned_counters_def mention_counters_def simp del: map_map)
    moreover define c3 where "c3 = (planned_counters edges ds p (fold_errors (rw_errors p) (fold_errors (map (\<lambda>r. FoldSkipped (me_uuid r))
        (filter (\<lambda>r. \<not> resolved r) rs)) ((new_fold_counters True merges)\<lparr>fd_victims := length ?vs\<rparr>))))\<lparr>fd_created := 0, fd_moved := 0\<rparr>"
    have "mention_counters c3 = [length edges, 0, length (rw_drop p), 0, length ds, length (rw_dedupe p), length edges]"
      by (simp add: c3_def planned_counters_def mention_counters_def)
    moreover have "undo_and_delete calm dumps writer gid batch merges ?vs us (fold (rewire_mention calm ?rt) (rw_create p) (c3, (g1, n1)), s) =
        ((c', ss'), s1')"
      using real False sd del(1)
      by (simp add: apply_episodic_plan_def Let_def rs_def [symmetric] ks_def [symmetric] edges_def [symmetric] p_def [symmetric]
          c3_def del: map_map split: prod.splits)
    moreover obtain ss2 where "fold (rewire_mention calm ?rt) (rw_create p) (c3, (g1, n1)) =
        (c3\<lparr>fd_created := fd_created c3 + length (rw_create p), fd_moved := fd_moved c3 + length (rw_create p)\<rparr>, ss2)"
      using rewire_all_calm [OF ready] by blast
    ultimately show ?thesis
      using undo_and_delete_counters [of calm dumps writer gid batch merges ?vs us
          "c3\<lparr>fd_created := fd_created c3 + length (rw_create p), fd_moved := fd_moved c3 + length (rw_create p)\<rparr>" ss2 s]
      by (simp add: mention_counters_def)
  qed
qed

subsection \<open>Two identical episodes\<close>

text \<open>Episodes \<open>x\<close> and \<open>y\<close> are identical; both mention \<open>t\<close>, and \<open>y\<close> alone mentions \<open>w\<close>.\<close>

definition sample_episodes :: graph where
  "sample_episodes =
     (let episode = \<lambda>i u. \<lparr>gn_id = i, gn_label = Episodic,
            gn_props = [(''uuid'', PyStr u), (''name'', PyStr ''n''), (''content'', PyStr ''c''), (''group_id'', PyStr ''g'')]\<rparr>;
          entity = \<lambda>i u. \<lparr>gn_id = i, gn_label = Entity, gn_props = [(''uuid'', PyStr u)]\<rparr>;
          edge = \<lambda>i j u. \<lparr>ge_type = Mentions, ge_src = i, ge_dst = j, ge_props = [(''uuid'', PyStr u)]\<rparr> in
      \<lparr>gr_nodes = [episode 0 ''x'', episode 1 ''y'', entity 2 ''t'', entity 3 ''w''],
       gr_edges = [edge 0 2 ''m1'', edge 1 2 ''m2'', edge 1 3 ''m3'']\<rparr>)"

definition fold_sample :: "(nat \<Rightarrow> reply) \<Rightarrow> bool \<Rightarrow> undo_writer option \<Rightarrow> graph \<Rightarrow> fold_run \<times> store" where
  "fold_sample driver apply_it writer g =
     apply_episodic_plan driver (\<lambda>v. ''{}'') (plan_episodic_exact_dups id (episodic_q ''g'' g)) apply_it 200 writer ''g'' ((g, 0), empty_store)"

definition graph_of :: "fold_run \<times> store \<Rightarrow> graph" where
  "graph_of out = fst (snd (fst out))"

definition sample_merges :: "episodic_merge list" where
  "sample_merges = plan_episodic_exact_dups id (episodic_q ''g'' sample_episodes)"

lemma sample_episodes_ok:
  "episodes_ok (episodic_q ''g'' sample_episodes)" "gr_ok sample_episodes" "mentions_ok sample_episodes" "episodes_apart sample_episodes"
  by (code_simp, code_simp, code_simp, code_simp)

lemma fold_sampleE:
  obtains c g n s where "fold_sample driver apply_it writer sample_episodes = ((c, (g, n)), s)"
    "apply_episodic_plan driver (\<lambda>v. ''{}'') sample_merges apply_it 200 writer ''g'' ((sample_episodes, 0), empty_store) = ((c, (g, n)), s)"
proof -
  obtain c g n s where "fold_sample driver apply_it writer sample_episodes = ((c, (g, n)), s)" by (metis prod.exhaust)
  with that show thesis by (simp add: fold_sample_def sample_merges_def)
qed

theorem fold_keeps_knowledge_witness:
  "cluster_mentions (redirect_of (fold_redirect sample_merges)) (graph_of (fold_sample (\<lambda>n. if n = 6 then Refused else Answered) True None sample_episodes)) =
    cluster_mentions (redirect_of (fold_redirect sample_merges)) sample_episodes"
proof -
  let ?driver = "\<lambda>n :: nat. if n = 6 then Refused else Answered"
  obtain c g n s where r: "fold_sample ?driver True None sample_episodes = ((c, (g, n)), s)"
    "apply_episodic_plan ?driver (\<lambda>v. ''{}'') sample_merges True 200 None ''g'' ((sample_episodes, 0), empty_store) = ((c, (g, n)), s)"
    by (rule fold_sampleE)
  from fold_keeps_knowledge [OF sample_episodes_ok(1) sample_merges_def [symmetric] sample_episodes_ok(2,3) r(2)] r(1)
  show ?thesis by (simp add: graph_of_def)
qed

theorem fold_deletes_with_undo_witness:
  "\<exists>m \<in> set (gr_nodes sample_episodes). m \<notin> set (gr_nodes (graph_of (fold_sample calm True (Some (queue_undo_writer ''run'' 5)) sample_episodes))) \<and>
    (\<exists>u. nuid m = Some u \<and> u \<in> em_victim ` set sample_merges)"
proof -
  let ?m = "hd (tl (gr_nodes sample_episodes))"
  obtain c g n s where r: "fold_sample calm True (Some (queue_undo_writer ''run'' 5)) sample_episodes = ((c, (g, n)), s)"
    "apply_episodic_plan calm (\<lambda>v. ''{}'') sample_merges True 200 (Some (queue_undo_writer ''run'' 5)) ''g'' ((sample_episodes, 0), empty_store) = ((c, (g, n)), s)"
    by (rule fold_sampleE)
  have gone: "?m \<notin> set (gr_nodes (graph_of (fold_sample calm True (Some (queue_undo_writer ''run'' 5)) sample_episodes)))" by code_simp
  have m: "?m \<in> set (gr_nodes sample_episodes)" by code_simp
  from fold_deletes_with_undo [OF sample_episodes_ok(1) sample_merges_def [symmetric] sample_episodes_ok(2-4) r(2), where run = "''run''" and now = 5, OF _ m]
    gone r(1) have "\<exists>u. nuid ?m = Some u \<and> u \<in> em_victim ` set sample_merges" by (auto simp: graph_of_def)
  with m gone show ?thesis by blast
qed

theorem dry_run_predicts_witness:
  "mention_counters (fst (fst (fold_sample calm True None sample_episodes))) = [2, 1, 1, 1, 0, 0, 2]"
proof -
  obtain c g n s where d: "fold_sample calm False None sample_episodes = ((c, (g, n)), s)"
    "apply_episodic_plan calm (\<lambda>v. ''{}'') sample_merges False 200 None ''g'' ((sample_episodes, 0), empty_store) = ((c, (g, n)), s)"
    by (rule fold_sampleE)
  obtain c' g' n' s' where r: "fold_sample calm True None sample_episodes = ((c', (g', n')), s')"
    "apply_episodic_plan calm (\<lambda>v. ''{}'') sample_merges True 200 None ''g'' ((sample_episodes, 0), empty_store) = ((c', (g', n')), s')"
    by (rule fold_sampleE)
  have "mention_counters (fst (fst (fold_sample calm False None sample_episodes))) = [2, 1, 1, 1, 0, 0, 2]" by code_simp
  with dry_run_predicts [OF sample_episodes_ok(1) sample_merges_def [symmetric] sample_episodes_ok(3) d(2) r(2)] d(1) r(1)
  show ?thesis by simp
qed

text \<open>A run that stops between the two statements of a move leaves the same uuid on two edges; the next run deletes by uuid, and the
  mention is lost.\<close>

definition mention_pairs :: "graph \<Rightarrow> (string \<times> string) list" where
  "mention_pairs g = map (\<lambda>r. (src_of r, dst_of r)) (mentions_from [''x'', ''y''] g)"

lemma interrupted_fold_loses_mention:
  "mention_pairs (graph_of (fold_sample (\<lambda>n. if n = 6 then Refused else Answered) True None sample_episodes)) =
    [(''x'', ''t''), (''y'', ''w''), (''x'', ''w'')]"
  "mention_pairs (graph_of (fold_sample calm True None (graph_of (fold_sample (\<lambda>n. if n = 6 then Refused else Answered) True None sample_episodes)))) =
    [(''x'', ''t'')]"
  by (code_simp, code_simp)

end
