(* ===== verification/DedupRun.thy ===== *)
theory DedupRun
  imports DedupDone EpisodicFold
begin

text \<open>
  \<open>run_phase2_dedup\<close> of \<open>pipeline/dedup_apply.py\<close>: snapshot, plan, application of the plan, and the fold of
  identical episodes, against one graph and the tables of the queue.
\<close>

datatype phase2_status = PhaseDone | PhasePartial

record phase2_report =
  p2_status :: phase2_status
  p2_applied :: bool
  p2_merges :: nat
  p2_episodic_merges :: nat
  p2_entities_seen :: nat
  p2_episodics_seen :: nat
  p2_plan :: dedup_plan
  p2_counters :: dedup_counters
  p2_fold_counters :: fold_counters

datatype phase2_outcome = Unreachable | ReadFailed "read_error list" | Phase2 phase2_report

definition phase2_writer :: "bool \<Rightarrow> string \<Rightarrow> int \<Rightarrow> undo_writer option" where
  "phase2_writer has_queue run now = (if has_queue \<and> run \<noteq> [] then Some (queue_undo_writer run now) else None)"

text \<open>\<open>reachable\<close>: the client connects and answers \<open>RETURN 1\<close>.\<close>

definition run_phase2_dedup ::
  "(nat \<Rightarrow> reply) \<Rightarrow> (string \<Rightarrow> string) \<Rightarrow> (pyval \<Rightarrow> string) \<Rightarrow> rat \<Rightarrow> bool \<Rightarrow> string \<Rightarrow> bool \<Rightarrow> undo_writer option \<Rightarrow>
     session \<times> store \<Rightarrow> phase2_outcome \<times> session \<times> store" where
  "run_phase2_dedup driver sha1 dumps threshold reachable gid force writer x =
     (let (ss0, s) = x in
      if \<not> reachable then (Unreachable, ss0, s)
      else let (snap, errs, ss1) = load_graph_snapshot driver gid ss0 in
        if errs \<noteq> [] then (ReadFailed errs, ss1, s)
        else let
            plan = plan_dedup threshold (sn_entities snap) (sn_mentions snap) (sn_relations snap);
            (c, ss2) = apply_plan driver plan force default_batch ss1;
            folds = plan_episodic_exact_dups sha1 (sn_episodics snap);
            ((fc, ss3), s') = apply_episodic_plan driver dumps folds force default_batch writer gid (ss2, s)
          in (Phase2
               \<lparr>p2_status = (if ct_errors c = [] \<and> fd_errors fc = [] then PhaseDone else PhasePartial), p2_applied = ct_applied c,
                p2_merges = length (dp_merges plan), p2_episodic_merges = length folds, p2_entities_seen = length (sn_entities snap),
                p2_episodics_seen = length (sn_episodics snap), 
                p2_plan = plan\<lparr>dp_episodic_clusters := count_episodic_clusters sha1 (sn_episodics snap), dp_episodic_nodes := length folds\<rparr>,
                p2_counters = c, p2_fold_counters = fc\<rparr>, ss3, s'))"

subsection \<open>When a run writes\<close>

lemma load_keeps_graph: "load_graph_snapshot driver gid ss = (snap, errs, ss') \<Longrightarrow> fst ss' = fst ss"
  by (auto simp: load_graph_snapshot_def Let_def dest!: read_query_keeps split: prod.splits)

lemma snapshot_of_graph:
  assumes "load_graph_snapshot driver gid ss = (snap, [], ss')"
  shows "sn_entities snap = entities_q gid (fst ss)" "sn_episodics snap = episodic_q gid (fst ss)"
    "sn_mentions snap = mentions_q gid (fst ss)" "sn_relations snap = relations_q gid (fst ss)"
proof -
  obtain r1 s1 where 1: "read_query driver (entities_q gid) ss = (r1, s1)" by (cases "read_query driver (entities_q gid) ss")
  obtain r2 s2 where 2: "read_query driver (episodic_q gid) s1 = (r2, s2)" by (cases "read_query driver (episodic_q gid) s1")
  obtain r3 s3 where 3: "read_query driver (mentions_q gid) s2 = (r3, s3)" by (cases "read_query driver (mentions_q gid) s2")
  obtain r4 s4 where 4: "read_query driver (relations_q gid) s3 = (r4, s4)" by (cases "read_query driver (relations_q gid) s3")
  note same = read_query_keeps [OF 1] read_query_keeps [OF 2] read_query_keeps [OF 3]
  have "r1 \<noteq> None \<and> r2 \<noteq> None \<and> r3 \<noteq> None \<and> r4 \<noteq> None"
    and snap: "snap = \<lparr>sn_entities = fst (rows_or_error EntitiesRead r1), sn_episodics = fst (rows_or_error EpisodicsRead r2),
        sn_mentions = fst (rows_or_error MentionsRead r3), sn_relations = fst (rows_or_error RelationsRead r4)\<rparr>"
    using assms 1 2 3 4 by (auto simp: load_graph_snapshot_def Let_def rows_or_error_def split: option.splits)
  then obtain a b c d where "r1 = Some a" "r2 = Some b" "r3 = Some c" "r4 = Some d" by auto
  with snap same read_query_Some [of driver "entities_q gid" ss a s1] read_query_Some [of driver "episodic_q gid" s1 b s2]
    read_query_Some [of driver "mentions_q gid" s2 c s3] read_query_Some [of driver "relations_q gid" s3 d s4] 1 2 3 4
  show "sn_entities snap = entities_q gid (fst ss)" "sn_episodics snap = episodic_q gid (fst ss)"
    "sn_mentions snap = mentions_q gid (fst ss)" "sn_relations snap = relations_q gid (fst ss)"
    by (simp_all add: rows_or_error_def)
qed

lemma dry_apply_plan: "apply_plan driver plan False batch ss = (c, ss') \<Longrightarrow> ss' = ss"
  using dry_run_only_reports by blast

lemma dry_episodic_plan:
  assumes "apply_episodic_plan driver dumps merges False batch writer gid ((g0, n0), s) = ((c, (g, n)), s')"
  shows "g = g0 \<and> s' = s"
  using apply_episodic_stages [OF assms] by blast

lemma fold_frame:
  "(\<And>x cs. ct_applied (fst (f x cs)) = ct_applied (fst cs)) \<Longrightarrow> ct_applied (fst (fold f xs cs)) = ct_applied (fst (cs :: run))"
  by (induction xs arbitrary: cs) auto

lemma applied_frame [frame_simps]:
  "ct_applied (add_error e c) = ct_applied c"
  "ct_applied (fst (move_mention driver rt r cs)) = ct_applied (fst cs)"
  "ct_applied (fst (move_relation driver rt r2 cs)) = ct_applied (fst cs)"
  "ct_applied (fst (phase_c driver cs)) = ct_applied (fst cs)"
  "ct_applied (fst (delete_chunk driver us cs)) = ct_applied (fst cs)"
  by (auto simp: add_error_def move_mention_def move_relation_def phase_c_def delete_chunk_def Let_def split: prod.splits option.splits bool.splits)

lemma applied_phases [frame_simps]:
  "ct_applied (fst (phase_a driver rt vs cs)) = ct_applied (fst cs)"
  "ct_applied (fst (phase_b driver rt vs cs)) = ct_applied (fst cs)"
  "ct_applied (fst (fold (delete_chunk driver) css cs)) = ct_applied (fst cs)"
  by (auto simp: phase_a_def phase_b_def frame_simps fold_frame split: prod.splits option.splits)

lemma apply_plan_applied: "ct_applied (fst (apply_plan driver plan force batch ss)) = force"
  by (simp add: apply_plan_def Let_def frame_simps) (simp add: new_counters_def)

text \<open>Phase 2 writes to the graph or to the undo table only when it is forced to and only after all four reads of the snapshot were
  answered; it then plans from the graph as it is; and it reports a finished phase exactly when neither half reported an error.\<close>

theorem phase2_writes_when_forced:
  assumes "run_phase2_dedup driver sha1 dumps threshold reachable gid force writer ((g0, n0), s) = (out, (g, n), s')"
  shows "(g \<noteq> g0 \<or> s' \<noteq> s \<longrightarrow> force \<and> (\<exists>r. out = Phase2 r)) \<and>
    (\<forall>r. out = Phase2 r \<longrightarrow> reachable \<and> p2_applied r = force \<and>
       dp_merges (p2_plan r) = dp_merges (plan_dedup threshold (entities_q gid g0) (mentions_q gid g0) (relations_q gid g0)) \<and>
       p2_episodic_merges r = length (plan_episodic_exact_dups sha1 (episodic_q gid g0)) \<and>
       (p2_status r = PhaseDone \<longleftrightarrow> ct_errors (p2_counters r) = [] \<and> fd_errors (p2_fold_counters r) = []))"
proof -
  obtain snap errs ss1 where l: "load_graph_snapshot driver gid (g0, n0) = (snap, errs, ss1)" by (metis prod.exhaust)
  have g1: "fst ss1 = g0" using load_keeps_graph [OF l] by simp
  define plan where "plan = plan_dedup threshold (sn_entities snap) (sn_mentions snap) (sn_relations snap)"
  obtain c g2 n2 where a: "apply_plan driver plan force default_batch ss1 = (c, (g2, n2))" by (metis prod.exhaust)
  define folds where "folds = plan_episodic_exact_dups sha1 (sn_episodics snap)"
  obtain fc g3 n3 s3 where f: "apply_episodic_plan driver dumps folds force default_batch writer gid ((g2, n2), s) = ((fc, (g3, n3)), s3)"
    by (metis prod.exhaust)
  show ?thesis
  proof (cases "reachable \<and> errs = []")
    case False
    then have "g = g0 \<and> s' = s \<and> (\<forall>r. out \<noteq> Phase2 r)" using assms l g1
      by (cases reachable) (auto simp: run_phase2_dedup_def)
    then show ?thesis by blast
  next
    case True
    note snapped = snapshot_of_graph [OF l [unfolded True [THEN conjunct2]]]
    have run: "g = g3" "s' = s3" "\<exists>r. out = Phase2 r \<and> p2_applied r = ct_applied c \<and> dp_merges (p2_plan r) = dp_merges plan \<and> p2_episodic_merges r = length folds \<and>
        p2_counters r = c \<and> p2_fold_counters r = fc \<and> (p2_status r = PhaseDone \<longleftrightarrow> ct_errors c = [] \<and> fd_errors fc = [])"
      using assms True l a f by (auto simp: run_phase2_dedup_def plan_def [symmetric] folds_def [symmetric])
    have dry: "g3 = g0 \<and> s3 = s" if "\<not> force"
      using that dry_apply_plan [of driver plan default_batch ss1 c "(g2, n2)"] dry_episodic_plan [of driver dumps folds default_batch writer gid g2 n2 s fc g3 n3 s3]
        a f g1 by auto
    have "ct_applied c = force" using apply_plan_applied [of driver plan force default_batch ss1] a by simp
    with run dry True snapped show ?thesis unfolding plan_def folds_def by auto
  qed
qed


definition sample_phase2 :: "phase2_outcome \<times> session \<times> store" where
  "sample_phase2 = run_phase2_dedup calm id (\<lambda>v. ''{}'') (4 / 5) True ''g'' True (phase2_writer True ''run'' 5) ((sample_episodes, 0), empty_store)"

theorem phase2_writes_when_forced_witness:
  "\<exists>r. fst sample_phase2 = Phase2 r \<and> p2_applied r \<and> p2_episodic_merges r = 1 \<and>
    map un_victim (st_undo (snd (snd sample_phase2))) = [''y'']"
proof -
  define s' where "s' = snd (snd sample_phase2)"
  obtain out g n where run: "sample_phase2 = (out, (g, n), s')" unfolding s'_def by (metis prod.exhaust_sel)
  have undo: "map un_victim (st_undo s') = [''y'']" unfolding s'_def by code_simp
  then have "st_undo s' \<noteq> []" by (metis list.distinct(1) list.simps(8))
  then have "s' \<noteq> empty_store" by (metis empty_store_def store.select_convs(5))
  moreover have "length (plan_episodic_exact_dups id (episodic_q ''g'' sample_episodes)) = 1" by code_simp
  ultimately show ?thesis using phase2_writes_when_forced [OF run [unfolded sample_phase2_def]] undo by (auto simp: run s'_def [symmetric])
qed

end
