(* ===== verification/DreamPrune.thy ===== *)
theory DreamPrune
  imports DreamCluster DedupRun
begin

text \<open>
  Phase 3 of the dream: which entities nothing refers to (\<open>pipeline/dream_phases.py\<close>), and their deletion from
  the graph (\<open>pipeline/dream_apply.py\<close>).
\<close>

subsection \<open>The plan\<close>

datatype orphan_reason = HoldsSummary nat | UnreferencedEmpty

record orphan =
  or_uuid :: string
  or_name :: string
  or_summary :: string
  or_prunable :: bool
  or_reason :: orphan_reason

record prune_plan =
  pp_candidates :: "orphan list"
  pp_deleted :: nat
  pp_protected :: nat
  pp_protected_chars :: nat

definition summary_chars :: "orphan \<Rightarrow> nat" where
  "summary_chars o' = length (or_summary o')"

definition prunable :: "prune_plan \<Rightarrow> orphan list" where
  "prunable plan = filter or_prunable (pp_candidates plan)"

text \<open>The uuids that are not empty.\<close>

definition present :: "string option list \<Rightarrow> string list" where
  "present xs = concat (map (\<lambda>x. case x of Some s \<Rightarrow> if s = [] then [] else [s] | None \<Rightarrow> []) xs)"

definition referenced_uuids :: "mention_row list \<Rightarrow> relation_row list \<Rightarrow> string list" where
  "referenced_uuids mentions relations =
     present (map mn_dst mentions) @ present (concat (map (\<lambda>r. [rl_src r, rl_dst r]) relations))"

definition orphan_of :: "string \<Rightarrow> entity_row \<Rightarrow> orphan" where
  "orphan_of u e =
     (let summary = or_empty (en_summary e); name = or_empty (en_name e) in
      if py_strip summary \<noteq> []
      then \<lparr>or_uuid = u, or_name = name, or_summary = summary, or_prunable = False, or_reason = HoldsSummary (length summary)\<rparr>
      else \<lparr>or_uuid = u, or_name = name, or_summary = [], or_prunable = True, or_reason = UnreferencedEmpty\<rparr>)"

definition find_orphan_candidates :: "entity_row list \<Rightarrow> mention_row list \<Rightarrow> relation_row list \<Rightarrow> orphan list" where
  "find_orphan_candidates entities mentions relations =
     (let refs = referenced_uuids mentions relations in
      concat (map (\<lambda>e. case en_uuid e of None \<Rightarrow> [] | Some u \<Rightarrow> if u \<in> set refs then [] else [orphan_of u e]) entities))"

definition plan_orphan_pruning :: "entity_row list \<Rightarrow> mention_row list \<Rightarrow> relation_row list \<Rightarrow> prune_plan" where
  "plan_orphan_pruning entities mentions relations =
     (let cands = find_orphan_candidates entities mentions relations;
          kept = filter (\<lambda>c. \<not> or_prunable c) cands
      in \<lparr>pp_candidates = cands, pp_deleted = 0, pp_protected = length kept, pp_protected_chars = sum_list (map summary_chars kept)\<rparr>)"

definition describe_plan :: "prune_plan \<Rightarrow> string" where
  "describe_plan plan =
     ''candidates='' @ decimal (length (pp_candidates plan)) @ '' prunable='' @ decimal (length (prunable plan)) @
     '' protected='' @ decimal (pp_protected plan) @ '' (holding '' @ decimal (pp_protected_chars plan) @ '' chars), deleted='' @
     decimal (pp_deleted plan)"

subsection \<open>The deletion\<close>

record prune_counters =
  pc_deleted :: nat
  pc_still_referenced :: nat
  pc_already_gone :: nat
  pc_errors :: "string list"

definition no_prune :: prune_counters where
  "no_prune = \<lparr>pc_deleted = 0, pc_still_referenced = 0, pc_already_gone = 0, pc_errors = []\<rparr>"

definition count_entities :: "string \<Rightarrow> graph \<Rightarrow> nat" where
  "count_entities u g = length (match_nodes Entity (uuid_in [u]) g)"

text \<open>One uuid: does it exist, is it still an orphan, delete it.  An error names the first 16 characters of the uuid.\<close>

definition delete_orphan :: "(nat \<Rightarrow> reply) \<Rightarrow> string \<Rightarrow> prune_counters \<times> session \<Rightarrow> prune_counters \<times> session" where
  "delete_orphan driver u cs =
     (let (c, ss) = cs; failed = c\<lparr>pc_errors := pc_errors c @ [take 16 u]\<rparr> in
      case read_query driver (count_entities u) ss of
        (None, ss1) \<Rightarrow> (failed, ss1)
      | (Some n, ss1) \<Rightarrow>
          if n = 0 then (c\<lparr>pc_already_gone := pc_already_gone c + 1\<rparr>, ss1)
          else (case read_query driver (count_edgeless [u]) ss1 of
              (None, ss2) \<Rightarrow> (failed, ss2)
            | (Some k, ss2) \<Rightarrow>
                if k = 0 then (c\<lparr>pc_still_referenced := pc_still_referenced c + 1\<rparr>, ss2)
                else (case write_query driver (delete_edgeless [u]) ss2 of
                    (None, ss3) \<Rightarrow> (failed, ss3)
                  | (Some _, ss3) \<Rightarrow> (c\<lparr>pc_deleted := pc_deleted c + 1\<rparr>, ss3))))"

definition delete_orphans :: "(nat \<Rightarrow> reply) \<Rightarrow> string list \<Rightarrow> session \<Rightarrow> prune_counters \<times> session" where
  "delete_orphans driver us ss = fold (delete_orphan driver) us (no_prune, ss)"

subsection \<open>The phase\<close>

datatype phase3_status = PruneDone | PrunePlanned | PrunePartial

datatype phase3_reason =
    NoReason
  | NothingPrunable nat
  | DryRun nat
  | DeleteErrors "string list"
  | GainedEdge nat

record phase3_report =
  p3_status :: phase3_status
  p3_applied :: bool
  p3_plan :: prune_plan
  p3_detail :: string
  p3_reason :: phase3_reason
  p3_counters :: prune_counters

datatype phase3_outcome = PruneUnreachable | PruneReadFailed "read_error list" | Phase3 phase3_report

definition prune_verdict :: "prune_counters \<Rightarrow> phase3_status \<times> phase3_reason" where
  "prune_verdict c =
     (if pc_errors c \<noteq> [] then (PrunePartial, DeleteErrors (pc_errors c))
      else if 0 < pc_still_referenced c then (PrunePartial, GainedEdge (pc_still_referenced c))
      else (PruneDone, NoReason))"

definition run_phase3_prune ::
  "(nat \<Rightarrow> reply) \<Rightarrow> bool \<Rightarrow> string \<Rightarrow> bool \<Rightarrow> session \<Rightarrow> phase3_outcome \<times> session" where
  "run_phase3_prune driver reachable gid force ss0 =
     (if \<not> reachable then (PruneUnreachable, ss0)
      else let (snap, errs, ss1) = load_graph_snapshot driver gid ss0 in
        if errs \<noteq> [] then (PruneReadFailed errs, ss1)
        else let
            plan = plan_orphan_pruning (sn_entities snap) (sn_mentions snap) (sn_relations snap);
            out = \<lparr>p3_status = PruneDone, p3_applied = False, p3_plan = plan, p3_detail = describe_plan plan, p3_reason = NoReason,
                   p3_counters = no_prune\<rparr>
          in if prunable plan = [] then
               (Phase3 (out\<lparr>p3_reason := NothingPrunable (length (pp_candidates plan))\<rparr>), ss1)
             else if \<not> force then
               (Phase3 (out\<lparr>p3_status := PrunePlanned, p3_reason := DryRun (length (prunable plan))\<rparr>), ss1)
             else let
                 (c, ss2) = delete_orphans driver (map or_uuid (prunable plan)) ss1;
                 (status, reason) = prune_verdict c
               in (Phase3 (out\<lparr>p3_status := status, p3_applied := True, p3_reason := reason, p3_counters := c\<rparr>), ss2))"

subsection \<open>What is deleted\<close>

lemma edgeless_same_edges: "gr_edges g' = gr_edges g \<Longrightarrow> edgeless_entity us g' m = edgeless_entity us g m"
  by (simp add: edgeless_entity_def has_edge_def)

lemma edgeless_Cons: "edgeless_entity (u # us) g m \<longleftrightarrow> edgeless_entity [u] g m \<or> edgeless_entity us g m"
  by (auto simp: edgeless_entity_def uuid_in_def split: option.splits)

lemma delete_orphan_cases:
  "delete_orphan driver u (c, ss) = (c', ss') \<Longrightarrow> fst ss' = fst ss \<or> fst ss' = delete_edgeless [u] (fst ss)"
  by (auto simp: delete_orphan_def Let_def split: prod.splits option.splits if_splits
      dest!: read_query_keeps dest: write_query_cases)

lemma delete_orphans_range:
  "fold (delete_orphan driver) us (c, ss) = (c', ss') \<Longrightarrow>
    gr_edges (fst ss') = gr_edges (fst ss) \<and> set (gr_nodes (fst ss')) \<subseteq> set (gr_nodes (fst ss)) \<and>
    (\<forall>m \<in> set (gr_nodes (fst ss)). m \<in> set (gr_nodes (fst ss')) \<or> edgeless_entity us (fst ss) m)"
proof (induction us arbitrary: c ss)
  case (Cons u us)
  obtain c1 ss1 where d: "delete_orphan driver u (c, ss) = (c1, ss1)" by (metis prod.exhaust)
  have step: "gr_edges (fst ss1) = gr_edges (fst ss)" "set (gr_nodes (fst ss1)) \<subseteq> set (gr_nodes (fst ss))"
    "\<forall>m \<in> set (gr_nodes (fst ss)). m \<in> set (gr_nodes (fst ss1)) \<or> edgeless_entity [u] (fst ss) m"
    using delete_orphan_cases [OF d] by auto
  have rest: "gr_edges (fst ss') = gr_edges (fst ss1)" "set (gr_nodes (fst ss')) \<subseteq> set (gr_nodes (fst ss1))"
    "\<forall>m \<in> set (gr_nodes (fst ss1)). m \<in> set (gr_nodes (fst ss')) \<or> edgeless_entity us (fst ss1) m"
    using Cons.IH [of c1 ss1] Cons.prems d by auto
  have "m \<in> set (gr_nodes (fst ss')) \<or> edgeless_entity (u # us) (fst ss) m" if "m \<in> set (gr_nodes (fst ss))" for m
    using that step(3) rest(3) edgeless_same_edges [OF step(1)] edgeless_Cons [of u us] by blast
  with step rest show ?case by auto
qed simp

definition blank_entity :: "gnode \<Rightarrow> bool" where
  "blank_entity m \<longleftrightarrow> gn_label m = Entity \<and> py_strip (or_empty (tprop (gn_props m) ''summary'')) = []"

lemma prunable_blank:
  assumes "u \<in> set (map or_uuid (prunable (plan_orphan_pruning (entities_q gid g) mentions relations)))"
  shows "\<exists>e \<in> set (gr_nodes g). in_group gid e \<and> blank_entity e \<and> nuid e = Some u \<and> u \<notin> set (referenced_uuids mentions relations)"
proof -
  from assms obtain r where r: "r \<in> set (entities_q gid g)" "en_uuid r = Some u" "py_strip (or_empty (en_summary r)) = []"
    "u \<notin> set (referenced_uuids mentions relations)"
    by (auto simp: prunable_def plan_orphan_pruning_def find_orphan_candidates_def orphan_of_def Let_def split: option.splits if_splits)
  then show ?thesis by (auto simp: entities_q_def match_nodes_def entity_row_of_def blank_entity_def)
qed

lemma prune_writes:
  assumes "run_phase3_prune driver reachable gid force (g0, n0) = (out, (g, n))"
  shows "(g = g0 \<and> (\<forall>r. out = Phase3 r \<longrightarrow> \<not> p3_applied r)) \<or>
    (force \<and> (\<exists>c c' ss1 r. out = Phase3 r \<and> p3_applied r \<and> fst ss1 = g0 \<and>
      p3_plan r = plan_orphan_pruning (entities_q gid g0) (mentions_q gid g0) (relations_q gid g0) \<and>
      fold (delete_orphan driver) (map or_uuid (prunable (p3_plan r))) (c, ss1) = (c', (g, n))))"
proof -
  obtain snap errs ss1 where l: "load_graph_snapshot driver gid (g0, n0) = (snap, errs, ss1)" by (metis prod.exhaust)
  have g1: "fst ss1 = g0" using load_keeps_graph [OF l] by simp
  let ?plan = "plan_orphan_pruning (sn_entities snap) (sn_mentions snap) (sn_relations snap)"
  obtain c ss2 where d: "delete_orphans driver (map or_uuid (prunable ?plan)) ss1 = (c, ss2)" by (metis prod.exhaust)
  show ?thesis
  proof (cases "reachable \<and> errs = [] \<and> prunable ?plan \<noteq> [] \<and> force")
    case False
    then show ?thesis using assms l g1 by (auto simp: run_phase3_prune_def Let_def split: if_splits)
  next
    case True
    note snapped = snapshot_of_graph [OF l [unfolded True [THEN conjunct2, THEN conjunct1]]]
    from True assms l d have "ss2 = (g, n)" "\<exists>r. out = Phase3 r \<and> p3_applied r \<and> p3_plan r = ?plan"
      by (auto simp: run_phase3_prune_def Let_def split: prod.splits)
    with True d g1 snapped show ?thesis unfolding delete_orphans_def by (metis fst_conv)
  qed
qed

text \<open>C22: Pruning deletes no edge and only entities that no edge touches; every deleted entity was found blank and unreferenced, by
  its uuid, in the snapshot, so where uuids are unique no summary text is lost; and nothing is deleted unless the phase is forced, whatever the driver does.\<close>

theorem pruning_spares_knowledge:
  assumes "run_phase3_prune driver reachable gid force (g0, n0) = (out, (g, n))"
  shows "gr_edges g = gr_edges g0 \<and> set (gr_nodes g) \<subseteq> set (gr_nodes g0) \<and>
    (\<forall>m \<in> set (gr_nodes g0) - set (gr_nodes g).
       force \<and> gn_label m = Entity \<and> \<not> has_edge g0 m \<and>
       (\<exists>e \<in> set (gr_nodes g0). in_group gid e \<and> blank_entity e \<and> nuid e = nuid m) \<and>
       ((\<forall>e \<in> set (gr_nodes g0). gn_label e = Entity \<and> nuid e = nuid m \<longrightarrow> e = m) \<longrightarrow> blank_entity m))"
  using prune_writes [OF assms]
proof
  assume "force \<and> (\<exists>c c' ss1 r. out = Phase3 r \<and> p3_applied r \<and> fst ss1 = g0 \<and>
      p3_plan r = plan_orphan_pruning (entities_q gid g0) (mentions_q gid g0) (relations_q gid g0) \<and>
      fold (delete_orphan driver) (map or_uuid (prunable (p3_plan r))) (c, ss1) = (c', (g, n)))"
  then obtain c c' ss1 us where force: force and g1: "fst ss1 = g0" and us: "us = map or_uuid (prunable (plan_orphan_pruning (entities_q gid g0) (mentions_q gid g0) (relations_q gid g0)))"
    and run: "fold (delete_orphan driver) us (c, ss1) = (c', (g, n))" by metis
  note range = delete_orphans_range [OF run, unfolded g1 fst_conv]
  have "force \<and> gn_label m = Entity \<and> \<not> has_edge g0 m \<and> (\<exists>e \<in> set (gr_nodes g0). in_group gid e \<and> blank_entity e \<and> nuid e = nuid m)"
    if "m \<in> set (gr_nodes g0) - set (gr_nodes g)" for m
  proof -
    from that range have m: "edgeless_entity us g0 m" by blast
    then obtain u where "nuid m = Some u" "u \<in> set us" by (auto simp: edgeless_entity_def uuid_in_def split: option.splits)
    with prunable_blank [of u gid g0] us have "\<exists>e \<in> set (gr_nodes g0). in_group gid e \<and> blank_entity e \<and> nuid e = nuid m" by metis
    with m force show ?thesis by (simp add: edgeless_entity_def)
  qed
  with range show ?thesis unfolding blank_entity_def by blast
qed simp

definition sample_orphans :: graph where
  "sample_orphans =
     \<lparr>gr_nodes =
        [\<lparr>gn_id = 0, gn_label = Entity, gn_props = [(''uuid'', PyStr ''a''), (''group_id'', PyStr ''g''), (''summary'', PyStr '' '')]\<rparr>,
         \<lparr>gn_id = 1, gn_label = Entity, gn_props = [(''uuid'', PyStr ''b''), (''group_id'', PyStr ''g''), (''summary'', PyStr ''text'')]\<rparr>,
         \<lparr>gn_id = 2, gn_label = Entity, gn_props = [(''uuid'', PyStr ''c''), (''group_id'', PyStr ''g'')]\<rparr>],
      gr_edges = [\<lparr>ge_type = OtherEdge, ge_src = 2, ge_dst = 1, ge_props = []\<rparr>]\<rparr>"

theorem pruning_spares_knowledge_witness:
  "\<exists>out g n. run_phase3_prune calm True ''g'' True (sample_orphans, 0) = (out, (g, n)) \<and> map gn_id (gr_nodes g) = [1, 2] \<and>
     gr_edges g = gr_edges sample_orphans"
proof -
  obtain out g n where run: "run_phase3_prune calm True ''g'' True (sample_orphans, 0) = (out, (g, n))" by (metis prod.exhaust)
  have "map gn_id (gr_nodes (fst (snd (run_phase3_prune calm True ''g'' True (sample_orphans, 0))))) = [1, 2]" by code_simp
  with pruning_spares_knowledge [OF run] run show ?thesis by auto
qed

subsection \<open>With a driver that answers\<close>

lemma edgeless_delete [simp]: "edgeless_entity us (delete_edgeless vs g) = edgeless_entity us g"
  by (intro ext edgeless_same_edges) simp

definition still_orphan :: "graph \<Rightarrow> string \<Rightarrow> bool" where
  "still_orphan g u \<longleftrightarrow> 0 < count_edgeless [u] g"

lemma count_edgeless_other:
  "u \<noteq> v \<Longrightarrow> count_edgeless [u] (delete_edgeless [v] g) = count_edgeless [u] g"
proof -
  assume "u \<noteq> v"
  then have "\<not> (edgeless_entity [u] g m \<and> edgeless_entity [v] g m)" for m
    by (auto simp: edgeless_entity_def uuid_in_def split: option.splits)
  then have "filter (edgeless_entity [u] g) (filter (\<lambda>m. \<not> edgeless_entity [v] g m) (gr_nodes g)) = filter (edgeless_entity [u] g) (gr_nodes g)"
    unfolding filter_filter by (intro filter_cong) blast+
  then show ?thesis by (simp add: count_edgeless_def)
qed

lemma count_entities_other:
  "u \<noteq> v \<Longrightarrow> count_entities u (delete_edgeless [v] g) = count_entities u g"
proof -
  assume "u \<noteq> v"
  then have "\<not> (gn_label m = Entity \<and> uuid_in [u] m \<and> edgeless_entity [v] g m)" for m
    by (auto simp: edgeless_entity_def uuid_in_def split: option.splits)
  then have "filter (\<lambda>m. gn_label m = Entity \<and> uuid_in [u] m) (filter (\<lambda>m. \<not> edgeless_entity [v] g m) (gr_nodes g)) =
      filter (\<lambda>m. gn_label m = Entity \<and> uuid_in [u] m) (gr_nodes g)"
    unfolding filter_filter by (intro filter_cong) blast+
  then show ?thesis by (simp add: count_entities_def match_nodes_def)
qed

lemma delete_edgeless_none: "\<not> still_orphan g u \<Longrightarrow> delete_edgeless [u] g = g"
  by (intro graph.equality) (auto simp: still_orphan_def count_edgeless_def filter_empty_conv filter_id_conv)

lemma delete_edgeless_Cons: "delete_edgeless us (delete_edgeless [u] g) = delete_edgeless (u # us) g"
proof -
  have "gr_nodes (delete_edgeless us (delete_edgeless [u] g)) = gr_nodes (delete_edgeless (u # us) g)"
    unfolding delete_edgeless_nodes edgeless_delete edgeless_Cons [of u us g] by (simp add: conj_commute)
  then show ?thesis by (intro graph.equality) (simp_all del: delete_edgeless_nodes)
qed

lemma calm_delete_orphan:
  assumes "0 < count_entities u g"
  shows "\<exists>n'. delete_orphan calm u (c, (g, n)) =
    (if still_orphan g u then c\<lparr>pc_deleted := pc_deleted c + 1\<rparr> else c\<lparr>pc_still_referenced := pc_still_referenced c + 1\<rparr>,
     (delete_edgeless [u] g, n'))"
  using assms delete_edgeless_none [of g u] by (auto simp: delete_orphan_def still_orphan_def)

lemma calm_delete_orphans:
  "distinct us \<Longrightarrow> (\<forall>u \<in> set us. 0 < count_entities u g) \<Longrightarrow>
    \<exists>n'. fold (delete_orphan calm) us (c, (g, n)) =
      (c\<lparr>pc_deleted := pc_deleted c + length (filter (still_orphan g) us),
         pc_still_referenced := pc_still_referenced c + length (filter (\<lambda>u. \<not> still_orphan g u) us)\<rparr>,
       (delete_edgeless us g, n'))"
proof (induction us arbitrary: c g n)
  case Nil
  have "delete_edgeless [] g = g"
    by (intro graph.equality) (simp_all add: edgeless_entity_def uuid_in_def option.case_eq_if)
  then show ?case by simp
next
  case (Cons u us)
  obtain n1 where d: "delete_orphan calm u (c, (g, n)) =
    (if still_orphan g u then c\<lparr>pc_deleted := pc_deleted c + 1\<rparr> else c\<lparr>pc_still_referenced := pc_still_referenced c + 1\<rparr>,
     (delete_edgeless [u] g, n1))" using calm_delete_orphan [of u g c n] Cons.prems(2) by auto
  have others: "\<forall>v \<in> set us. 0 < count_entities v (delete_edgeless [u] g)"
  proof
    fix v
    assume "v \<in> set us"
    with Cons.prems have "v \<noteq> u" "0 < count_entities v g" by auto
    then show "0 < count_entities v (delete_edgeless [u] g)" using count_entities_other [of v u g] by (metis)
  qed
  have same: "v \<in> set us \<Longrightarrow> still_orphan (delete_edgeless [u] g) v = still_orphan g v" for v
    using Cons.prems(1) count_edgeless_other [of v u g] unfolding still_orphan_def by (metis distinct.simps(2))
  then have f: "filter (still_orphan (delete_edgeless [u] g)) us = filter (still_orphan g) us"
    "filter (\<lambda>v. \<not> still_orphan (delete_edgeless [u] g) v) us = filter (\<lambda>v. \<not> still_orphan g v) us"
    by (intro filter_cong refl; simp)+
  have us: "distinct us" using Cons.prems(1) by simp
  show ?case
  proof (cases "still_orphan g u")
    case True
    with Cons.IH [OF us others, of "c\<lparr>pc_deleted := pc_deleted c + 1\<rparr>" n1] d show ?thesis
      by (simp add: f delete_edgeless_Cons)
  next
    case False
    with Cons.IH [OF us others, of "c\<lparr>pc_still_referenced := pc_still_referenced c + 1\<rparr>" n1] d show ?thesis
      by (simp add: f delete_edgeless_Cons)
  qed
qed

lemma calm_snapshot:
  "\<exists>n1. load_graph_snapshot calm gid (g, n) =
    (\<lparr>sn_entities = entities_q gid g, sn_episodics = episodic_q gid g, sn_mentions = mentions_q gid g, sn_relations = relations_q gid g\<rparr>, [], (g, n1))"
  by (simp add: load_graph_snapshot_def rows_or_error_def)

text \<open>With a driver that answers and unique uuids a forced run deletes exactly the blank unreferenced entities that no edge touches; 
  it reports as deleted exactly those, as left alone the others it had planned, and none as gone, and it is complete unless it left one alone.\<close>

theorem pruning_exact:
  assumes plan: "plan_orphan_pruning (entities_q gid g0) (mentions_q gid g0) (relations_q gid g0) = plan"
    and us: "map or_uuid (prunable plan) = us" "us \<noteq> []" "distinct us"
  shows "\<exists>r n'. run_phase3_prune calm True gid True (g0, n) = (Phase3 r, (delete_edgeless us g0, n')) \<and> p3_plan r = plan \<and> p3_applied r \<and>
    pc_deleted (p3_counters r) = length (filter (still_orphan g0) us) \<and>
    pc_deleted (p3_counters r) + pc_still_referenced (p3_counters r) = length us \<and> pc_already_gone (p3_counters r) = 0 \<and>
    (p3_status r = PruneDone \<longleftrightarrow> (\<forall>u \<in> set us. still_orphan g0 u)) \<and> (p3_status r = PruneDone \<or> p3_status r = PrunePartial)"
proof -
  have here: "0 < count_entities u g0" if "u \<in> set us" for u
  proof -
    from that us(1) plan have "u \<in> set (map or_uuid (prunable (plan_orphan_pruning (entities_q gid g0) (mentions_q gid g0) (relations_q gid g0))))" by simp
    from prunable_blank [OF this] have "\<exists>e \<in> set (gr_nodes g0). gn_label e = Entity \<and> uuid_in [u] e"
      by (auto simp: blank_entity_def uuid_in_def)
    then show ?thesis by (auto simp: count_entities_def match_nodes_def filter_empty_conv)
  qed
  obtain n1 where l: "load_graph_snapshot calm gid (g0, n) =
    (\<lparr>sn_entities = entities_q gid g0, sn_episodics = episodic_q gid g0, sn_mentions = mentions_q gid g0, sn_relations = relations_q gid g0\<rparr>, [], (g0, n1))"
    using calm_snapshot by blast
  obtain n2 where d: "delete_orphans calm us (g0, n1) =
      (no_prune\<lparr>pc_deleted := length (filter (still_orphan g0) us), pc_still_referenced := length (filter (\<lambda>u. \<not> still_orphan g0 u) us)\<rparr>,
       (delete_edgeless us g0, n2))"
    using calm_delete_orphans [OF us(3), of g0 no_prune n1] here unfolding delete_orphans_def by (auto simp: no_prune_def)
  have "prunable plan \<noteq> []" using us by auto
  moreover have "length (filter (still_orphan g0) us) + length (filter (\<lambda>u. \<not> still_orphan g0 u) us) = length us"
    by (rule sum_length_filter_compl)
  ultimately show ?thesis
    by (auto simp: run_phase3_prune_def l plan us(1) d prune_verdict_def no_prune_def filter_empty_conv)
qed

theorem pruning_exact_witness:
  "\<exists>r n'. run_phase3_prune calm True ''g'' True (sample_orphans, 0) = (Phase3 r, (delete_edgeless [''a'', ''c''] sample_orphans, n')) \<and>
     pc_deleted (p3_counters r) = 1 \<and> p3_status r = PrunePartial"
proof -
  have us: "map or_uuid (prunable (plan_orphan_pruning (entities_q ''g'' sample_orphans) (mentions_q ''g'' sample_orphans) (relations_q ''g'' sample_orphans))) = [''a'', ''c'']"
    by code_simp
  have "filter (still_orphan sample_orphans) [''a'', ''c''] = [''a'']" by code_simp
  moreover from this have "\<not> still_orphan sample_orphans ''c''" by (simp split: if_splits)
  ultimately show ?thesis using pruning_exact [OF refl us, of 0] by force
qed

text \<open>The detail of the report is written before the deletion.\<close>

lemma prune_detail_reports_zero:
  assumes "run_phase3_prune driver reachable gid force ss = (Phase3 r, ss')"
  shows "p3_detail r = describe_plan (p3_plan r) \<and> pp_deleted (p3_plan r) = 0"
  using assms by (auto simp: run_phase3_prune_def plan_orphan_pruning_def Let_def split: prod.splits if_splits)

end
