(* ===== verification/Dream.thy ===== *)
theory Dream
  imports DreamPrune QueueRuns
begin

text \<open>
  \<open>pipeline/dream.py\<close>: one nightly run, its four phases, its report and its row of the audit table, against the graph and
  the tables of the queue.  A phase text is kept as far as the run itself reads it: the text of phase 1 in
  full, the status word of phases 2 and 3, and the word \<open>FAILED\<close> without the text of the exception.
\<close>

subsection \<open>The settings a run reads\<close>

record replay_attrs =
  ra_enabled :: "bool option"
  ra_limit :: "int option"
  ra_classes :: "string list option"
  ra_min_age :: "int option"

text \<open>\<open>pipeline.dream.x\<close> and the older \<open>dream.x\<close>; a missing attribute is \<open>None\<close>.\<close>

record dream_config =
  dm_graph_group :: "string option"
  dm_threshold :: "pyval option"
  dm_old_threshold :: "pyval option"
  dm_degree :: "pyval option"
  dm_old_degree :: "pyval option"
  dm_apply :: "pyval option"
  dm_pipeline :: pipeline_attrs
  dm_replay :: "replay_attrs option"

definition present_attr :: "pyval option \<Rightarrow> pyval option" where
  "present_attr v = (if v = Some PyNone then None else v)"

definition first_attr :: "pyval option \<Rightarrow> pyval option \<Rightarrow> pyval option" where
  "first_attr v old = (case present_attr v of None \<Rightarrow> present_attr old | Some x \<Rightarrow> Some x)"

definition default_threshold :: rat where "default_threshold = 4 / 5"

definition dedup_threshold :: "dream_config \<Rightarrow> py_exception + rat" where
  "dedup_threshold cfg =
     (case first_attr (dm_threshold cfg) (dm_old_threshold cfg) of
        None \<Rightarrow> Inr default_threshold
      | Some raw \<Rightarrow>
          (case py_float raw of
             Inl e \<Rightarrow> if e \<in> {TypeError, ValueError} then Inr default_threshold else Inl e
           | Inr (FFin r) \<Rightarrow> Inr (if 0 \<le> r \<and> r \<le> 1 then r else default_threshold)
           | Inr _ \<Rightarrow> Inr default_threshold))"

definition default_pin_degree :: nat where "default_pin_degree = 3"

definition cluster_min_degree :: "dream_config \<Rightarrow> py_exception + nat" where
  "cluster_min_degree cfg =
     (case first_attr (dm_degree cfg) (dm_old_degree cfg) of
        None \<Rightarrow> Inr default_pin_degree
      | Some raw \<Rightarrow>
          (case py_int raw of
             Inl e \<Rightarrow> if e \<in> {TypeError, ValueError} then Inr default_pin_degree else Inl e
           | Inr i \<Rightarrow> Inr (if 0 \<le> i then nat i else default_pin_degree)))"

definition dedup_apply :: "dream_config \<Rightarrow> bool" where
  "dedup_apply cfg = (case dm_apply cfg of None \<Rightarrow> False | Some v \<Rightarrow> py_truthy v)"

definition dedup_group :: "dream_config \<Rightarrow> string option \<Rightarrow> string" where
  "dedup_group cfg gid =
     (case nonempty gid of Some g \<Rightarrow> g
      | None \<Rightarrow> (case nonempty (dm_graph_group cfg) of Some g \<Rightarrow> g | None \<Rightarrow> ''graphiti_memory''))"

subsection \<open>Phase 1\<close>

definition describe_clusters :: "cluster_result \<Rightarrow> string" where
  "describe_clusters r =
     (if cr_nodes r = 0 then ''SKIPPED (no entities in the snapshot)''
      else joined ''; ''
        ([decimal (cr_communities r) @ '' communities over '' @ decimal (cr_nodes r) @ '' nodes'',
          if cr_cycle r then ''deterministic-after-cycle-resolution'' else ''deterministic'',
          ''rounds='' @ decimal (cr_rounds r),
          ''structural floor: '' @ decimal (cr_components r) @ '' components, largest '' @ decimal (cr_largest_component r),
          ''hash='' @ cr_hash r] @
         (if cr_pinned r = 0 then []
          else [decimal (cr_pinned r) @ '' low-degree nodes pinned (min_degree='' @ decimal (cr_min_degree r) @ '')'']) @
         (if cr_converged r then [] else [''did not converge in '' @ decimal (cr_rounds r) @ '' rounds'']) @
         (if cr_cycle r then [''2-cycle on '' @ decimal (cr_oscillating r) @ '' nodes resolved by smallest-uuid rule''] else []) @
         (if cr_oversized r
          then [''CAVEAT largest community '' @ decimal (cr_largest_community r) @ '' exceeds the largest connected component '' @
                decimal (cr_largest_component r) @ '', so this count is not a semantic clustering'']
          else [])))"

definition cluster_report :: "cluster_result \<Rightarrow> int \<Rightarrow> int \<Rightarrow> bool \<Rightarrow> string" where
  "cluster_report r episodes threshold force =
     (let gate = (if force then ''forced'' else ''gated'');
          why =
            (if force then
               ''force=True bypassed the '' @ show_int threshold @ ''-episode threshold ('' @ show_int episodes @ '' episodes)''
             else if threshold \<le> episodes then ''gate passed ('' @ show_int episodes @ '' episodes >= '' @ show_int threshold @ '')''
             else ''gate closed ('' @ show_int episodes @ '' episodes < '' @ show_int threshold @ '')'')
      in (if cr_nodes r = 0 then ''SKIPPED ('' else ''DONE ('') @ gate @ '', '' @ why @ ''): '' @ describe_clusters r)"

datatype phase1_outcome = ClusterUnreachable | ClusterReadFailed "read_error list" | Clustered cluster_result

definition run_phase1_cluster ::
  "(nat \<Rightarrow> reply) \<Rightarrow> (string \<Rightarrow> string) \<Rightarrow> (string list \<Rightarrow> string list) \<Rightarrow> bool \<Rightarrow> string \<Rightarrow> nat \<Rightarrow> session \<Rightarrow> phase1_outcome \<times> session" where
  "run_phase1_cluster driver digest it up gid degree ss0 =
     (if \<not> up then (ClusterUnreachable, ss0)
      else let (snap, errs, ss1) = load_graph_snapshot driver gid ss0 in
        if errs \<noteq> [] then (ClusterReadFailed errs, ss1)
        else (Clustered (cluster_graph digest it (build_adjacency (sn_entities snap) (sn_relations snap)) degree default_max_rounds), ss1))"

definition no_clusters :: cluster_result where
  "no_clusters =
     \<lparr>cr_nodes = 0, cr_communities = 0, cr_rounds = 0, cr_converged = True, cr_cycle = False, cr_oscillating = 0, cr_pinned = 0,
      cr_components = 0, cr_largest_component = 0, cr_largest_community = 0, cr_min_degree = 0, cr_hash = [], cr_oversized = False\<rparr>"

definition phase1_result :: "phase1_outcome \<Rightarrow> cluster_result" where
  "phase1_result o1 = (case o1 of Clustered r \<Rightarrow> r | _ \<Rightarrow> no_clusters)"

definition phase1_community_count :: "phase1_outcome \<Rightarrow> nat" where
  "phase1_community_count o1 = (case o1 of Clustered r \<Rightarrow> cr_communities r | _ \<Rightarrow> 0)"

subsection \<open>The report of a run\<close>

datatype replay_line = NotReached | Replayed int | ReplayOff

record dream_results =
  dn_status :: string
  dn_phase1 :: string
  dn_phase2 :: string
  dn_phase3 :: string
  dn_phase4 :: string
  dn_communities :: nat
  dn_detail2 :: "phase2_outcome option"
  dn_detail3 :: "phase3_outcome option"
  dn_nodes_before :: int
  dn_nodes_after :: int
  dn_fairness :: "fairness option"
  dn_replay :: replay_line
  dn_dlq_open :: "int option"
  dn_failed :: "string list"

definition new_results :: dream_results where
  "new_results =
     \<lparr>dn_status = ''running'', dn_phase1 = ''SKIPPED'', dn_phase2 = ''PENDING'', dn_phase3 = ''PENDING'', dn_phase4 = ''PENDING'',
      dn_communities = 0, dn_detail2 = None, dn_detail3 = None, dn_nodes_before = 0, dn_nodes_after = 0, dn_fairness = None,
      dn_replay = NotReached, dn_dlq_open = None, dn_failed = []\<rparr>"

text \<open>The calls of the queue a run makes; any of them may raise, and then it has no effect.\<close>

datatype queue_call = InsertRun | CountEpisodes | Reap | Fairness | ReplayBatch | CountOpen | CountClasses | FinalCount | UpdateRun

text \<open>What surrounds a run: the graph driver, whether the graph can be opened in a phase, the failing queue calls, hash
  functions, serialiser and set order, the run id and the clock at the places where it is read.\<close>

record dream_env =
  ev_driver :: "nat \<Rightarrow> reply"
  ev_reachable :: "nat \<Rightarrow> bool"
  ev_down :: "queue_call \<Rightarrow> bool"
  ev_digest :: "string \<Rightarrow> string"
  ev_sha1 :: "string \<Rightarrow> string"
  ev_dumps :: "pyval \<Rightarrow> string"
  ev_order :: "string list \<Rightarrow> string list"
  ev_run_id :: string
  ev_started :: int
  ev_undo_at :: int
  ev_reaped_at :: int
  ev_replayed_at :: int
  ev_completed :: int
  ev_community_threshold :: int

type_synonym dream_state = "dream_results \<times> session \<times> store"

definition status_count :: "ep_status \<Rightarrow> store \<Rightarrow> int" where
  "status_count st s = (case map_of (fst (get_stats s)) st of Some n \<Rightarrow> n | None \<Rightarrow> 0)"

definition dream_phase1 :: "dream_env \<Rightarrow> dream_config \<Rightarrow> bool \<Rightarrow> string \<Rightarrow> dream_state \<Rightarrow> dream_state" where
  "dream_phase1 env cfg force gid d =
     (let (r, ss, s) = d in
      if ev_down env CountEpisodes then (r\<lparr>dn_phase1 := ''FAILED''\<rparr>, ss, s)
      else case cluster_min_degree cfg of
          Inl e \<Rightarrow> (r\<lparr>dn_phase1 := ''FAILED''\<rparr>, ss, s)
        | Inr degree \<Rightarrow>
            (let episodes = status_count Done s + status_count Queued s;
                 (o1, ss1) = run_phase1_cluster (ev_driver env) (ev_digest env) (ev_order env) (ev_reachable env 1) gid degree ss
             in (r\<lparr>dn_phase1 := cluster_report (phase1_result o1) episodes (ev_community_threshold env) force,
                   dn_communities := phase1_community_count o1\<rparr>, ss1, s)))"

definition phase2_word :: "phase2_outcome \<Rightarrow> string" where
  "phase2_word o2 =
     (case o2 of Unreachable \<Rightarrow> ''SKIPPED'' | ReadFailed errs \<Rightarrow> ''FAILED''
      | Phase2 r \<Rightarrow> (case p2_status r of PhaseDone \<Rightarrow> ''DONE'' | PhasePartial \<Rightarrow> ''PARTIAL''))"

definition dream_phase2 :: "dream_env \<Rightarrow> dream_config \<Rightarrow> bool \<Rightarrow> string \<Rightarrow> dream_state \<Rightarrow> dream_state" where
  "dream_phase2 env cfg force gid d =
     (let (r, ss, s) = d in
      case dedup_threshold cfg of
        Inl e \<Rightarrow> (r\<lparr>dn_phase2 := ''FAILED''\<rparr>, ss, s)
      | Inr threshold \<Rightarrow>
          (let (o2, ss2, s2) = run_phase2_dedup (ev_driver env) (ev_sha1 env) (ev_dumps env) threshold (ev_reachable env 2) gid
                 (force \<or> dedup_apply cfg) (phase2_writer True (ev_run_id env) (ev_undo_at env)) (ss, s)
           in (r\<lparr>dn_phase2 := phase2_word o2, dn_detail2 := Some o2,
                 dn_nodes_before := (case o2 of Phase2 p \<Rightarrow> int (p2_entities_seen p) | _ \<Rightarrow> dn_nodes_before r)\<rparr>, ss2, s2)))"

definition phase3_word :: "phase3_outcome \<Rightarrow> string" where
  "phase3_word o3 =
     (case o3 of PruneUnreachable \<Rightarrow> ''SKIPPED'' | PruneReadFailed errs \<Rightarrow> ''FAILED''
      | Phase3 r \<Rightarrow> (case p3_status r of PruneDone \<Rightarrow> ''DONE'' | PrunePlanned \<Rightarrow> ''PLANNED'' | PrunePartial \<Rightarrow> ''PARTIAL''))"

definition phase3_deleted :: "phase3_outcome \<Rightarrow> int" where
  "phase3_deleted o3 = (case o3 of Phase3 r \<Rightarrow> int (pc_deleted (p3_counters r)) | _ \<Rightarrow> 0)"

definition dream_phase3 :: "dream_env \<Rightarrow> bool \<Rightarrow> string \<Rightarrow> dream_state \<Rightarrow> dream_state" where
  "dream_phase3 env force gid d =
     (let (r, ss, s) = d; (o3, ss3) = run_phase3_prune (ev_driver env) (ev_reachable env 3) gid force ss in
      (r\<lparr>dn_phase3 := phase3_word o3, dn_detail3 := Some o3,
         dn_nodes_after := max 0 (dn_nodes_before r - phase3_deleted o3)\<rparr>, ss3, s))"

definition attr_or :: "'a option \<Rightarrow> 'a \<Rightarrow> 'a" where
  "attr_or v d = (case v of Some x \<Rightarrow> x | None \<Rightarrow> d)"

definition replay_enabled :: "dream_config \<Rightarrow> bool" where
  "replay_enabled cfg = (case dm_replay cfg of None \<Rightarrow> False | Some a \<Rightarrow> attr_or (ra_enabled a) True)"

text \<open>\<open>int(x or 3)\<close>.\<close>

definition attempts_or_default :: "int option \<Rightarrow> int" where
  "attempts_or_default n = (case n of Some i \<Rightarrow> if i = 0 then 3 else i | None \<Rightarrow> 3)"

definition dream_reap :: "dream_env \<Rightarrow> dream_config \<Rightarrow> store \<Rightarrow> int \<times> store" where
  "dream_reap env cfg s = reap_failed_or_aborted None (Some (from_settings (Some (dm_pipeline cfg)))) (ev_reaped_at env) s"

definition dream_replay :: "dream_env \<Rightarrow> dream_config \<Rightarrow> store \<Rightarrow> int \<times> store" where
  "dream_replay env cfg s =
     (case dm_replay cfg of
        None \<Rightarrow> (0, s)
      | Some a \<Rightarrow>
          replay_dlq_batch (attr_or (ra_limit a) 100) (ra_classes a) (attr_or (ra_min_age a) 60)
            (Some (from_settings (Some (dm_pipeline cfg)))) (ev_replayed_at env) s)"

text \<open>The end of phase 4: the open dead letters, and the count per class.\<close>

definition dream_dlq_health :: "dream_env \<Rightarrow> dream_state \<Rightarrow> dream_state" where
  "dream_dlq_health env d =
     (let (r, ss, s) = d in
      if ev_down env CountOpen then (r\<lparr>dn_phase4 := ''FAILED''\<rparr>, ss, s)
      else let r1 = r\<lparr>dn_dlq_open := Some (snd (get_stats s))\<rparr> in
        if ev_down env CountClasses then (r1\<lparr>dn_phase4 := ''FAILED''\<rparr>, ss, s) else (r1, ss, s))"

definition dream_phase4 :: "dream_env \<Rightarrow> dream_config \<Rightarrow> dream_state \<Rightarrow> dream_state" where
  "dream_phase4 env cfg d =
     (let (r, ss, s) = d in
      if ev_down env Reap then (r\<lparr>dn_phase4 := ''FAILED''\<rparr>, ss, s)
      else let (n, s1) = dream_reap env cfg s; r1 = r\<lparr>dn_phase4 := ''DONE ('' @ show_int n @ '' requeued)''\<rparr> in
        if ev_down env Fairness then (r1\<lparr>dn_phase4 := ''FAILED''\<rparr>, ss, s1)
        else let r2 = r1\<lparr>dn_fairness := Some (reap_fairness_stats (attempts_or_default (pl_max_attempts (dm_pipeline cfg))) s1)\<rparr> in
          if \<not> replay_enabled cfg then dream_dlq_health env (r2\<lparr>dn_replay := ReplayOff\<rparr>, ss, s1)
          else if ev_down env ReplayBatch then (r2\<lparr>dn_phase4 := ''FAILED''\<rparr>, ss, s1)
          else let (m, s2) = dream_replay env cfg s1 in dream_dlq_health env (r2\<lparr>dn_replay := Replayed m\<rparr>, ss, s2))"

text \<open>The phases whose text starts with \<open>FAILED\<close>.\<close>

definition failed_phases :: "dream_results \<Rightarrow> string list" where
  "failed_phases r =
     map fst (filter (\<lambda>(k, t). prefix ''FAILED'' t)
       [(''phase_1_clustering'', dn_phase1 r), (''phase_2_deduplication'', dn_phase2 r), (''phase_3_orphan_pruning'', dn_phase3 r),
        (''phase_4_dlq_repair'', dn_phase4 r)])"

definition judge_run :: "dream_results \<Rightarrow> dream_results" where
  "judge_run r =
     (if failed_phases r = [] then r\<lparr>dn_status := ''completed''\<rparr>
      else r\<lparr>dn_status := ''completed_with_failures'', dn_failed := failed_phases r\<rparr>)"

definition started_row :: "dream_env \<Rightarrow> dream_run" where
  "started_row env =
     \<lparr>dr_run_id = ev_run_id env, dr_started_at = ev_started env, dr_completed_at = None, dr_status = ''running'', dr_evaluated = 0,
      dr_phase1 = ''SKIPPED'', dr_phase2 = ''PENDING'', dr_phase3 = ''PENDING'', dr_phase4 = ''PENDING'', dr_error = None\<rparr>"

definition open_run :: "dream_env \<Rightarrow> store \<Rightarrow> store" where
  "open_run env s = (if ev_down env InsertRun then s else record_dream_run (started_row env) s)"

definition closing_update :: "dream_env \<Rightarrow> dream_results \<Rightarrow> store \<Rightarrow> run_update" where
  "closing_update env r s =
     \<lparr>ru_completed_at = Some (ev_completed env), ru_status = Some (dn_status r),
      ru_evaluated = Some (if ev_down env FinalCount then 0 else sum_list (map snd (fst (get_stats s)))),
      ru_phase1 = Some (dn_phase1 r), ru_phase2 = Some (dn_phase2 r), ru_phase3 = Some (dn_phase3 r), ru_phase4 = Some (dn_phase4 r),
      ru_error = (if dn_failed r = [] then None else Some (joined ''; '' (dn_failed r)))\<rparr>"

definition close_run :: "dream_env \<Rightarrow> dream_results \<Rightarrow> store \<Rightarrow> store" where
  "close_run env r s =
     (if ev_down env UpdateRun then s else update_dream_run (ev_run_id env) (closing_update env r s) s)"

definition run_dream_consolidation ::
  "dream_env \<Rightarrow> dream_config \<Rightarrow> bool \<Rightarrow> string option \<Rightarrow> session \<times> store \<Rightarrow> dream_state" where
  "run_dream_consolidation env cfg force group_id x =
     (let (ss, s) = x; gid = dedup_group cfg group_id;
          (r, ss', s') =
            dream_phase4 env cfg (dream_phase3 env force gid (dream_phase2 env cfg force gid
              (dream_phase1 env cfg force gid (new_results, ss, open_run env s))));
          r' = judge_run r
      in (r', ss', close_run env r' s'))"

subsection \<open>The superseded clustering\<close>

text \<open>\<open>bounded_label_propagation\<close>: the neighbours of a node with their edge counts, in the order of the dict.\<close>

type_synonym projection = "(string \<times> (string \<times> nat) list) list"

definition vote :: "labels \<Rightarrow> string \<times> nat \<Rightarrow> (nat \<times> nat) list \<Rightarrow> (nat \<times> nat) list" where
  "vote cm nb votes =
     (case map_of cm (fst nb) of
        None \<Rightarrow> votes
      | Some c \<Rightarrow> AList.update c (attr_or (map_of votes c) 0 + snd nb) votes)"

text \<open>The greatest pair of count and community; no candidate is \<open>(0, -1)\<close>.\<close>

definition leading :: "(nat \<times> nat) list \<Rightarrow> nat \<times> int" where
  "leading votes =
     (case sort (map (\<lambda>(c, n). (n, c)) votes) of [] \<Rightarrow> (0, -1) | v # vs \<Rightarrow> (case last (v # vs) of (n, c) \<Rightarrow> (n, int c)))"

definition new_community :: "labels \<Rightarrow> (string \<times> nat) list \<Rightarrow> nat \<Rightarrow> nat" where
  "new_community cm neighbors cur =
     (let (rank, cand) = leading (fold (vote cm) neighbors []) in
      if cand \<noteq> -1 \<and> 1 < rank then nat cand else nat (max cand (int cur)))"

definition propagate_once :: "projection \<Rightarrow> labels \<Rightarrow> labels" where
  "propagate_once proj cm = map (\<lambda>(u, ns). (u, new_community cm ns (label_of cm u))) proj"

fun propagate :: "nat \<Rightarrow> projection \<Rightarrow> labels \<Rightarrow> labels" where
  "propagate 0 proj cm = cm"
| "propagate (Suc n) proj cm = (let cm' = propagate_once proj cm in if cm' = cm then cm' else propagate n proj cm')"

definition max_label_iterations :: nat where "max_label_iterations = 20"

definition bounded_label_propagation :: "nat \<Rightarrow> projection \<Rightarrow> string list list" where
  "bounded_label_propagation max_iter proj =
     label_groups (propagate max_iter proj (initial_labels (map fst proj)))"

text \<open>The partition depends on the order of the dict: \<open>a\<close> joined to \<open>b\<close> by one edge and to \<open>c\<close> by two.\<close>

lemma propagation_depends_on_order:
  "bounded_label_propagation max_label_iterations [(''b'', [(''a'', 1)]), (''a'', [(''b'', 1), (''c'', 2)]), (''c'', [(''a'', 2)])] = [[''b'', ''c''], [''a'']]"
  "bounded_label_propagation max_label_iterations [(''c'', [(''a'', 2)]), (''b'', [(''a'', 1)]), (''a'', [(''b'', 1), (''c'', 2)])] = [[''c''], [''b'', ''a'']]"
  by code_simp+

text \<open>The threshold of a run is a similarity.\<close>

lemma dedup_threshold_range: "dedup_threshold cfg = Inr t \<Longrightarrow> 0 \<le> t \<and> t \<le> 1"
  by (auto simp: dedup_threshold_def default_threshold_def split: option.splits sum.splits pyfloat.splits if_splits)

end
