(* ===== verification/DreamRun.thy ===== *)
theory DreamRun
  imports Dream
begin

text \<open>
  What a dream run may do: the graph, the history of the queue tables, the audit row and the verdict.
\<close>

lemma right_iff: "(\<exists>d. y = Inr d) \<longleftrightarrow> \<not> (\<exists>e. y = Inl e)"
  by (cases y) auto

lemma filter_split: "filter (\<lambda>x. \<not> P x) xs = [] \<Longrightarrow> filter P xs = ys \<Longrightarrow> xs = ys"
  by (auto simp: filter_empty_conv filter_id_conv)

subsection \<open>The audit tables\<close>

definition audit_same :: "store \<Rightarrow> store \<Rightarrow> bool" where
  "audit_same s t \<longleftrightarrow> st_runs t = st_runs s \<and> st_undo t = st_undo s"

lemma audit_refl [simp]: "audit_same s s"
  by (simp add: audit_same_def)

lemma audit_trans: "audit_same s t \<Longrightarrow> audit_same t u \<Longrightarrow> audit_same s u"
  by (simp add: audit_same_def)

lemma write_rows_audit: "write_rows p f s = Some t \<Longrightarrow> audit_same s t"
  by (auto simp: write_rows_def audit_same_def store_simps split: if_splits)

lemma requeue_guarded_audit: "requeue_guarded ids now extra s = (t, done') \<Longrightarrow> audit_same s t"
proof (induction ids arbitrary: s t done')
  case (Cons i ids)
  then show ?case by (auto split: option.splits prod.splits dest!: write_rows_audit intro: audit_trans)
qed simp

lemma reap_audit: "audit_same s (snd (reap_failed_or_aborted limit policy now s))"
  by (auto simp: reap_failed_or_aborted_def Let_def split: prod.splits dest: requeue_guarded_audit)

lemma replay_rows_audit: "audit_same s (snd (replay_rows now ds s))"
proof (induction ds arbitrary: s)
  case (Cons d ds)
  have close: "audit_same s (set_dead p f s)" for p f s by (simp add: audit_same_def store_simps)
  show ?case
    using Cons.IH close by (auto simp: Let_def split: option.splits prod.splits dest!: write_rows_audit intro: audit_trans) (metis audit_trans snd_conv)+
qed simp

lemma undo_store:
  "undo_and_delete driver dumps writer gid batch merges victims edges (x, s) = (y, s') \<Longrightarrow>
    s' = s \<or> (\<exists>w rows. writer = Some w \<and> s' = snd (w rows s))"
  by (auto simp: undo_and_delete_def Let_def split: prod.splits option.splits if_splits) (metis snd_conv)+

lemma phase2_store:
  assumes "run_phase2_dedup driver sha1 dumps threshold up gid force writer (ss, s) = (out, ss', s')"
  shows "s' = s \<or> (\<exists>w rows. writer = Some w \<and> s' = snd (w rows s))"
proof -
  obtain snap errs ss1 where l: "load_graph_snapshot driver gid ss = (snap, errs, ss1)" by (metis prod.exhaust)
  obtain c g2 n2 where a: "apply_plan driver (plan_dedup threshold (sn_entities snap) (sn_mentions snap) (sn_relations snap)) force default_batch ss1 = (c, (g2, n2))"
    by (metis prod.exhaust)
  obtain fc g3 n3 s3 where f: "apply_episodic_plan driver dumps (plan_episodic_exact_dups sha1 (sn_episodics snap)) force default_batch writer gid ((g2, n2), s) =
      ((fc, (g3, n3)), s3)" by (metis prod.exhaust)
  have "s' = s \<or> s' = s3" using assms l a f by (auto simp: run_phase2_dedup_def Let_def split: if_splits)
  moreover have "s3 = s \<or> (\<exists>w rows. writer = Some w \<and> s3 = snd (w rows s))"
    using apply_episodic_stages [OF f] undo_store by (auto simp: fold_staged_def Let_def) metis+
  ultimately show ?thesis by blast
qed

lemma dry_phase2:
  assumes "run_phase2_dedup driver sha1 dumps threshold up gid False writer (ss, s) = (out, ss', s')"
  shows "fst ss' = fst ss \<and> s' = s"
proof -
  obtain snap errs ss1 where l: "load_graph_snapshot driver gid ss = (snap, errs, ss1)" by (metis prod.exhaust)
  obtain g1 n1 where ss1: "ss1 = (g1, n1)" by (cases ss1)
  define plan where "plan = plan_dedup threshold (sn_entities snap) (sn_mentions snap) (sn_relations snap)"
  define folds where "folds = plan_episodic_exact_dups sha1 (sn_episodics snap)"
  obtain c where a: "apply_plan driver plan False default_batch ss1 = (c, ss1)" using dry_apply_plan by (metis prod.exhaust)
  obtain fc g3 n3 s3 where f: "apply_episodic_plan driver dumps folds False default_batch writer gid ((g1, n1), s) = ((fc, (g3, n3)), s3)"
    by (metis prod.exhaust)
  from dry_episodic_plan [OF f] have "g3 = g1" "s3 = s" by auto
  then have "(ss' = ss \<or> ss' = ss1 \<or> ss' = (g1, n3)) \<and> s' = s"
    using assms l a f by (auto simp: run_phase2_dedup_def ss1 plan_def [symmetric] folds_def [symmetric] split: if_splits)
  with load_keeps_graph [OF l] ss1 show ?thesis by auto
qed

lemma queue_writer_store:
  "snd (queue_undo_writer run now rows s) = snd (record_episodic_undo run rows now s)"
  by (cases s) (simp add: queue_undo_writer_def record_episodic_undo_sync_def record_episodic_undo_def split: prod.splits)

subsection \<open>Phase by phase\<close>

lemma phase1_frame:
  assumes "dream_phase1 env cfg force gid (r, ss, s) = (r', ss', s')"
  shows "fst ss' = fst ss" "s' = s" "dn_phase2 r' = dn_phase2 r" "dn_phase3 r' = dn_phase3 r" "dn_phase4 r' = dn_phase4 r"
    "dn_failed r' = dn_failed r" "dn_detail2 r' = dn_detail2 r" "dn_detail3 r' = dn_detail3 r" "dn_nodes_before r' = dn_nodes_before r"
  using assms by (auto simp: dream_phase1_def run_phase1_cluster_def Let_def dest!: load_keeps_graph split: if_splits sum.splits prod.splits)

lemma report_not_failed: "\<not> prefix ''FAILED'' (cluster_report r n m force)"
  by (simp add: cluster_report_def Let_def)

lemma phase1_failed:
  assumes "dream_phase1 env cfg force gid (r, ss, s) = (r', ss', s')"
  shows "prefix ''FAILED'' (dn_phase1 r') \<longleftrightarrow> ev_down env CountEpisodes \<or> (\<exists>e. cluster_min_degree cfg = Inl e)"
  using assms by (auto simp: dream_phase1_def Let_def report_not_failed split: if_splits sum.splits prod.splits)

lemma phase2_frame:
  assumes "dream_phase2 env cfg force gid (r, ss, s) = (r', ss', s')"
  shows "dn_phase1 r' = dn_phase1 r" "dn_phase3 r' = dn_phase3 r" "dn_phase4 r' = dn_phase4 r" "dn_failed r' = dn_failed r" 
    "dn_detail3 r' = dn_detail3 r" "\<not> force \<Longrightarrow> \<not> dedup_apply cfg \<Longrightarrow> fst ss' = fst ss \<and> s' = s"
    "s' = s \<or> (\<exists>rows. s' = snd (record_episodic_undo (ev_run_id env) rows (ev_undo_at env) s))"
    "prefix ''FAILED'' (dn_phase2 r') \<longleftrightarrow> (\<exists>e. dedup_threshold cfg = Inl e) \<or> (\<exists>errs. dn_detail2 r' = Some (ReadFailed errs))"
proof -
  show "dn_phase1 r' = dn_phase1 r" "dn_phase3 r' = dn_phase3 r" "dn_phase4 r' = dn_phase4 r" "dn_failed r' = dn_failed r" 
    "dn_detail3 r' = dn_detail3 r"
    using assms by (auto simp: dream_phase2_def Let_def split: sum.splits prod.splits)
  show "fst ss' = fst ss \<and> s' = s" if "\<not> force" "\<not> dedup_apply cfg"
    using assms that by (auto simp: dream_phase2_def Let_def dest: dry_phase2 split: sum.splits prod.splits)
  show "s' = s \<or> (\<exists>rows. s' = snd (record_episodic_undo (ev_run_id env) rows (ev_undo_at env) s))"
    using assms by (auto simp: dream_phase2_def Let_def phase2_writer_def queue_writer_store split: sum.splits prod.splits if_splits dest!: phase2_store)
  show "prefix ''FAILED'' (dn_phase2 r') \<longleftrightarrow> (\<exists>e. dedup_threshold cfg = Inl e) \<or> (\<exists>errs. dn_detail2 r' = Some (ReadFailed errs))"
    using assms by (auto simp: dream_phase2_def Let_def phase2_word_def split: sum.splits prod.splits phase2_outcome.splits phase2_status.splits)
qed

lemma phase3_frame:
  assumes "dream_phase3 env force gid (r, ss, s) = (r', ss', s')"
  shows "s' = s" "dn_phase1 r' = dn_phase1 r" "dn_phase2 r' = dn_phase2 r" "dn_phase4 r' = dn_phase4 r" "dn_failed r' = dn_failed r"
    "dn_detail2 r' = dn_detail2 r"
    "\<not> force \<Longrightarrow> fst ss' = fst ss"
    "prefix ''FAILED'' (dn_phase3 r') \<longleftrightarrow> (\<exists>errs. dn_detail3 r' = Some (PruneReadFailed errs))"
proof -
  show "s' = s" "dn_phase1 r' = dn_phase1 r" "dn_phase2 r' = dn_phase2 r" "dn_phase4 r' = dn_phase4 r" "dn_failed r' = dn_failed r" "dn_detail2 r' = dn_detail2 r"
    using assms by (auto simp: dream_phase3_def split: prod.splits)
  show "fst ss' = fst ss" if "\<not> force"
  proof -
    obtain g0 n0 where ss: "ss = (g0, n0)" by (cases ss)
    obtain o3 g n where p: "run_phase3_prune (ev_driver env) (ev_reachable env 3) gid force (g0, n0) = (o3, (g, n))" by (metis prod.exhaust)
    from prune_writes [OF p] that have "g = g0" by blast
    with assms p ss show ?thesis by (auto simp: dream_phase3_def)
  qed
  show "prefix ''FAILED'' (dn_phase3 r') \<longleftrightarrow> (\<exists>errs. dn_detail3 r' = Some (PruneReadFailed errs))"
    using assms by (auto simp: dream_phase3_def phase3_word_def split: prod.splits phase3_outcome.splits phase3_status.splits)
qed

text \<open>The queue calls of phase 4 that were reached and raised.\<close>

definition phase4_raises :: "dream_env \<Rightarrow> dream_config \<Rightarrow> bool" where
  "phase4_raises env cfg \<longleftrightarrow> ev_down env Reap \<or> ev_down env Fairness \<or> (replay_enabled cfg \<and> ev_down env ReplayBatch) \<or>
     ev_down env CountOpen \<or> ev_down env CountClasses"

text \<open>The tables after phase 4.\<close>

definition phase4_store :: "dream_env \<Rightarrow> dream_config \<Rightarrow> store \<Rightarrow> store" where
  "phase4_store env cfg s =
     (if ev_down env Reap then s
      else let s1 = snd (dream_reap env cfg s) in
        if ev_down env Fairness \<or> \<not> replay_enabled cfg \<or> ev_down env ReplayBatch then s1 else snd (dream_replay env cfg s1))"

lemma phase4_frame:
  assumes "dream_phase4 env cfg (r, ss, s) = (r', ss', s')"
  shows "ss' = ss" "s' = phase4_store env cfg s" "dn_phase1 r' = dn_phase1 r" "dn_phase2 r' = dn_phase2 r" "dn_phase3 r' = dn_phase3 r"
    "dn_failed r' = dn_failed r" "dn_detail2 r' = dn_detail2 r" "dn_detail3 r' = dn_detail3 r"
    "prefix ''FAILED'' (dn_phase4 r') \<longleftrightarrow> phase4_raises env cfg"
  using assms
  by (auto simp: dream_phase4_def dream_dlq_health_def phase4_store_def phase4_raises_def Let_def split: if_splits prod.splits)

subsection \<open>The whole run\<close>

lemma judge_run_simps:
  "dn_phase1 (judge_run r) = dn_phase1 r" "dn_phase2 (judge_run r) = dn_phase2 r" "dn_phase3 (judge_run r) = dn_phase3 r"
  "dn_phase4 (judge_run r) = dn_phase4 r" "dn_detail2 (judge_run r) = dn_detail2 r" "dn_detail3 (judge_run r) = dn_detail3 r"
  "dn_status (judge_run r) = (if failed_phases r = [] then ''completed'' else ''completed_with_failures'')"
  "dn_failed r = [] \<Longrightarrow> dn_failed (judge_run r) = failed_phases r"
  by (simp_all add: judge_run_def)

lemma dream_stages:
  assumes "run_dream_consolidation env cfg force group_id (ss, s) = (r, ss', s')"
  obtains ss2 :: session and s2 where
    "s2 = open_run env s \<or> (\<exists>rows. s2 = snd (record_episodic_undo (ev_run_id env) rows (ev_undo_at env) (open_run env s)))"
    "s' = close_run env r (phase4_store env cfg s2)" "\<not> force \<Longrightarrow> fst ss' = fst ss2"
    "\<not> force \<Longrightarrow> \<not> dedup_apply cfg \<Longrightarrow> fst ss2 = fst ss \<and> s2 = open_run env s"
    "dn_status r = (if dn_failed r = [] then ''completed'' else ''completed_with_failures'')"
    "dn_failed r = failed_phases r"
    "prefix ''FAILED'' (dn_phase1 r) \<longleftrightarrow> ev_down env CountEpisodes \<or> (\<exists>e. cluster_min_degree cfg = Inl e)"
    "prefix ''FAILED'' (dn_phase2 r) \<longleftrightarrow> (\<exists>e. dedup_threshold cfg = Inl e) \<or> (\<exists>errs. dn_detail2 r = Some (ReadFailed errs))"
    "prefix ''FAILED'' (dn_phase3 r) \<longleftrightarrow> (\<exists>errs. dn_detail3 r = Some (PruneReadFailed errs))"
    "prefix ''FAILED'' (dn_phase4 r) \<longleftrightarrow> phase4_raises env cfg"
proof -
  let ?g = "dedup_group cfg group_id"
  obtain r1 ss1 s1 where p1: "dream_phase1 env cfg force ?g (new_results, ss, open_run env s) = (r1, ss1, s1)" by (metis prod.exhaust)
  obtain r2 ss2 s2 where p2: "dream_phase2 env cfg force ?g (r1, ss1, s1) = (r2, ss2, s2)" by (metis prod.exhaust)
  obtain r3 ss3 s3 where p3: "dream_phase3 env force ?g (r2, ss2, s2) = (r3, ss3, s3)" by (metis prod.exhaust)
  obtain r4 ss4 s4 where p4: "dream_phase4 env cfg (r3, ss3, s3) = (r4, ss4, s4)" by (metis prod.exhaust)
  have run: "r = judge_run r4" "ss' = ss4" "s' = close_run env r s4"
    using assms p1 p2 p3 p4 by (auto simp: run_dream_consolidation_def Let_def)
  note f1 = phase1_frame [OF p1] and f2 = phase2_frame [OF p2] and f3 = phase3_frame [OF p3] and f4 = phase4_frame [OF p4]
  have none: "dn_failed r4 = []" using f1(6) f2(4) f3(5) f4(6) by (simp add: new_results_def)
  note j = judge_run_simps [where r = r4] judge_run_simps(8) [OF none]
  have fp: "failed_phases r = failed_phases r4" unfolding run(1) failed_phases_def j ..
  show thesis
  proof (rule that [of s2 ss2])
    show "s2 = open_run env s \<or> (\<exists>rows. s2 = snd (record_episodic_undo (ev_run_id env) rows (ev_undo_at env) (open_run env s)))"
      using f2(7) f1(2) by simp
    show "s' = close_run env r (phase4_store env cfg s2)" using run(3) f4(2) f3(1) by simp
    show "\<not> force \<Longrightarrow> fst ss' = fst ss2" using f3(7) f4(1) run(2) by simp
    show "\<not> force \<Longrightarrow> \<not> dedup_apply cfg \<Longrightarrow> fst ss2 = fst ss \<and> s2 = open_run env s" using f2(6) f1(1,2) by simp
    show "dn_failed r = failed_phases r" using fp j(9) run(1) by simp
    then show "dn_status r = (if dn_failed r = [] then ''completed'' else ''completed_with_failures'')" using fp j(7) run(1) by simp
    show "prefix ''FAILED'' (dn_phase1 r) \<longleftrightarrow> ev_down env CountEpisodes \<or> (\<exists>e. cluster_min_degree cfg = Inl e)"
      using phase1_failed [OF p1] f2(1) f3(2) f4(3) j(1) run(1) by simp
    show "prefix ''FAILED'' (dn_phase2 r) \<longleftrightarrow> (\<exists>e. dedup_threshold cfg = Inl e) \<or> (\<exists>errs. dn_detail2 r = Some (ReadFailed errs))"
      using f2(8) f3(3,6) f4(4,7) j(2,5) run(1) by simp
    show "prefix ''FAILED'' (dn_phase3 r) \<longleftrightarrow> (\<exists>errs. dn_detail3 r = Some (PruneReadFailed errs))"
      using f3(8) f4(5,8) j(3,6) run(1) by simp
    show "prefix ''FAILED'' (dn_phase4 r) \<longleftrightarrow> phase4_raises env cfg" using f4(9) j(4) run(1) by simp
  qed
qed

lemma phase4_audit: "audit_same s (phase4_store env cfg s)"
proof -
  have reap: "audit_same u (snd (dream_reap env cfg u))" for u by (simp add: dream_reap_def reap_audit)
  have "audit_same u (snd (dream_replay env cfg u))" for u
    by (auto simp: dream_replay_def replay_dlq_batch_def replay_rows_audit split: option.splits)
  with reap show ?thesis by (auto simp: phase4_store_def Let_def intro: audit_trans)
qed

text \<open>The graph that phase 2, run with the switch \<open>apply_it\<close>, makes of a graph after \<open>n\<close> statements.\<close>

definition phase2_graph :: "dream_env \<Rightarrow> dream_config \<Rightarrow> string option \<Rightarrow> bool \<Rightarrow> store \<Rightarrow> nat \<Rightarrow> graph \<Rightarrow> graph" where
  "phase2_graph env cfg group_id apply_it s n g =
     (case dedup_threshold cfg of
        Inl e \<Rightarrow> g
      | Inr t \<Rightarrow>
          fst (fst (snd (run_phase2_dedup (ev_driver env) (ev_sha1 env) (ev_dumps env) t (ev_reachable env 2) (dedup_group cfg group_id)
            apply_it (phase2_writer True (ev_run_id env) (ev_undo_at env)) ((g, n), open_run env s)))))"

lemma unforced_graph:
  assumes "run_dream_consolidation env cfg False group_id (ss, s) = (r, ss', s')"
  shows "\<exists>n. fst ss' = phase2_graph env cfg group_id (dedup_apply cfg) s n (fst ss)"
proof -
  let ?g = "dedup_group cfg group_id"
  obtain r1 ss1 s1 where p1: "dream_phase1 env cfg False ?g (new_results, ss, open_run env s) = (r1, ss1, s1)" by (metis prod.exhaust)
  obtain r2 ss2 s2 where p2: "dream_phase2 env cfg False ?g (r1, ss1, s1) = (r2, ss2, s2)" by (metis prod.exhaust)
  obtain r3 ss3 s3 where p3: "dream_phase3 env False ?g (r2, ss2, s2) = (r3, ss3, s3)" by (metis prod.exhaust)
  obtain r4 ss4 s4 where p4: "dream_phase4 env cfg (r3, ss3, s3) = (r4, ss4, s4)" by (metis prod.exhaust)
  have "ss' = ss4" using assms p1 p2 p3 p4 by (auto simp: run_dream_consolidation_def Let_def)
  then have last_graph: "fst ss' = fst ss2" using phase3_frame(7) [OF p3] phase4_frame(1) [OF p4] by simp
  obtain n where ss1: "ss1 = (fst ss, n)" and s1: "s1 = open_run env s"
    using phase1_frame(1,2) [OF p1] by (cases ss1) auto
  have "fst ss2 = phase2_graph env cfg group_id (dedup_apply cfg) s n (fst ss)"
    using p2 by (auto simp: dream_phase2_def phase2_graph_def ss1 s1 Let_def split: sum.splits prod.splits)
  with last_graph show ?thesis by auto
qed

text \<open>C23: An unforced dream leaves the graph exactly as its phase 2 made it from the graph it was given, with \<open>dedup_apply\<close> as the only
  switch; with \<open>dedup_apply\<close> off too it changes nothing in the graph and writes no undo row; and whatever it does to the episode
  database, forced or not, is a history of ordinary queue writes, so every invariant of such histories holds after it.\<close>

theorem dream_writes_only_when_told:
  assumes "run_dream_consolidation env cfg force group_id (ss, s) = (r, ss', s')"
  shows "later s s' \<and> (reachable s \<longrightarrow> reachable s') \<and>
    (\<not> force \<longrightarrow> (\<exists>n. fst ss' = phase2_graph env cfg group_id (dedup_apply cfg) s n (fst ss))) \<and>
    (\<not> force \<and> \<not> dedup_apply cfg \<longrightarrow> fst ss' = fst ss \<and> st_undo s' = st_undo s)"
proof (rule dream_stages [OF assms])
  fix ss2 s2
  assume undo: "s2 = open_run env s \<or> (\<exists>rows. s2 = snd (record_episodic_undo (ev_run_id env) rows (ev_undo_at env) (open_run env s)))"
    and s': "s' = close_run env r (phase4_store env cfg s2)" and graph: "\<not> force \<Longrightarrow> fst ss' = fst ss2"
    and dry: "\<not> force \<Longrightarrow> \<not> dedup_apply cfg \<Longrightarrow> fst ss2 = fst ss \<and> s2 = open_run env s"
  have opened: "later s (open_run env s)"
    by (auto simp: open_run_def intro: later.Now later.Next [OF later.Now store_step.RecordRun])
  then have l2: "later s s2" using undo later.Next [OF opened store_step.RecordUndo] by blast
  have reap: "later s (snd (dream_reap env cfg u))" if "later s u" for u
    unfolding dream_reap_def by (rule later.Next [OF that store_step.ReapFailed])
  have replay: "later s (snd (dream_replay env cfg u))" if "later s u" for u
    using that by (cases "dm_replay cfg") (auto simp: dream_replay_def intro: later.Next [OF that store_step.ReplayBatch])
  have l4: "later s (phase4_store env cfg s2)"
    using l2 reap replay by (auto simp: phase4_store_def Let_def)
  then have l: "later s s'" unfolding s' close_run_def by (auto intro: later.Next [OF l4 store_step.UpdateRun])
  have "reachable u" if "later t u" "reachable t" for t u
    using that by (induction rule: later.induct) (auto intro: reachable.Step)
  then have reach: "reachable s \<longrightarrow> reachable s'" using l by blast
  have "st_undo (phase4_store env cfg s2) = st_undo s2"
    using phase4_audit [of s2 env cfg] by (simp add: audit_same_def)
  moreover have "st_undo (open_run env s) = st_undo s" by (simp add: open_run_def record_dream_run_def)
  ultimately have "\<not> force \<and> \<not> dedup_apply cfg \<longrightarrow> fst ss' = fst ss \<and> st_undo s' = st_undo s"
    using s' graph dry by (auto simp: close_run_def update_dream_run_def)
  moreover have "\<not> force \<longrightarrow> (\<exists>n. fst ss' = phase2_graph env cfg group_id (dedup_apply cfg) s n (fst ss))"
    using assms by (auto dest: unforced_graph)
  ultimately show ?thesis using l reach by blast
qed

definition sample_env :: "(queue_call \<Rightarrow> bool) \<Rightarrow> (nat \<Rightarrow> reply) \<Rightarrow> dream_env" where
  "sample_env down driver =
     \<lparr>ev_driver = driver, ev_reachable = (\<lambda>n. True), ev_down = down, ev_digest = id, ev_sha1 = id, ev_dumps = (\<lambda>v. ''{}''),
      ev_order = id, ev_run_id = ''run'', ev_started = 1, ev_undo_at = 2, ev_reaped_at = 3, ev_replayed_at = 4, ev_completed = 5,
      ev_community_threshold = 50\<rparr>"

definition sample_config :: dream_config where
  "sample_config =
     \<lparr>dm_graph_group = Some ''g'', dm_threshold = Some (PyStr ''0.8''), dm_old_threshold = None, dm_degree = Some (PyInt 3), dm_old_degree = None,
      dm_apply = None, dm_pipeline = \<lparr>pl_policy = None, pl_max_attempts = None\<rparr>,
      dm_replay = Some \<lparr>ra_enabled = None, ra_limit = None, ra_classes = None, ra_min_age = None\<rparr>\<rparr>"

definition sample_dream :: "(queue_call \<Rightarrow> bool) \<Rightarrow> (nat \<Rightarrow> reply) \<Rightarrow> bool \<Rightarrow> dream_state" where
  "sample_dream down driver force =
     run_dream_consolidation (sample_env down driver) sample_config force None ((sample_orphans, 0), empty_store)"

theorem dream_writes_only_when_told_witness:
  "fst (fst (snd (sample_dream (\<lambda>c. False) calm False))) = sample_orphans \<and>
    map gn_id (gr_nodes (fst (fst (snd (sample_dream (\<lambda>c. False) calm True))))) = [1, 2] \<and>
    dn_phase3 (fst (sample_dream (\<lambda>c. False) calm False)) = ''PLANNED''"
proof -
  obtain r ss' s' where run: "sample_dream (\<lambda>c. False) calm False = (r, ss', s')" by (metis prod.exhaust)
  have "\<not> dedup_apply sample_config" by code_simp
  with dream_writes_only_when_told [OF run [unfolded sample_dream_def]] have "fst ss' = sample_orphans" by simp
  moreover have "map gn_id (gr_nodes (fst (fst (snd (sample_dream (\<lambda>c. False) calm True))))) = [1, 2]" by code_simp
  moreover have "dn_phase3 (fst (sample_dream (\<lambda>c. False) calm False)) = ''PLANNED''" by code_simp
  ultimately show ?thesis using run by simp
qed

text \<open>C24: What the verdict of a dream reflects.  It is \<open>completed\<close> exactly when the settings of phases 1 and 2 could be read, phases 2
  and 3 did not open the graph and then fail to read it, and no queue call of phases 1 and 4 raised, and \<open>completed_with_failures\<close>
  otherwise; the phases it lists as failed are those whose text says so.  So a graph that cannot be opened, a graph that phase 1
  cannot read and the writes of the audit row have no influence on it.\<close>

theorem dream_verdict:
  assumes "run_dream_consolidation env cfg force group_id x = (r, ss', s')"
  shows "(dn_status r = ''completed'' \<longleftrightarrow>
      \<not> ev_down env CountEpisodes \<and> \<not> phase4_raises env cfg \<and> (\<exists>d. cluster_min_degree cfg = Inr d) \<and> (\<exists>t. dedup_threshold cfg = Inr t) \<and>
      (\<forall>errs. dn_detail2 r \<noteq> Some (ReadFailed errs) \<and> dn_detail3 r \<noteq> Some (PruneReadFailed errs))) \<and>
    (dn_status r = ''completed'' \<or> dn_status r = ''completed_with_failures'') \<and> dn_failed r = failed_phases r"
proof -
  obtain ss s where x: "x = (ss, s)" by (cases x)
  show ?thesis
  proof (rule dream_stages [OF assms [unfolded x]])
    assume verdict: "dn_status r = (if dn_failed r = [] then ''completed'' else ''completed_with_failures'')" "dn_failed r = failed_phases r"
      and words: "prefix ''FAILED'' (dn_phase1 r) \<longleftrightarrow> ev_down env CountEpisodes \<or> (\<exists>e. cluster_min_degree cfg = Inl e)"
        "prefix ''FAILED'' (dn_phase2 r) \<longleftrightarrow> (\<exists>e. dedup_threshold cfg = Inl e) \<or> (\<exists>errs. dn_detail2 r = Some (ReadFailed errs))"
        "prefix ''FAILED'' (dn_phase3 r) \<longleftrightarrow> (\<exists>errs. dn_detail3 r = Some (PruneReadFailed errs))"
        "prefix ''FAILED'' (dn_phase4 r) \<longleftrightarrow> phase4_raises env cfg"
    have "failed_phases r = [] \<longleftrightarrow> \<not> prefix ''FAILED'' (dn_phase1 r) \<and> \<not> prefix ''FAILED'' (dn_phase2 r) \<and>
        \<not> prefix ''FAILED'' (dn_phase3 r) \<and> \<not> prefix ''FAILED'' (dn_phase4 r)"
      unfolding failed_phases_def by (simp del: prefix_code)
    then show ?thesis using verdict words unfolding right_iff by (auto split: if_splits)
  qed
qed

theorem dream_verdict_witness:
  "dn_status (fst (sample_dream (\<lambda>c. c = Reap) calm False)) = ''completed_with_failures'' \<and>
    dn_failed (fst (sample_dream (\<lambda>c. c = Reap) calm False)) = [''phase_4_dlq_repair'']"
proof -
  obtain r ss' s' where run: "sample_dream (\<lambda>c. c = Reap) calm False = (r, ss', s')" by (metis prod.exhaust)
  have "dn_failed (fst (sample_dream (\<lambda>c. c = Reap) calm False)) = [''phase_4_dlq_repair'']" by code_simp
  moreover have "phase4_raises (sample_env (\<lambda>c. c = Reap) calm) sample_config" by (simp add: phase4_raises_def sample_env_def)
  ultimately show ?thesis using dream_verdict [OF run [unfolded sample_dream_def]] run by auto
qed

text \<open>C25: A dream never touches the audit rows of other runs.  Where its own row could be inserted it has exactly one row at the end, with
  the verdict and the phase texts of its report, or, if the final update raised, still the row it started with, \<open>running\<close>; where
  the insertion raised and the run id is new, it has no row.\<close>

theorem dream_audit_row:
  assumes run: "run_dream_consolidation env cfg force group_id (ss, s) = (r, ss', s')"
  shows "filter (\<lambda>x. dr_run_id x \<noteq> ev_run_id env) (st_runs s') = filter (\<lambda>x. dr_run_id x \<noteq> ev_run_id env) (st_runs s) \<and>
    (\<not> ev_down env InsertRun \<longrightarrow>
      (\<exists>row. filter (\<lambda>x. dr_run_id x = ev_run_id env) (st_runs s') = [row] \<and>
       (if ev_down env UpdateRun then row = started_row env
        else dr_started_at row = ev_started env \<and> dr_completed_at row = Some (ev_completed env) \<and> dr_status row = dn_status r \<and>
          dr_phase1 row = dn_phase1 r \<and> dr_phase2 row = dn_phase2 r \<and> dr_phase3 row = dn_phase3 r \<and> dr_phase4 row = dn_phase4 r \<and>
          (dr_error row = None \<longleftrightarrow> dn_status r = ''completed'')))) \<and>
    (ev_down env InsertRun \<and> ev_run_id env \<notin> dr_run_id ` set (st_runs s) \<longrightarrow> st_runs s' = st_runs s)"
proof (rule dream_stages [OF run])
  fix s2
  assume undo: "s2 = open_run env s \<or> (\<exists>rows. s2 = snd (record_episodic_undo (ev_run_id env) rows (ev_undo_at env) (open_run env s)))"
    and s': "s' = close_run env r (phase4_store env cfg s2)" 
    and verdict: "dn_status r = (if dn_failed r = [] then ''completed'' else ''completed_with_failures'')"
  let ?i = "ev_run_id env" and ?u = "closing_update env r (phase4_store env cfg s2)"
  have own: "dr_run_id (started_row env) = ?i" by (simp add: started_row_def)
  have same_id: "dr_run_id (updated_run ?u x) = dr_run_id x" for x by (simp add: updated_run_def)
  have "st_runs (phase4_store env cfg s2) = st_runs s2" using phase4_audit [of s2 env cfg] by (simp add: audit_same_def)
  also have "st_runs s2 = st_runs (open_run env s)" using undo by (auto simp: record_episodic_undo_def)
  finally have opened: "st_runs (phase4_store env cfg s2) = st_runs (open_run env s)" .
  show ?thesis
  proof (cases "ev_down env InsertRun")
    case True
    have final: "st_runs s' = (if ev_down env UpdateRun then st_runs s else map (\<lambda>x. if dr_run_id x = ?i then updated_run ?u x else x) (st_runs s))"
      using opened True by (simp add: s' close_run_def update_dream_run_def open_run_def)
    have "filter (\<lambda>x. dr_run_id x \<noteq> ?i) (map (\<lambda>x. if dr_run_id x = ?i then updated_run ?u x else x) xs) = filter (\<lambda>x. dr_run_id x \<noteq> ?i) xs" for xs
      by (induction xs) (auto simp: same_id)
    moreover have "map (\<lambda>x. if dr_run_id x = ?i then updated_run ?u x else x) xs = xs" if "?i \<notin> dr_run_id ` set xs" for xs
      using that by (intro map_idI) (metis imageI)
    ultimately show ?thesis using True by (simp add: final)
  next
    case False
    define others where "others = filter (\<lambda>x. dr_run_id x \<noteq> ?i) (st_runs s)"
    have runs: "st_runs (phase4_store env cfg s2) = others @ [started_row env]"
      using False own opened by (simp add: open_run_def record_dream_run_def others_def)
    have keep: "map (\<lambda>x. if dr_run_id x = ?i then updated_run ?u x else x) others = others"
      unfolding others_def by (rule map_idI) auto
    have final: "st_runs s' = others @ [if ev_down env UpdateRun then started_row env else updated_run ?u (started_row env)]"
      by (simp add: s' close_run_def update_dream_run_def runs keep own)
    have f: "filter (\<lambda>x. dr_run_id x \<noteq> ?i) (st_runs s') = others"
      "filter (\<lambda>x. dr_run_id x = ?i) (st_runs s') = [if ev_down env UpdateRun then started_row env else updated_run ?u (started_row env)]"
      unfolding final by (simp_all add: own same_id others_def filter_empty_conv)
    show ?thesis
      unfolding f using verdict False by (auto simp: others_def updated_run_def closing_update_def written_def started_row_def)
  qed
qed

theorem dream_audit_row_witness:
  "map dr_status (st_runs (snd (snd (sample_dream (\<lambda>c. c = UpdateRun) calm False)))) = [''running''] \<and>
    map dr_status (st_runs (snd (snd (sample_dream (\<lambda>c. False) calm False)))) = [''completed'']"
proof -
  obtain r ss' s' where run: "sample_dream (\<lambda>c. c = UpdateRun) calm False = (r, ss', s')" by (metis prod.exhaust)
  have down: "\<not> ev_down (sample_env (\<lambda>c. c = UpdateRun) calm) InsertRun" "ev_down (sample_env (\<lambda>c. c = UpdateRun) calm) UpdateRun"
    "ev_run_id (sample_env (\<lambda>c. c = UpdateRun) calm) = ''run''"
    by (simp_all add: sample_env_def)
  from dream_audit_row [OF run [unfolded sample_dream_def], unfolded down(3)] down(1,2)
  have "filter (\<lambda>x. dr_run_id x \<noteq> ''run'') (st_runs s') = []" 
    "filter (\<lambda>x. dr_run_id x = ''run'') (st_runs s') = [started_row (sample_env (\<lambda>c. c = UpdateRun) calm)]"
    by (auto simp: empty_store_def)
  then have "st_runs s' = [started_row (sample_env (\<lambda>c. c = UpdateRun) calm)]"
    by (rule filter_split)
  moreover have "map dr_status (st_runs (snd (snd (sample_dream (\<lambda>c. False) calm False)))) = [''completed'']" by code_simp
  ultimately show ?thesis using run by (simp add: started_row_def)
qed

subsection \<open>What the report does not say\<close>

text \<open>A graph that phase 1 cannot read is reported as an empty one.\<close>

lemma phase1_read_failure_reported_skipped:
  assumes "fst (run_phase1_cluster driver digest it up gid degree ss) = ClusterReadFailed errs"
  shows "prefix ''SKIPPED'' (cluster_report (phase1_result (fst (run_phase1_cluster driver digest it up gid degree ss))) n m force)"
  using assms by (simp add: phase1_result_def no_clusters_def cluster_report_def)

end
