(* ===== verification/LruCache.thy ===== *)
theory LruCache
  imports Prelude "HOL-Library.AList"
begin

text \<open>
  \<open>cache/lru.py\<close> and \<open>cache/stats.py\<close>: an \<open>OrderedDict\<close> is an association list with the least recently used
  entry first.
\<close>

record 'v lru =
  lru_max :: int
  lru_items :: "(string \<times> 'v) list"

definition new_lru :: "int \<Rightarrow> 'v lru" where
  "new_lru max_size = \<lparr>lru_max = max_size, lru_items = []\<rparr>"

definition lru_peek :: "'v lru \<Rightarrow> string \<Rightarrow> 'v option" where
  "lru_peek c k = map_of (lru_items c) k"

definition without_key :: "string \<Rightarrow> (string \<times> 'v) list \<Rightarrow> (string \<times> 'v) list" where
  "without_key k xs = filter (\<lambda>(k', v). k' \<noteq> k) xs"

definition lru_get :: "string \<Rightarrow> 'v lru \<Rightarrow> 'v option \<times> 'v lru" where
  "lru_get k c =
     (case lru_peek c k of
        None \<Rightarrow> (None, c)
      | Some v \<Rightarrow> (Some v, c\<lparr>lru_items := without_key k (lru_items c) @ [(k, v)]\<rparr>))"

definition lru_set :: "string \<Rightarrow> 'v \<Rightarrow> 'v lru \<Rightarrow> 'v lru" where
  "lru_set k v c =
     (let items = without_key k (lru_items c) @ [(k, v)] in
      c\<lparr>lru_items := (if lru_max c < int (length items) then tl items else items)\<rparr>)"

definition lru_clear :: "'v lru \<Rightarrow> 'v lru" where
  "lru_clear c = c\<lparr>lru_items := []\<rparr>"

definition lru_size :: "'v lru \<Rightarrow> nat" where
  "lru_size c = length (lru_items c)"

record cache_stats =
  cs_hits :: nat
  cs_misses :: nat
  cs_evictions :: nat

definition new_stats :: cache_stats where
  "new_stats = \<lparr>cs_hits = 0, cs_misses = 0, cs_evictions = 0\<rparr>"

definition total_requests :: "cache_stats \<Rightarrow> nat" where
  "total_requests s = cs_hits s + cs_misses s"

definition hit_rate :: "cache_stats \<Rightarrow> rat" where
  "hit_rate s = (if total_requests s = 0 then 0 else of_nat (cs_hits s) / of_nat (total_requests s))"

lemma hit_rate_range: "0 \<le> hit_rate s \<and> hit_rate s \<le> 1"
proof (cases "total_requests s = 0")
  case False
  then have "(of_nat (cs_hits s) :: rat) \<le> of_nat (total_requests s)" by (simp add: total_requests_def)
  with False show ?thesis by (simp add: hit_rate_def divide_le_eq_1)
qed (simp add: hit_rate_def)

subsection \<open>The interface of a cache\<close>

text \<open>What the two embedding clients rely on: reading does not change the content, and after a write the content holds
  nothing but the new entry and entries it held before.\<close>

locale cache =
  fixes content :: "'c \<Rightarrow> 'k \<Rightarrow> 'v option"
    and get :: "'k \<Rightarrow> 'c \<Rightarrow> 'v option \<times> 'c"
    and put :: "'k \<Rightarrow> 'v \<Rightarrow> 'c \<Rightarrow> 'c"
    and fits :: "'c \<Rightarrow> bool"
  assumes get_content: "fits c \<Longrightarrow> get k c = (r, c') \<Longrightarrow> r = content c k \<and> content c' = content c \<and> fits c'"
    and put_content: "fits c \<Longrightarrow> content (put k v c) x = Some w \<Longrightarrow> (x = k \<and> w = v) \<or> content c x = Some w"
    and put_fits: "fits c \<Longrightarrow> fits (put k v c)"
begin

text \<open>Everything in the cache has some provenance.\<close>

definition all_from :: "('k \<Rightarrow> 'v \<Rightarrow> bool) \<Rightarrow> 'c \<Rightarrow> bool" where
  "all_from P c \<longleftrightarrow> fits c \<and> (\<forall>k v. content c k = Some v \<longrightarrow> P k v)"

lemma get_from: "all_from P c \<Longrightarrow> get k c = (r, c') \<Longrightarrow> all_from P c' \<and> (\<forall>v. r = Some v \<longrightarrow> P k v)"
  using get_content [of c k r c'] by (auto simp: all_from_def)

lemma put_from: "all_from P c \<Longrightarrow> P k v \<Longrightarrow> all_from P (put k v c)"
  using put_content [of c k v] put_fits [of c k v] unfolding all_from_def by blast

lemma from_mono: "all_from P c \<Longrightarrow> (\<And>k v. P k v \<Longrightarrow> Q k v) \<Longrightarrow> all_from Q c"
  by (auto simp: all_from_def)

end

subsection \<open>The LRU cache is one\<close>

definition lru_ok :: "'v lru \<Rightarrow> bool" where
  "lru_ok c \<longleftrightarrow> distinct (map fst (lru_items c)) \<and> int (length (lru_items c)) \<le> max 0 (lru_max c)"

lemma without_key_keys [simp]: "map fst (without_key k xs) = filter (\<lambda>k'. k' \<noteq> k) (map fst xs)"
  by (induction xs) (auto simp: without_key_def)

lemma map_of_without: "map_of (without_key k xs) x = (if x = k then None else map_of xs x)"
  by (induction xs) (auto simp: without_key_def)

lemma without_length: "length (without_key k xs) \<le> length xs"
  by (simp add: without_key_def)

lemma without_key_less: "map_of xs k = Some v \<Longrightarrow> length (without_key k xs) < length xs"
  unfolding without_key_def by (rule length_filter_less [where x = "(k, v)"]) (auto dest: map_of_SomeD)

lemma distinct_tl_map: "distinct (map f xs) \<Longrightarrow> distinct (map f (tl xs))"
  by (cases xs) auto

lemma lru_get_ok: "lru_ok c \<Longrightarrow> lru_ok (snd (lru_get k c))"
proof (cases "lru_peek c k")
  case (Some v)
  assume "lru_ok c"
  with Some without_key_less [of "lru_items c" k v] show ?thesis by (auto simp: lru_ok_def lru_get_def lru_peek_def)
qed (simp add: lru_get_def)

lemma lru_set_ok: "lru_ok c \<Longrightarrow> lru_ok (lru_set k v c)"
  using without_length [of k "lru_items c"] distinct_tl_map [of fst "without_key k (lru_items c) @ [(k, v)]"]
  by (auto simp: lru_ok_def lru_set_def Let_def)

lemma map_of_tl: "distinct (map fst xs) \<Longrightarrow> map_of (tl xs) x = Some w \<Longrightarrow> map_of xs x = Some w"
  by (cases xs) (force dest: map_of_SomeD)+

interpretation lru: cache lru_peek lru_get lru_set lru_ok
proof
  fix c c' :: "'a lru" and k r
  assume ok: "lru_ok c" and get: "lru_get k c = (r, c')"
  then have "lru_ok c'" using lru_get_ok [of c k] by simp
  moreover have "lru_peek c' x = lru_peek c x" for x
    using get by (auto simp: lru_get_def lru_peek_def map_add_def map_of_without split: option.splits)
  ultimately show "r = lru_peek c k \<and> lru_peek c' = lru_peek c \<and> lru_ok c'"
    using get by (auto simp: lru_get_def split: option.splits)
next
  fix c :: "'a lru" and k x v w
  assume ok: "lru_ok c" and "lru_peek (lru_set k v c) x = Some w"
  moreover have "distinct (map fst (without_key k (lru_items c) @ [(k, v)]))" using ok by (simp add: lru_ok_def)
  ultimately have "map_of (without_key k (lru_items c) @ [(k, v)]) x = Some w"
    using map_of_tl [of "without_key k (lru_items c) @ [(k, v)]" x w] by (simp add: lru_set_def lru_peek_def Let_def split: if_splits)
  then show "(x = k \<and> w = v) \<or> lru_peek c x = Some w"
    by (auto simp: lru_peek_def map_add_def map_of_without split: option.splits if_splits)
qed (rule lru_set_ok)

subsection \<open>Which entries stay\<close>

datatype 'v cache_op = Get string | Put string 'v

definition cache_step :: "'v cache_op \<Rightarrow> 'v lru \<Rightarrow> 'v lru" where
  "cache_step x c = (case x of Get k \<Rightarrow> snd (lru_get k c) | Put k v \<Rightarrow> lru_set k v c)"

text \<open>The keys that were written or found, in order.\<close>

fun touched :: "'v cache_op list \<Rightarrow> 'v lru \<Rightarrow> string list" where
  "touched [] c = []"
| "touched (x # xs) c =
     (case x of Get k \<Rightarrow> (if lru_peek c k = None then [] else [k]) | Put k v \<Rightarrow> [k]) @ touched xs (cache_step x c)"

definition take_last :: "nat \<Rightarrow> 'a list \<Rightarrow> 'a list" where
  "take_last n xs = drop (length xs - n) xs"

lemma take_last_append: "n \<le> length ys \<Longrightarrow> take_last n (xs @ ys) = take_last n ys"
  by (simp add: take_last_def)

lemma take_last_all: "length xs \<le> n \<Longrightarrow> take_last n xs = xs"
  by (simp add: take_last_def)

lemma take_last_tl: "length xs \<le> Suc n \<Longrightarrow> take_last n xs = (if n < length xs then tl xs else xs)"
  by (cases "length xs = Suc n") (auto simp: take_last_def drop_Suc)

lemma take_last_keep:
  assumes "distinct R"
  shows "take_last n (filter (\<lambda>x. x \<noteq> k) (take_last n R) @ [k]) = take_last n (filter (\<lambda>x. x \<noteq> k) R @ [k])"
proof (cases "length R \<le> n")
  case False
  define A where "A = take (length R - n) R"
  define K where "K = take_last n R"
  have R: "R = A @ K" by (simp add: A_def K_def take_last_def)
  have K: "length K = n" "distinct K" using False assms by (simp_all add: K_def take_last_def)
  have "n \<le> length (filter (\<lambda>x. x \<noteq> k) K @ [k])"
  proof (cases "k \<in> set K")
    case True
    have "filter (\<lambda>x. x \<noteq> k) K = remove1 k K" using K(2) by (simp add: distinct_remove1_removeAll removeAll_filter_not_eq) metis
    with True K(1) show ?thesis by (simp add: length_remove1)
  next
    case False
    then have "filter (\<lambda>x. x \<noteq> k) K = K" by (auto simp: filter_id_conv)
    with K(1) show ?thesis by simp
  qed
  then have "take_last n (filter (\<lambda>x. x \<noteq> k) A @ filter (\<lambda>x. x \<noteq> k) K @ [k]) = take_last n (filter (\<lambda>x. x \<noteq> k) K @ [k])"
    by (rule take_last_append)
  then show ?thesis by (simp add: R [symmetric] K_def [symmetric]) (simp add: R)
qed (simp add: take_last_all)

lemma remdups_snoc: "remdups (xs @ [k]) = filter (\<lambda>x. x \<noteq> k) (remdups xs) @ [k]"
  by (induction xs) auto

definition recent_keys :: "nat \<Rightarrow> string list \<Rightarrow> string list" where
  "recent_keys n ts = take_last n (remdups ts)"

lemma recent_snoc: "recent_keys n (ts @ [k]) = take_last n (filter (\<lambda>x. x \<noteq> k) (recent_keys n ts) @ [k])"
  unfolding recent_keys_def remdups_snoc by (rule take_last_keep [symmetric]) simp

lemma recent_length: "length (recent_keys n ts) \<le> n"
  by (simp add: recent_keys_def take_last_def)

lemma lru_set_keys:
  assumes "map fst (lru_items c) = recent_keys (nat (lru_max c)) ts" 
  shows "map fst (lru_items (lru_set k v c)) = recent_keys (nat (lru_max c)) (ts @ [k])"
proof -
  let ?n = "nat (lru_max c)"
  let ?items = "without_key k (lru_items c) @ [(k, v)]"
  have keys: "map fst ?items = filter (\<lambda>x. x \<noteq> k) (recent_keys ?n ts) @ [k]" using assms by simp
  have len: "length ?items = length (filter (\<lambda>x. x \<noteq> k) (recent_keys ?n ts) @ [k])" using keys by (metis length_map)
  also have "\<dots> \<le> Suc ?n" using recent_length [of ?n ts] le_trans [OF length_filter_le] by fastforce
  finally have "length (map fst ?items) \<le> Suc ?n" by (simp only: length_map)
  from take_last_tl [OF this] have "take_last ?n (map fst ?items) = map fst (if lru_max c < int (length ?items) then tl ?items else ?items)"
    by (simp add: map_tl del: map_append) linarith
  then show ?thesis unfolding recent_snoc keys [symmetric] by (simp add: lru_set_def Let_def)
qed

lemma lru_get_keys:
  assumes keys: "map fst (lru_items c) = recent_keys (nat (lru_max c)) ts" and hit: "lru_peek c k = Some v"
  shows "map fst (lru_items (snd (lru_get k c))) = recent_keys (nat (lru_max c)) (ts @ [k])"
proof -
  let ?n = "nat (lru_max c)"
  let ?items = "without_key k (lru_items c) @ [(k, v)]"
  have "length ?items \<le> length (lru_items c)" using without_key_less [of "lru_items c" k v] hit by (simp add: lru_peek_def)
  also have "\<dots> \<le> ?n" using recent_length [of ?n ts] keys by (metis length_map)
  finally have "take_last ?n (map fst ?items) = map fst ?items" by (intro take_last_all) (simp only: length_map)
  then show ?thesis unfolding recent_snoc keys [symmetric] using hit by (simp add: lru_get_def)
qed

lemma cache_step_keys:
  assumes "map fst (lru_items c) = recent_keys (nat (lru_max c)) ts"
  shows "map fst (lru_items (cache_step x c)) = recent_keys (nat (lru_max c)) (ts @ touched [x] c)" "lru_max (cache_step x c) = lru_max c"
  using lru_set_keys [OF assms] lru_get_keys [OF assms] assms
  by (auto simp: cache_step_def lru_set_def lru_get_def Let_def split: cache_op.splits option.splits)

lemma touched_Cons: "touched (x # xs) c = touched [x] c @ touched xs (cache_step x c)"
  by (cases x) auto

lemma cache_run_keys:
  "map fst (lru_items c) = recent_keys (nat (lru_max c)) ts \<Longrightarrow>
    map fst (lru_items (fold cache_step xs c)) = recent_keys (nat (lru_max c)) (ts @ touched xs c)"
proof (induction xs arbitrary: c ts)
  case (Cons x xs)
  from Cons.IH [of "cache_step x c" "ts @ touched [x] c"] cache_step_keys [OF Cons.prems] show ?case
    unfolding touched_Cons [of x xs] by simp
qed simp

text \<open>C27: After any sequence of reads and writes the cache holds exactly the last \<open>max_size\<close> different keys that were written or found, least recently used
  first, so it never exceeds its bound, and a zero or negative bound keeps nothing.\<close>

theorem lru_holds_recent_keys:
  "map fst (lru_items (fold cache_step xs (new_lru n))) = recent_keys (nat n) (touched xs (new_lru n)) \<and>
    int (lru_size (fold cache_step xs (new_lru n))) \<le> max 0 n"
proof -
  have "map fst (lru_items (fold cache_step xs (new_lru n))) = recent_keys (nat n) (touched xs (new_lru n))"
    using cache_run_keys [of "new_lru n" "[]" xs] by (simp add: new_lru_def recent_keys_def take_last_def)
  moreover from this have "lru_size (fold cache_step xs (new_lru n)) \<le> nat n"
    using recent_length unfolding lru_size_def by (metis length_map)
  ultimately show ?thesis by linarith
qed

lemma lru_example:
  "map fst (lru_items (fold cache_step [Put ''a'' 1, Put ''b'' (2 :: nat), Get ''a'', Put ''c'' 3, Get ''b''] (new_lru 2))) = [''a'', ''c'']"
  by code_simp

end
