(* ===== verification/EmbedCache.thy ===== *)
theory EmbedCache
  imports LruCache
begin

text \<open>
  The two users of the cache: \<open>EmbeddingClient\<close> of \<open>daemon/embedding_client.py\<close>, whose calls interleave at the HTTP request,
  and \<open>EmbedCache\<close> of \<open>cache/embed_cache.py\<close>, which wraps the embedder of the graph library.  A vector
  is of any type.  \<open>digest\<close> is SHA-256; it is not assumed to be injective.
\<close>

subsection \<open>The embedding client\<close>

datatype embed_error = HttpError nat string | TransportError string | MissingEmbedding | NotCached

record 'v embedding_result =
  er_text :: string
  er_embedding :: "'v option"
  er_error :: "embed_error option"

record 'v embedding_client =
  em_cache :: "'v lru"
  em_stats :: cache_stats

definition new_embedding_client :: "int \<Rightarrow> 'v embedding_client" where
  "new_embedding_client embed_cache_size = \<lparr>em_cache = new_lru embed_cache_size, em_stats = new_stats\<rparr>"

definition count_lookup :: "bool \<Rightarrow> cache_stats \<Rightarrow> cache_stats" where
  "count_lookup hit s = (if hit then s\<lparr>cs_hits := cs_hits s + 1\<rparr> else s\<lparr>cs_misses := cs_misses s + 1\<rparr>)"

text \<open>The cached vectors, one per text, \<open>None\<close> for a miss.\<close>

fun embed_lookup :: "(string \<Rightarrow> string) \<Rightarrow> string list \<Rightarrow> 'v embedding_client \<Rightarrow> 'v option list \<times> 'v embedding_client" where
  "embed_lookup digest [] c = ([], c)"
| "embed_lookup digest (t # ts) c =
     (let (r, cache') = lru_get (digest t) (em_cache c);
          c1 = c\<lparr>em_cache := cache', em_stats := count_lookup (r \<noteq> None) (em_stats c)\<rparr>;
          (rs, c2) = embed_lookup digest ts c1
      in (r # rs, c2))"

definition miss_texts :: "string list \<Rightarrow> 'v option list \<Rightarrow> string list" where
  "miss_texts texts found = map fst (filter (\<lambda>(t, r). r = None) (zip texts found))"

definition embedded :: "string \<Rightarrow> 'v \<Rightarrow> 'v embedding_result" where
  "embedded t v = \<lparr>er_text = t, er_embedding = Some v, er_error = None\<rparr>"

definition unembedded :: "string \<Rightarrow> embed_error \<Rightarrow> 'v embedding_result" where
  "unembedded t e = \<lparr>er_text = t, er_embedding = None, er_error = Some e\<rparr>"

text \<open>The hits, and an error for every other text.\<close>

definition hits_or :: "embed_error \<Rightarrow> string list \<Rightarrow> 'v option list \<Rightarrow> 'v embedding_result list" where
  "hits_or e texts found =
     map (\<lambda>(t, r). case r of Some v \<Rightarrow> embedded t v | None \<Rightarrow> unembedded t e) (zip texts found)"

text \<open>The answer of the service: no answer, a status of 400 or more, or a list of items; an item is the vector of a
  dict that has a list under \<open>embedding\<close>.\<close>

datatype 'v response = NoResponse string | ErrorStatus nat string | Items "'v option list"

fun fill_misses ::
  "(string \<Rightarrow> string) \<Rightarrow> string list \<Rightarrow> 'v option list \<Rightarrow> 'v option list \<Rightarrow> 'v lru \<Rightarrow> 'v embedding_result list \<times> 'v lru" where
  "fill_misses digest (t # ts) (Some v # rs) items c =
     (case fill_misses digest ts rs items c of (out, c') \<Rightarrow> (embedded t v # out, c'))"
| "fill_misses digest (t # ts) (None # rs) (Some v # items) c =
     (case fill_misses digest ts rs items (lru_set (digest t) v c) of (out, c') \<Rightarrow> (embedded t v # out, c'))"
| "fill_misses digest (t # ts) (None # rs) items c =
     (case fill_misses digest ts rs (tl items) c of (out, c') \<Rightarrow> (unembedded t MissingEmbedding # out, c'))"
| "fill_misses digest ts rs items c = ([], c)"

definition embed_answer ::
  "(string \<Rightarrow> string) \<Rightarrow> string list \<Rightarrow> 'v option list \<Rightarrow> 'v response \<Rightarrow> 'v embedding_client \<Rightarrow>
     'v embedding_result list \<times> 'v embedding_client" where
  "embed_answer digest texts found resp c =
     (case resp of
        NoResponse e \<Rightarrow> (hits_or (TransportError e) texts found, c)
      | ErrorStatus n body \<Rightarrow> (hits_or (HttpError n (take 200 body)) texts found, c)
      | Items items \<Rightarrow>
          (case fill_misses digest texts found items (em_cache c) of (out, cache') \<Rightarrow> (out, c\<lparr>em_cache := cache'\<rparr>)))"

text \<open>One call without interleaving: the request it sends, its results, the client.\<close>

definition embed_texts ::
  "(string \<Rightarrow> string) \<Rightarrow> string list \<Rightarrow> 'v response \<Rightarrow> 'v embedding_client \<Rightarrow>
     string list option \<times> 'v embedding_result list \<times> 'v embedding_client" where
  "embed_texts digest texts resp c =
     (if texts = [] then (None, [], c)
      else let (found, c1) = embed_lookup digest texts c; misses = miss_texts texts found in
        if misses = [] then (None, hits_or NotCached texts found, c1)
        else (Some misses, embed_answer digest texts found resp c1))"

subsection \<open>Interleaved calls\<close>

text \<open>A call is a lookup and, if something was missing, later an answer; other calls may come between.  \<open>ma_served\<close>
  records which vector the service has returned for which text.\<close>

datatype 'v embed_event = Lookup nat "string list" | Answer nat "'v response"

record 'v embed_machine =
  ma_client :: "'v embedding_client"
  ma_waiting :: "(nat \<times> string list \<times> 'v option list) list"
  ma_served :: "(string \<times> 'v) list"

definition served_by :: "string list \<Rightarrow> 'v response \<Rightarrow> (string \<times> 'v) list" where
  "served_by misses resp =
     (case resp of Items items \<Rightarrow> concat (map (\<lambda>(t, r). case r of Some v \<Rightarrow> [(t, v)] | None \<Rightarrow> []) (zip misses items)) | _ \<Rightarrow> [])"

definition embed_step ::
  "(string \<Rightarrow> string) \<Rightarrow> 'v embed_event \<Rightarrow> 'v embed_machine \<Rightarrow> 'v embedding_result list \<times> 'v embed_machine" where
  "embed_step digest ev m =
     (case ev of
        Lookup i texts \<Rightarrow>
          (let (found, c) = embed_lookup digest texts (ma_client m) in
           if miss_texts texts found = [] then (hits_or NotCached texts found, m\<lparr>ma_client := c\<rparr>)
           else ([], m\<lparr>ma_client := c, ma_waiting := AList.update i (texts, found) (ma_waiting m)\<rparr>))
      | Answer i resp \<Rightarrow>
          (case map_of (ma_waiting m) i of
             None \<Rightarrow> ([], m)
           | Some (texts, found) \<Rightarrow>
               (case embed_answer digest texts found resp (ma_client m) of (out, c) \<Rightarrow>
                  (out, m\<lparr>ma_client := c, ma_waiting := AList.delete i (ma_waiting m),
                          ma_served := ma_served m @ served_by (miss_texts texts found) resp\<rparr>))))"

fun embed_run ::
  "(string \<Rightarrow> string) \<Rightarrow> 'v embed_event list \<Rightarrow> 'v embed_machine \<Rightarrow> 'v embedding_result list \<times> 'v embed_machine" where
  "embed_run digest [] m = ([], m)"
| "embed_run digest (ev # evs) m =
     (let (out, m1) = embed_step digest ev m; (outs, m2) = embed_run digest evs m1 in (out @ outs, m2))"

definition new_machine :: "int \<Rightarrow> 'v embed_machine" where
  "new_machine n = \<lparr>ma_client = new_embedding_client n, ma_waiting = [], ma_served = []\<rparr>"

subsection \<open>The wrapper of the embedder\<close>

datatype embed_input = OneText string | TextList "string list" | Tokens "int list"

text \<open>The methods the wrapped embedder has; an answer depends on the number of the call and may be an exception.\<close>

record 'v embedder =
  in_create :: "(nat \<Rightarrow> embed_input \<Rightarrow> 'v option) option"
  in_embed :: "(nat \<Rightarrow> string \<Rightarrow> 'v option) option"
  in_batch :: "(nat \<Rightarrow> string list \<Rightarrow> 'v list option) option"

record 'v embed_cache =
  eb_backend :: "'v lru"
  eb_stats :: cache_stats
  eb_calls :: nat

datatype embed_exception = InnerRaised | NoMethod

definition new_embed_cache :: "int \<Rightarrow> 'v embed_cache" where
  "new_embed_cache max_size = \<lparr>eb_backend = new_lru max_size, eb_stats = new_stats, eb_calls = 0\<rparr>"

definition get_single_text :: "embed_input \<Rightarrow> string option" where
  "get_single_text x = (case x of OneText t \<Rightarrow> Some t | TextList [t] \<Rightarrow> Some t | _ \<Rightarrow> None)"

definition eb_get :: "(string \<Rightarrow> string) \<Rightarrow> string \<Rightarrow> 'v embed_cache \<Rightarrow> 'v option \<times> 'v embed_cache" where
  "eb_get digest t e =
     (case lru_get (digest t) (eb_backend e) of
        (r, b) \<Rightarrow> (r, e\<lparr>eb_backend := b, eb_stats := count_lookup (r \<noteq> None) (eb_stats e)\<rparr>))"

definition eb_put :: "(string \<Rightarrow> string) \<Rightarrow> string \<Rightarrow> 'v \<Rightarrow> 'v embed_cache \<Rightarrow> 'v embed_cache" where
  "eb_put digest t v e = e\<lparr>eb_backend := lru_set (digest t) v (eb_backend e)\<rparr>"

definition call_inner :: "(nat \<Rightarrow> 'v option) option \<Rightarrow> 'v embed_cache \<Rightarrow> (embed_exception + 'v) \<times> 'v embed_cache" where
  "call_inner m e =
     (case m of
        None \<Rightarrow> (Inl NoMethod, e)
      | Some f \<Rightarrow> (case f (eb_calls e) of Some v \<Rightarrow> Inr v | None \<Rightarrow> Inl InnerRaised, e\<lparr>eb_calls := eb_calls e + 1\<rparr>))"

text \<open>The first method the embedder has.\<close>

definition create_method :: "'v embedder \<Rightarrow> embed_input \<Rightarrow> string \<Rightarrow> (nat \<Rightarrow> 'v option) option" where
  "create_method inner x t =
     (case in_create inner of
        Some f \<Rightarrow> Some (\<lambda>n. f n x)
      | None \<Rightarrow> (case in_embed inner of Some f \<Rightarrow> Some (\<lambda>n. f n t) | None \<Rightarrow> None))"

definition embed_method :: "'v embedder \<Rightarrow> string \<Rightarrow> (nat \<Rightarrow> 'v option) option" where
  "embed_method inner t =
     (case in_embed inner of
        Some f \<Rightarrow> Some (\<lambda>n. f n t)
      | None \<Rightarrow> (case in_create inner of Some f \<Rightarrow> Some (\<lambda>n. f n (OneText t)) | None \<Rightarrow> None))"

text \<open>Through the cache: a hit, or the answer of the method, which is stored.\<close>

definition cached_call ::
  "(string \<Rightarrow> string) \<Rightarrow> string \<Rightarrow> (nat \<Rightarrow> 'v option) option \<Rightarrow> 'v embed_cache \<Rightarrow> (embed_exception + 'v) \<times> 'v embed_cache" where
  "cached_call digest t m e =
     (case eb_get digest t e of
        (Some v, e1) \<Rightarrow> (Inr v, e1)
      | (None, e1) \<Rightarrow>
          (case call_inner m e1 of
             (Inl x, e2) \<Rightarrow> (Inl x, e2)
           | (Inr v, e2) \<Rightarrow> (Inr v, eb_put digest t v e2)))"

definition eb_create ::
  "(string \<Rightarrow> string) \<Rightarrow> 'v embedder \<Rightarrow> embed_input \<Rightarrow> 'v embed_cache \<Rightarrow> (embed_exception + 'v) \<times> 'v embed_cache" where
  "eb_create digest inner x e =
     (case get_single_text x of
        Some t \<Rightarrow> cached_call digest t (create_method inner x t) e
      | None \<Rightarrow> call_inner (map_option (\<lambda>f n. f n x) (in_create inner)) e)"

definition eb_embed ::
  "(string \<Rightarrow> string) \<Rightarrow> 'v embedder \<Rightarrow> string \<Rightarrow> 'v embed_cache \<Rightarrow> (embed_exception + 'v) \<times> 'v embed_cache" where
  "eb_embed digest inner t e = cached_call digest t (embed_method inner t) e"

fun batch_lookup :: "(string \<Rightarrow> string) \<Rightarrow> string list \<Rightarrow> 'v embed_cache \<Rightarrow> 'v option list \<times> 'v embed_cache" where
  "batch_lookup digest [] e = ([], e)"
| "batch_lookup digest (t # ts) e =
     (let (r, e1) = eb_get digest t e; (rs, e2) = batch_lookup digest ts e1 in (r # rs, e2))"

text \<open>One call per text, up to the first exception.\<close>

fun call_each ::
  "(string \<Rightarrow> (nat \<Rightarrow> 'v option) option) \<Rightarrow> string list \<Rightarrow> 'v embed_cache \<Rightarrow> (embed_exception + 'v list) \<times> 'v embed_cache" where
  "call_each m [] e = (Inr [], e)"
| "call_each m (t # ts) e =
     (case call_inner (m t) e of
        (Inl x, e1) \<Rightarrow> (Inl x, e1)
      | (Inr v, e1) \<Rightarrow> (case call_each m ts e1 of (Inl x, e2) \<Rightarrow> (Inl x, e2) | (Inr vs, e2) \<Rightarrow> (Inr (v # vs), e2)))"

definition fetch_batch :: "'v embedder \<Rightarrow> string list \<Rightarrow> 'v embed_cache \<Rightarrow> (embed_exception + 'v list) \<times> 'v embed_cache" where
  "fetch_batch inner misses e =
     (case in_batch inner of
        Some f \<Rightarrow> (case f (eb_calls e) misses of Some vs \<Rightarrow> Inr vs | None \<Rightarrow> Inl InnerRaised, e\<lparr>eb_calls := eb_calls e + 1\<rparr>)
      | None \<Rightarrow> call_each (\<lambda>t. create_method inner (OneText t) t) misses e)"

text \<open>\<open>zip\<close> stops at the shorter list; a position without a vector stays \<open>None\<close>.\<close>

fun fill_batch :: "(string \<Rightarrow> string) \<Rightarrow> string list \<Rightarrow> 'v option list \<Rightarrow> 'v list \<Rightarrow> 'v embed_cache \<Rightarrow> 'v option list \<times> 'v embed_cache" where
  "fill_batch digest (t # ts) (Some v # rs) vs e =
     (case fill_batch digest ts rs vs e of (out, e') \<Rightarrow> (Some v # out, e'))"
| "fill_batch digest (t # ts) (None # rs) (v # vs) e =
     (case fill_batch digest ts rs vs (eb_put digest t v e) of (out, e') \<Rightarrow> (Some v # out, e'))"
| "fill_batch digest (t # ts) (None # rs) [] e =
     (case fill_batch digest ts rs [] e of (out, e') \<Rightarrow> (None # out, e'))"
| "fill_batch digest ts rs vs e = ([], e)"

definition eb_create_batch ::
  "(string \<Rightarrow> string) \<Rightarrow> 'v embedder \<Rightarrow> string list \<Rightarrow> 'v embed_cache \<Rightarrow> (embed_exception + 'v list) \<times> 'v embed_cache" where
  "eb_create_batch digest inner texts e =
     (if texts = [] then (Inr [], e)
      else let (found, e1) = batch_lookup digest texts e; misses = miss_texts texts found in
        if misses = [] then (Inr (List.map_filter id found), e1)
        else case fetch_batch inner misses e1 of
            (Inl x, e2) \<Rightarrow> (Inl x, e2)
          | (Inr vs, e2) \<Rightarrow> (case fill_batch digest texts found vs e2 of (out, e3) \<Rightarrow> (Inr (List.map_filter id out), e3)))"

subsection \<open>Lookups\<close>

lemma embed_lookup_facts:
  "lru_ok (em_cache c) \<Longrightarrow> embed_lookup digest ts c = (rs, c') \<Longrightarrow>
    rs = map (\<lambda>t. lru_peek (em_cache c) (digest t)) ts \<and> lru_ok (em_cache c') \<and> lru_peek (em_cache c') = lru_peek (em_cache c) \<and>
    total_requests (em_stats c') = total_requests (em_stats c) + length ts"
proof (induction ts arbitrary: c rs c')
  case (Cons t ts)
  obtain r cache' where g: "lru_get (digest t) (em_cache c) = (r, cache')" by (metis prod.exhaust)
  define c1 where "c1 = c\<lparr>em_cache := cache', em_stats := count_lookup (r \<noteq> None) (em_stats c)\<rparr>"
  obtain rs2 c2 where l: "embed_lookup digest ts c1 = (rs2, c2)" by (metis prod.exhaust)
  have run: "rs = r # rs2" "c' = c2" using Cons.prems(2) g l by (simp_all add: c1_def)
  note got = lru.get_content [OF Cons.prems(1) g]
  have "lru_ok (em_cache c1)" using got by (simp add: c1_def)
  from Cons.IH [OF this l] got show ?case unfolding run
    by (simp add: c1_def total_requests_def count_lookup_def)
qed simp

lemma miss_texts_filter:
  "miss_texts ts (map f ts) = filter (\<lambda>t. f t = None) ts"
  by (induction ts) (auto simp: miss_texts_def)

lemma hits_or_texts: "length found = length texts \<Longrightarrow> map er_text (hits_or e texts found) = texts"
  by (induction found texts rule: list_induct2) (auto simp: hits_or_def embedded_def unembedded_def split: option.splits)

lemma fill_texts:
  "length found = length texts \<Longrightarrow> map er_text (fst (fill_misses digest texts found items c)) = texts"
proof (induction found texts arbitrary: items c rule: list_induct2)
  case (Cons r rs t ts)
  show ?case
    by (cases r; cases items; cases "hd items")
      (auto simp: Cons.IH embedded_def unembedded_def split: prod.splits, (metis Cons.IH fst_conv)+)
qed simp

subsection \<open>Where vectors come from\<close>

text \<open>The vectors of some results.\<close>

definition vectors_from :: "(string \<Rightarrow> 'v \<Rightarrow> bool) \<Rightarrow> 'v embedding_result list \<Rightarrow> bool" where
  "vectors_from P rs \<longleftrightarrow> (\<forall>r \<in> set rs. \<forall>v. er_embedding r = Some v \<longrightarrow> P (er_text r) v \<and> er_error r = None)"

definition found_from :: "(string \<Rightarrow> 'v \<Rightarrow> bool) \<Rightarrow> string list \<Rightarrow> 'v option list \<Rightarrow> bool" where
  "found_from P texts found \<longleftrightarrow> length found = length texts \<and> (\<forall>(t, r) \<in> set (zip texts found). \<forall>v. r = Some v \<longrightarrow> P t v)"

lemma vectors_mono: "vectors_from P rs \<Longrightarrow> (\<And>t v. P t v \<Longrightarrow> Q t v) \<Longrightarrow> vectors_from Q rs"
  by (auto simp: vectors_from_def)

lemma found_mono: "found_from P ts rs \<Longrightarrow> (\<And>t v. P t v \<Longrightarrow> Q t v) \<Longrightarrow> found_from Q ts rs"
  by (fastforce simp: found_from_def)

lemma vectors_append: "vectors_from P (rs @ rs') \<longleftrightarrow> vectors_from P rs \<and> vectors_from P rs'"
  by (auto simp: vectors_from_def)

lemma hits_from: "found_from P texts found \<Longrightarrow> vectors_from P (hits_or e texts found)"
  by (fastforce simp: found_from_def vectors_from_def hits_or_def embedded_def unembedded_def split: option.splits)

lemma found_from_tl: "found_from P (t # ts) (r # rs) \<Longrightarrow> found_from P ts rs"
  by (auto simp: found_from_def)

lemma fill_from:
  "lru.all_from (\<lambda>k v. \<exists>t. digest t = k \<and> P t v) c \<Longrightarrow> found_from P ts rs \<Longrightarrow>
    \<forall>(t, v) \<in> set (served_by (miss_texts ts rs) (Items items)). P t v \<Longrightarrow>
    fill_misses digest ts rs items c = (out, c') \<Longrightarrow>
    lru.all_from (\<lambda>k v. \<exists>t. digest t = k \<and> P t v) c' \<and> vectors_from P out"
proof (induction digest ts rs items c arbitrary: out c' rule: fill_misses.induct)
  case (1 digest t ts v rs items c)
  have "found_from P ts rs" "P t v" using "1.prems"(2) by (auto simp: found_from_def)
  with "1.prems" "1.IH" show ?case
    by (fastforce simp: miss_texts_def vectors_from_def embedded_def split: prod.splits)
next
  case (2 digest t ts rs v items c)
  have f: "found_from P ts rs" using "2.prems"(2) by (auto simp: found_from_def)
  have p: "P t v" "\<forall>(t, v) \<in> set (served_by (miss_texts ts rs) (Items items)). P t v"
    using "2.prems"(3) by (auto simp: miss_texts_def served_by_def)
  obtain out1 where o: "fill_misses digest ts rs items (lru_set (digest t) v c) = (out1, c')" "out = embedded t v # out1"
    using "2.prems"(4) by (auto split: prod.splits)
  have "lru.all_from (\<lambda>k v. \<exists>t. digest t = k \<and> P t v) (lru_set (digest t) v c)"
    using "2.prems"(1) p(1) by (blast intro: lru.put_from)
  from "2.IH" [OF this f p(2) o(1)] p(1) o(2) show ?case by (auto simp: vectors_from_def embedded_def)
next
  case "3_1"
  then show ?case
    by (fastforce dest: found_from_tl simp: miss_texts_def served_by_def vectors_from_def unembedded_def split: prod.splits)
next
  case "3_2"
  then show ?case
    by (fastforce dest: found_from_tl simp: miss_texts_def served_by_def vectors_from_def unembedded_def split: prod.splits)
qed (auto simp: vectors_from_def)

definition vector_served :: "(string \<Rightarrow> string) \<Rightarrow> (string \<times> 'v) list \<Rightarrow> string \<Rightarrow> 'v \<Rightarrow> bool" where
  "vector_served digest served t v \<longleftrightarrow> (\<exists>t'. digest t' = digest t \<and> (t', v) \<in> set served)"

lemma vector_served_more: "vector_served digest xs t v \<Longrightarrow> set xs \<subseteq> set ys \<Longrightarrow> vector_served digest ys t v"
  by (auto simp: vector_served_def)

definition machine_ok :: "(string \<Rightarrow> string) \<Rightarrow> 'v embed_machine \<Rightarrow> bool" where
  "machine_ok digest m \<longleftrightarrow>
     lru.all_from (\<lambda>k v. \<exists>t. digest t = k \<and> vector_served digest (ma_served m) t v) (em_cache (ma_client m)) \<and>
     (\<forall>i texts found. map_of (ma_waiting m) i = Some (texts, found) \<longrightarrow> found_from (vector_served digest (ma_served m)) texts found)"

lemma new_machine_ok: "machine_ok digest (new_machine n)"
  by (simp add: machine_ok_def new_machine_def new_embedding_client_def lru.all_from_def lru_ok_def new_lru_def lru_peek_def)

lemma embed_step_ok:
  assumes ok: "machine_ok digest m" and step: "embed_step digest ev m = (out, m')"
  shows "machine_ok digest m' \<and> vectors_from (vector_served digest (ma_served m')) out \<and> set (ma_served m) \<subseteq> set (ma_served m')"
proof (cases ev)
  case (Lookup i texts)
  obtain found c where l: "embed_lookup digest texts (ma_client m) = (found, c)" by (metis prod.exhaust)
  have fits: "lru_ok (em_cache (ma_client m))" using ok by (simp add: machine_ok_def lru.all_from_def)
  note facts = embed_lookup_facts [OF fits l]
  have cache: "lru.all_from (\<lambda>k v. \<exists>t. digest t = k \<and> vector_served digest (ma_served m) t v) (em_cache c)"
    using ok facts by (simp add: machine_ok_def lru.all_from_def)
  have "found_from (vector_served digest (ma_served m)) texts found"
    unfolding found_from_def
  proof (intro conjI ballI, use facts in simp, clarify)
    fix t v
    assume "(t, Some v) \<in> set (zip texts found)"
    then have "lru_peek (em_cache c) (digest t) = Some v" using facts by (auto simp: zip_map2 zip_same)
    then obtain t' where "digest t' = digest t" "vector_served digest (ma_served m) t' v"
      using cache unfolding lru.all_from_def by blast
    then show "vector_served digest (ma_served m) t v" by (auto simp: vector_served_def)
  qed
  moreover have "vectors_from P []" for P :: "string \<Rightarrow> 'a \<Rightarrow> bool" by (simp add: vectors_from_def)
  ultimately show ?thesis
    using step ok l cache hits_from by (auto simp: embed_step_def Lookup machine_ok_def update_conv' split: if_splits)
next
  case (Answer i resp)
  show ?thesis
  proof (cases "map_of (ma_waiting m) i")
    case None
    with step ok Answer show ?thesis by (auto simp: embed_step_def vectors_from_def)
  next
    case (Some call)
    obtain texts found where call: "call = (texts, found)" by (cases call)
    obtain c where a: "embed_answer digest texts found resp (ma_client m) = (out, c)"
      and m': "m' = m\<lparr>ma_client := c, ma_waiting := AList.delete i (ma_waiting m), ma_served := ma_served m @ served_by (miss_texts texts found) resp\<rparr>"
      using step Answer Some call by (auto simp: embed_step_def split: prod.splits)
    let ?P = "vector_served digest (ma_served m')"
    have more: "vector_served digest (ma_served m) t v \<Longrightarrow> ?P t v" for t v
      unfolding vector_served_def m' by auto
    have found: "found_from ?P texts found"
      using ok Some call more by (blast intro: found_mono dest: machine_ok_def [THEN iffD1])
    have cache: "lru.all_from (\<lambda>k v. \<exists>t. digest t = k \<and> ?P t v) (em_cache (ma_client m))"
      using ok more unfolding machine_ok_def by (blast intro: lru.from_mono)
    have "\<forall>(t, v) \<in> set (served_by (miss_texts texts found) resp). ?P t v" unfolding vector_served_def m' by auto
    then have "lru.all_from (\<lambda>k v. \<exists>t. digest t = k \<and> ?P t v) (em_cache c) \<and> vectors_from ?P out"
      using a cache hits_from [OF found] fill_from [OF cache found] by (auto simp: embed_answer_def split: response.splits prod.splits)
    moreover have "found_from ?P ts rs" if "map_of (ma_waiting m') j = Some (ts, rs)" for j ts rs
    proof (rule found_mono)
      have "map_of (ma_waiting m) j = Some (ts, rs)" using that by (simp add: m' delete_conv' split: if_splits)
      then show "found_from (vector_served digest (ma_served m)) ts rs" using ok unfolding machine_ok_def by blast
    qed (rule more)
    ultimately show ?thesis by (auto simp: machine_ok_def m')
  qed
qed

lemma embed_run_ok:
  "machine_ok digest m \<Longrightarrow> embed_run digest evs m = (out, m') \<Longrightarrow>
    machine_ok digest m' \<and> vectors_from (vector_served digest (ma_served m')) out \<and> set (ma_served m) \<subseteq> set (ma_served m')"
proof (induction evs arbitrary: m out)
  case (Cons ev evs)
  obtain out1 m1 where s: "embed_step digest ev m = (out1, m1)" by (metis prod.exhaust)
  obtain out2 where r: "embed_run digest evs m1 = (out2, m')" "out = out1 @ out2"
    using Cons.prems(2) s by (auto simp: Let_def split: prod.splits)
  note a = embed_step_ok [OF Cons.prems(1) s]
  note b = Cons.IH [OF a [THEN conjunct1] r(1)]
  have "vectors_from (vector_served digest (ma_served m')) out1"
  proof (rule vectors_mono)
    show "vectors_from (vector_served digest (ma_served m1)) out1" using a by blast
    show "vector_served digest (ma_served m') t v" if "vector_served digest (ma_served m1) t v" for t v
      using vector_served_more [OF that] b by blast
  qed
  with a b r(2) show ?case by (auto simp: vectors_append)
qed (simp add: vectors_from_def)

text \<open>However calls interleave, a vector handed out for a text was returned by the service for that text (for one with the
  same SHA-256), in this run; and a result with a vector carries no error.  A failure is never served from the cache.\<close>

theorem embeddings_are_served:
  assumes "embed_run digest evs (new_machine n) = (out, m)" "r \<in> set out" "er_embedding r = Some v"
  shows "er_error r = None \<and> (\<exists>t. digest t = digest (er_text r) \<and> (t, v) \<in> set (ma_served m)) \<and>
    (inj digest \<longrightarrow> (er_text r, v) \<in> set (ma_served m))"
proof -
  have "vector_served digest (ma_served m) (er_text r) v \<and> er_error r = None"
    using embed_run_ok [OF new_machine_ok assms(1)] assms(2,3) by (auto simp: vectors_from_def)
  then show ?thesis by (auto simp: vector_served_def dest: injD)
qed

definition sample_calls :: "nat embed_event list" where
  "sample_calls = [Lookup 0 [''a'', ''b''], Lookup 1 [''a''], Answer 1 (Items [Some 7]), Answer 0 (ErrorStatus 503 ''busy''), Lookup 2 [''a'']]"

theorem embeddings_are_served_witness:
  "map er_embedding (fst (embed_run id sample_calls (new_machine 10))) = [Some 7, None, None, Some 7] \<and>
    (''a'', 7) \<in> set (ma_served (snd (embed_run id sample_calls (new_machine 10))))"
proof -
  obtain out m where run: "embed_run id sample_calls (new_machine 10) = (out, m)" by (metis prod.exhaust)
  have vs: "map er_embedding (fst (embed_run id sample_calls (new_machine 10))) = [Some 7, None, None, Some 7]"
    and ts: "map er_text (fst (embed_run id sample_calls (new_machine 10))) = [''a'', ''a'', ''b'', ''a'']" by code_simp+
  then have "out ! 0 \<in> set out" "er_embedding (out ! 0) = Some 7" "er_text (out ! 0) = ''a''"
    using run by (auto simp: map_eq_Cons_conv)
  with embeddings_are_served [OF run this(1,2)] vs show ?thesis by (simp add: run)
qed

text \<open>A call answers every text in order; it asks the service for exactly the texts the cache does not hold, in order, and for none if it holds
  all; a text it holds is answered from the cache whatever the service says; when the service fails, every other text gets the error and the cache keeps its
  content; and every text is counted as a hit or a miss.\<close>

theorem embed_asks_for_misses:
  assumes ok: "lru_ok (em_cache c)" and run: "embed_texts digest texts resp c = (request, out, c')"
  shows "map er_text out = texts \<and>
    request = (let ms = filter (\<lambda>t. lru_peek (em_cache c) (digest t) = None) texts in if ms = [] then None else Some ms) \<and>
    (\<forall>i < length texts. \<forall>v. lru_peek (em_cache c) (digest (texts ! i)) = Some v \<longrightarrow> out ! i = embedded (texts ! i) v) \<and>
    ((\<forall>items. resp \<noteq> Items items) \<longrightarrow> lru_peek (em_cache c') = lru_peek (em_cache c) \<and>
       (\<forall>i < length texts. lru_peek (em_cache c) (digest (texts ! i)) = None \<longrightarrow> er_embedding (out ! i) = None \<and> er_error (out ! i) \<noteq> None)) \<and>
    total_requests (em_stats c') = total_requests (em_stats c) + length texts"
proof -
  let ?f = "\<lambda>t. lru_peek (em_cache c) (digest t)"
  obtain found c1 where l: "embed_lookup digest texts c = (found, c1)" by (metis prod.exhaust)
  note facts = embed_lookup_facts [OF ok l]
  have found: "found = map ?f texts" using facts by blast
  have misses: "miss_texts texts found = filter (\<lambda>t. ?f t = None) texts" unfolding found by (rule miss_texts_filter)
  have hits: "hits_or e texts found ! i = (case ?f (texts ! i) of Some v \<Rightarrow> embedded (texts ! i) v | None \<Rightarrow> unembedded (texts ! i) e)"
    if "i < length texts" for i e using that by (simp add: hits_or_def found)
  have hits_texts: "map er_text (hits_or e texts found) = texts" for e by (rule hits_or_texts) (simp add: found)
  have hits_case: "map er_text (hits_or e texts found) = texts \<and>
      (\<forall>i < length texts. \<forall>v. ?f (texts ! i) = Some v \<longrightarrow> hits_or e texts found ! i = embedded (texts ! i) v) \<and>
      lru_peek (em_cache c1) = lru_peek (em_cache c) \<and>
      (\<forall>i < length texts. ?f (texts ! i) = None \<longrightarrow> er_embedding (hits_or e texts found ! i) = None \<and> er_error (hits_or e texts found ! i) \<noteq> None) \<and>
      total_requests (em_stats c1) = total_requests (em_stats c) + length texts" for e
    using facts hits [of _ e] hits_texts [of e] by (simp add: unembedded_def)
  have fill: "fst (fill_misses digest ts (map ?f ts) items k) ! i = embedded (ts ! i) v"
    if "i < length ts" "?f (ts ! i) = Some v" for ts items k i v
    using that
  proof (induction ts arbitrary: items k i)
    case (Cons t ts)
    then show ?case
      by (cases i; cases "?f t"; cases items; cases "hd items") (auto split: prod.splits, (metis Cons.IH fst_conv)+)
  qed simp
  show ?thesis
  proof (cases "texts = []")
    case False
    show ?thesis
    proof (cases "miss_texts texts found = []")
      case True
      then have "out = hits_or NotCached texts found" "c' = c1" "request = None"
        using run l False by (auto simp: embed_texts_def)
      with hits_case misses True show ?thesis by simp
    next
      case miss: False
      then have a: "embed_answer digest texts found resp c1 = (out, c')" and req: "request = Some (miss_texts texts found)"
        using run l False by (auto simp: embed_texts_def)
      have stats: "em_stats c' = em_stats c1" using a by (auto simp: embed_answer_def split: response.splits prod.splits)
      show ?thesis
      proof (cases resp)
        case (Items items)
        then have "out = fst (fill_misses digest texts found items (em_cache c1))" using a by (auto simp: embed_answer_def split: prod.splits)
        then show ?thesis using fill [of _ texts] fill_texts [of found texts digest items "em_cache c1"] facts miss misses req stats Items
          by (auto simp: found)
      next
        case (NoResponse e)
        then have "out = hits_or (TransportError e) texts found" "c' = c1" using a by (auto simp: embed_answer_def)
        with hits_case req miss misses show ?thesis by simp
      next
        case (ErrorStatus n body)
        then have "out = hits_or (HttpError n (take 200 body)) texts found" "c' = c1" using a by (auto simp: embed_answer_def)
        with hits_case req miss misses show ?thesis by simp
      qed
    qed
  qed (use run in \<open>simp add: embed_texts_def\<close>)
qed

theorem embed_asks_for_misses_witness:
  "fst (embed_texts id [''a'', ''b''] (Items [Some 8]) \<lparr>em_cache = lru_set ''a'' (7 :: nat) (new_lru 5), em_stats = new_stats\<rparr>) = Some [''b''] \<and>
    map er_embedding (fst (snd (embed_texts id [''a'', ''b''] (Items [Some (8 :: nat)]) \<lparr>em_cache = lru_set ''a'' 7 (new_lru 5), em_stats = new_stats\<rparr>))) = [Some 7, Some 8]"
proof -
  let ?c = "\<lparr>em_cache = lru_set ''a'' (7 :: nat) (new_lru 5), em_stats = new_stats\<rparr>"
  obtain request out c' where run: "embed_texts id [''a'', ''b''] (Items [Some 8]) ?c = (request, out, c')" by (metis prod.exhaust)
  have "lru_ok (em_cache ?c)" by (simp add: lru_set_ok lru_ok_def new_lru_def lru_set_def without_key_def)
  from embed_asks_for_misses [OF this run] have "request = Some [''b'']"
    by (simp add: lru_peek_def lru_set_def new_lru_def without_key_def)
  moreover have "map er_embedding (fst (snd (embed_texts id [''a'', ''b''] (Items [Some 8]) ?c))) = [Some 7, Some 8]" by code_simp
  ultimately show ?thesis using run by simp
qed

subsection \<open>Batches\<close>

lemma batch_lookup_facts:
  "lru_ok (eb_backend e) \<Longrightarrow> batch_lookup digest ts e = (rs, e') \<Longrightarrow>
    rs = map (\<lambda>t. lru_peek (eb_backend e) (digest t)) ts \<and> eb_calls e' = eb_calls e"
proof (induction ts arbitrary: e rs e')
  case (Cons t ts)
  obtain r b where g: "lru_get (digest t) (eb_backend e) = (r, b)" by (metis prod.exhaust)
  define e1 where "e1 = e\<lparr>eb_backend := b, eb_stats := count_lookup (r \<noteq> None) (eb_stats e)\<rparr>"
  obtain rs2 e2 where l: "batch_lookup digest ts e1 = (rs2, e2)" by (metis prod.exhaust)
  have run: "rs = r # rs2" "e' = e2" using Cons.prems(2) g l by (simp_all add: e1_def eb_get_def)
  note got = lru.get_content [OF Cons.prems(1) g]
  have "lru_ok (eb_backend e1)" using got by (simp add: e1_def)
  from Cons.IH [OF this l] got show ?case unfolding run by (simp add: e1_def)
qed simp

text \<open>The vectors given to the positions that were missing.\<close>

definition at_misses :: "(string \<Rightarrow> 'v option) \<Rightarrow> string list \<Rightarrow> 'v list \<Rightarrow> 'v list" where
  "at_misses f texts out = map snd (filter (\<lambda>(t, v). f t = None) (zip texts out))"

lemma fill_batch_aligned:
  "length vs = length (filter (\<lambda>t. f t = None) ts) \<Longrightarrow>
    \<exists>out. map Some out = fst (fill_batch digest ts (map f ts) vs e) \<and> length out = length ts \<and> at_misses f ts out = vs \<and>
      (\<forall>i < length ts. \<forall>v. f (ts ! i) = Some v \<longrightarrow> out ! i = v)"
proof (induction ts arbitrary: vs e)
  case Nil
  then show ?case by (simp add: at_misses_def)
next
  case (Cons t ts)
  show ?case
  proof (cases "f t")
    case (Some v)
    obtain out where o: "map Some out = fst (fill_batch digest ts (map f ts) vs e)" "length out = length ts" "at_misses f ts out = vs"
      "\<forall>i < length ts. \<forall>v. f (ts ! i) = Some v \<longrightarrow> out ! i = v"
      using Cons.IH [of vs e] Cons.prems Some by auto
    have "map Some (v # out) = fst (fill_batch digest (t # ts) (map f (t # ts)) vs e)" using o(1) Some by (simp split: prod.splits)
    moreover have "\<forall>i < length (t # ts). \<forall>w. f ((t # ts) ! i) = Some w \<longrightarrow> (v # out) ! i = w"
      using o(4) Some by (auto simp: nth_Cons split: nat.splits)
    ultimately show ?thesis using o(2,3) Some by (intro exI [of _ "v # out"]) (simp add: at_misses_def)
  next
    case None
    with Cons.prems obtain v vs' where vs: "vs = v # vs'" "length vs' = length (filter (\<lambda>t. f t = None) ts)" by (cases vs) auto
    obtain out where o: "map Some out = fst (fill_batch digest ts (map f ts) vs' (eb_put digest t v e))" "length out = length ts" "at_misses f ts out = vs'"
      "\<forall>i < length ts. \<forall>v. f (ts ! i) = Some v \<longrightarrow> out ! i = v"
      using Cons.IH [OF vs(2), of "eb_put digest t v e"] by auto
    have "map Some (v # out) = fst (fill_batch digest (t # ts) (map f (t # ts)) vs e)" using o(1) None vs(1) by (simp split: prod.splits)
    moreover have "\<forall>i < length (t # ts). \<forall>w. f ((t # ts) ! i) = Some w \<longrightarrow> (v # out) ! i = w"
      using o(4) None by (auto simp: nth_Cons split: nat.splits)
    ultimately show ?thesis using o(2,3) None vs(1) by (intro exI [of _ "v # out"]) (simp add: at_misses_def)
  qed
qed

lemma map_filter_Some: "map Some out = xs \<Longrightarrow> List.map_filter id xs = out"
  by (induction out arbitrary: xs) (auto simp: List.map_filter_def)

text \<open>When the wrapped embedder answers a batch with one vector per text it was asked for, a batch through the cache returns one vector per
  text, in order: the cached one where there is one, the others in the order of the embedder's answer.\<close>

theorem batch_is_aligned:
  assumes "lru_ok (eb_backend e)" "in_batch inner = Some f"
    and "\<forall>n ms. \<exists>vs. f n ms = Some vs \<and> length vs = length ms"
  shows "\<exists>out e'. eb_create_batch digest inner texts e = (Inr out, e') \<and> length out = length texts \<and>
    (\<forall>i < length texts. \<forall>v. lru_peek (eb_backend e) (digest (texts ! i)) = Some v \<longrightarrow> out ! i = v) \<and>
    (let f' = \<lambda>t. lru_peek (eb_backend e) (digest t); ms = filter (\<lambda>t. f' t = None) texts in
       ms \<noteq> [] \<longrightarrow> Some (at_misses f' texts out) = f (eb_calls e) ms)"
proof -
  let ?f = "\<lambda>t. lru_peek (eb_backend e) (digest t)"
  let ?ms = "filter (\<lambda>t. ?f t = None) texts"
  obtain found e1 where l: "batch_lookup digest texts e = (found, e1)" by (metis prod.exhaust)
  have found: "found = map ?f texts" "eb_calls e1 = eb_calls e" using batch_lookup_facts [OF assms(1) l] by auto
  have ms: "miss_texts texts found = ?ms" unfolding found(1) by (rule miss_texts_filter)
  show ?thesis
  proof (cases "?ms = []")
    case True
    have "\<exists>out. map Some out = map ?f texts \<and> length out = length texts \<and> (\<forall>i < length texts. \<forall>v. ?f (texts ! i) = Some v \<longrightarrow> out ! i = v)"
    proof (intro exI [of _ "map (\<lambda>t. the (?f t)) texts"] conjI)
      show "map Some (map (\<lambda>t. the (?f t)) texts) = map ?f texts" using True by (auto simp: filter_empty_conv)
    qed auto
    then obtain out where "map Some out = found" "length out = length texts" "\<forall>i < length texts. \<forall>v. ?f (texts ! i) = Some v \<longrightarrow> out ! i = v"
      using found(1) by auto
    with True l ms map_filter_Some [of out found] show ?thesis
      by (cases "texts = []") (auto simp: eb_create_batch_def Let_def)
  next
    case False
    obtain vs where vs: "f (eb_calls e) ?ms = Some vs" "length vs = length ?ms" using assms(3) by blast
    define e2 where "e2 = e1\<lparr>eb_calls := eb_calls e1 + 1\<rparr>"
    obtain out where o: "map Some out = fst (fill_batch digest texts (map ?f texts) vs e2)" "length out = length texts" "at_misses ?f texts out = vs"
      "\<forall>i < length texts. \<forall>v. ?f (texts ! i) = Some v \<longrightarrow> out ! i = v"
      using fill_batch_aligned [OF vs(2), of digest e2] by blast
    obtain e3 where b: "fill_batch digest texts found vs e2 = (map Some out, e3)" using o(1) found(1) by (metis prod.collapse)
    have fetched: "fetch_batch inner ?ms e1 = (Inr vs, e2)" using vs(1) found(2) assms(2) by (simp add: fetch_batch_def e2_def)
    have "texts \<noteq> []" using False by auto
    then have "eb_create_batch digest inner texts e = (Inr out, e3)"
      unfolding eb_create_batch_def Let_def l prod.case ms using False
      by (simp add: fetched b map_filter_Some)
    moreover have "Some (at_misses ?f texts out) = f (eb_calls e) ?ms" using o(3) vs(1) by simp
    ultimately show ?thesis unfolding Let_def using o(2,4) by (intro exI [of _ out] exI [of _ e3] conjI impI)
  qed
qed

definition sample_embedder :: "nat embedder" where
  "sample_embedder = \<lparr>in_create = None, in_embed = None, in_batch = Some (\<lambda>n ms. Some (map length ms))\<rparr>"

theorem batch_is_aligned_witness:
  "fst (eb_create_batch id sample_embedder [''a'', ''bb'', ''ccc''] (eb_put id ''bb'' 9 (new_embed_cache 5))) = Inr [1, 9, 3]"
proof -
  have "lru_ok (eb_backend (eb_put id ''bb'' (9 :: nat) (new_embed_cache 5)))"
    by (simp add: eb_put_def new_embed_cache_def lru_set_ok lru_ok_def new_lru_def lru_set_def without_key_def)
  then have "\<exists>out e'. eb_create_batch id sample_embedder [''a'', ''bb'', ''ccc''] (eb_put id ''bb'' 9 (new_embed_cache 5)) = (Inr out, e') \<and> length out = 3"
    using batch_is_aligned [of "eb_put id ''bb'' 9 (new_embed_cache 5)" sample_embedder _ id "[''a'', ''bb'', ''ccc'']"]
    by (fastforce simp: sample_embedder_def)
  moreover have "fst (eb_create_batch id sample_embedder [''a'', ''bb'', ''ccc''] (eb_put id ''bb'' 9 (new_embed_cache 5))) = Inr [1, 9, 3]" by code_simp
  ultimately show ?thesis by simp
qed

text \<open>A shorter answer is not noticed: the vectors move up to the wrong texts.\<close>

lemma short_batch_shifts:
  "fst (eb_create_batch id \<lparr>in_create = None, in_embed = None, in_batch = Some (\<lambda>n ms. Some [length (hd ms)])\<rparr> [''a'', ''bb'', ''ccc'']
     (eb_put id ''ccc'' 9 (new_embed_cache 5))) = Inr [1, 9]"
  by code_simp

text \<open>The evictions of the statistics are never counted.\<close>

lemma evictions_not_counted:
  "cs_evictions (em_stats (ma_client (snd (embed_run id [Lookup 0 [''a''], Answer 0 (Items [Some (1 :: nat)]), Lookup 1 [''b''], Answer 1 (Items [Some 2])]
     (new_machine 1))))) = 0"
  by code_simp

end
