(* ===== verification/Repair.thy ===== *)
theory Repair
  imports PyNumber
begin

text \<open>
  \<open>heuristics/rules/\<close>: the rules that repair a malformed answer of the language model.  \<open>json.loads\<close> and \<open>str\<close> are arguments; \<open>Inl ValueError\<close> of the first is
  \<open>JSONDecodeError\<close>.
\<close>

record py_env =
  pe_loads :: "string \<Rightarrow> py_exception + pyval"
  pe_str :: "pyval \<Rightarrow> string"

fun py_str :: "py_env \<Rightarrow> pyval \<Rightarrow> string" where
  "py_str env (PyStr s) = s"
| "py_str env v = pe_str env v"

subsection \<open>Lists of integers\<close>

definition caught :: "py_exception \<Rightarrow> bool" where
  "caught e \<longleftrightarrow> e \<in> {ValueError, TypeError}"

text \<open>\<open>int\<close> over a list, leaving out what raises \<open>ValueError\<close> or \<open>TypeError\<close> (\<open>None\<close> does).\<close>

fun ints_of :: "pyval list \<Rightarrow> py_exception + pyval list" where
  "ints_of [] = Inr []"
| "ints_of (x # xs) =
     (case py_int x of
        Inr i \<Rightarrow> map_sum id (Cons (PyInt i)) (ints_of xs)
      | Inl e \<Rightarrow> if caught e then ints_of xs else Inl e)"

fun py_split :: "char \<Rightarrow> string \<Rightarrow> string list" where
  "py_split c [] = [[]]"
| "py_split c (x # xs) =
     (if x = c then [] # py_split c xs else (case py_split c xs of y # ys \<Rightarrow> (x # y) # ys | [] \<Rightarrow> [[x]]))"

definition text_ints :: "string \<Rightarrow> pyval list" where
  "text_ints s =
     (let clean = strip_by (\<lambda>c. c \<in> {CHR ''['', CHR '']'', CHR ''('', CHR '')'', CHR ''{'', CHR ''}'', CHR 0x22, CHR 0x27, CHR '' ''}) s in
      if clean = [] \<or> py_lower clean \<in> {''none'', ''null'', ''empty'', ''[]'', ''n/a'', ''no'', ''false''} then []
      else List.map_filter (\<lambda>part. let p = py_strip part in if p = [] then None else map_option PyInt (parse_int p))
             (py_split (CHR '','') (map (\<lambda>c. if c = CHR '';'' then CHR '','' else c) clean)))"

fun sanitize_int_list :: "pyval \<Rightarrow> py_exception + pyval list" where
  "sanitize_int_list PyNone = Inr []"
| "sanitize_int_list (PyInt i) = Inr [PyInt i]"
| "sanitize_int_list (PyBool b) = Inr [PyBool b]"
| "sanitize_int_list (PyList xs) = ints_of xs"
| "sanitize_int_list (PyTuple xs) = ints_of xs"
| "sanitize_int_list (PySet xs) = ints_of xs"
| "sanitize_int_list (PyFloat f) = map_sum id (\<lambda>i. [PyInt i]) (int_of_float f)"
| "sanitize_int_list (PyStr s) = Inr (text_ints s)"
| "sanitize_int_list (PyDict d) = Inr []"

fun coerce_indices :: "pyval \<Rightarrow> py_exception + pyval list" where
  "coerce_indices (PyList xs) = map_sum id (\<lambda>ys. if ys = [] then [PyInt 0] else ys) (ints_of xs)"
| "coerce_indices (PyBool b) = Inr [PyInt 0]"
| "coerce_indices (PyInt i) = Inr [PyInt i]"
| "coerce_indices (PyFloat f) = map_sum id (\<lambda>i. [PyInt i]) (int_of_float f)"
| "coerce_indices v =
     (case py_int v of
        Inr i \<Rightarrow> Inr [PyInt i]
      | Inl e \<Rightarrow> if caught e then Inr [PyInt 0] else Inl e)"

subsection \<open>Payloads\<close>

text \<open>\<open>{"properties": {...}}\<close> is replaced by its content, under the other keys.\<close>

definition unwrap_properties :: "pydict \<Rightarrow> pydict" where
  "unwrap_properties d =
     (case dict_get d ''properties'' of
        Some (PyDict p) \<Rightarrow> dict_merge p (dict_without ''properties'' d)
      | _ \<Rightarrow> d)"

text \<open>The value of the first key that is present.\<close>

definition alias_value :: "string list \<Rightarrow> pydict \<Rightarrow> pyval" where
  "alias_value keys d =
     (case find (dict_has d) keys of
        Some k \<Rightarrow> (case dict_get d k of Some v \<Rightarrow> v | None \<Rightarrow> PyNone)
      | None \<Rightarrow> PyNone)"

definition list_or_empty :: "pyval \<Rightarrow> pyval" where
  "list_or_empty v = (if is_list v then v else PyList [])"

text \<open>The list under \<open>field\<close>, or under the first of its aliases, which keeps the other keys.\<close>

definition list_field :: "string \<Rightarrow> string list \<Rightarrow> pydict \<Rightarrow> pydict option" where
  "list_field field aliases d =
     (case dict_get d field of
        Some v \<Rightarrow> Some [(field, list_or_empty v)]
      | None \<Rightarrow>
          (case find (dict_has d) aliases of
             Some k \<Rightarrow> Some ((field, list_or_empty (alias_value [k] d)) # dict_without k d)
           | None \<Rightarrow> None))"

subsection \<open>The rules\<close>

definition duplicate_keys :: "string list" where
  "duplicate_keys = [''duplicate_facts'', ''duplicate_indices'', ''duplicates'', ''dup_idx'', ''duplicate_fact_ids'', ''duplicate_ids'']"

definition contradicted_keys :: "string list" where
  "contradicted_keys =
     [''contradicted_facts'', ''contradicted_indices'', ''contradictions'', ''contra_idx'', ''contradicted_fact_ids'', ''contradicted_ids'']"

definition edge_duplicate_repair :: "pyval \<Rightarrow> py_exception + pydict" where
  "edge_duplicate_repair v =
     (case v of
        PyDict d \<Rightarrow>
          (let p = unwrap_properties d in
           case sanitize_int_list (alias_value duplicate_keys p) of
             Inl e \<Rightarrow> Inl e
           | Inr dup \<Rightarrow>
               map_sum id (\<lambda>contra. [(''duplicate_facts'', PyList dup), (''contradicted_facts'', PyList contra)])
                 (sanitize_int_list (alias_value contradicted_keys p)))
      | _ \<Rightarrow> Inr [(''duplicate_facts'', PyList []), (''contradicted_facts'', PyList [])])"

definition extracted_edges_repair :: "pyval \<Rightarrow> pydict" where
  "extracted_edges_repair v =
     (case v of
        PyList xs \<Rightarrow> [(''edges'', PyList xs)]
      | PyDict d \<Rightarrow>
          (case list_field ''edges'' [''facts'', ''fact_triples'', ''edges_list'', ''relations''] (unwrap_properties d) of
             Some out \<Rightarrow> out
           | None \<Rightarrow> [(''edges'', PyList [])])
      | _ \<Rightarrow> [(''edges'', PyList [])])"

definition node_resolutions_repair :: "pyval \<Rightarrow> pydict" where
  "node_resolutions_repair v =
     (case v of
        PyList xs \<Rightarrow> [(''entity_resolutions'', PyList xs)]
      | PyDict d \<Rightarrow>
          (let p = unwrap_properties d in
           case list_field ''entity_resolutions'' [''resolutions'', ''dedupe_results'', ''nodes'', ''node_resolutions''] p of
             Some out \<Rightarrow> out
           | None \<Rightarrow>
               if dict_has p ''id'' \<and> dict_has p ''name'' then [(''entity_resolutions'', PyList [PyDict p])]
               else [(''entity_resolutions'', PyList [])])
      | _ \<Rightarrow> [(''entity_resolutions'', PyList [])])"

subsection \<open>Entities and summaries\<close>

definition falsy_key :: "string \<Rightarrow> pydict \<Rightarrow> bool" where
  "falsy_key k d \<longleftrightarrow> (case dict_get d k of Some v \<Rightarrow> \<not> py_truthy v | None \<Rightarrow> True)"

definition default_text :: "string \<Rightarrow> string \<Rightarrow> pydict \<Rightarrow> pydict" where
  "default_text k t d = (if falsy_key k d then dict_set k (PyStr t) d else d)"

definition type_id_of :: "pydict \<Rightarrow> py_exception + pydict" where
  "type_id_of d =
     (case dict_get d ''entity_type_id'' of
        None \<Rightarrow> Inr (dict_set ''entity_type_id'' (PyInt 0) d)
      | Some PyNone \<Rightarrow> Inr (dict_set ''entity_type_id'' (PyInt 0) d)
      | Some (PyBool b) \<Rightarrow> Inr (dict_set ''entity_type_id'' (PyInt 0) d)
      | Some (PyInt i) \<Rightarrow> Inr d
      | Some v \<Rightarrow>
          (case py_int v of
             Inr i \<Rightarrow> Inr (dict_set ''entity_type_id'' (PyInt i) d)
           | Inl e \<Rightarrow> if caught e then Inr (dict_set ''entity_type_id'' (PyInt 0) d) else Inl e))"

definition normalize_extracted :: "py_env \<Rightarrow> pyval \<Rightarrow> py_exception + pyval" where
  "normalize_extracted env v =
     (case v of
        PyDict d \<Rightarrow>
          (case type_id_of d of
             Inl e \<Rightarrow> Inl e
           | Inr d1 \<Rightarrow>
               (case coerce_indices (case dict_get d1 ''episode_indices'' of Some x \<Rightarrow> x | None \<Rightarrow> PyList [PyInt 0]) of
                  Inl e \<Rightarrow> Inl e
                | Inr is' \<Rightarrow> Inr (PyDict (default_text ''name'' ''<unnamed>'' (dict_set ''episode_indices'' (PyList is') d1)))))
      | _ \<Rightarrow> Inr (PyDict [(''name'', PyStr (py_str env v)), (''entity_type_id'', PyInt 0), (''episode_indices'', PyList [PyInt 0])]))"

definition normalize_summarized :: "py_env \<Rightarrow> pyval \<Rightarrow> py_exception + pyval" where
  "normalize_summarized env v =
     (case v of
        PyDict d \<Rightarrow> Inr (PyDict (default_text ''summary'' '''' (default_text ''name'' ''<unnamed>'' d)))
      | _ \<Rightarrow> Inr (PyDict [(''name'', PyStr ''<unnamed>''), (''summary'', PyStr (if v = PyNone then '''' else py_str env v))]))"

datatype entity_schema = ExtractedEntities | SummarizedEntities

definition default_key :: "entity_schema \<Rightarrow> string" where
  "default_key n = (case n of ExtractedEntities \<Rightarrow> ''extracted_entities'' | SummarizedEntities \<Rightarrow> ''summaries'')"

definition container_keys :: "entity_schema \<Rightarrow> string list" where
  "container_keys n =
     (case n of
        ExtractedEntities \<Rightarrow> [''extracted_entities'', ''entities'', ''node_list'', ''extracted'', ''items'']
      | SummarizedEntities \<Rightarrow> [''summaries'', ''summarized_entities'', ''summary_list'', ''items''])"

definition normalize_entity :: "py_env \<Rightarrow> entity_schema \<Rightarrow> pyval \<Rightarrow> py_exception + pyval" where
  "normalize_entity env n = (case n of ExtractedEntities \<Rightarrow> normalize_extracted env | SummarizedEntities \<Rightarrow> normalize_summarized env)"

fun normalize_all :: "(pyval \<Rightarrow> py_exception + pyval) \<Rightarrow> pyval list \<Rightarrow> py_exception + pyval list" where
  "normalize_all f [] = Inr []"
| "normalize_all f (x # xs) = (case f x of Inl e \<Rightarrow> Inl e | Inr y \<Rightarrow> map_sum id (Cons y) (normalize_all f xs))"

definition items_done :: "py_env \<Rightarrow> entity_schema \<Rightarrow> pyval list \<Rightarrow> py_exception + pydict" where
  "items_done env n xs = map_sum id (\<lambda>ys. [(default_key n, PyList ys)]) (normalize_all (normalize_entity env n) xs)"

fun find_container :: "pydict \<Rightarrow> string list \<Rightarrow> pyval list option" where
  "find_container d [] = None"
| "find_container d (k # ks) =
     (case dict_get d k of
        Some (PyList xs) \<Rightarrow> Some xs
      | Some (PyDict e) \<Rightarrow> Some [PyDict e]
      | Some (PySet xs) \<Rightarrow> Some xs
      | Some (PyTuple xs) \<Rightarrow> Some xs
      | _ \<Rightarrow> find_container d ks)"

fun find_class_items :: "pydict \<Rightarrow> string list \<Rightarrow> pyval list option" where
  "find_class_items d [] = None"
| "find_class_items d (k # ks) =
     (case dict_get d k of
        Some (PyList xs) \<Rightarrow> Some xs
      | Some (PySet xs) \<Rightarrow> Some xs
      | Some (PyTuple xs) \<Rightarrow> Some xs
      | Some (PyDict e) \<Rightarrow> Some [PyDict e]
      | Some (PyStr s) \<Rightarrow> Some [PyStr s]
      | _ \<Rightarrow> find_class_items d ks)"

definition class_name_keys :: "string list" where
  "class_name_keys = [''SummarizedEntity'', ''ExtractedEntity'', ''SummarizedEntities'', ''ExtractedEntities'']"

definition single_entity_markers :: "string list" where
  "single_entity_markers = [''name'', ''summary'', ''entity_type'', ''entity_type_id'']"

text \<open>Steps 2 to 8: what is left after a text has been parsed.\<close>

definition repair_object :: "py_env \<Rightarrow> entity_schema \<Rightarrow> pyval \<Rightarrow> py_exception + pydict" where
  "repair_object env n v =
     (case v of
        PyList xs \<Rightarrow> items_done env n xs
      | PyDict d \<Rightarrow>
          (let p = unwrap_properties d in
           case find_container p (container_keys n) of
             Some xs \<Rightarrow> items_done env n xs
           | None \<Rightarrow>
               (case find_class_items p class_name_keys of
                  Some xs \<Rightarrow> items_done env n xs
                | None \<Rightarrow>
                    if list_ex (dict_has p) single_entity_markers then items_done env n [PyDict p]
                    else Inr [(default_key n, PyList [])]))
      | _ \<Rightarrow> Inr [(default_key n, PyList [])])"

definition entities_repair :: "py_env \<Rightarrow> entity_schema \<Rightarrow> pyval \<Rightarrow> py_exception + pydict" where
  "entities_repair env n v =
     (case v of
        PyStr s \<Rightarrow>
          (let t = py_strip s in
           if \<not> (prefix ''{'' t \<or> prefix ''['' t) then Inr [(default_key n, PyList [])]
           else case pe_loads env t of
               Inr w \<Rightarrow> repair_object env n w
             | Inl ValueError \<Rightarrow> Inr [(default_key n, PyList [])]
             | Inl e \<Rightarrow> Inl e)
      | _ \<Rightarrow> repair_object env n v)"

subsection \<open>Dictionaries\<close>

lemma map_sum_right [simp]:
  "map_sum id f x = Inr y \<longleftrightarrow> (\<exists>z. x = Inr z \<and> y = f z)" "map_sum id f x = Inl e \<longleftrightarrow> x = Inl e"
  by (cases x; auto)+

lemma dict_set_same [simp]: "dict_get d k = Some v \<Longrightarrow> dict_set k v d = d"
  by (induction d) (auto simp: dict_set_def split: if_splits)

lemma unwrap_id: "dict_get d ''properties'' = None \<Longrightarrow> unwrap_properties d = d"
  by (simp add: unwrap_properties_def)

lemma list_or_empty_list: "\<exists>xs. list_or_empty v = PyList xs"
  by (cases v) (auto simp: list_or_empty_def)

lemma list_field_list:
  "list_field k ks d = Some out \<Longrightarrow> \<exists>xs. dict_get out k = Some (PyList xs)"
  using list_or_empty_list by (auto simp: list_field_def split: option.splits)

subsection \<open>Normalised entities\<close>

lemma ints_of_ints: "ints_of xs = Inr ys \<Longrightarrow> \<forall>y \<in> set ys. \<exists>i. y = PyInt i"
  by (induction xs arbitrary: ys) (auto split: sum.splits if_splits)

lemma ints_of_same: "\<forall>y \<in> set ys. \<exists>i. y = PyInt i \<Longrightarrow> ints_of ys = Inr ys"
  by (induction ys) auto

lemma coerce_indices_ints: "coerce_indices v = Inr ys \<Longrightarrow> ys \<noteq> [] \<and> (\<forall>y \<in> set ys. \<exists>i. y = PyInt i)"
  using ints_of_ints by (cases v) (auto split: sum.splits if_splits)

text \<open>The fields a repaired entity has.\<close>

definition entity_fields :: "entity_schema \<Rightarrow> pyval \<Rightarrow> bool" where
  "entity_fields n v \<longleftrightarrow>
     (case v of
        PyDict d \<Rightarrow>
          dict_get d ''name'' \<noteq> None \<and>
          (case n of
             ExtractedEntities \<Rightarrow>
               (\<exists>i. dict_get d ''entity_type_id'' = Some (PyInt i)) \<and>
               (\<exists>xs. dict_get d ''episode_indices'' = Some (PyList xs) \<and> xs \<noteq> [] \<and> (\<forall>x \<in> set xs. \<exists>i. x = PyInt i))
           | SummarizedEntities \<Rightarrow> (\<exists>x. dict_get d ''summary'' = Some x \<and> (py_truthy x \<or> x = PyStr '''')))
      | _ \<Rightarrow> False)"

definition blank_name :: "pyval \<Rightarrow> bool" where
  "blank_name v \<longleftrightarrow> (case v of PyDict d \<Rightarrow> falsy_key ''name'' d | _ \<Rightarrow> False)"

lemma default_text_get: "dict_get (default_text k t d) k' = (if k' = k \<and> falsy_key k d then Some (PyStr t) else dict_get d k')"
  by (simp add: default_text_def)

lemma default_text_present: "dict_get (default_text k t d) k \<noteq> None"
  by (auto simp: default_text_get falsy_key_def split: option.splits)

lemma type_id_int: "type_id_of d = Inr d1 \<Longrightarrow> \<exists>i. dict_get d1 ''entity_type_id'' = Some (PyInt i)"
  by (auto simp: type_id_of_def split: option.splits pyval.splits sum.splits if_splits)

lemma normalize_fields: "normalize_entity env n v = Inr w \<Longrightarrow> entity_fields n w"
proof (cases n)
  case ExtractedEntities
  assume "normalize_entity env n v = Inr w"
  with ExtractedEntities show ?thesis
    using default_text_present [of "''name''"] type_id_int coerce_indices_ints
    by (cases v)
      (auto simp: normalize_entity_def normalize_extracted_def entity_fields_def default_text_get split: sum.splits option.splits)
next
  case SummarizedEntities
  assume "normalize_entity env n v = Inr w"
  with SummarizedEntities show ?thesis
    using default_text_present [of "''name''"]
    by (cases v) (auto simp: normalize_entity_def normalize_summarized_def entity_fields_def default_text_get falsy_key_def
      split: if_splits option.splits)
qed

lemma normalize_same:
  assumes "entity_fields n w" "\<not> blank_name w"
  shows "normalize_entity env n w = Inr w"
proof -
  obtain d where d: "w = PyDict d" using assms(1) by (cases w) (auto simp: entity_fields_def)
  have name: "default_text ''name'' ''<unnamed>'' d = d" using assms(2) by (simp add: d blank_name_def default_text_def)
  show ?thesis
  proof (cases n)
    case ExtractedEntities
    with assms(1) obtain i xs where f: "dict_get d ''entity_type_id'' = Some (PyInt i)" "dict_get d ''episode_indices'' = Some (PyList xs)"
      "xs \<noteq> []" "\<forall>x \<in> set xs. \<exists>i. x = PyInt i"
      by (auto simp: d entity_fields_def)
    then show ?thesis
      using name by (simp add: d ExtractedEntities normalize_entity_def normalize_extracted_def type_id_of_def ints_of_same)
  next
    case SummarizedEntities
    with assms(1) obtain x where "dict_get d ''summary'' = Some x" "py_truthy x \<or> x = PyStr ''''"
      by (auto simp: d entity_fields_def)
    then have "default_text ''summary'' '''' d = d" by (auto simp: default_text_def falsy_key_def)
    with name show ?thesis by (simp add: d SummarizedEntities normalize_entity_def normalize_summarized_def)
  qed
qed

lemma normalize_all_mem: "normalize_all f xs = Inr ys \<Longrightarrow> list_all2 (\<lambda>x y. f x = Inr y) xs ys"
  by (induction xs arbitrary: ys) (auto split: sum.splits)

lemma normalize_all_same: "\<forall>y \<in> set ys. f y = Inr y \<Longrightarrow> normalize_all f ys = Inr ys"
  by (induction ys) auto

lemma items_done_fields:
  assumes "items_done env n xs = Inr d"
  shows "\<exists>es. d = [(default_key n, PyList es)] \<and> length es = length xs \<and> (\<forall>e \<in> set es. entity_fields n e)"
proof -
  obtain es where es: "normalize_all (normalize_entity env n) xs = Inr es" "d = [(default_key n, PyList es)]"
    using assms by (auto simp: items_done_def)
  from normalize_all_mem [OF es(1)] have "length xs = length es \<and> (\<forall>e \<in> set es. entity_fields n e)"
  proof (induction rule: list_all2_induct)
    case (Cons x xs y ys)
    then show ?case using normalize_fields [of env n x y] by simp
  qed simp
  with es(2) show ?thesis by (metis (no_types))
qed

lemma repair_object_fields:
  "repair_object env n v = Inr d \<Longrightarrow> \<exists>es. d = [(default_key n, PyList es)] \<and> (\<forall>e \<in> set es. entity_fields n e)"
  unfolding repair_object_def Let_def
  by (auto split: pyval.splits option.splits if_splits dest: items_done_fields)

lemma entities_repair_fields:
  "entities_repair env n v = Inr d \<Longrightarrow> \<exists>es. d = [(default_key n, PyList es)] \<and> (\<forall>e \<in> set es. entity_fields n e)"
  unfolding entities_repair_def Let_def
  by (auto split: pyval.splits sum.splits if_splits py_exception.splits dest: repair_object_fields)

lemma default_container: "container_keys n = default_key n # tl (container_keys n)" "default_key n \<noteq> ''properties''"
  by (cases n; simp add: container_keys_def default_key_def)+

lemma repair_of_list:
  "entities_repair env n (PyDict [(default_key n, PyList es)]) = items_done env n es"
proof -
  have "unwrap_properties [(default_key n, PyList es)] = [(default_key n, PyList es)]"
    using default_container(2) [of n] by (simp add: unwrap_id)
  moreover have "find_container [(default_key n, PyList es)] (container_keys n) = Some es"
    by (subst default_container(1)) simp
  ultimately show ?thesis by (simp add: entities_repair_def repair_object_def)
qed

text \<open>C28: Whatever the model answered, a repaired entity payload has exactly the field of its schema, a list of entities that all
  have the schema's fields with normalised values; and unless a name is blank, repairing it again changes nothing.\<close>

theorem entity_repair_is_stable:
  assumes "entities_repair env n v = Inr d"
  shows "\<exists>es. d = [(default_key n, PyList es)] \<and> (\<forall>e \<in> set es. entity_fields n e) \<and>
    ((\<forall>e \<in> set es. \<not> blank_name e) \<longrightarrow> entities_repair env n (PyDict d) = Inr d)"
proof -
  obtain es where es: "d = [(default_key n, PyList es)]" "\<forall>e \<in> set es. entity_fields n e"
    using entities_repair_fields [OF assms] by blast
  then have "\<forall>e \<in> set es. \<not> blank_name e \<Longrightarrow> normalize_all (normalize_entity env n) es = Inr es"
    by (intro normalize_all_same) (simp add: normalize_same)
  with es show ?thesis by (auto simp: repair_of_list items_done_def)
qed

definition plain_env :: py_env where
  "plain_env = \<lparr>pe_loads = (\<lambda>t. Inl ValueError), pe_str = (\<lambda>v. ''?'')\<rparr>"

theorem entity_repair_is_stable_witness:
  "\<exists>es. entities_repair plain_env ExtractedEntities
        (PyDict [(''entities'', PyList [PyStr ''Ann'', PyDict [(''name'', PyStr ''Bob''), (''entity_type_id'', PyStr ''x'')]])]) =
      Inr [(''extracted_entities'', PyList es)] \<and> length es = 2 \<and>
    entities_repair plain_env ExtractedEntities (PyDict [(''extracted_entities'', PyList es)]) = Inr [(''extracted_entities'', PyList es)]"
proof -
  let ?e = "\<lambda>name. PyDict [(''name'', PyStr name), (''entity_type_id'', PyInt 0), (''episode_indices'', PyList [PyInt 0])]"
  have r: "entities_repair plain_env ExtractedEntities
        (PyDict [(''entities'', PyList [PyStr ''Ann'', PyDict [(''name'', PyStr ''Bob''), (''entity_type_id'', PyStr ''x'')]])]) =
      Inr [(''extracted_entities'', PyList [?e ''Ann'', ?e ''Bob''])]" by code_simp
  from entity_repair_is_stable [OF r] have
    "entities_repair plain_env ExtractedEntities (PyDict [(''extracted_entities'', PyList [?e ''Ann'', ?e ''Bob''])]) =
      Inr [(''extracted_entities'', PyList [?e ''Ann'', ?e ''Bob''])]"
    by (simp add: default_key_def blank_name_def falsy_key_def)
  with r show ?thesis by (intro exI [of _ "[?e ''Ann'', ?e ''Bob'']"]) simp
qed

text \<open>A blank text as an entity gives an entity without a name, which the rule itself would rename.\<close>

lemma blank_entity_stays_blank:
  "entities_repair plain_env ExtractedEntities (PyList [PyStr '''']) =
     Inr [(''extracted_entities'', PyList [PyDict [(''name'', PyStr ''''), (''entity_type_id'', PyInt 0), (''episode_indices'', PyList [PyInt 0])]])]"
  by code_simp

text \<open>A text under a container key is data that the repair discards.\<close>

lemma text_container_discarded:
  "entities_repair plain_env ExtractedEntities (PyDict [(''entities'', PyStr ''Ann'')]) = Inr [(''extracted_entities'', PyList [])]"
  by code_simp

text \<open>An infinite number raises \<open>OverflowError\<close>, which no handler catches.\<close>

lemma infinite_index_raises:
  "sanitize_int_list (PyList [PyFloat FInf]) = Inl OverflowError"
  "entities_repair plain_env ExtractedEntities (PyList [PyDict [(''entity_type_id'', PyFloat FInf)]]) = Inl OverflowError"
  by code_simp+

subsection \<open>Wrappers\<close>

text \<open>The shapes in which the model may send the entities \<open>xs\<close>: bare, under a known key, in \<open>properties\<close>, as text.\<close>

definition known_keys :: "entity_schema \<Rightarrow> string list" where
  "known_keys n = container_keys n @ class_name_keys"

definition only_known :: "entity_schema \<Rightarrow> string \<Rightarrow> pydict \<Rightarrow> bool" where
  "only_known n k d \<longleftrightarrow> k \<in> set (known_keys n) \<and> (\<forall>k' \<in> set (known_keys n). k' \<noteq> k \<longrightarrow> dict_get d k' = None)"

inductive wraps :: "py_env \<Rightarrow> entity_schema \<Rightarrow> pyval list \<Rightarrow> pyval \<Rightarrow> bool" for env n xs where
  Bare: "wraps env n xs (PyList xs)"
| Key: "only_known n k d \<Longrightarrow> dict_get d k \<in> {Some (PyList xs), Some (PyTuple xs), Some (PySet xs)} \<Longrightarrow>
    dict_get d ''properties'' = None \<Longrightarrow> wraps env n xs (PyDict d)"
| Properties: "only_known n k p \<Longrightarrow> dict_get p k \<in> {Some (PyList xs), Some (PyTuple xs), Some (PySet xs)} \<Longrightarrow>
    dict_get d ''properties'' = Some (PyDict p) \<Longrightarrow> distinct (map fst d) \<Longrightarrow>
    (\<forall>k' \<in> set (known_keys n). dict_get d k' = None) \<Longrightarrow> wraps env n xs (PyDict d)"
| Json: "wraps env n xs v \<Longrightarrow> (\<forall>s. v \<noteq> PyStr s) \<Longrightarrow> pe_loads env (py_strip t) = Inr v \<Longrightarrow>
    prefix ''{'' (py_strip t) \<or> prefix ''['' (py_strip t) \<Longrightarrow> wraps env n xs (PyStr t)"

lemma find_container_skip:
  "(\<forall>k' \<in> set ks. k' \<noteq> k \<longrightarrow> dict_get d k' = None) \<Longrightarrow>
    dict_get d k \<in> {Some (PyList xs), Some (PyTuple xs), Some (PySet xs)} \<Longrightarrow>
    find_container d ks = (if k \<in> set ks then Some xs else None)"
  by (induction ks) auto

lemma find_class_items_skip:
  "(\<forall>k' \<in> set ks. k' \<noteq> k \<longrightarrow> dict_get d k' = None) \<Longrightarrow>
    dict_get d k \<in> {Some (PyList xs), Some (PyTuple xs), Some (PySet xs)} \<Longrightarrow>
    find_class_items d ks = (if k \<in> set ks then Some xs else None)"
  by (induction ks) auto

lemma repair_known:
  assumes "only_known n k p" "dict_get p k \<in> {Some (PyList xs), Some (PyTuple xs), Some (PySet xs)}" "unwrap_properties d = p"
  shows "repair_object env n (PyDict d) = items_done env n xs"
  using assms find_container_skip [of "container_keys n" k p xs] find_class_items_skip [of class_name_keys k p xs]
  by (auto simp: repair_object_def only_known_def known_keys_def)

lemma known_not_properties: "''properties'' \<notin> set (known_keys n)"
  by (cases n) (simp_all add: known_keys_def container_keys_def class_name_keys_def)

lemma wrapped_repair: "wraps env n xs v \<Longrightarrow> entities_repair env n v = items_done env n xs"
proof (induction rule: wraps.induct)
  case Bare
  show ?case by (simp add: entities_repair_def repair_object_def)
next
  case (Key k d)
  then show ?case using repair_known [of n k d xs d] by (simp add: entities_repair_def unwrap_id)
next
  case (Properties k p d)
  let ?u = "unwrap_properties d"
  have u: "?u = dict_merge p (dict_without ''properties'' d)" using Properties(3) by (simp add: unwrap_properties_def)
  have "distinct (map fst (dict_without ''properties'' d))"
    using Properties(4) by (simp add: dict_without_def distinct_map_filter)
  then have same: "dict_get ?u k' = dict_get p k'" if "k' \<in> set (known_keys n)" for k'
    using Properties(5) that known_not_properties [of n] by (simp add: u dict_get_merge)
  with Properties(1,2) have "only_known n k ?u" "dict_get ?u k \<in> {Some (PyList xs), Some (PyTuple xs), Some (PySet xs)}"
    by (auto simp: only_known_def)
  then show ?case using repair_known [OF _ _ refl] by (simp add: entities_repair_def)
next
  case (Json v t)
  then have "entities_repair env n v = repair_object env n v" by (cases v) (auto simp: entities_repair_def)
  with Json show ?case by (auto simp: entities_repair_def Let_def)
qed

text \<open>C30: The same entities give the same payload in every shape the rule accepts (bare list, any known key, a \<open>properties\<close>
  wrapper, JSON text): one repaired entity per entity, in order.\<close>

theorem repair_ignores_wrapping:
  assumes "wraps env n xs v" "wraps env n xs w"
  shows "entities_repair env n v = entities_repair env n w \<and>
    (\<forall>d. entities_repair env n v = Inr d \<longrightarrow>
      (\<exists>es. d = [(default_key n, PyList es)] \<and> list_all2 (\<lambda>x e. normalize_entity env n x = Inr e) xs es))"
  using assms normalize_all_mem by (auto simp: wrapped_repair items_done_def)

theorem repair_ignores_wrapping_witness:
  "entities_repair plain_env SummarizedEntities (PyDict [(''properties'', PyDict [(''SummarizedEntity'', PyList [PyStr ''Ann''])])]) =
   entities_repair plain_env SummarizedEntities (PyList [PyStr ''Ann''])"
proof -
  have "wraps plain_env SummarizedEntities [PyStr ''Ann''] (PyDict [(''properties'', PyDict [(''SummarizedEntity'', PyList [PyStr ''Ann''])])])"
    by (rule Properties [of _ "''SummarizedEntity''"]) (simp_all add: only_known_def known_keys_def container_keys_def class_name_keys_def)
  from repair_ignores_wrapping [OF this Bare] show ?thesis by blast
qed

end
