(* ===== verification/RepairClient.thy ===== *)
theory RepairClient
  imports Repair
begin

text \<open>
  \<open>heuristics/registry.py\<close>, \<open>heuristics/quirks_logger.py\<close> and \<open>heuristics/repairing_client.py\<close>: which rule is applied to a
  response that its model rejects, and what the caller gets.
\<close>

subsection \<open>The registry\<close>

record rule =
  ru_name :: string
  ru_targets :: "string list"
  ru_priority :: int
  ru_repair :: "string \<Rightarrow> pyval \<Rightarrow> py_exception + pydict"

definition can_repair :: "rule \<Rightarrow> string \<Rightarrow> bool" where
  "can_repair r n \<longleftrightarrow> n \<in> set (ru_targets r)"

definition edge_duplicate_rule :: rule where
  "edge_duplicate_rule =
     \<lparr>ru_name = ''edge_duplicate'', ru_targets = [''EdgeDuplicate''], ru_priority = 10,
      ru_repair = (\<lambda>n. edge_duplicate_repair)\<rparr>"

definition extracted_edges_rule :: rule where
  "extracted_edges_rule =
     \<lparr>ru_name = ''extracted_edges'', ru_targets = [''ExtractedEdges''], ru_priority = 20,
      ru_repair = (\<lambda>n v. Inr (extracted_edges_repair v))\<rparr>"

definition entity_schema_of :: "string \<Rightarrow> entity_schema" where
  "entity_schema_of n = (if n = ''SummarizedEntities'' then SummarizedEntities else ExtractedEntities)"

definition extracted_entities_rule :: "py_env \<Rightarrow> rule" where
  "extracted_entities_rule env =
     \<lparr>ru_name = ''extracted_entities'', ru_targets = [''ExtractedEntities'', ''SummarizedEntities''], ru_priority = 30,
      ru_repair = (\<lambda>n. entities_repair env (entity_schema_of n))\<rparr>"

definition node_resolutions_rule :: rule where
  "node_resolutions_rule =
     \<lparr>ru_name = ''node_resolutions'', ru_targets = [''NodeResolutions'', ''EntityResolutions''], ru_priority = 40,
      ru_repair = (\<lambda>n v. Inr (node_resolutions_repair v))\<rparr>"

record registry =
  rg_rules :: "(string \<times> rule) list"
  rg_active :: "string list option"

definition register_rule :: "rule \<Rightarrow> registry \<Rightarrow> registry" where
  "register_rule r g = g\<lparr>rg_rules := AList.update (ru_name r) r (rg_rules g)\<rparr>"

definition default_rules :: "py_env \<Rightarrow> rule list" where
  "default_rules env = [edge_duplicate_rule, extracted_edges_rule, extracted_entities_rule env, node_resolutions_rule]"

definition new_registry :: "py_env \<Rightarrow> string list option \<Rightarrow> registry" where
  "new_registry env active = fold register_rule (default_rules env) \<lparr>rg_rules = [], rg_active = active\<rparr>"

definition get_rules :: "registry \<Rightarrow> rule list" where
  "get_rules g =
     sort_key ru_priority
       (map snd (filter (\<lambda>(name, r). case rg_active g of None \<Rightarrow> True | Some names \<Rightarrow> name \<in> set names) (rg_rules g)))"

definition find_rule :: "string \<Rightarrow> registry \<Rightarrow> rule option" where
  "find_rule n g = find (\<lambda>r. can_repair r n) (get_rules g)"

subsection \<open>The quirks log\<close>

datatype quirk =
    Quirk (qk_model: string) (qk_field: string) (qk_episode: string) (qk_applied: bool)
  | Repaired (qk_rule: string) (qk_schema: string) (qk_original: pyval) (qk_repaired: pydict)

text \<open>\<open>writable\<close>: no exception on the way to the file; otherwise the entry is dropped silently.\<close>

definition log_quirk :: "bool \<Rightarrow> quirk \<Rightarrow> quirk list \<Rightarrow> quirk list" where
  "log_quirk writable entry quirks = (if writable then quirks @ [entry] else quirks)"

subsection \<open>The client\<close>

text \<open>Validation by the response model is an argument: \<open>None\<close> when the value is accepted, otherwise the \<open>input\<close> of each
  error, if it has one.  \<open>answer\<close> is what the wrapped client returned, \<open>None\<close> an exception of it.\<close>

type_synonym validator = "pyval \<Rightarrow> pyval option list option"

datatype client_error = InnerFailed | Invalid pyval | RepairRaised py_exception

definition offending_input :: "pyval \<Rightarrow> pyval option list \<Rightarrow> pyval" where
  "offending_input response errors = (case errors of Some v # _ \<Rightarrow> v | _ \<Rightarrow> response)"

definition generate_response ::
  "registry \<Rightarrow> (string \<times> validator) option \<Rightarrow> bool \<Rightarrow> pyval option \<Rightarrow> quirk list \<Rightarrow> (client_error + pyval) \<times> quirk list" where
  "generate_response g model writable answer quirks =
     (case answer of
        None \<Rightarrow> (Inl InnerFailed, quirks)
      | Some response \<Rightarrow>
          (case model of
             None \<Rightarrow> (Inr response, quirks)
           | Some (n, validate) \<Rightarrow>
               (case validate response of
                  None \<Rightarrow> (Inr response, quirks)
                | Some errors \<Rightarrow>
                    (let raw = offending_input response errors in
                     case find_rule n g of
                       None \<Rightarrow> (Inl (Invalid response), quirks)
                     | Some r \<Rightarrow>
                         (case ru_repair r n raw of
                            Inl e \<Rightarrow> (Inl (RepairRaised e), quirks)
                          | Inr d \<Rightarrow>
                              (if validate (PyDict d) = None then Inr (PyDict d) else Inl (Invalid (PyDict d)),
                               log_quirk writable (Repaired (ru_name r) n raw d) quirks))))))"

subsection \<open>Finding a rule\<close>

lemma find_rule_Some:
  assumes "find_rule n g = Some r"
  shows "r \<in> snd ` set (rg_rules g) \<and> can_repair r n"
  using find_SomeD [OF assms [unfolded find_rule_def]] by (auto simp: get_rules_def)

text \<open>The registry picks, among the active rules that can repair the schema, one of least priority, and it answers
  nothing only if there is none.\<close>

theorem registry_picks_first:
  "case find_rule n g of
     Some r \<Rightarrow> can_repair r n \<and> r \<in> set (get_rules g) \<and> (\<forall>r' \<in> set (get_rules g). can_repair r' n \<longrightarrow> ru_priority r \<le> ru_priority r')
   | None \<Rightarrow> \<forall>r' \<in> set (get_rules g). \<not> can_repair r' n"
proof (cases "find_rule n g")
  case None
  then show ?thesis using find_None_iff [of "\<lambda>r. can_repair r n" "get_rules g"] by (auto simp: find_rule_def)
next
  case (Some r)
  then have f: "find (\<lambda>r. can_repair r n) (get_rules g) = Some r" by (simp add: find_rule_def)
  have "sorted (map ru_priority (get_rules g))" by (simp add: get_rules_def)
  from find_sorted_least [OF this f] find_SomeD [OF f] Some show ?thesis by simp
qed

lemma default_registry_rules: "snd ` set (rg_rules (new_registry env active)) = set (default_rules env)"
  by (simp add: new_registry_def default_rules_def register_rule_def edge_duplicate_rule_def extracted_edges_rule_def
      extracted_entities_rule_def node_resolutions_rule_def)

subsection \<open>The lists of a schema\<close>

text \<open>What the client relies on: a successful repair leaves a list in each of the schema's list fields.\<close>

locale list_repair =
  fixes rule :: rule and fields :: "string \<Rightarrow> string list"
  assumes lists: "can_repair rule n \<Longrightarrow> ru_repair rule n v = Inr d \<Longrightarrow> k \<in> set (fields n) \<Longrightarrow> \<exists>xs. dict_get d k = Some (PyList xs)"
begin

lemma repaired_list: "can_repair rule n \<Longrightarrow> ru_repair rule n v = Inr d \<Longrightarrow> \<forall>k \<in> set (fields n). is_list (the (dict_get d k))"
  using lists by fastforce

end

definition list_fields :: "string \<Rightarrow> string list" where
  "list_fields n =
     (if n = ''EdgeDuplicate'' then [''duplicate_facts'', ''contradicted_facts'']
      else if n = ''ExtractedEdges'' then [''edges'']
      else if n = ''ExtractedEntities'' then [''extracted_entities'']
      else if n = ''SummarizedEntities'' then [''summaries'']
      else if n = ''NodeResolutions'' \<or> n = ''EntityResolutions'' then [''entity_resolutions'']
      else [])"

interpretation duplicates: list_repair edge_duplicate_rule list_fields
  by unfold_locales
    (auto simp: edge_duplicate_rule_def can_repair_def list_fields_def edge_duplicate_repair_def Let_def split: pyval.splits sum.splits)

interpretation edges: list_repair extracted_edges_rule list_fields
  by unfold_locales
    (auto simp: extracted_edges_rule_def can_repair_def list_fields_def extracted_edges_repair_def Let_def
      split: pyval.splits option.splits dest: list_field_list)

interpretation entities: list_repair "extracted_entities_rule env" list_fields for env
  by unfold_locales
    (auto simp: extracted_entities_rule_def can_repair_def list_fields_def entity_schema_of_def default_key_def dest!: entities_repair_fields)

lemma node_resolutions_list: "\<exists>xs. dict_get (node_resolutions_repair v) ''entity_resolutions'' = Some (PyList xs)"
proof (cases v)
  case (PyDict d)
  let ?f = "list_field ''entity_resolutions'' [''resolutions'', ''dedupe_results'', ''nodes'', ''node_resolutions''] (unwrap_properties d)"
  show ?thesis
  proof (cases ?f)
    case None
    then show ?thesis by (simp add: PyDict node_resolutions_repair_def Let_def)
  next
    case (Some out)
    from list_field_list [OF this] Some show ?thesis by (simp add: PyDict node_resolutions_repair_def Let_def)
  qed
qed (simp_all add: node_resolutions_repair_def)

interpretation resolutions: list_repair node_resolutions_rule list_fields
  by unfold_locales (use node_resolutions_list in \<open>auto simp: node_resolutions_rule_def can_repair_def list_fields_def\<close>)

lemma default_rule_lists:
  assumes "find_rule n (new_registry env active) = Some r" "ru_repair r n v = Inr d"
  shows "\<forall>k \<in> set (list_fields n). is_list (the (dict_get d k))"
proof -
  have "r \<in> set (default_rules env)" "can_repair r n"
    using find_rule_Some [OF assms(1)] by (auto simp: default_registry_rules)
  with assms(2) duplicates.repaired_list edges.repaired_list entities.repaired_list resolutions.repaired_list show ?thesis
    by (auto simp: default_rules_def)
qed

subsection \<open>What the caller gets\<close>

text \<open>C29: A response that is returned under a response model satisfies the model.  Either it is the language model's own answer,
  and nothing is logged, or a default rule made it from the first rejected value, it has a list in every list
  field of the schema, and the repair is logged if the file can be written.\<close>

theorem returned_response_is_valid:
  assumes "generate_response (new_registry env active) (Some (n, validate)) writable (Some response) quirks = (Inr v, quirks')"
  shows "validate v = None \<and>
    (v = response \<and> quirks' = quirks \<or>
     (\<exists>errors r d. validate response = Some errors \<and> v = PyDict d \<and> r \<in> set (default_rules env) \<and> can_repair r n \<and>
       ru_repair r n (offending_input response errors) = Inr d \<and> (\<forall>k \<in> set (list_fields n). is_list (the (dict_get d k))) \<and>
       quirks' = log_quirk writable (Repaired (ru_name r) n (offending_input response errors) d) quirks))"
proof (cases "validate response")
  case None
  with assms show ?thesis by (simp add: generate_response_def)
next
  case (Some errors)
  let ?g = "new_registry env active" and ?raw = "offending_input response errors"
  obtain r d where r: "find_rule n ?g = Some r" "ru_repair r n ?raw = Inr d" "v = PyDict d" "validate (PyDict d) = None"
    "quirks' = log_quirk writable (Repaired (ru_name r) n ?raw d) quirks"
    using assms Some by (auto simp: generate_response_def Let_def split: option.splits sum.splits if_splits)
  have "r \<in> set (default_rules env)" "can_repair r n"
    using find_rule_Some [OF r(1)] by (auto simp: default_registry_rules)
  with Some r default_rule_lists [OF r(1,2)] show ?thesis by blast
qed

text \<open>A model that wants a list of entities whose types are integers, and a response in which one of them is a word; the
  error input is the rejected value itself.\<close>

definition entity_type :: "pyval \<Rightarrow> pyval" where
  "entity_type e = (case e of PyDict d \<Rightarrow> (case dict_get d ''entity_type_id'' of Some v \<Rightarrow> v | None \<Rightarrow> PyNone) | _ \<Rightarrow> PyNone)"

definition entity_model :: validator where
  "entity_model v =
     (case v of
        PyDict d \<Rightarrow>
          (case dict_get d ''extracted_entities'' of
             Some (PyList es) \<Rightarrow>
               (case find (\<lambda>e. \<not> is_int (entity_type e)) es of None \<Rightarrow> None | Some e \<Rightarrow> Some [Some (entity_type e)])
           | _ \<Rightarrow> Some [Some v])
      | _ \<Rightarrow> Some [Some v])"

definition drifting_response :: pyval where
  "drifting_response =
     PyDict [(''extracted_entities'', PyList
       [PyDict [(''name'', PyStr ''Ann''), (''entity_type_id'', PyInt 1)], PyDict [(''name'', PyStr ''Bob''), (''entity_type_id'', PyStr ''person'')]])]"

theorem returned_response_is_valid_witness:
  "\<exists>v. fst (generate_response (new_registry plain_env None) (Some (''ExtractedEntities'', entity_model)) True
      (Some (PyDict [(''entities'', PyList [PyStr ''Ann''])])) []) = Inr v \<and> entity_model v = None"
proof -
  let ?r = "generate_response (new_registry plain_env None) (Some (''ExtractedEntities'', entity_model)) True
      (Some (PyDict [(''entities'', PyList [PyStr ''Ann''])])) []"
  have "fst ?r = Inr (PyDict [(''extracted_entities'', PyList
      [PyDict [(''name'', PyStr ''Ann''), (''entity_type_id'', PyInt 0), (''episode_indices'', PyList [PyInt 0])]])])"
    by code_simp
  then obtain v where v: "?r = (Inr v, snd ?r)" by (metis prod.collapse)
  from returned_response_is_valid [OF v] v show ?thesis by (metis fst_conv)
qed

text \<open>A repair sees only the first value the model rejected: when that is a plain text, such as a word where the type id of one
  entity should be, an extraction response becomes the empty list, whatever entities it carried.\<close>

theorem repair_discards_the_rest:
  assumes "active = None \<or> ''extracted_entities'' \<in> set (the active)"
    and "validate response = Some (Some (PyStr s) # errors)" "\<not> prefix ''{'' (py_strip s)" "\<not> prefix ''['' (py_strip s)"
    and "validate (PyDict [(''extracted_entities'', PyList [])]) = None"
  shows "fst (generate_response (new_registry env active) (Some (''ExtractedEntities'', validate)) writable (Some response) quirks) =
    Inr (PyDict [(''extracted_entities'', PyList [])])"
proof -
  have "find_rule ''ExtractedEntities'' (new_registry env active) = Some (extracted_entities_rule env)"
    using assms(1)
    by (cases active) (auto simp: find_rule_def get_rules_def new_registry_def default_rules_def register_rule_def can_repair_def
      edge_duplicate_rule_def extracted_edges_rule_def extracted_entities_rule_def node_resolutions_rule_def)
  moreover have "ru_repair (extracted_entities_rule env) ''ExtractedEntities'' (PyStr s) = Inr [(''extracted_entities'', PyList [])]"
    using assms(3,4) by (simp add: extracted_entities_rule_def entity_schema_of_def entities_repair_def default_key_def)
  ultimately show ?thesis using assms(2,5) by (simp add: generate_response_def offending_input_def)
qed

theorem repair_discards_the_rest_witness:
  "fst (generate_response (new_registry plain_env None) (Some (''ExtractedEntities'', entity_model)) True (Some drifting_response) []) =
     Inr (PyDict [(''extracted_entities'', PyList [])])"
proof -
  have "entity_model drifting_response = Some [Some (PyStr ''person'')] \<and>
      entity_model (PyDict [(''extracted_entities'', PyList [])]) = None \<and>
      \<not> prefix ''{'' (py_strip ''person'') \<and> \<not> prefix ''['' (py_strip ''person'')" by code_simp
  then show ?thesis using repair_discards_the_rest [of None entity_model drifting_response "''person''" "[]" plain_env True "[]"] by simp
qed

end
