(* ===== verification/Settings.thy ===== *)
theory Settings
  imports RepairClient EpisodeQueue
begin

text \<open>
  \<open>config.py\<close>: how the settings of the search, of the dedup mode and of the paths are read.  \<open>env\<close> is \<open>os.environ.get\<close>;
  a setting may hold any value that was assigned to it.
\<close>

type_synonym environ = "string \<Rightarrow> string option"

definition py_blank :: "string option \<Rightarrow> bool" where
  "py_blank raw \<longleftrightarrow> (case raw of None \<Rightarrow> True | Some t \<Rightarrow> py_strip t = [])"

subsection \<open>Numeric search settings\<close>

text \<open>Neither infinities nor \<open>nan\<close> are in a range.\<close>

definition in_range :: "rat \<Rightarrow> rat \<Rightarrow> pyfloat \<Rightarrow> bool" where
  "in_range lo hi f \<longleftrightarrow> (case f of FFin r \<Rightarrow> lo \<le> r \<and> r \<le> hi | _ \<Rightarrow> False)"

definition safe_param :: "string option \<Rightarrow> pyfloat \<Rightarrow> rat \<Rightarrow> rat \<Rightarrow> pyfloat" where
  "safe_param raw cfg_value lo hi =
     (if py_blank raw then cfg_value
      else case parse_float (the raw) of
          None \<Rightarrow> cfg_value
        | Some v \<Rightarrow> if in_range lo hi v then v else cfg_value)"

record search_settings =
  sc_sim_min_score :: pyfloat
  sc_mmr_lambda :: pyfloat
  sc_reranker_min_score :: pyfloat
  sc_reranker :: pyval
  sc_cosine_gate_min :: "pyfloat option"
  sc_cosine_gate_overfetch :: int

definition default_search_settings :: search_settings where
  "default_search_settings =
     \<lparr>sc_sim_min_score = FFin (6 / 10), sc_mmr_lambda = FFin (1 / 2), sc_reranker_min_score = FFin (- 2),
      sc_reranker = PyStr ''mmr'', sc_cosine_gate_min = None, sc_cosine_gate_overfetch = 2\<rparr>"

definition resolve_search_params :: "environ \<Rightarrow> search_settings \<Rightarrow> pyfloat \<times> pyfloat" where
  "resolve_search_params env c =
     (safe_param (env ''JANUS_SEARCH__SIM_MIN_SCORE'') (sc_sim_min_score c) 0 1,
      safe_param (env ''JANUS_SEARCH__MMR_LAMBDA'') (sc_mmr_lambda c) 0 1)"

definition resolve_reranker_min_score :: "environ \<Rightarrow> search_settings \<Rightarrow> pyfloat" where
  "resolve_reranker_min_score env c =
     safe_param (env ''JANUS_SEARCH__RERANKER_MIN_SCORE'') (sc_reranker_min_score c) (- 2) 1"

definition gate_validated :: "pyfloat option \<Rightarrow> pyfloat option" where
  "gate_validated v = (case v of None \<Rightarrow> None | Some f \<Rightarrow> if in_range (- 1) 1 f then Some f else None)"

definition resolve_cosine_gate_min :: "environ \<Rightarrow> search_settings \<Rightarrow> pyfloat option" where
  "resolve_cosine_gate_min env c =
     (let raw = env ''JANUS_SEARCH__COSINE_GATE_MIN'' in
      if py_blank raw then gate_validated (sc_cosine_gate_min c)
      else if py_lower (py_strip (the raw)) \<in> {''none'', ''off'', ''disabled''} then None
      else case parse_float (the raw) of
          None \<Rightarrow> gate_validated (sc_cosine_gate_min c)
        | Some v \<Rightarrow> gate_validated (Some v))"

definition resolve_cosine_gate_overfetch :: "environ \<Rightarrow> search_settings \<Rightarrow> int" where
  "resolve_cosine_gate_overfetch env c =
     (let raw = env ''JANUS_SEARCH__COSINE_GATE_OVERFETCH'' in
      if py_blank raw then sc_cosine_gate_overfetch c
      else case parse_int (the raw) of
          None \<Rightarrow> sc_cosine_gate_overfetch c
        | Some v \<Rightarrow> if 1 \<le> v \<and> v \<le> 10 then v else sc_cosine_gate_overfetch c)"

text \<open>The validator of the field: a number is kept, a text that is no number disables the gate (other values are no numbers as
  text).\<close>

definition coerce_cosine_gate_min :: "pyval \<Rightarrow> pyval" where
  "coerce_cosine_gate_min v =
     (case v of
        PyInt i \<Rightarrow> PyInt i
      | PyFloat f \<Rightarrow> PyFloat f
      | PyStr t \<Rightarrow>
          (let s = py_strip t in
           if s = [] \<or> py_lower s \<in> {''none'', ''off'', ''disabled'', ''null''} then PyNone
           else case parse_float s of Some f \<Rightarrow> PyFloat f | None \<Rightarrow> PyNone)
      | _ \<Rightarrow> PyNone)"

subsection \<open>The reranker\<close>

definition reranker_aliases :: "(string \<times> string) list" where
  "reranker_aliases =
     [(''mmr'', ''mmr''), (''maximal_marginal_relevance'', ''mmr''), (''rrf'', ''rrf''), (''reciprocal_rank_fusion'', ''rrf''),
      (''reciprocal-rank-fusion'', ''rrf''), (''fusion'', ''rrf'')]"

definition coerce_reranker :: "pyval \<Rightarrow> string" where
  "coerce_reranker v =
     (case v of
        PyStr t \<Rightarrow> (case map_of reranker_aliases (py_lower (py_strip t)) of Some name \<Rightarrow> name | None \<Rightarrow> ''mmr'')
      | _ \<Rightarrow> ''mmr'')"

definition normalize_reranker_name :: "pyval \<Rightarrow> string" where
  "normalize_reranker_name v =
     (case v of
        PyStr t \<Rightarrow> (let s = py_lower (py_strip t) in case map_of reranker_aliases s of Some name \<Rightarrow> name | None \<Rightarrow> s)
      | _ \<Rightarrow> [])"

definition resolve_reranker :: "environ \<Rightarrow> search_settings \<Rightarrow> pyval" where
  "resolve_reranker env c =
     (let raw = env ''JANUS_SEARCH__RERANKER'' in
      if py_blank raw then sc_reranker c
      else case map_of reranker_aliases (py_lower (py_strip (the raw))) of
          Some name \<Rightarrow> PyStr name
        | None \<Rightarrow> sc_reranker c)"

subsection \<open>The dedup mode\<close>

text \<open>The validator of \<open>pipeline.dedup.mode\<close>; \<open>str\<close> of what is neither a text nor a boolean is \<open>text\<close>.\<close>

definition validate_mode :: "string \<Rightarrow> pyval \<Rightarrow> string" where
  "validate_mode text v =
     (case v of
        PyBool b \<Rightarrow> if b then ''observe'' else ''off''
      | _ \<Rightarrow>
          (let mode = py_lower (py_strip (case v of PyStr t \<Rightarrow> t | _ \<Rightarrow> text)) in
           if mode \<in> {''off'', ''observe'', ''enforce''} then mode else ''off''))"

subsection \<open>Paths\<close>

definition absolute_path :: "string \<Rightarrow> bool" where
  "absolute_path p \<longleftrightarrow> prefix ''/'' p"

text \<open>\<open>_apply_home_relative_paths\<close> on the text settings: \<open>join\<close> is \<open>(home / p).resolve()\<close>.\<close>

definition home_relative_fields :: "string list" where
  "home_relative_fields =
     [''engine.bin_dir'', ''engine.data_dir'', ''engine.pid_file'', ''engine.log_file'', ''pipeline.queue_db_path'',
      ''heuristics.quirks_log_path'', ''report.sinks.file.path'']"

definition made_fields :: "string list" where
  "made_fields =
     [''pipeline.queue_db_path'', ''heuristics.quirks_log_path'', ''report.sinks.file.path'', ''engine.log_file'', ''engine.data_dir'']"

definition pinned_path :: "string \<Rightarrow> bool" where
  "pinned_path p \<longleftrightarrow> p \<noteq> [] \<and> absolute_path p"

definition anchor_path :: "(string \<Rightarrow> string) \<Rightarrow> string \<Rightarrow> string" where
  "anchor_path join p = (if p = [] \<or> absolute_path p then p else join p)"

definition apply_home_relative_paths ::
  "(string \<Rightarrow> string) \<Rightarrow> (string \<Rightarrow> string) \<Rightarrow> (string \<Rightarrow> string) \<Rightarrow> (string \<Rightarrow> string) \<times> string list" where
  "apply_home_relative_paths join parent cfg =
     (let cfg' = (\<lambda>k. if k \<in> set home_relative_fields then anchor_path join (cfg k) else cfg k)
      in (cfg',
          map (\<lambda>k. if k = ''engine.data_dir'' then cfg' k else parent (cfg' k))
            (filter (\<lambda>k. cfg' k \<noteq> [] \<and> \<not> pinned_path (cfg k)) made_fields)))"

subsection \<open>Properties\<close>

lemma safe_param_range: "in_range lo hi cfg_value \<Longrightarrow> in_range lo hi (safe_param raw cfg_value lo hi)"
  by (auto simp: safe_param_def split: option.splits)

lemma gate_validated_range: "gate_validated v = Some f \<Longrightarrow> in_range (- 1) 1 f"
  by (auto simp: gate_validated_def split: option.splits if_splits)

lemma reranker_alias_range: "map_of reranker_aliases s = Some name \<Longrightarrow> name \<in> {''mmr'', ''rrf''}"
  by (auto simp: reranker_aliases_def split: if_splits)

text \<open>What a numeric environment value cannot be is caught; but the settings object reads the same variable first, so the value that
  replaces a bad one is the bad one.\<close>

lemma bad_value_is_its_own_fallback: "parse_float t = Some v \<Longrightarrow> safe_param (Some t) v lo hi = v"
  by (simp add: safe_param_def)

lemma bad_value_example: "safe_param (Some ''1.5'') (FFin (3 / 2)) 0 1 = FFin (3 / 2)"
  by code_simp

text \<open>Whatever the environment holds, the cosine gate is off or a finite cosine, the over-fetch factor and the two
  retrieval parameters stay in their ranges if the settings do, and a known reranker name stays a known one.\<close>

theorem search_settings_in_range:
  assumes "in_range 0 1 (sc_sim_min_score c)" "in_range 0 1 (sc_mmr_lambda c)"
    and "1 \<le> sc_cosine_gate_overfetch c" "sc_cosine_gate_overfetch c \<le> 10" "in_range (- 2) 1 (sc_reranker_min_score c)"
  shows "in_range 0 1 (fst (resolve_search_params env c)) \<and> in_range 0 1 (snd (resolve_search_params env c)) \<and>
    in_range (- 2) 1 (resolve_reranker_min_score env c) \<and>
    (case resolve_cosine_gate_min env c of None \<Rightarrow> True | Some f \<Rightarrow> in_range (- 1) 1 f) \<and>
    1 \<le> resolve_cosine_gate_overfetch env c \<and> resolve_cosine_gate_overfetch env c \<le> 10"
proof -
  have "resolve_cosine_gate_min env c = Some f \<Longrightarrow> in_range (- 1) 1 f" for f
    by (auto simp: resolve_cosine_gate_min_def Let_def split: if_splits option.splits dest: gate_validated_range)
  then have "case resolve_cosine_gate_min env c of None \<Rightarrow> True | Some f \<Rightarrow> in_range (- 1) 1 f"
    by (simp split: option.split)
  moreover have "1 \<le> resolve_cosine_gate_overfetch env c \<and> resolve_cosine_gate_overfetch env c \<le> 10"
    using assms(3,4) by (auto simp: resolve_cosine_gate_overfetch_def Let_def split: option.splits)
  ultimately show ?thesis
    using assms(1,2,5) by (simp add: resolve_search_params_def resolve_reranker_min_score_def safe_param_range)
qed

theorem search_settings_in_range_witness:
  "in_range 0 1 (fst (resolve_search_params (\<lambda>k. Some ''1e9'') default_search_settings)) \<and>
   resolve_cosine_gate_overfetch (\<lambda>k. Some ''99'') default_search_settings \<le> 10"
proof -
  have h: "in_range 0 1 (sc_sim_min_score default_search_settings) \<and> in_range 0 1 (sc_mmr_lambda default_search_settings) \<and>
      1 \<le> sc_cosine_gate_overfetch default_search_settings \<and> sc_cosine_gate_overfetch default_search_settings \<le> 10 \<and>
      in_range (- 2) 1 (sc_reranker_min_score default_search_settings)" by code_simp
  from search_settings_in_range [of default_search_settings "\<lambda>k. Some ''1e9''"]
    search_settings_in_range [of default_search_settings "\<lambda>k. Some ''99''"] h show ?thesis by simp
qed

text \<open>The mode the configuration validates is the mode both writers of the queue parse, and no YAML boolean enforces.\<close>

lemma validated_mode_parses:
  "parse_mode (validate_mode text (PyStr t)) = parse_mode t" "parse_mode (validate_mode text (PyBool b)) \<noteq> Enforce"
proof -
  have "py_strip m = m" "py_lower m = m" if "m \<in> {''off'', ''observe'', ''enforce''}" for m
    using that by (auto simp: py_strip_def strip_by_def py_space_def py_lower_def lower_char_def Let_def)
  then show "parse_mode (validate_mode text (PyStr t)) = parse_mode t"
    by (auto simp: validate_mode_def parse_mode_def dedup_modes_def Let_def)
  show "parse_mode (validate_mode text (PyBool b)) \<noteq> Enforce" by (cases b) (simp_all, code_simp+)
qed


text \<open>Anchoring is idempotent, and a second pass makes no directory.\<close>

lemma anchored_paths_stay:
  assumes "\<And>p. absolute_path (join p)"
  shows "apply_home_relative_paths join parent (fst (apply_home_relative_paths join parent cfg)) =
    (fst (apply_home_relative_paths join parent cfg), [])"
proof -
  let ?c = "fst (apply_home_relative_paths join parent cfg)"
  have c: "?c k = [] \<or> absolute_path (?c k)" if "k \<in> set home_relative_fields" for k
    using assms that by (auto simp: apply_home_relative_paths_def anchor_path_def Let_def)
  then have same: "fst (apply_home_relative_paths join parent ?c) = ?c"
    by (auto simp: apply_home_relative_paths_def [of join parent ?c] anchor_path_def Let_def)
  have "set made_fields \<subseteq> set home_relative_fields" by (simp add: made_fields_def home_relative_fields_def)
  with c have "filter (\<lambda>k. ?c k \<noteq> [] \<and> \<not> pinned_path (?c k)) made_fields = []"
    by (auto simp: filter_empty_conv pinned_path_def)
  with same show ?thesis by (simp add: apply_home_relative_paths_def [of join parent ?c] Let_def)
qed

text \<open>The class default of the active rules leaves out the rule for entities, so nothing repairs them.\<close>

definition default_active_rules :: "string list" where
  "default_active_rules = [''edge_duplicate'', ''extracted_edges'', ''node_resolutions'']"

lemma default_rules_skip_entities:
  "find_rule ''ExtractedEntities'' (new_registry env (Some default_active_rules)) = None"
  by (simp add: find_rule_def get_rules_def new_registry_def default_rules_def register_rule_def can_repair_def default_active_rules_def
      edge_duplicate_rule_def extracted_edges_rule_def extracted_entities_rule_def node_resolutions_rule_def)

end
