(* ===== verification/SearchMemory.thy ===== *)
theory SearchMemory
  imports Settings RateLimiter
begin

text \<open>
  \<open>engine/search_memory.py\<close>, the search behind both transports, and the request handler of
  \<open>daemon/http_search_memory_handler.py\<close>.  The graph library (embedder, search, edge embeddings, cosine of two vectors) is an
  argument; each of its calls answers or raises.
\<close>

subsection \<open>The graph library\<close>

text \<open>A result edge: the attributes it has, an \<open>uuid\<close> only when it is text, and \<open>str(edge)\<close>.\<close>

record search_edge =
  se_uuid :: "string option"
  se_fact :: "string option"
  se_name :: "string option"
  se_valid_at :: "string option"
  se_invalid_at :: "string option"
  se_text :: string

record backend_error =
  be_type :: string
  be_message :: string

record 'v search_call =
  ca_group :: string
  ca_recipe :: string
  ca_sim_min_score :: pyfloat
  ca_mmr_lambda :: pyfloat
  ca_floor :: pyfloat
  ca_limit :: int
  ca_query :: string
  ca_vector :: "'v list option"

text \<open>\<open>bk_create\<close>: the exception of creating the instance, if it has to be created and fails.  \<open>bk_embed\<close> is told whether it is the
  gate that asks.  The scores are \<open>None\<close> when the answer has no list of them; \<open>bk_similarity\<close> is \<open>None\<close> when the product raises.\<close>

record 'v backend =
  bk_create :: "backend_error option"
  bk_embed :: "bool \<Rightarrow> string \<Rightarrow> backend_error + 'v list option"
  bk_search :: "'v search_call \<Rightarrow> backend_error + (search_edge list \<times> pyfloat list option)"
  bk_embeddings :: "search_edge list \<Rightarrow> (string \<Rightarrow> 'v list option) option"
  bk_similarity :: "'v list \<Rightarrow> 'v list \<Rightarrow> pyfloat option"

subsection \<open>The cosine gate\<close>

definition float_ge :: "pyfloat \<Rightarrow> pyfloat \<Rightarrow> bool" where
  "float_ge x y \<longleftrightarrow>
     (case (x, y) of
        (FNaN, _) \<Rightarrow> False
      | (_, FNaN) \<Rightarrow> False
      | (FInf, _) \<Rightarrow> True
      | (_, FNegInf) \<Rightarrow> True
      | (FFin a, FFin b) \<Rightarrow> b \<le> a
      | _ \<Rightarrow> False)"

definition single_line :: "string \<Rightarrow> string" where
  "single_line q = map (\<lambda>c. if c = CHR 0x0A then CHR '' '' else c) q"

text \<open>\<open>xs[:n]\<close>\<close>

definition py_take :: "int \<Rightarrow> 'a list \<Rightarrow> 'a list" where
  "py_take n xs = (if 0 \<le> n then take (nat n) xs else take (length xs - nat (- n)) xs)"

definition edge_cosine :: "'v backend \<Rightarrow> 'v list \<Rightarrow> (string \<Rightarrow> 'v list option) \<Rightarrow> search_edge \<Rightarrow> pyfloat option" where
  "edge_cosine bk q embeddings e =
     (case se_uuid e of
        None \<Rightarrow> None
      | Some u \<Rightarrow>
          (case embeddings u of
             Some (x # xs) \<Rightarrow> bk_similarity bk q (x # xs)
           | _ \<Rightarrow> None))"

definition passes :: "pyfloat \<Rightarrow> pyfloat option \<Rightarrow> bool" where
  "passes gate_min score \<longleftrightarrow> (case score of Some c \<Rightarrow> float_ge c gate_min | None \<Rightarrow> False)"

definition gate_vector :: "'v backend \<Rightarrow> string \<Rightarrow> 'v list option \<Rightarrow> backend_error + 'v list option" where
  "gate_vector bk query query_vector =
     (case query_vector of Some v \<Rightarrow> Inr (Some v) | None \<Rightarrow> bk_embed bk True (single_line query))"

definition apply_cosine_gate ::
  "'v backend \<Rightarrow> search_edge list \<Rightarrow> string \<Rightarrow> pyfloat \<Rightarrow> int \<Rightarrow> 'v list option \<Rightarrow> backend_error + search_edge list" where
  "apply_cosine_gate bk edges query gate_min limit query_vector =
     (if edges = [] then Inr []
      else case gate_vector bk query query_vector of
          Inl e \<Rightarrow> Inl e
        | Inr (Some (x # xs)) \<Rightarrow>
            (case bk_embeddings bk edges of
               None \<Rightarrow> Inr (py_take limit edges)
             | Some embeddings \<Rightarrow>
                 Inr (py_take limit (filter (\<lambda>e. passes gate_min (edge_cosine bk (x # xs) embeddings e)) edges)))
        | Inr _ \<Rightarrow> Inr (py_take limit edges))"

subsection \<open>The search\<close>

record found_fact =
  fa_fact :: string
  fa_name :: string
  fa_valid_at :: string
  fa_invalid_at :: string
  fa_uuid :: "string option"
  fa_score :: "pyfloat option"

record diagnostics =
  dg_reranker :: string
  dg_semantics :: string
  dg_available :: bool
  dg_dropped :: int
  dg_candidates :: nat
  dg_returned :: nat

datatype search_code = FalkorDisconnected | BackendTimeout | InternalError

datatype search_outcome =
    Found string string "found_fact list" diagnostics
  | Failed search_code backend_error string string

definition given_or :: "'a \<Rightarrow> 'a option \<Rightarrow> 'a" where
  "given_or d x = (case x of Some v \<Rightarrow> v | None \<Rightarrow> d)"

text \<open>\<open>zip\<close> stops at the shorter list.\<close>

definition scores_by_uuid :: "search_edge list \<Rightarrow> pyfloat list option \<Rightarrow> (string \<times> pyfloat) list" where
  "scores_by_uuid edges raw_scores =
     (case raw_scores of
        None \<Rightarrow> []
      | Some scores \<Rightarrow>
          fold (\<lambda>(e, s) m. case se_uuid e of Some u \<Rightarrow> AList.update u s m | None \<Rightarrow> m) (zip edges scores) [])"

definition fact_of :: "(string \<times> pyfloat) list \<Rightarrow> search_edge \<Rightarrow> found_fact" where
  "fact_of scores e =
     \<lparr>fa_fact = given_or (se_text e) (se_fact e), fa_name = given_or [] (se_name e), fa_valid_at = given_or [] (se_valid_at e),
      fa_invalid_at = given_or [] (se_invalid_at e), fa_uuid = se_uuid e,
      fa_score = (case se_uuid e of Some u \<Rightarrow> map_of scores u | None \<Rightarrow> None)\<rparr>"

definition recipe_of :: "string \<Rightarrow> string" where
  "recipe_of name = (if name \<in> {''mmr'', ''rrf''} then name else ''mmr'')"

definition classify_error :: "backend_error \<Rightarrow> search_code" where
  "classify_error e =
     (let m = py_lower (be_message e) in
      if list_ex (\<lambda>t. py_in t m) [''falkor'', ''redis'', ''disconnect'', ''connection refused'', ''broken pipe'', ''reset by peer''] \<or>
         list_ex (\<lambda>t. py_in t (be_type e)) [''ConnectionError'', ''ConnectionRefusedError'', ''BrokenPipeError'', ''RedisConnectionError'']
      then FalkorDisconnected
      else if py_in ''timeout'' m \<or> be_type e = ''TimeoutError'' then BackendTimeout
      else InternalError)"

text \<open>What is asked of the graph library, after the query has been embedded for the gate.\<close>

definition search_call_of ::
  "environ \<Rightarrow> search_settings \<Rightarrow> string \<Rightarrow> string \<Rightarrow> int \<Rightarrow> 'v list option \<Rightarrow> 'v search_call" where
  "search_call_of env c grp query limit query_vector =
     \<lparr>ca_group = grp, ca_recipe = recipe_of (normalize_reranker_name (resolve_reranker env c)),
      ca_sim_min_score = fst (resolve_search_params env c), ca_mmr_lambda = snd (resolve_search_params env c),
      ca_floor = resolve_reranker_min_score env c,
      ca_limit = (if resolve_cosine_gate_min env c = None then limit else max 1 (limit * resolve_cosine_gate_overfetch env c)),
      ca_query = query, ca_vector = query_vector\<rparr>"

definition query_vector_for :: "'v backend \<Rightarrow> environ \<Rightarrow> search_settings \<Rightarrow> string \<Rightarrow> backend_error + 'v list option" where
  "query_vector_for bk env c query =
     (if resolve_cosine_gate_min env c = None then Inr None else bk_embed bk False (single_line query))"

definition gated_edges ::
  "'v backend \<Rightarrow> environ \<Rightarrow> search_settings \<Rightarrow> string \<Rightarrow> int \<Rightarrow> 'v list option \<Rightarrow> search_edge list \<Rightarrow> backend_error + search_edge list" where
  "gated_edges bk env c query limit query_vector edges =
     (case resolve_cosine_gate_min env c of
        None \<Rightarrow> Inr edges
      | Some gate_min \<Rightarrow> apply_cosine_gate bk edges query gate_min limit query_vector)"

definition report_found ::
  "environ \<Rightarrow> search_settings \<Rightarrow> string \<Rightarrow> string \<Rightarrow> search_edge list \<Rightarrow> pyfloat list option \<Rightarrow> search_edge list \<Rightarrow> search_outcome" where
  "report_found env c grp query edges raw_scores kept =
     (let scores = scores_by_uuid edges raw_scores; facts = map (fact_of scores) kept;
          name = normalize_reranker_name (resolve_reranker env c)
      in Found grp query facts
          \<lparr>dg_reranker = name, dg_semantics = (if name = ''rrf'' then ''rrf_reciprocal_rank'' else name),
           dg_available = (scores \<noteq> []), dg_dropped = int (length edges) - int (length kept),
           dg_candidates = length edges, dg_returned = length facts\<rparr>)"

definition search_memory :: "'v backend \<Rightarrow> environ \<Rightarrow> search_settings \<Rightarrow> string \<Rightarrow> string \<Rightarrow> int \<Rightarrow> search_outcome" where
  "search_memory bk env c grp query limit =
     (let fail = (\<lambda>e. Failed (classify_error e) e grp query) in
      case bk_create bk of
        Some e \<Rightarrow> fail e
      | None \<Rightarrow>
          (case query_vector_for bk env c query of
             Inl e \<Rightarrow> fail e
           | Inr v \<Rightarrow>
               (case bk_search bk (search_call_of env c grp query limit v) of
                  Inl e \<Rightarrow> fail e
                | Inr (edges, raw_scores) \<Rightarrow>
                    (case gated_edges bk env c query limit v edges of
                       Inl e \<Rightarrow> fail e
                     | Inr kept \<Rightarrow> report_found env c grp query edges raw_scores kept))))"

subsection \<open>Scores\<close>

lemma fold_scores_other:
  "u \<notin> Option.these (set (map se_uuid es)) \<Longrightarrow>
    map_of (fold (\<lambda>(e, s) m. case se_uuid e of Some u \<Rightarrow> AList.update u s m | None \<Rightarrow> m) (zip es ss) m) u = map_of m u"
proof (induction es arbitrary: ss m)
  case (Cons e es)
  then show ?case by (cases ss; cases "se_uuid e") (auto simp: update_conv')
qed simp

lemma fold_scores_nth:
  assumes "distinct (filter (\<lambda>u. u \<noteq> None) (map se_uuid es))" "i < length es" "se_uuid (es ! i) = Some u"
    and "map_of m u = None"
  shows "map_of (fold (\<lambda>(e, s) m. case se_uuid e of Some u \<Rightarrow> AList.update u s m | None \<Rightarrow> m) (zip es ss) m) u =
    (if i < length ss then Some (ss ! i) else None)"
  using assms
proof (induction es arbitrary: i ss m)
  case (Cons e es)
  show ?case
  proof (cases ss)
    case Nil
    then show ?thesis using Cons.prems(4) by simp
  next
    case (Cons x xs)
    show ?thesis
    proof (cases i)
      case 0
      with Cons.prems(1,3) have "u \<notin> Option.these (set (map se_uuid es))"
        by (auto simp: in_these_eq)
      with 0 Cons.prems(3) Cons show ?thesis
        using fold_scores_other [of u es xs "AList.update u x m"] by (simp add: update_conv')
    next
      case (Suc j)
      have new: "map_of (case se_uuid e of Some u \<Rightarrow> AList.update u x m | None \<Rightarrow> m) u = None"
      proof (cases "se_uuid e")
        case (Some w)
        have "es ! j \<in> set es" using Suc Cons.prems(2) by simp
        then have "w \<noteq> u" using Cons.prems(1,3) Suc Some by (auto simp: image_iff)
        with Some Cons.prems(4) show ?thesis by (simp add: update_conv')
      qed (use Cons.prems(4) in simp)
      have "distinct (filter (\<lambda>u. u \<noteq> None) (map se_uuid es))" using Cons.prems(1) by (auto split: if_splits)
      from Cons.IH [OF this _ _ new, of j xs] Suc Cons Cons.prems(2,3) show ?thesis by simp
    qed
  qed
qed simp

lemma score_of_edge:
  assumes "distinct (filter (\<lambda>u. u \<noteq> None) (map se_uuid es))" "i < length es" "se_uuid (es ! i) = Some u"
  shows "map_of (scores_by_uuid es (Some ss)) u = (if i < length ss then Some (ss ! i) else None)"
  using fold_scores_nth [OF assms, of "[]" ss] by (simp add: scores_by_uuid_def)

lemma py_take_subseq: "subseq (py_take n xs) xs"
  by (simp add: py_take_def prefix_imp_subseq [OF take_is_prefix])

lemma apply_gate_subseq: "apply_cosine_gate bk edges query m limit v = Inr kept \<Longrightarrow> subseq kept edges"
  using subseq_order.trans [OF py_take_subseq subseq_filter_left]
  by (auto simp: apply_cosine_gate_def py_take_subseq split: if_splits sum.splits option.splits list.splits)

lemma search_memory_Found:
  assumes "search_memory bk env c grp query limit = Found g q facts d"
  obtains v edges raw kept where "query_vector_for bk env c query = Inr v"
    "bk_search bk (search_call_of env c grp query limit v) = Inr (edges, raw)"
    "gated_edges bk env c query limit v edges = Inr kept"
    "report_found env c grp query edges raw kept = Found g q facts d"
  using assms by (auto simp: search_memory_def Let_def split: option.splits sum.splits prod.splits)

text \<open>C30: The facts of a search are some of the edges the graph library returned, in its order, and each carries the score the
  library gave to that edge, however many edges the gate removed before it.\<close>

theorem scores_stay_with_edges:
  assumes "search_memory bk env c grp query limit = Found g q facts d"
  shows "\<exists>v edges raw kept. bk_search bk (search_call_of env c grp query limit v) = Inr (edges, raw) \<and>
    subseq kept edges \<and> facts = map (fact_of (scores_by_uuid edges raw)) kept \<and>
    (distinct (filter (\<lambda>u. u \<noteq> None) (map se_uuid edges)) \<longrightarrow>
      (\<forall>i < length edges. se_uuid (edges ! i) \<noteq> None \<longrightarrow>
        fa_score (fact_of (scores_by_uuid edges raw) (edges ! i)) =
          (case raw of Some ss \<Rightarrow> if i < length ss then Some (ss ! i) else None | None \<Rightarrow> None)))"
proof -
  obtain v edges raw kept where s: "query_vector_for bk env c query = Inr v"
    "bk_search bk (search_call_of env c grp query limit v) = Inr (edges, raw)"
    "gated_edges bk env c query limit v edges = Inr kept" "report_found env c grp query edges raw kept = Found g q facts d"
    using search_memory_Found [OF assms] by metis
  have "subseq kept edges" using s(3) apply_gate_subseq by (auto simp: gated_edges_def split: option.splits)
  moreover have "facts = map (fact_of (scores_by_uuid edges raw)) kept" using s(4) by (auto simp: report_found_def Let_def)
  moreover have "fa_score (fact_of (scores_by_uuid edges raw) (edges ! i)) =
      (case raw of Some ss \<Rightarrow> if i < length ss then Some (ss ! i) else None | None \<Rightarrow> None)"
    if "distinct (filter (\<lambda>u. u \<noteq> None) (map se_uuid edges))" "i < length edges" "se_uuid (edges ! i) \<noteq> None" for i
  proof (cases raw)
    case None
    then show ?thesis using that by (auto simp: fact_of_def scores_by_uuid_def)
  next
    case (Some ss)
    then show ?thesis using that score_of_edge [OF that(1,2)] by (auto simp: fact_of_def)
  qed
  ultimately show ?thesis using s(2) by blast
qed

definition sample_edge :: "string \<Rightarrow> search_edge" where
  "sample_edge u = \<lparr>se_uuid = Some u, se_fact = Some (''fact '' @ u), se_name = None, se_valid_at = None, se_invalid_at = None, se_text = ''Edge''\<rparr>"

text \<open>A library with two edges, of which the gate keeps the second.\<close>

definition sample_backend :: "rat backend" where
  "sample_backend =
     \<lparr>bk_create = None, bk_embed = (\<lambda>g q. Inr (Some [1])), bk_search = (\<lambda>call. Inr ([sample_edge ''a'', sample_edge ''b''], Some [FFin 2, FFin 1])),
      bk_embeddings = (\<lambda>es. Some (\<lambda>u. Some [if u = ''a'' then 1 / 10 else 9 / 10])), bk_similarity = (\<lambda>q v. Some (FFin (hd v)))\<rparr>"

definition gated_settings :: search_settings where
  "gated_settings = default_search_settings\<lparr>sc_cosine_gate_min := Some (FFin (8 / 10))\<rparr>"

theorem scores_stay_with_edges_witness:
  "\<exists>g q f d. search_memory sample_backend (\<lambda>k. None) gated_settings ''g'' ''query'' 5 = Found g q [f] d \<and> fa_score f = Some (FFin 1) \<and>
    (\<exists>v edges raw kept. bk_search sample_backend v = Inr (edges, raw) \<and> subseq kept edges \<and> [f] = map (fact_of (scores_by_uuid edges raw)) kept)"
proof -
  have "case search_memory sample_backend (\<lambda>k. None) gated_settings ''g'' ''query'' 5 of
      Found g q facts d \<Rightarrow> map fa_score facts = [Some (FFin 1)] | Failed _ _ _ _ \<Rightarrow> False" by code_simp
  then obtain g q f d where r: "search_memory sample_backend (\<lambda>k. None) gated_settings ''g'' ''query'' 5 = Found g q [f] d" "fa_score f = Some (FFin 1)"
    by (auto split: search_outcome.splits)
  from scores_stay_with_edges [OF r(1)] obtain v edges raw kept where k:
    "bk_search sample_backend v = Inr (edges, raw)" "subseq kept edges" "[f] = map (fact_of (scores_by_uuid edges raw)) kept"
    by (elim exE conjE)
  show ?thesis using r k by (intro exI conjI)
qed

text \<open>C38: With the gate on, a scored query and readable embeddings, no fact below the floor is returned and never more than
  \<open>limit\<close>; an edge that passes is left out only when the limit is reached.\<close>

theorem gate_is_a_floor:
  assumes "search_memory bk env c grp query limit = Found g q facts d" "resolve_cosine_gate_min env c = Some m" "0 \<le> limit"
    and "\<And>es. bk_embeddings bk es = Some em" "\<And>b t. bk_embed bk b t = Inr (Some (x # xs))"
  shows "\<exists>edges raw kept. bk_search bk (search_call_of env c grp query limit (Some (x # xs))) = Inr (edges, raw) \<and>
    facts = map (fact_of (scores_by_uuid edges raw)) kept \<and> int (length facts) \<le> limit \<and>
    (\<forall>e \<in> set kept. passes m (edge_cosine bk (x # xs) em e)) \<and>
    (\<forall>e \<in> set edges. passes m (edge_cosine bk (x # xs) em e) \<longrightarrow> e \<in> set kept \<or> int (length facts) = limit)"
proof -
  obtain v edges raw kept where s: "query_vector_for bk env c query = Inr v"
    "bk_search bk (search_call_of env c grp query limit v) = Inr (edges, raw)"
    "gated_edges bk env c query limit v edges = Inr kept" "report_found env c grp query edges raw kept = Found g q facts d"
    using search_memory_Found [OF assms(1)] by metis
  let ?ok = "\<lambda>e. passes m (edge_cosine bk (x # xs) em e)"
  have v: "v = Some (x # xs)" using s(1) assms(2,5) by (simp add: query_vector_for_def)
  have kept: "kept = take (nat limit) (filter ?ok edges)"
    using s(3) assms(2-4) by (auto simp: gated_edges_def apply_cosine_gate_def gate_vector_def v py_take_def split: if_splits)
  have facts: "facts = map (fact_of (scores_by_uuid edges raw)) kept" using s(4) by (auto simp: report_found_def Let_def)
  have "length kept \<le> nat limit" by (simp add: kept)
  then have "int (length facts) \<le> limit" using assms(3) by (simp add: facts)
  moreover have "\<forall>e \<in> set kept. ?ok e" using set_take_subset [of "nat limit" "filter ?ok edges"] by (auto simp: kept)
  moreover have "e \<in> set kept \<or> int (length facts) = limit" if "e \<in> set edges" "?ok e" for e
  proof (cases "length (filter ?ok edges) \<le> nat limit")
    case True
    with that show ?thesis by (simp add: kept)
  next
    case False
    with assms(3) show ?thesis by (simp add: facts kept)
  qed
  ultimately show ?thesis using s(2) facts unfolding v by blast
qed

theorem gate_is_a_floor_witness:
  "\<exists>g q facts d. search_memory sample_backend (\<lambda>k. None) gated_settings ''g'' ''query'' 5 = Found g q facts d \<and> int (length facts) \<le> 5"
proof -
  have h: "(case search_memory sample_backend (\<lambda>k. None) gated_settings ''g'' ''query'' 5 of
      Found g q facts d \<Rightarrow> True | Failed _ _ _ _ \<Rightarrow> False) \<and>
      resolve_cosine_gate_min (\<lambda>k. None) gated_settings = Some (FFin (8 / 10))" by code_simp
  then obtain g q facts d where r: "search_memory sample_backend (\<lambda>k. None) gated_settings ''g'' ''query'' 5 = Found g q facts d"
    by (auto split: search_outcome.splits)
  from gate_is_a_floor [OF r, of "FFin (8 / 10)" "\<lambda>u. Some [if u = ''a'' then 1 / 10 else 9 / 10]" 1 "[]"] h r
  show ?thesis by (auto simp: sample_backend_def)
qed

text \<open>Edges cut off by the limit are reported as dropped by the gate.\<close>

lemma truncation_counted_as_dropped:
  "case search_memory sample_backend (\<lambda>k. None) (gated_settings\<lparr>sc_cosine_gate_min := Some (FFin 0)\<rparr>) ''g'' ''query'' 1 of
     Found g q facts d \<Rightarrow> dg_dropped d = 1 \<and> length facts = 1
   | Failed _ _ _ _ \<Rightarrow> False"
  by code_simp

text \<open>A reranker name that was assigned to the settings and is not known is reported, although another one ran.\<close>

lemma unknown_reranker_misreported:
  assumes "name \<noteq> []" "py_lower (py_strip name) = name" "map_of reranker_aliases name = None"
    and "search_memory bk (\<lambda>k. None) (c\<lparr>sc_reranker := PyStr name\<rparr>) grp query limit = Found g q facts d"
  shows "dg_reranker d = name \<and> ca_recipe (search_call_of (\<lambda>k. None) (c\<lparr>sc_reranker := PyStr name\<rparr>) grp query limit v) = ''mmr''"
proof -
  have name: "normalize_reranker_name (resolve_reranker (\<lambda>k. None) (c\<lparr>sc_reranker := PyStr name\<rparr>)) = name"
    using assms(2,3) by (simp add: resolve_reranker_def normalize_reranker_name_def py_blank_def Let_def)
  obtain edges raw kept where "report_found (\<lambda>k. None) (c\<lparr>sc_reranker := PyStr name\<rparr>) grp query edges raw kept = Found g q facts d"
    using search_memory_Found [OF assms(4)] by metis
  then have "dg_reranker d = name" using name by (auto simp: report_found_def Let_def)
  moreover have "name \<notin> {''mmr'', ''rrf''}" using assms(3) by (auto simp: reranker_aliases_def)
  ultimately show ?thesis using name by (simp add: search_call_of_def recipe_of_def)
qed

end
