(* ===== verification/MemoryHandler.thy ===== *)
theory MemoryHandler
  imports SearchMemory
begin

text \<open>
  \<open>search_memory_handler\<close> of \<open>daemon/http_search_memory_handler.py\<close>: admission, validation, readiness, the engine call under
  a deadline, and the status of the answer.  The limiter is the state; it is asked before the request is looked at.
\<close>

subsection \<open>Requests and answers\<close>

record memory_request =
  mr_remote :: "string option"
  mr_query :: "string option"
  mr_limit :: "string option"

text \<open>The circumstances of a request: is there a graph instance, what does the supervisor's probe say within its second
  (\<open>None\<close>: it does not), and how does the engine call end (the answer itself is a function of the query).\<close>

datatype engine_end = Returned | TimedOut | EnvelopeRaised string

record circumstances =
  ci_instance :: bool
  ci_probe :: "bool option"
  ci_end :: engine_end
  ci_search :: "string \<Rightarrow> int \<Rightarrow> search_outcome"

datatype answer_code =
    RateLimited | InvalidQuery | InvalidLimit | BackendDown | Disconnected | SearchTimeout | InternalFailure

datatype memory_answer =
    Refused int answer_code "nat option"
  | Answered string string "found_fact list" diagnostics

definition answer_status :: "memory_answer \<Rightarrow> int" where
  "answer_status a = (case a of Refused n _ _ \<Rightarrow> n | Answered _ _ _ _ \<Rightarrow> 200)"

text \<open>The characters of a UTF-8 text: its bytes without the continuation bytes.\<close>

definition py_len :: "string \<Rightarrow> nat" where
  "py_len s = length (filter (\<lambda>c. let n = (of_char c :: nat) in \<not> (128 \<le> n \<and> n < 192)) s)"

subsection \<open>The handler\<close>

definition parse_query :: "memory_request \<Rightarrow> memory_answer + string" where
  "parse_query r =
     (case mr_query r of
        Some (c # cs) \<Rightarrow>
          (let q = py_strip (c # cs) in
           if py_len q < 4 \<or> 512 < py_len q then Inl (Refused 400 InvalidQuery None) else Inr q)
      | _ \<Rightarrow> Inl (Refused 400 InvalidQuery None))"

definition parse_limit :: "memory_request \<Rightarrow> memory_answer + int" where
  "parse_limit r =
     (case parse_int (given_or ''5'' (mr_limit r)) of
        None \<Rightarrow> Inl (Refused 400 InvalidLimit None)
      | Some n \<Rightarrow> if n < 1 \<or> 50 < n then Inl (Refused 400 InvalidLimit None) else Inr n)"

text \<open>\<open>message\<close> is searched when the engine's code is neither of the two that are handled first.\<close>

definition map_failure :: "search_code \<Rightarrow> string \<Rightarrow> memory_answer" where
  "map_failure code message =
     (if code = FalkorDisconnected then Refused 503 Disconnected None
      else if code = BackendTimeout then Refused 504 SearchTimeout (Some 5)
      else if list_ex (\<lambda>t. py_in t (py_lower message)) [''falkor'', ''redis'', ''disconnect'', ''connection'']
        then Refused 503 Disconnected None
      else Refused 500 InternalFailure None)"

definition map_outcome :: "search_outcome \<Rightarrow> memory_answer" where
  "map_outcome out =
     (case out of
        Found g q facts d \<Rightarrow> Answered g q facts d
      | Failed code e g q \<Rightarrow> map_failure code (be_message e))"

definition remote_of :: "memory_request \<Rightarrow> string" where
  "remote_of r = (case mr_remote r of Some (c # cs) \<Rightarrow> c # cs | _ \<Rightarrow> ''unknown'')"

text \<open>What follows the admission; the engine is called with the query and limit of the second component.\<close>

definition serve_admitted :: "memory_request \<Rightarrow> circumstances \<Rightarrow> memory_answer \<times> (string \<times> int) option" where
  "serve_admitted r ci =
     (case parse_query r of
        Inl a \<Rightarrow> (a, None)
      | Inr q \<Rightarrow>
          (case parse_limit r of
             Inl a \<Rightarrow> (a, None)
           | Inr n \<Rightarrow>
               if \<not> ci_instance ci then (Refused 503 BackendDown None, None)
               else if ci_probe ci \<noteq> Some True then (Refused 503 Disconnected None, None)
               else (case ci_end ci of
                       Returned \<Rightarrow> map_outcome (ci_search ci q n)
                     | TimedOut \<Rightarrow> Refused 504 SearchTimeout (Some 5)
                     | EnvelopeRaised e \<Rightarrow> Refused 500 InternalFailure None, Some (q, n))))"

definition search_memory_handler ::
  "real \<Rightarrow> memory_request \<Rightarrow> circumstances \<Rightarrow> bucket \<Rightarrow> (memory_answer \<times> (string \<times> int) option) \<times> bucket" where
  "search_memory_handler now r ci b =
     (case consume (remote_of r) now b of
        (False, b') \<Rightarrow> ((Refused 429 RateLimited (Some 60), None), b')
      | (True, b') \<Rightarrow> (serve_admitted r ci, b'))"

subsection \<open>Validation\<close>

lemma parse_query_Inr: "parse_query r = Inr q \<Longrightarrow> 4 \<le> py_len q \<and> py_len q \<le> 512"
  by (auto simp: parse_query_def Let_def split: option.splits list.splits if_splits)

lemma parse_limit_Inr: "parse_limit r = Inr n \<Longrightarrow> 1 \<le> n \<and> n \<le> 50"
  by (auto simp: parse_limit_def split: option.splits if_splits)

lemma parse_Inl: "parse_query r = Inl a \<Longrightarrow> a = Refused 400 InvalidQuery None" "parse_limit r = Inl a \<Longrightarrow> a = Refused 400 InvalidLimit None"
  by (auto simp: parse_query_def parse_limit_def Let_def split: option.splits list.splits if_splits)

text \<open>C31: A request reaches the engine only if it was admitted, has a query of 4 to 512 characters and a limit of 1 to 50, and the
  graph answers; the answer is 200 exactly when the engine then returns a result; and every refusal has one of the
  statuses 400, 429, 500, 503, 504, a retry time for 429 and 504.\<close>

theorem handler_contract:
  assumes "search_memory_handler now r ci b = ((a, engine_call), b')"
  shows "(engine_call \<noteq> None \<longleftrightarrow> fst (consume (remote_of r) now b) \<and> (\<exists>q n. parse_query r = Inr q \<and> parse_limit r = Inr n) \<and>
      ci_instance ci \<and> ci_probe ci = Some True) \<and>
    (\<forall>q n. engine_call = Some (q, n) \<longrightarrow> 4 \<le> py_len q \<and> py_len q \<le> 512 \<and> 1 \<le> n \<and> n \<le> 50) \<and>
    (answer_status a = 200 \<longleftrightarrow> (\<exists>q n. engine_call = Some (q, n) \<and> ci_end ci = Returned \<and>
      (\<exists>g t facts d. ci_search ci q n = Found g t facts d \<and> a = Answered g t facts d))) \<and>
    (\<forall>n code retry. a = Refused n code retry \<longrightarrow>
      n \<in> {400, 429, 500, 503, 504} \<and> (retry \<noteq> None \<longleftrightarrow> n \<in> {429, 504}) \<and> (n = 429 \<longleftrightarrow> \<not> fst (consume (remote_of r) now b)))"
proof (cases "fst (consume (remote_of r) now b)")
  case False
  with assms show ?thesis by (auto simp: search_memory_handler_def answer_status_def split: prod.splits bool.splits)
next
  case True
  then have s: "serve_admitted r ci = (a, engine_call)"
    using assms by (auto simp: search_memory_handler_def split: prod.splits bool.splits)
  show ?thesis
  proof (cases "(\<exists>q n. parse_query r = Inr q \<and> parse_limit r = Inr n) \<and> ci_instance ci \<and> ci_probe ci = Some True")
    case False
    with s have "engine_call = None \<and> a \<in> {Refused 400 InvalidQuery None, Refused 400 InvalidLimit None, Refused 503 BackendDown None, Refused 503 Disconnected None}"
      by (auto simp: serve_admitted_def split: sum.splits if_splits dest: parse_Inl)
    with True False show ?thesis by (auto simp: answer_status_def)
  next
    case called: True
    then obtain q n where q: "parse_query r = Inr q" "parse_limit r = Inr n" by blast
    with s called have c: "engine_call = Some (q, n)" and a: "a = (case ci_end ci of Returned \<Rightarrow> map_outcome (ci_search ci q n)
        | TimedOut \<Rightarrow> Refused 504 SearchTimeout (Some 5) | EnvelopeRaised e \<Rightarrow> Refused 500 InternalFailure None)"
      by (auto simp: serve_admitted_def)
    have "map_failure code m \<in> {Refused 503 Disconnected None, Refused 504 SearchTimeout (Some 5), Refused 500 InternalFailure None}" for code m
      by (simp add: map_failure_def)
    then have "(\<exists>g t facts d. ci_end ci = Returned \<and> ci_search ci q n = Found g t facts d \<and> a = Answered g t facts d) \<or>
        \<not> (\<exists>g t facts d. ci_end ci = Returned \<and> ci_search ci q n = Found g t facts d) \<and>
        a \<in> {Refused 503 Disconnected None, Refused 504 SearchTimeout (Some 5), Refused 500 InternalFailure None}"
      unfolding a by (cases "ci_end ci"; cases "ci_search ci q n") (simp_all add: map_outcome_def)
    with True called q c parse_query_Inr [OF q(1)] parse_limit_Inr [OF q(2)] show ?thesis
      by (elim disjE) (auto simp: answer_status_def)
  qed
qed

definition sample_request :: memory_request where
  "sample_request = \<lparr>mr_remote = Some ''ip'', mr_query = Some '' what is it '', mr_limit = None\<rparr>"

definition sample_circumstances :: circumstances where
  "sample_circumstances =
     \<lparr>ci_instance = True, ci_probe = Some True, ci_end = Returned,
      ci_search = (\<lambda>q n. search_memory sample_backend (\<lambda>k. None) gated_settings ''g'' q n)\<rparr>"

theorem handler_contract_witness:
  "snd (fst (search_memory_handler 0 sample_request sample_circumstances rate_limiter)) = Some (''what is it'', 5) \<and>
   answer_status (fst (fst (search_memory_handler 0 sample_request sample_circumstances rate_limiter))) = 200"
proof -
  let ?r = "search_memory_handler 0 sample_request sample_circumstances rate_limiter"
  have call: "snd (fst ?r) = Some (''what is it'', 5)" by code_simp
  have found: "case search_memory sample_backend (\<lambda>k. None) gated_settings ''g'' ''what is it'' 5 of
      Found g q facts d \<Rightarrow> True | Failed _ _ _ _ \<Rightarrow> False" by code_simp
  have answer: "fst (fst ?r) = map_outcome (search_memory sample_backend (\<lambda>k. None) gated_settings ''g'' ''what is it'' 5)"
  proof -
    have "fst (consume (remote_of sample_request) 0 rate_limiter) \<and> parse_query sample_request = Inr ''what is it'' \<and>
        parse_limit sample_request = Inr 5" by code_simp
    then show ?thesis
      by (cases "consume (remote_of sample_request) 0 rate_limiter")
        (auto simp: search_memory_handler_def serve_admitted_def sample_circumstances_def)
  qed
  have "?r = ((fst (fst ?r), snd (fst ?r)), snd ?r)" by simp
  from handler_contract [OF this] call found answer show ?thesis
    by (auto simp: sample_circumstances_def map_outcome_def split: search_outcome.splits)
qed

subsection \<open>Engine calls of an address\<close>

type_synonym memory_event = "memory_request \<times> real \<times> circumstances"

fun engine_log :: "string \<Rightarrow> memory_event list \<Rightarrow> bucket \<Rightarrow> real list" where
  "engine_log k [] b = []"
| "engine_log k ((r, now, ci) # es) b =
     (case search_memory_handler now r ci b of
        ((a, engine_call), b') \<Rightarrow>
          (if remote_of r = k \<and> engine_call \<noteq> None then [now] else []) @ engine_log k es b')"

definition arrival :: "memory_event \<Rightarrow> string \<times> real" where
  "arrival e = (case e of (r, now, ci) \<Rightarrow> (remote_of r, now))"

lemma handler_bucket: "snd (search_memory_handler now r ci b) = request_step (arrival (r, now, ci)) b"
  by (simp add: search_memory_handler_def request_step_def arrival_def split: prod.splits bool.splits)

lemma engine_log_admitted: "subseq (engine_log k es b) (run_log request_step (admitted_at k) (map arrival es) b)"
proof (induction es arbitrary: b)
  case (Cons e es)
  obtain r now ci where e: "e = (r, now, ci)" by (cases e)
  obtain a engine_call b' where h: "search_memory_handler now r ci b = ((a, engine_call), b')" by (metis prod.collapse)
  have b': "b' = request_step (arrival e) b" using handler_bucket [of now r ci b] h e by simp
  have "engine_call \<noteq> None \<Longrightarrow> fst (consume (remote_of r) now b)"
    using h by (auto simp: search_memory_handler_def split: prod.splits bool.splits)
  then have "subseq (if remote_of r = k \<and> engine_call \<noteq> None then [now] else [])
      (case admitted_at k (arrival e) b of None \<Rightarrow> [] | Some t \<Rightarrow> [t])"
    by (auto simp: admitted_at_def arrival_def e)
  with Cons.IH [of b'] show ?case unfolding e using h b' e by (simp add: list_emb_append_mono)
qed simp

text \<open>C32: While the limiter tracks all addresses, no address causes more than 60 engine calls in any minute, whatever it sends and
  however the other addresses interleave.\<close>

theorem engine_calls_rate_limited:
  assumes "finite K" "card K \<le> 10000" "clocked (\<lambda>e. fst e \<in> K) snd snd t0 (map arrival events)"
  shows "length (filter (\<lambda>t. a \<le> t \<and> t \<le> a + 60) (engine_log k events rate_limiter)) \<le> 60"
proof -
  have "subseq (filter (\<lambda>t. a \<le> t \<and> t \<le> a + 60) (engine_log k events rate_limiter))
      (filter (\<lambda>t. a \<le> t \<and> t \<le> a + 60) (run_log request_step (admitted_at k) (map arrival events) rate_limiter))"
    by (rule subseq_filter [OF engine_log_admitted])
  from list_emb_length [OF this] admissions_bounded [OF assms, of a 60 k 60] show ?thesis
    unfolding rate_limiter_def by linarith
qed

theorem engine_calls_rate_limited_witness:
  "length (filter (\<lambda>t. 0 \<le> t \<and> t \<le> 0 + 60) (engine_log ''ip'' (replicate 3 (sample_request, 1, sample_circumstances)) rate_limiter)) \<le> 60"
proof -
  have "remote_of sample_request = ''ip''" by (simp add: remote_of_def sample_request_def)
  then have "clocked (\<lambda>e. fst e \<in> {''ip''}) snd snd 0 (map arrival (replicate 3 (sample_request, 1, sample_circumstances)))"
    by (simp add: numeral_3_eq_3 arrival_def)
  from engine_calls_rate_limited [OF _ _ this, of 0 "''ip''"] show ?thesis by simp
qed

text \<open>An internal error whose message happens to speak of a connection is reported as a lost database, although the engine sent its
  code.\<close>

lemma internal_error_reported_as_disconnect:
  "map_failure InternalError ''no connection string given'' = Refused 503 Disconnected None"
  by code_simp

end
