(* ===== verification/GraphSearch.thy ===== *)
theory GraphSearch
  imports EmbedCache Repair "HOL-Library.Multiset"
begin

text \<open>
  \<open>daemon/search_engine.py\<close>: breadth-first traversal of the graph, cosine filter and reranking.  The answers of the database
  and of the embedding service are arguments, the embedding client with its cache is the one of \<open>EmbedCache\<close>.  Cosines
  are real numbers.
\<close>

subsection \<open>Query texts\<close>

fun py_replace :: "string \<Rightarrow> string \<Rightarrow> string \<Rightarrow> string" where
  "py_replace old new [] = []"
| "py_replace old new (c # cs) =
     (if old \<noteq> [] \<and> prefix old (c # cs) then new @ py_replace old new (drop (length old - 1) cs)
      else c # py_replace old new cs)"

abbreviation backslash :: char where "backslash \<equiv> CHR 0x5C"
abbreviation quote_char :: char where "quote_char \<equiv> CHR 0x27"

definition escape_literal :: "string \<Rightarrow> string" where
  "escape_literal s = py_replace [quote_char] [backslash, quote_char] (py_replace [backslash] [backslash, backslash] s)"

definition quoted :: "string \<Rightarrow> string" where
  "quoted s = quote_char # s @ [quote_char]"

text \<open>\<open>repr\<close> of a float and \<open>str\<close> of a compound value are arguments.\<close>

definition cypher_param :: "py_env \<Rightarrow> (pyfloat \<Rightarrow> string) \<Rightarrow> pyval \<Rightarrow> string" where
  "cypher_param env float_repr v =
     (case v of
        PyNone \<Rightarrow> ''NULL''
      | PyBool b \<Rightarrow> if b then ''true'' else ''false''
      | PyInt i \<Rightarrow> show_int i
      | PyFloat f \<Rightarrow> float_repr f
      | PyStr s \<Rightarrow> quoted (escape_literal s)
      | _ \<Rightarrow> quoted (py_str env v))"

fun join_with :: "string \<Rightarrow> string list \<Rightarrow> string" where
  "join_with sep [] = []"
| "join_with sep [x] = x"
| "join_with sep (x # y # ys) = x @ sep @ join_with sep (y # ys)"

definition two_quotes :: string where
  "two_quotes = [quote_char, quote_char]"

definition bfs_template :: string where
  "bfs_template = CHR 0x0A # concat (map (\<lambda>l. l @ [CHR 0x0A])
     [''UNWIND [{seed_literals}] AS seed_name'',
      ''MATCH (s {name: seed_name})'',
      ''MATCH path = (s)-[*1..{max_hops}]-(neighbor)'',
      ''WHERE ALL(rel IN relationships(path) WHERE rel.invalid_at IS NULL OR true)'',
      ''WITH relationships(path) AS rels, nodes(path) AS ns, length(path) AS hop_count'',
      ''UNWIND range(0, size(rels) - 1) AS i'',
      ''WITH ns, hop_count, i, rels[i] AS r'',
      ''WITH ns, hop_count, i, r,'',
      ''  CASE WHEN r.fact IS NOT NULL AND r.fact <> '' @ two_quotes @ '' THEN r.fact'',
      ''       WHEN ns[i + 1].summary IS NOT NULL AND ns[i + 1].summary <> '' @ two_quotes @ '' THEN ns[i + 1].summary'',
      ''       ELSE null END AS edge_fact'',
      ''WHERE edge_fact IS NOT NULL'',
      ''RETURN'',
      ''  type(r) AS edge_type,'',
      ''  hop_count AS hop_distance,'',
      ''  [n IN ns | n.name][0..i + 1] AS path_nodes,'',
      ''  edge_fact,'',
      ''  [n IN ns | n.name][0] AS seed_in_path,'',
      ''  ns[i + 1].name AS target_in_path'',
      ''ORDER BY hop_distance ASC, edge_fact ASC'',
      ''LIMIT {cap}''])"

definition exists_query :: "py_env \<Rightarrow> (pyfloat \<Rightarrow> string) \<Rightarrow> string \<Rightarrow> string" where
  "exists_query env float_repr name =
     ''CYPHER `name`='' @ cypher_param env float_repr (PyStr name) @ '' MATCH (n {name: $name}) RETURN n.name LIMIT 1''"

definition bfs_query :: "string list \<Rightarrow> int \<Rightarrow> int \<Rightarrow> string" where
  "bfs_query seeds max_hops cap =
     py_replace ''{cap}'' (show_int cap)
       (py_replace ''{max_hops}'' (show_int max_hops)
         (py_replace ''{seed_literals}'' (join_with '', '' (map (\<lambda>s. quoted (escape_literal s)) seeds)) bfs_template))"

subsection \<open>Requests\<close>

record graph_settings =
  gs_default_min_cosine :: rat
  gs_default_mmr_lambda :: rat
  gs_default_limit :: int
  gs_max_limit :: int
  gs_max_facts :: int
  gs_embed_max_facts :: int

definition default_graph_settings :: graph_settings where
  "default_graph_settings =
     \<lparr>gs_default_min_cosine = 1 / 2, gs_default_mmr_lambda = 7 / 10, gs_default_limit = 10, gs_max_limit = 50,
      gs_max_facts = 5000, gs_embed_max_facts = 200\<rparr>"

datatype graph_error =
    InvalidBody | InvalidSeed | InvalidHops | MinCosineOutOfRange | InvalidGraphLimit | InvalidEdgeTypes
  | FalkorDown | SeedNotFound | TraversalTimeout | InvalidCypher

record graph_request =
  gq_seeds :: "string list"
  gq_max_hops :: int
  gq_min_cosine :: rat
  gq_mmr_lambda :: rat
  gq_limit :: int
  gq_edge_types :: "string list"
  gq_episodes :: bool

definition unit_number :: "pyval \<Rightarrow> rat option" where
  "unit_number v =
     (case v of
        PyInt i \<Rightarrow> if 0 \<le> i \<and> i \<le> 1 then Some (of_int i) else None
      | PyFloat (FFin r) \<Rightarrow> if 0 \<le> r \<and> r \<le> 1 then Some r else None
      | _ \<Rightarrow> None)"

fun all_texts :: "pyval list \<Rightarrow> string list option" where
  "all_texts [] = Some []"
| "all_texts (PyStr s # xs) = map_option (Cons s) (all_texts xs)"
| "all_texts (x # xs) = None"

definition request_seeds :: "pydict \<Rightarrow> graph_error + string list" where
  "request_seeds d =
     (case dict_get d ''seed_entities'' of
        Some (PyList xs) \<Rightarrow>
          (case all_texts xs of
             Some seeds \<Rightarrow> if seeds = [] \<or> list_ex (\<lambda>s. py_strip s = []) seeds \<or> 5 < length seeds then Inl InvalidSeed else Inr seeds
           | None \<Rightarrow> Inl InvalidSeed)
      | _ \<Rightarrow> Inl InvalidSeed)"

definition request_hops :: "pydict \<Rightarrow> graph_error + int" where
  "request_hops d =
     (case dict_get d ''max_hops'' of
        None \<Rightarrow> Inr 2
      | Some (PyInt n) \<Rightarrow> if n < 1 \<or> 3 < n then Inl InvalidHops else Inr n
      | _ \<Rightarrow> Inl InvalidHops)"

definition request_min_cosine :: "graph_settings \<Rightarrow> pydict \<Rightarrow> graph_error + rat" where
  "request_min_cosine c d =
     (case unit_number (case dict_get d ''min_cosine'' of Some v \<Rightarrow> v | None \<Rightarrow> PyFloat (FFin (gs_default_min_cosine c))) of
        Some r \<Rightarrow> Inr r
      | None \<Rightarrow> Inl MinCosineOutOfRange)"

definition request_lambda :: "graph_settings \<Rightarrow> pydict \<Rightarrow> rat" where
  "request_lambda c d =
     (case dict_get d ''mmr_lambda'' of
        None \<Rightarrow> gs_default_mmr_lambda c
      | Some v \<Rightarrow> (case unit_number v of Some r \<Rightarrow> r | None \<Rightarrow> gs_default_mmr_lambda c))"

definition request_limit :: "graph_settings \<Rightarrow> pydict \<Rightarrow> graph_error + int" where
  "request_limit c d =
     (case (case dict_get d ''limit'' of Some v \<Rightarrow> v | None \<Rightarrow> PyInt (gs_default_limit c)) of
        PyInt n \<Rightarrow> if n < 1 then Inl InvalidGraphLimit else Inr (min n (gs_max_limit c))
      | _ \<Rightarrow> Inl InvalidGraphLimit)"

definition request_edge_types :: "pydict \<Rightarrow> graph_error + string list" where
  "request_edge_types d =
     (case dict_get d ''edge_types'' of
        None \<Rightarrow> Inr []
      | Some v \<Rightarrow>
          if \<not> py_truthy v then Inr []
          else case v of
              PyList xs \<Rightarrow> (case all_texts xs of Some ts \<Rightarrow> Inr ts | None \<Rightarrow> Inl InvalidEdgeTypes)
            | _ \<Rightarrow> Inl InvalidEdgeTypes)"

definition validate_request :: "graph_settings \<Rightarrow> pyval \<Rightarrow> graph_error + graph_request" where
  "validate_request c payload =
     (case payload of
        PyDict d \<Rightarrow>
          (case request_seeds d of
             Inl e \<Rightarrow> Inl e
           | Inr seeds \<Rightarrow>
               (case request_hops d of
                  Inl e \<Rightarrow> Inl e
                | Inr hops \<Rightarrow>
                    (case request_min_cosine c d of
                       Inl e \<Rightarrow> Inl e
                     | Inr m \<Rightarrow>
                         (case request_limit c d of
                            Inl e \<Rightarrow> Inl e
                          | Inr n \<Rightarrow>
                              map_sum id (\<lambda>types.
                                \<lparr>gq_seeds = seeds, gq_max_hops = hops, gq_min_cosine = m, gq_mmr_lambda = request_lambda c d,
                                 gq_limit = n, gq_edge_types = types,
                                 gq_episodes = (case dict_get d ''include_episodes'' of Some v \<Rightarrow> py_truthy v | None \<Rightarrow> False)\<rparr>)
                                (request_edge_types d)))))
      | _ \<Rightarrow> Inl InvalidBody)"

subsection \<open>Rows\<close>

record fact_row =
  fr_fact :: string
  fr_source :: pyval
  fr_target :: string
  fr_edge_type :: string
  fr_hop :: int
  fr_path :: "pyval list"
  fr_cosine :: "real option"
  fr_invalid_at :: "string option"

definition unwrap_cell :: "pyval \<Rightarrow> pyval" where
  "unwrap_cell v = (case v of PyList [t, x] \<Rightarrow> if is_int t then x else v | _ \<Rightarrow> v)"

definition parse_falkor_rows :: "pyval \<Rightarrow> pyval list list" where
  "parse_falkor_rows v =
     (case v of
        PyList (h # PyList rows # rest) \<Rightarrow>
          map (\<lambda>row. case row of PyList cells \<Rightarrow> map unwrap_cell cells | _ \<Rightarrow> [unwrap_cell row]) rows
      | _ \<Rightarrow> [])"

definition line_break :: "char \<Rightarrow> bool" where
  "line_break c \<longleftrightarrow> (let n = (of_char c :: nat) in (10 \<le> n \<and> n \<le> 13) \<or> (28 \<le> n \<and> n \<le> 30))"

fun split_by :: "(char \<Rightarrow> bool) \<Rightarrow> string \<Rightarrow> string list" where
  "split_by p [] = [[]]"
| "split_by p (c # cs) =
     (if p c then [] # split_by p cs else (case split_by p cs of y # ys \<Rightarrow> (c # y) # ys | [] \<Rightarrow> [[c]]))"

text \<open>The first line that is not blank.\<close>

definition first_line :: "string \<Rightarrow> string" where
  "first_line s = (case find (\<lambda>l. l \<noteq> []) (map py_strip (split_by line_break s)) of Some l \<Rightarrow> l | None \<Rightarrow> [])"

text \<open>\<open>path[0]\<close> and \<open>list(path)\<close> of a true value, \<open>None\<close> when they raise.\<close>

fun path_head :: "pyval \<Rightarrow> pyval option" where
  "path_head (PyList (x # xs)) = Some x"
| "path_head (PyTuple (x # xs)) = Some x"
| "path_head (PyStr (c # cs)) = Some (PyStr [c])"
| "path_head _ = None"

fun path_items :: "pyval \<Rightarrow> pyval list option" where
  "path_items (PyList xs) = Some xs"
| "path_items (PyTuple xs) = Some xs"
| "path_items (PySet xs) = Some xs"
| "path_items (PyStr s) = Some (map (\<lambda>c. PyStr [c]) s)"
| "path_items (PyDict d) = Some (map (\<lambda>(k, v). PyStr k) d)"
| "path_items _ = None"

definition row_source :: "py_env \<Rightarrow> pyval \<Rightarrow> pyval \<Rightarrow> pyval option" where
  "row_source env seed path =
     (if py_truthy seed then Some (PyStr (py_str env seed))
      else if py_truthy path then path_head path
      else Some (PyStr []))"

fun bfs_fact :: "py_env \<Rightarrow> pyval list \<Rightarrow> fact_row option" where
  "bfs_fact env [edge_type, hop, path, PyStr edge_fact, seed, target] =
     (if first_line edge_fact = [] then None
      else case (if hop = PyNone then Inr 1 else py_int hop, row_source env seed path,
                 if py_truthy path then path_items path else Some []) of
          (Inr h, Some source, Some items) \<Rightarrow>
            Some \<lparr>fr_fact = first_line edge_fact, fr_source = source,
              fr_target = (if py_truthy target then py_str env target else []),
              fr_edge_type = (if py_truthy edge_type then py_str env edge_type else ''RELATES_TO''),
              fr_hop = h, fr_path = items, fr_cosine = None, fr_invalid_at = None\<rparr>
        | _ \<Rightarrow> None)"
| "bfs_fact env row = None"

fun_cases bfs_fact_SomeE: "bfs_fact env row = Some r"

definition parse_bfs_row :: "py_env \<Rightarrow> pyval list \<Rightarrow> fact_row option" where
  "parse_bfs_row env row = bfs_fact env (take 6 row)"

definition classify_cypher_error :: "string \<Rightarrow> graph_error" where
  "classify_cypher_error message =
     (if list_ex (\<lambda>m. py_in m (py_lower message)) [''invalid input'', ''syntax error'', ''errormessage'', ''expected'', ''parse'']
      then InvalidCypher else FalkorDown)"

subsection \<open>Cosine and reranking\<close>

fun dot :: "real list \<Rightarrow> real list \<Rightarrow> real" where
  "dot (x # xs) (y # ys) = x * y + dot xs ys"
| "dot xs ys = 0"

definition cosine :: "real list \<Rightarrow> real list \<Rightarrow> real" where
  "cosine a b =
     (if a = [] \<or> b = [] \<or> length a \<noteq> length b then 0
      else if dot a a = 0 \<or> dot b b = 0 then 0
      else dot a b / (sqrt (dot a a) * sqrt (dot b b)))"

definition cos_or_zero :: "fact_row \<Rightarrow> real" where
  "cos_or_zero r = (case fr_cosine r of Some c \<Rightarrow> c | None \<Rightarrow> 0)"

definition best_cosine :: "fact_row list \<Rightarrow> real" where
  "best_cosine rows = (if rows = [] then 0 else Max (set (map cos_or_zero rows)))"

definition mmr_score :: "real \<Rightarrow> real \<Rightarrow> fact_row \<Rightarrow> real" where
  "mmr_score lam best r =
     (let c = cos_or_zero r; gap = best - c + 2 / 10 in c - (1 - lam) * 2 * of_int (fr_hop r) * gap)"

text \<open>Python compares tuples of keys lexicographically; sorting by the second key first is the same, sorting being stable.\<close>

definition mmr_rerank :: "fact_row list \<Rightarrow> real \<Rightarrow> nat \<Rightarrow> fact_row list" where
  "mmr_rerank rows lam top_k =
     (if rows = [] then []
      else if lam \<le> 0 then sort_key fr_hop (sort_key (\<lambda>r. - cos_or_zero r) rows)
      else if 1 \<le> lam then sort_key (\<lambda>r. - cos_or_zero r) rows
      else take top_k (sort_key (\<lambda>r. - mmr_score lam (best_cosine rows) r) rows))"

subsection \<open>The pipeline\<close>

text \<open>\<open>ge_connected\<close>: a connection exists or can be made; \<open>ge_ask\<close>: the answer to a query or the message of its exception;
  \<open>ge_timed_out\<close>: the traversal exceeds its budget; \<open>ge_embeddings\<close>: the answer of the embedding service.\<close>

record graph_env =
  ge_py :: py_env
  ge_float_repr :: "pyfloat \<Rightarrow> string"
  ge_connected :: bool
  ge_ask :: "string \<Rightarrow> string + pyval"
  ge_timed_out :: bool
  ge_digest :: "string \<Rightarrow> string"
  ge_embeddings :: "real list response"

fun probe_seeds :: "graph_env \<Rightarrow> string list \<Rightarrow> graph_error + string list" where
  "probe_seeds env [] = Inr []"
| "probe_seeds env (name # names) =
     (case ge_ask env (exists_query (ge_py env) (ge_float_repr env) name) of
        Inl e \<Rightarrow> Inl (classify_cypher_error e)
      | Inr (PyList (h # x # rest)) \<Rightarrow> map_sum id (if py_truthy x then Cons name else id) (probe_seeds env names)
      | Inr _ \<Rightarrow> probe_seeds env names)"

declare probe_seeds.simps(2) [simp del]

definition cypher_bfs :: "graph_env \<Rightarrow> graph_settings \<Rightarrow> graph_request \<Rightarrow> graph_error + fact_row list" where
  "cypher_bfs env c q =
     (case ge_ask env (bfs_query (gq_seeds q) (gq_max_hops q) (gs_max_facts c)) of
        Inl e \<Rightarrow> Inl (classify_cypher_error e)
      | Inr v \<Rightarrow> Inr (List.map_filter (parse_bfs_row (ge_py env)) (parse_falkor_rows v)))"

definition trimmed :: "graph_settings \<Rightarrow> fact_row list \<Rightarrow> fact_row list" where
  "trimmed c rows =
     (let cap = gs_embed_max_facts c in
      if cap \<noteq> 0 \<and> cap < int (length rows)
      then (if 0 \<le> cap then take (nat cap) rows else take (length rows - nat (- cap)) rows) else rows)"

definition scored :: "real list embedding_result list \<Rightarrow> fact_row list \<Rightarrow> fact_row list" where
  "scored results rows =
     (if results = [] \<or> list_ex (\<lambda>r. er_embedding r = None) results then rows
      else let vectors = map (\<lambda>r. the (er_embedding r)) results in
        map (\<lambda>(r, v). r\<lparr>fr_cosine := Some (cosine (last vectors) v)\<rparr>) (zip rows vectors))"

text \<open>The scored rows, their number and the client; the rest of the rows is left as it is.\<close>

definition attach_cosine ::
  "graph_env \<Rightarrow> graph_settings \<Rightarrow> fact_row list \<Rightarrow> string option \<Rightarrow> real list embedding_client \<Rightarrow>
     fact_row list \<times> nat \<times> real list embedding_client" where
  "attach_cosine env c rows query client =
     (let text = (case query of Some (x # xs) \<Rightarrow> x # xs | _ \<Rightarrow> (case rows of r # rs \<Rightarrow> fr_fact r | [] \<Rightarrow> []));
          top = trimmed c rows;
          (asked, results, client') = embed_texts (ge_digest env) (map fr_fact top @ [text]) (ge_embeddings env) client
      in (scored results top @ drop (length top) rows, length top, client'))"

record graph_response =
  go_results :: "fact_row list"
  go_count :: nat
  go_degraded :: bool
  go_warnings :: "string list"

definition passing :: "rat \<Rightarrow> fact_row \<Rightarrow> bool" where
  "passing m r \<longleftrightarrow> fr_invalid_at r = None \<and> (case fr_cosine r of Some c \<Rightarrow> of_rat m \<le> c | None \<Rightarrow> False)"

definition graph_answer ::
  "graph_settings \<Rightarrow> graph_request \<Rightarrow> nat \<Rightarrow> fact_row list \<Rightarrow> nat \<Rightarrow> graph_response" where
  "graph_answer c q found rows embedded_count =
     (let ranked = mmr_rerank (filter (passing (gq_min_cosine q)) rows) (of_rat (gq_mmr_lambda q)) (nat (gq_limit q));
          results = take (nat (gq_limit q)) ranked
      in \<lparr>go_results = results, go_count = length results,
          go_degraded = list_ex (\<lambda>r. fr_cosine r = None) (take embedded_count rows),
          go_warnings =
            (if gs_max_facts c \<le> int found then [''fact_count_capped: results may be truncated''] else []) @
            (if embedded_count < length rows
             then [''fact_count_capped: scored '' @ decimal embedded_count @ '' of '' @ decimal (length rows) @ '' facts (embed_max_facts)'']
             else [])\<rparr>)"

text \<open>\<open>query\<close> is the text under that key of the payload; the client is returned with what it has cached.\<close>

definition graph_search ::
  "graph_env \<Rightarrow> graph_settings \<Rightarrow> pyval \<Rightarrow> string option \<Rightarrow> real list embedding_client \<Rightarrow>
     (graph_error + graph_response) \<times> real list embedding_client" where
  "graph_search env c payload query client =
     (case validate_request c payload of
        Inl e \<Rightarrow> (Inl e, client)
      | Inr q \<Rightarrow>
          if \<not> ge_connected env then (Inl FalkorDown, client)
          else case probe_seeds env (gq_seeds q) of
              Inl e \<Rightarrow> (Inl e, client)
            | Inr existing \<Rightarrow>
                if existing = [] then (Inl SeedNotFound, client)
                else if ge_timed_out env then (Inl TraversalTimeout, client)
                else case cypher_bfs env c q of
                    Inl e \<Rightarrow> (Inl e, client)
                  | Inr rows \<Rightarrow>
                      (case (if rows = [] then (rows, 0, client) else attach_cosine env c rows query client) of
                         (rows', n, client') \<Rightarrow> (Inr (graph_answer c q (length rows) rows' n), client')))"

subsection \<open>Literals\<close>

lemma py_replace_char: "py_replace [a] new s = concat (map (\<lambda>c. if c = a then new else [c]) s)"
  by (induction s) auto

definition escape_char :: "char \<Rightarrow> string" where
  "escape_char c = (if c = backslash \<or> c = quote_char then [backslash, c] else [c])"

lemma escape_literal_chars: "escape_literal s = concat (map escape_char s)"
  by (induction s) (auto simp: escape_literal_def py_replace_char escape_char_def)

text \<open>What the engine's reader of a literal does after the opening quote: a quote ends it, a backslash takes a backslash
  or a quote as it is, any other character stands for itself.  What it does with other escapes is left open.\<close>

definition reads_literals :: "(string \<Rightarrow> (string \<times> string) option) \<Rightarrow> bool" where
  "reads_literals rd \<longleftrightarrow>
     (\<forall>rest. rd (quote_char # rest) = Some ([], rest)) \<and>
     (\<forall>c rest. c = backslash \<or> c = quote_char \<longrightarrow>
        rd (backslash # c # rest) = map_option (\<lambda>(s, r). (c # s, r)) (rd rest)) \<and>
     (\<forall>c rest. c \<noteq> backslash \<and> c \<noteq> quote_char \<longrightarrow> rd (c # rest) = map_option (\<lambda>(s, r). (c # s, r)) (rd rest))"

text \<open>C37: whatever the text of a name is, the engine reads the literal the search writes for it back as that text and continues
  after the closing quote: a name cannot break out of its literal.\<close>

theorem escaped_literal_reads_back:
  assumes "reads_literals rd"
  shows "rd (tl (quoted (escape_literal s)) @ rest) = Some (s, rest)"
proof -
  have "rd (concat (map escape_char s) @ quote_char # rest) = Some (s, rest)"
    using assms by (induction s) (auto simp: reads_literals_def escape_char_def)
  then show ?thesis by (simp add: quoted_def escape_literal_chars)
qed

fun read_literal :: "string \<Rightarrow> (string \<times> string) option" where
  "read_literal [] = None"
| "read_literal (c # cs) =
     (if c = quote_char then Some ([], cs)
      else if c = backslash then (case cs of d # ds \<Rightarrow> map_option (\<lambda>(s, r). (d # s, r)) (read_literal ds) | [] \<Rightarrow> None)
      else map_option (\<lambda>(s, r). (c # s, r)) (read_literal cs))"

theorem escaped_literal_reads_back_witness:
  "read_literal (tl (quoted (escape_literal [CHR ''O'', quote_char, CHR ''B'', backslash])) @ ''] AS'') =
     Some ([CHR ''O'', quote_char, CHR ''B'', backslash], ''] AS'')"
  by (rule escaped_literal_reads_back) (simp add: reads_literals_def)

text \<open>The parts are filled in one after the other, so a name that contains a later placeholder is changed on the way.\<close>

lemma seed_placeholder_replaced:
  "py_replace ''{cap}'' (show_int 5000) (quoted (escape_literal ''a{cap}'')) = quoted (escape_literal ''a5000'')"
  "py_replace ''{max_hops}'' (show_int 2) (quoted (escape_literal ''{max_hops}'')) = quoted (escape_literal ''2'')"
proof -
  have "decimal 5000 = ''5000''" "decimal 2 = ''2''" by code_simp+
  then show "py_replace ''{cap}'' (show_int 5000) (quoted (escape_literal ''a{cap}'')) = quoted (escape_literal ''a5000'')"
    "py_replace ''{max_hops}'' (show_int 2) (quoted (escape_literal ''{max_hops}'')) = quoted (escape_literal ''2'')"
    by (simp_all add: quoted_def escape_literal_def show_int_def)
qed

subsection \<open>Cosine\<close>

lemma dot_self [simp]: "0 \<le> dot a a"
  by (induction a) simp_all

lemma dot_commute: "dot a b = dot b a"
  by (induction a b rule: dot.induct) (simp_all add: mult.commute)

lemma dot_scale: "length a = length b \<Longrightarrow>
    dot (map2 (\<lambda>x y. s * x + t * y) a b) (map2 (\<lambda>x y. s * x + t * y) a b) = s\<^sup>2 * dot a a + 2 * s * t * dot a b + t\<^sup>2 * dot b b"
  by (induction a b rule: list_induct2) (simp_all add: algebra_simps power2_eq_square)

lemma dot_bound:
  assumes "length a = length b"
  shows "(dot a b)\<^sup>2 \<le> dot a a * dot b b"
proof (cases "dot b b = 0")
  case True
  have "dot a b = 0"
    using assms True
  proof (induction a b rule: list_induct2)
    case (Cons x xs y ys)
    have "y * y = 0 \<and> dot ys ys = 0"
      using Cons.prems dot_self [of ys] zero_le_square [of y] by (simp add: add_nonneg_eq_0_iff)
    with Cons.IH show ?case by simp
  qed simp
  with True show ?thesis by simp
next
  case False
  then have pos: "0 < dot b b" using dot_self [of b] by linarith
  have "0 \<le> (dot b b)\<^sup>2 * dot a a + 2 * dot b b * (- dot a b) * dot a b + (- dot a b)\<^sup>2 * dot b b"
    using dot_scale [OF assms, of "dot b b" "- dot a b"] dot_self by metis
  also have "\<dots> = dot b b * (dot a a * dot b b - (dot a b)\<^sup>2)"
    by (simp add: algebra_simps power2_eq_square)
  finally show ?thesis using pos by (simp add: zero_le_mult_iff)
qed

text \<open>the cosine of two vectors lies between -1 and 1 and does not depend on their order; it is 1 for two equal
  vectors other than zero.\<close>

theorem cosine_bounded:
  "- 1 \<le> cosine a b \<and> cosine a b \<le> 1 \<and> cosine a b = cosine b a \<and> (cosine a a = 1 \<or> dot a a = 0 \<and> cosine a a = 0)"
proof -
  have abs: "\<bar>cosine a b\<bar> \<le> 1"
  proof (cases "length a = length b \<and> dot a a \<noteq> 0 \<and> dot b b \<noteq> 0")
    case True
    then have "0 < dot a a" "0 < dot b b" using dot_self [of a] dot_self [of b] by linarith+
    moreover have "\<bar>dot a b\<bar> \<le> sqrt (dot a a * dot b b)"
      using dot_bound [of a b] True real_le_rsqrt [of "\<bar>dot a b\<bar>"] by simp
    ultimately show ?thesis by (simp add: cosine_def real_sqrt_mult abs_mult divide_le_eq)
  qed (auto simp: cosine_def)
  moreover have "cosine a b = cosine b a" by (auto simp: cosine_def dot_commute mult.commute)
  moreover have "cosine a a = 1 \<or> dot a a = 0 \<and> cosine a a = 0" by (cases a) (auto simp: cosine_def)
  ultimately show ?thesis by linarith
qed

subsection \<open>Results\<close>

lemma mmr_rerank_parts:
  "mmr_rerank rows lam k = take (if 0 < lam \<and> lam < 1 then k else length rows) (mmr_rerank rows lam (length rows))"
  by (simp add: mmr_rerank_def)

lemma mset_mmr_rerank [simp]: "mset (mmr_rerank rows lam (length rows)) = mset rows"
  by (simp add: mmr_rerank_def)

lemma take_mmr_rerank: "take k (mmr_rerank rows lam k) = take k (mmr_rerank rows lam (length rows))"
  by (subst mmr_rerank_parts) (auto simp: mmr_rerank_def)

lemma sort_two_keys:
  assumes "sorted (map g xs)"
  shows "sorted_wrt (\<lambda>x y. f x < f y \<or> f x = f y \<and> g x \<le> g y) (sort_key f xs)"
  using assms
proof (induction xs)
  case (Cons x xs)
  have ins: "sorted_wrt (\<lambda>x y. f x < f y \<or> f x = f y \<and> g x \<le> g y) ys \<Longrightarrow> \<forall>y \<in> set ys. g x \<le> g y \<Longrightarrow>
      sorted_wrt (\<lambda>x y. f x < f y \<or> f x = f y \<and> g x \<le> g y) (insort_key f x ys)" for ys
    by (induction ys) (auto simp: set_insort_key)
  from Cons show ?case by (auto intro!: ins)
qed simp

text \<open>Which of two rows comes first.\<close>

definition ranked_before :: "real \<Rightarrow> real \<Rightarrow> fact_row \<Rightarrow> fact_row \<Rightarrow> bool" where
  "ranked_before lam best x y \<longleftrightarrow>
     (if lam \<le> 0 then fr_hop x < fr_hop y \<or> fr_hop x = fr_hop y \<and> cos_or_zero y \<le> cos_or_zero x
      else if 1 \<le> lam then cos_or_zero y \<le> cos_or_zero x
      else mmr_score lam best y \<le> mmr_score lam best x)"

lemma mmr_rerank_order:
  "sorted_wrt (ranked_before lam (best_cosine rows)) (mmr_rerank rows lam (length rows))"
proof (cases "rows = []")
  case False
  have by_key: "sorted_wrt (\<lambda>x y. h y \<le> h x) (sort_key (\<lambda>r. - h r) rows)" for h :: "fact_row \<Rightarrow> real"
    using sorted_sort_key [of "\<lambda>r. - h r" rows] by (simp add: sorted_map)
  have two: "sorted_wrt (\<lambda>x y. fr_hop x < fr_hop y \<or> fr_hop x = fr_hop y \<and> - cos_or_zero x \<le> - cos_or_zero y)
      (sort_key fr_hop (sort_key (\<lambda>r. - cos_or_zero r) rows))"
    by (rule sort_two_keys) simp
  show ?thesis
    using False by_key [of cos_or_zero] by_key [of "mmr_score lam (best_cosine rows)"] two
    by (simp add: mmr_rerank_def ranked_before_def [abs_def])
qed (simp add: mmr_rerank_def)

definition passed_rows :: "graph_request \<Rightarrow> fact_row list \<Rightarrow> fact_row list" where
  "passed_rows q rows = filter (passing (gq_min_cosine q)) rows"

definition request_order :: "graph_request \<Rightarrow> fact_row list \<Rightarrow> fact_row \<Rightarrow> fact_row \<Rightarrow> bool" where
  "request_order q rows = ranked_before (of_rat (gq_mmr_lambda q)) (best_cosine (passed_rows q rows))"

lemma graph_answer_results:
  "go_results (graph_answer c q found rows n) =
     take (nat (gq_limit q)) (mmr_rerank (passed_rows q rows) (of_rat (gq_mmr_lambda q)) (length (passed_rows q rows)))"
  unfolding take_mmr_rerank [symmetric] by (simp add: graph_answer_def Let_def passed_rows_def)

text \<open>C36: the answer consists of rows that pass the filter, at most \<open>limit\<close> of them, in the order of the ranking; a row that
  passes is left out only when the answer is full, and then it ranks behind every row of the answer.\<close>

theorem graph_answer_takes_best:
  "length (go_results (graph_answer c q found rows n)) = min (length (passed_rows q rows)) (nat (gq_limit q)) \<and>
   (\<exists>left. mset (passed_rows q rows) = mset (go_results (graph_answer c q found rows n) @ left) \<and>
      sorted_wrt (request_order q rows) (go_results (graph_answer c q found rows n) @ left))"
proof -
  let ?k = "nat (gq_limit q)"
  let ?all = "mmr_rerank (passed_rows q rows) (of_rat (gq_mmr_lambda q)) (length (passed_rows q rows))"
  have all: "mset ?all = mset (passed_rows q rows)" by simp
  then have "length ?all = length (passed_rows q rows)" by (rule mset_eq_length)
  moreover have "sorted_wrt (request_order q rows) ?all"
    using mmr_rerank_order by (simp add: request_order_def)
  moreover have "mset (take ?k ?all @ drop ?k ?all) = mset (passed_rows q rows)" using all by simp
  ultimately show ?thesis
    unfolding graph_answer_results by (auto intro!: exI [of _ "drop ?k ?all"] simp del: mset_append)
qed

lemma embed_texts_length:
  "embed_texts digest texts resp c = (asked, results, c') \<Longrightarrow> length results = length texts"
proof -
  assume run: "embed_texts digest texts resp c = (asked, results, c')"
  have found: "length (fst (embed_lookup digest ts cl)) = length ts" for ts and cl :: "'a embedding_client"
    by (induction ts arbitrary: cl) (auto simp: Let_def split: prod.splits, metis fst_conv)
  obtain fs c1 where l: "embed_lookup digest texts c = (fs, c1)" by (metis prod.exhaust)
  have len: "length fs = length texts" using found [of texts c] l by simp
  have hits: "length (hits_or e texts fs) = length texts" for e using len by (simp add: hits_or_def)
  have "length (fst (fill_misses digest texts fs items cl)) = length texts" for items cl
    using fill_texts [OF len, of digest items cl] by (metis length_map)
  then show ?thesis using run l hits
    by (auto simp: embed_texts_def embed_answer_def Let_def split: if_splits response.splits prod.splits) (metis fst_conv)+
qed

abbreviation unscored :: "fact_row \<Rightarrow> fact_row" where
  "unscored r \<equiv> r\<lparr>fr_cosine := None\<rparr>"

lemma scored_rows: "length results = Suc (length rows) \<Longrightarrow> map unscored (scored results rows) = map unscored rows"
proof -
  assume len: "length results = Suc (length rows)"
  have "length rows \<le> length vs \<Longrightarrow> map (unscored \<circ> (\<lambda>(r, v). r\<lparr>fr_cosine := Some (g v)\<rparr>)) (zip rows vs) = map unscored rows"
    for g :: "real list \<Rightarrow> real" and vs
    by (induction rows arbitrary: vs) (auto simp: less_Suc_eq_le Suc_le_length_iff)
  then show ?thesis using len by (simp add: scored_def Let_def)
qed

lemma trimmed_take: "\<exists>k. trimmed c rows = take k rows"
  by (auto simp: trimmed_def Let_def intro: exI [of _ "length rows"])

lemma trimmed_split: "trimmed c rows @ drop (length (trimmed c rows)) rows = rows"
proof -
  obtain k where "trimmed c rows = take k rows" using trimmed_take by blast
  then show ?thesis by (cases "k \<le> length rows") simp_all
qed

lemma attach_cosine_rows:
  assumes "attach_cosine env c rows query client = (rows', n, client')"
  shows "map unscored rows' = map unscored rows"
proof -
  obtain results where len: "length results = Suc (length (trimmed c rows))"
    and rows': "rows' = scored results (trimmed c rows) @ drop (length (trimmed c rows)) rows"
    using assms embed_texts_length by (fastforce simp: attach_cosine_def Let_def split: prod.splits)
  have "map unscored rows' = map unscored (trimmed c rows @ drop (length (trimmed c rows)) rows)"
    by (simp add: rows' scored_rows [OF len])
  then show ?thesis unfolding trimmed_split .
qed

lemma bfs_fact_unscored: "bfs_fact env row = Some r \<Longrightarrow> unscored r = r"
  by (erule bfs_fact_SomeE) (auto split: if_splits option.splits sum.splits)

lemma cypher_bfs_unscored: "cypher_bfs env c q = Inr rows \<Longrightarrow> map unscored rows = rows"
  by (auto simp: cypher_bfs_def List.map_filter_def parse_bfs_row_def bfs_fact_unscored split: sum.splits intro!: map_idI)

text \<open>C35: what a search returns are rows of the traversal, changed only in their cosine, which is at least the
  \<open>min_cosine\<close> of the request; there are at most \<open>limit\<close> of them, which is at most the configured maximum.\<close>

theorem graph_results_sound:
  assumes "graph_search env c payload query client = (Inr resp, client')"
  shows "\<exists>q rows. validate_request c payload = Inr q \<and> cypher_bfs env c q = Inr rows \<and>
    go_count resp = length (go_results resp) \<and> go_count resp \<le> nat (gq_limit q) \<and> gq_limit q \<le> gs_max_limit c \<and>
    list_all (\<lambda>r. (\<exists>co. fr_cosine r = Some co \<and> of_rat (gq_min_cosine q) \<le> co) \<and> unscored r \<in> set rows) (go_results resp)"
proof -
  obtain q rows rows' n where q: "validate_request c payload = Inr q" and rows: "cypher_bfs env c q = Inr rows"
    and resp: "resp = graph_answer c q (length rows) rows' n"
    and attach: "(if rows = [] then (rows, 0, client) else attach_cosine env c rows query client) = (rows', n, client')"
    using assms by (auto simp: graph_search_def split: sum.splits if_splits prod.splits)
  have "map unscored rows' = map unscored rows"
    using attach attach_cosine_rows by (auto split: if_splits)
  then have undo: "map unscored rows' = rows" using cypher_bfs_unscored [OF rows] by simp
  have "set (go_results resp) \<subseteq> set (passed_rows q rows')"
    unfolding resp graph_answer_results by (metis mset_mmr_rerank set_mset_mset set_take_subset)
  then have "list_all (\<lambda>r. (\<exists>co. fr_cosine r = Some co \<and> of_rat (gq_min_cosine q) \<le> co) \<and> unscored r \<in> set rows) (go_results resp)"
    by (auto simp: list_all_iff passed_rows_def passing_def simp flip: undo split: option.splits)
  moreover have "gq_limit q \<le> gs_max_limit c"
  proof -
    obtain d where "request_limit c d = Inr (gq_limit q)"
      using q by (auto simp: validate_request_def split: pyval.splits sum.splits)
    then show ?thesis by (auto simp: request_limit_def split: option.splits pyval.splits if_splits)
  qed
  ultimately show ?thesis using q rows by (auto simp: resp graph_answer_def Let_def)
qed

definition sample_answer :: pyval where
  "sample_answer =
     PyList [PyList [], PyList [PyList [PyList [PyInt 2, PyStr ''MENTIONS''], PyList [PyInt 3, PyInt 1], PyList [PyInt 6, PyList [PyStr ''a'', PyStr ''b'']],
       PyList [PyInt 2, PyStr ''a knows b''], PyList [PyInt 2, PyStr ''a''], PyList [PyInt 2, PyStr ''b'']]]]"

definition sample_graph :: graph_env where
  "sample_graph =
     \<lparr>ge_py = plain_env, ge_float_repr = (\<lambda>f. []), ge_connected = True, ge_ask = (\<lambda>query. Inr sample_answer),
      ge_timed_out = False, ge_digest = id, ge_embeddings = Items [Some [1, 0], Some [1, 0]]\<rparr>"

abbreviation sample_query :: pyval where
  "sample_query \<equiv> PyDict [(''seed_entities'', PyList [PyStr ''a''])]"

definition sample_row :: fact_row where
  "sample_row =
     \<lparr>fr_fact = ''a knows b'', fr_source = PyStr ''a'', fr_target = ''b'', fr_edge_type = ''MENTIONS'', fr_hop = 1,
      fr_path = [PyStr ''a'', PyStr ''b''], fr_cosine = None, fr_invalid_at = None\<rparr>"

lemma sample_valid:
  "validate_request default_graph_settings sample_query = Inr
     \<lparr>gq_seeds = [''a''], gq_max_hops = 2, gq_min_cosine = 1 / 2, gq_mmr_lambda = 7 / 10, gq_limit = 10, gq_edge_types = [], gq_episodes = False\<rparr>"
  by code_simp

lemma sample_parsed: "List.map_filter (parse_bfs_row plain_env) (parse_falkor_rows sample_answer) = [sample_row]"
  by code_simp

lemma sample_bfs: "cypher_bfs sample_graph c q = Inr [sample_row]"
  by (simp add: cypher_bfs_def sample_graph_def sample_parsed)

lemma sample_probe: "probe_seeds sample_graph [''a''] = Inr [''a'']"
  by (simp add: probe_seeds.simps sample_graph_def sample_answer_def)

lemma sample_attach:
  "fst (attach_cosine sample_graph default_graph_settings [sample_row] (Some ''q'') (new_embedding_client 10)) = [sample_row\<lparr>fr_cosine := Some 1\<rparr>]"
  "fst (snd (attach_cosine sample_graph default_graph_settings [sample_row] (Some ''q'') (new_embedding_client 10))) = 1"
  by (simp_all add: attach_cosine_def trimmed_def default_graph_settings_def Let_def sample_row_def sample_graph_def embed_texts_def
      new_embedding_client_def new_lru_def lru_get_def lru_peek_def miss_texts_def embed_answer_def lru_set_def without_key_def
      embedded_def scored_def cosine_def)

lemma sample_graph_answer:
  "graph_answer default_graph_settings
     \<lparr>gq_seeds = [''a''], gq_max_hops = 2, gq_min_cosine = 1 / 2, gq_mmr_lambda = 7 / 10, gq_limit = 10, gq_edge_types = [], gq_episodes = False\<rparr>
     1 [sample_row\<lparr>fr_cosine := Some 1\<rparr>] 1 =
   \<lparr>go_results = [sample_row\<lparr>fr_cosine := Some 1\<rparr>], go_count = 1, go_degraded = False, go_warnings = []\<rparr>"
  by (simp add: graph_answer_def default_graph_settings_def passing_def sample_row_def mmr_rerank_def of_rat_divide)

lemma sample_search:
  "fst (graph_search sample_graph default_graph_settings sample_query (Some ''q'') (new_embedding_client 10)) =
     Inr \<lparr>go_results = [sample_row\<lparr>fr_cosine := Some 1\<rparr>], go_count = 1, go_degraded = False, go_warnings = []\<rparr>"
proof -
  obtain client' where "attach_cosine sample_graph default_graph_settings [sample_row] (Some ''q'') (new_embedding_client 10) =
      ([sample_row\<lparr>fr_cosine := Some 1\<rparr>], 1, client')"
    using sample_attach by (metis prod.collapse)
  moreover have "ge_connected sample_graph" "\<not> ge_timed_out sample_graph" by (simp_all add: sample_graph_def)
  ultimately show ?thesis by (simp add: graph_search_def sample_valid sample_bfs sample_probe sample_graph_answer [unfolded One_nat_def])
qed

theorem graph_results_sound_witness:
  "\<exists>resp client'. graph_search sample_graph default_graph_settings sample_query (Some ''q'') (new_embedding_client 10) = (Inr resp, client') \<and>
     go_results resp = [sample_row\<lparr>fr_cosine := Some 1\<rparr>] \<and>
     (\<exists>q rows. validate_request default_graph_settings sample_query = Inr q \<and>
        cypher_bfs sample_graph default_graph_settings q = Inr rows \<and> list_all (\<lambda>r. unscored r \<in> set rows) (go_results resp))"
proof -
  obtain resp client' where run:
      "graph_search sample_graph default_graph_settings sample_query (Some ''q'') (new_embedding_client 10) = (Inr resp, client')"
    and "go_results resp = [sample_row\<lparr>fr_cosine := Some 1\<rparr>]"
    using sample_search by (metis graph_response.select_convs(1) prod.collapse)
  with graph_results_sound [OF run] show ?thesis by (auto simp: list_all_iff)
qed

subsection \<open>Errors\<close>

lemma probe_seeds_none:
  "probe_seeds env names = Inr [] \<Longrightarrow>
    list_all (\<lambda>name. \<exists>v. ge_ask env (exists_query (ge_py env) (ge_float_repr env) name) = Inr v) names"
  by (induction names) (auto simp: probe_seeds.simps split: sum.splits pyval.splits list.splits if_splits)

lemma probe_seeds_some:
  "probe_seeds env names = Inr [] \<Longrightarrow> name \<in> set names \<Longrightarrow>
    ge_ask env (exists_query (ge_py env) (ge_float_repr env) name) = Inr (PyList (h # x # rest)) \<Longrightarrow> \<not> py_truthy x"
  by (induction names) (auto simp: probe_seeds.simps split: sum.splits pyval.splits list.splits if_splits)

lemma probe_seeds_error: "probe_seeds env names = Inl e \<Longrightarrow> e = FalkorDown \<or> e = InvalidCypher"
  by (induction names) (auto simp: probe_seeds.simps classify_cypher_error_def split: sum.splits pyval.splits list.splits if_splits)

text \<open>The probe of a seed was answered, and without a row.\<close>

definition answered_absent :: "graph_env \<Rightarrow> string \<Rightarrow> bool" where
  "answered_absent env name \<longleftrightarrow>
     (\<exists>v. ge_ask env (exists_query (ge_py env) (ge_float_repr env) name) = Inr v \<and>
        (\<nexists>h x rest. v = PyList (h # x # rest) \<and> py_truthy x))"

lemma probe_seeds_empty: "probe_seeds env names = Inr [] \<longleftrightarrow> (\<forall>name \<in> set names. answered_absent env name)"
proof (induction names)
  case (Cons name names)
  let ?ask = "ge_ask env (exists_query (ge_py env) (ge_float_repr env) name)"
  show ?case
  proof (cases ?ask)
    case (Inl e)
    then show ?thesis by (simp add: probe_seeds.simps answered_absent_def)
  next
    case (Inr v)
    have "probe_seeds env (name # names) = Inr [] \<longleftrightarrow>
        (\<nexists>h x rest. v = PyList (h # x # rest) \<and> py_truthy x) \<and> probe_seeds env names = Inr []"
      using Inr by (auto simp: probe_seeds.simps split: pyval.splits list.splits sum.splits)
    moreover have "answered_absent env name \<longleftrightarrow> (\<nexists>h x rest. v = PyList (h # x # rest) \<and> py_truthy x)"
      using Inr by (simp add: answered_absent_def)
    ultimately show ?thesis using Cons.IH by simp
  qed
qed simp

lemma failed_probe_raises:
  "name \<in> set names \<Longrightarrow> ge_ask env (exists_query (ge_py env) (ge_float_repr env) name) = Inl m \<Longrightarrow>
    \<exists>e. probe_seeds env names = Inl e"
  by (induction names) (auto simp: probe_seeds.simps split: sum.splits pyval.splits list.splits)

lemma validate_errors:
  assumes "validate_request c payload = Inl e"
  shows "e \<in> {InvalidBody, InvalidSeed, InvalidHops, MinCosineOutOfRange, InvalidGraphLimit, InvalidEdgeTypes}"
proof (cases "\<exists>d. payload = PyDict d")
  case True
  then obtain d where d: "payload = PyDict d" by blast
  have "request_seeds d = Inl e \<Longrightarrow> e = InvalidSeed"
    by (auto simp: request_seeds_def split: pyval.splits option.splits if_splits)
  moreover have "request_hops d = Inl e \<Longrightarrow> e = InvalidHops"
    by (auto simp: request_hops_def split: pyval.splits option.splits if_splits)
  moreover have "request_min_cosine c d = Inl e \<Longrightarrow> e = MinCosineOutOfRange"
    unfolding request_min_cosine_def by (cases "unit_number (case dict_get d ''min_cosine'' of
      None \<Rightarrow> PyFloat (FFin (gs_default_min_cosine c)) | Some v \<Rightarrow> v)") simp_all
  moreover have "request_limit c d = Inl e \<Longrightarrow> e = InvalidGraphLimit"
    by (auto simp: request_limit_def split: pyval.splits option.splits if_splits)
  moreover have "request_edge_types d = Inl e \<Longrightarrow> e = InvalidEdgeTypes"
    by (auto simp: request_edge_types_def split: pyval.splits option.splits if_splits)
  ultimately show ?thesis using assms d by (auto simp: validate_request_def split: sum.splits)
next
  case False
  then show ?thesis using assms by (cases payload) (simp_all add: validate_request_def)
qed

text \<open>a search reports a missing seed only if the database was connected and answered the probe of every seed without
  a row; what it reports when a query raises is a failure of the database or of the query, never a missing seed.\<close>

theorem missing_seed_is_genuine:
  assumes "graph_search env c payload query client = (Inl SeedNotFound, client')"
  shows "client' = client \<and> ge_connected env \<and> (\<exists>q. validate_request c payload = Inr q \<and> gq_seeds q \<noteq> [] \<and>
    list_all (\<lambda>name. \<exists>v. ge_ask env (exists_query (ge_py env) (ge_float_repr env) name) = Inr v \<and>
       (\<nexists>h x rest. v = PyList (h # x # rest) \<and> py_truthy x)) (gq_seeds q))"
proof -
  obtain q where q: "validate_request c payload = Inr q" and probe: "probe_seeds env (gq_seeds q) = Inr []"
    and rest: "client' = client" "ge_connected env"
    using assms validate_errors [of c payload] probe_seeds_error [of env]
    by (fastforce simp: graph_search_def cypher_bfs_def classify_cypher_error_def split: sum.splits if_splits prod.splits)
  have "gq_seeds q \<noteq> []"
    using q by (auto simp: validate_request_def request_seeds_def split: pyval.splits sum.splits option.splits if_splits)
  with q rest probe_seeds_none [OF probe] probe_seeds_some [OF probe] show ?thesis
    by (fastforce simp: list_all_iff)
qed

definition empty_graph :: graph_env where
  "empty_graph = sample_graph\<lparr>ge_ask := (\<lambda>query. Inr (PyList [PyList [], PyList [], PyList []]))\<rparr>"

theorem missing_seed_is_genuine_witness:
  "\<exists>client'. graph_search empty_graph default_graph_settings sample_query None (new_embedding_client 10) = (Inl SeedNotFound, client') \<and>
     client' = new_embedding_client 10 \<and> ge_connected empty_graph"
proof -
  have "probe_seeds empty_graph [''a''] = Inr []"
    by (simp add: probe_seeds.simps empty_graph_def)
  then have run: "graph_search empty_graph default_graph_settings sample_query None (new_embedding_client 10) = (Inl SeedNotFound, new_embedding_client 10)"
    by (simp add: graph_search_def sample_valid) (simp add: empty_graph_def sample_graph_def)
  from missing_seed_is_genuine [OF run] run show ?thesis by blast
qed

text \<open>One text without a vector, and the search returns nothing: rows without a cosine do not pass the filter.\<close>

lemma failed_embedding_empties:
  assumes "list_ex (\<lambda>r. er_embedding r = None) results" "map unscored rows = rows"
  shows "go_results (graph_answer c q found (scored results (trimmed c rows) @ drop (length (trimmed c rows)) rows) n) = []"
proof -
  have "scored results (trimmed c rows) @ drop (length (trimmed c rows)) rows = rows"
    using assms(1) by (simp add: scored_def trimmed_split)
  moreover have "\<not> passing m r" if "r \<in> set rows" for m r
    using that assms(2) by (metis (no_types, lifting) fact_row.select_convs(7) fact_row.surjective fact_row.update_convs(7)
      in_set_conv_nth length_map nth_map option.simps(4) passing_def)
  ultimately have "passed_rows q (scored results (trimmed c rows) @ drop (length (trimmed c rows)) rows) = []"
    by (simp add: passed_rows_def filter_empty_conv)
  then show ?thesis by (simp add: graph_answer_results mmr_rerank_def)
qed

text \<open>\<open>edge_types\<close> and \<open>include_episodes\<close> of a request have no effect.\<close>

lemma edge_types_ignored:
  "cypher_bfs env c (q\<lparr>gq_edge_types := types, gq_episodes := b\<rparr>) = cypher_bfs env c q"
  "graph_answer c (q\<lparr>gq_edge_types := types, gq_episodes := b\<rparr>) found rows n = graph_answer c q found rows n"
  by (simp_all add: cypher_bfs_def graph_answer_def)

end
