(* ===== verification/HttpServer.thy ===== *)
theory HttpServer
  imports Supervisor CronLoop GraphSearch QueueRuns
begin

text \<open>
  \<open>daemon/http_server.py\<close>: the handlers of the daemon's HTTP routes.  A JSON body is a dictionary, a reply a status with a body.
  The components a handler calls are those of their own theories; that of \<open>/search/memory\<close> is in \<open>MemoryHandler\<close>.
\<close>

type_synonym http_reply = "int \<times> pydict"

definition error_reply :: "int \<Rightarrow> string \<Rightarrow> string \<Rightarrow> http_reply" where
  "error_reply status code message = (status, [(''code'', PyStr code), (''message'', PyStr message)])"

definition reply_code :: "http_reply \<Rightarrow> string option" where
  "reply_code r = (case dict_get (snd r) ''code'' of Some (PyStr c) \<Rightarrow> Some c | _ \<Rightarrow> None)"

subsection \<open>Health\<close>

datatype 'r cron_health = NoCron | CronHealth "'r cron_snapshot"

definition cron_payload :: "'r cron_loop option \<Rightarrow> 'r cron_health" where
  "cron_payload l = (case l of None \<Rightarrow> NoCron | Some c \<Rightarrow> CronHealth (cron_snapshot c))"

text \<open>\<open>round(x, 2)\<close>, ties to even.\<close>

definition round2 :: "real \<Rightarrow> real" where
  "round2 x =
     (let n = \<lfloor>100 * x\<rfloor>; d = 100 * x - of_int n in
      of_int (if d < 1 / 2 then n else if 1 / 2 < d then n + 1 else if even n then n else n + 1) / 100)"

record policy_health =
  ph_state :: policy_state
  ph_restarts :: nat
  ph_max_per_hour :: int
  ph_seconds :: "real option"
  ph_cooldown :: int
  ph_disabled_reason :: "string option"

text \<open>\<open>now\<close> and \<open>now'\<close>: the clock when the window is pruned and when the elapsed time is computed.\<close>

definition restart_policy_payload :: "policy \<Rightarrow> real \<Rightarrow> real \<Rightarrow> policy \<times> policy_health" where
  "restart_policy_payload p now now' =
     (case policy_snapshot_of p now now' of (q, snap) \<Rightarrow>
        (q, \<lparr>ph_state = ps_state snap, ph_restarts = ps_restarts_in_window snap, ph_max_per_hour = ps_max_per_hour snap,
             ph_seconds = map_option round2 (ps_seconds_since_last snap), ph_cooldown = ps_cooldown_sec snap,
             ph_disabled_reason = disabled_reason q\<rparr>))"

record 'r health_report =
  he_ready :: bool
  he_falkor_ok :: bool
  he_circuit :: circuit_snapshot
  he_policy :: policy_health
  he_cron :: "'r cron_health"
  he_queue :: "adapter_stats option"

text \<open>The queue adapter is present with readable tables or not, or absent.\<close>

definition health_handler ::
  "observation \<Rightarrow> real \<Rightarrow> real \<Rightarrow> (bool \<times> store) option \<Rightarrow> 'r cron_loop option \<Rightarrow> supervisor \<Rightarrow>
     (int \<times> 'r health_report) \<times> supervisor" where
  "health_handler ob now now' queue cron sv =
     (let snap = sv_snapshot sv in
      case sv_probe sv ob of (sv1, calls, falkor_ok) \<Rightarrow>
        (case restart_policy_payload (sv_policy sv1) now now' of (p, policy_report) \<Rightarrow>
           ((if falkor_ok then 200 else 503,
             \<lparr>he_ready = falkor_ok, he_falkor_ok = falkor_ok, he_circuit = snap, he_policy = policy_report,
              he_cron = cron_payload cron, he_queue = map_option (\<lambda>(readable, s). queue_stats readable s) queue\<rparr>),
            sv1\<lparr>sv_policy := p\<rparr>)))"

definition shutdown_handler :: "string \<Rightarrow> bool \<Rightarrow> http_reply \<times> bool" where
  "shutdown_handler version shutdown_event =
     ((202, [(''status'', PyStr ''shutting_down''), (''daemon_version'', PyStr version)]), True)"

subsection \<open>Episodes\<close>

definition invalid_body :: "string \<Rightarrow> http_reply" where
  "invalid_body message = error_reply 422 ''INVALID_BODY'' message"

definition body_content :: "pydict \<Rightarrow> http_reply + string" where
  "body_content d =
     (case dict_get d ''content'' of
        Some (PyStr s) \<Rightarrow> if py_strip s = [] then Inl (invalid_body ''content must be a non-empty string'') else Inr s
      | _ \<Rightarrow> Inl (invalid_body ''content must be a non-empty string''))"

definition body_name :: "pydict \<Rightarrow> http_reply + string option" where
  "body_name d =
     (case dict_get d ''name'' of
        None \<Rightarrow> Inr None
      | Some PyNone \<Rightarrow> Inr None
      | Some (PyStr s) \<Rightarrow> Inr (Some s)
      | _ \<Rightarrow> Inl (invalid_body ''name must be a string''))"

definition body_group :: "pydict \<Rightarrow> http_reply + string" where
  "body_group d =
     (case dict_get d ''group_id'' of
        None \<Rightarrow> Inr ''graphiti_memory''
      | Some (PyStr (c # cs)) \<Rightarrow> Inr (c # cs)
      | _ \<Rightarrow> Inl (invalid_body ''group_id must be a non-empty string''))"

definition body_source :: "pydict \<Rightarrow> http_reply + string" where
  "body_source d =
     (case dict_get d ''source_description'' of
        None \<Rightarrow> Inr ''daemon_http''
      | Some (PyStr s) \<Rightarrow> Inr s
      | _ \<Rightarrow> Inl (invalid_body ''source_description must be a string''))"

text \<open>The parsed body, or the message of the parser's exception.\<close>

definition episode_request :: "string + pyval \<Rightarrow> http_reply + enqueue_args" where
  "episode_request body =
     (case body of
        Inl e \<Rightarrow> Inl (invalid_body (''malformed JSON: '' @ e))
      | Inr (PyDict d) \<Rightarrow>
          (case body_content d of
             Inl r \<Rightarrow> Inl r
           | Inr text \<Rightarrow>
               (case body_name d of
                  Inl r \<Rightarrow> Inl r
                | Inr name \<Rightarrow>
                    (case body_group d of
                       Inl r \<Rightarrow> Inl r
                     | Inr group_id \<Rightarrow>
                         map_sum id (\<lambda>source.
                           \<lparr>ea_content = text, ea_group = group_id, ea_name = name, ea_source = source,
                            ea_episode_id = None, ea_mode = None\<rparr>) (body_source d))))
      | Inr _ \<Rightarrow> Inl (invalid_body ''body must be a JSON object''))"

definition lock_message :: string where
  "lock_message =
     ''DaemonLockSettings.mode = mcp_only; daemon /episodes disabled. '' @
     ''Set JANUS_DAEMON__LOCK__MODE=daemon_only or dual_with_lock to opt in.''"

definition or_null :: "string option \<Rightarrow> pyval" where
  "or_null t = (case t of Some s \<Rightarrow> PyStr s | None \<Rightarrow> PyNone)"

text \<open>\<open>shown\<close> is the \<open>str\<close> of an exception.\<close>

definition guarded_reply :: "string \<Rightarrow> (py_exception \<Rightarrow> string) \<Rightarrow> guarded_result \<Rightarrow> http_reply" where
  "guarded_reply version shown r =
     (case r of
        Accepted i tag \<Rightarrow>
          (202, [(''episode_id'', PyStr i), (''claimed_by'', or_null tag), (''deduplicated'', PyBool False),
                 (''daemon_version'', PyStr version)])
      | LockModeError \<Rightarrow> error_reply 409 ''LOCK_MODE_MCP_ONLY'' lock_message
      | DuplicateError i \<Rightarrow> (409, [(''code'', PyStr ''DUPLICATE_EPISODE''), (''existing_episode_id'', PyStr i)])
      | GuardedRaised e \<Rightarrow> error_reply 503 ''INTERNAL'' (''enqueue failed: '' @ shown e))"

definition episodes_handler ::
  "string \<Rightarrow> (py_exception \<Rightarrow> string) \<Rightarrow> daemon_env \<Rightarrow> adapter option \<Rightarrow> string + pyval \<Rightarrow> queue \<Rightarrow> http_reply \<times> queue" where
  "episodes_handler version shown env adapter body q =
     (case adapter of
        None \<Rightarrow> (error_reply 503 ''NOT_READY'' ''queue adapter not initialized'', q)
      | Some ad \<Rightarrow>
          (case episode_request body of
             Inl r \<Rightarrow> (r, q)
           | Inr a \<Rightarrow> (case enqueue_guarded env ad a q of (r, q') \<Rightarrow> (guarded_reply version shown r, q'))))"

subsection \<open>Graph search\<close>

definition list_param :: "string \<Rightarrow> pyval" where
  "list_param raw = PyList (map PyStr (filter (\<lambda>t. t \<noteq> []) (map py_strip (split_by (\<lambda>c. c = CHR '','') raw))))"

definition param_value :: "string \<Rightarrow> string \<Rightarrow> string + pyval" where
  "param_value key raw =
     (if key = ''seed_entities'' \<or> key = ''edge_types'' then Inr (list_param raw)
      else if key \<in> {''max_hops'', ''limit''} then
        (case parse_int raw of Some n \<Rightarrow> Inr (PyInt n) | None \<Rightarrow> Inl (key @ '' must be int''))
      else if key \<in> {''min_cosine'', ''mmr_lambda''} then
        (case parse_float raw of Some f \<Rightarrow> Inr (PyFloat f) | None \<Rightarrow> Inl (key @ '' must be a number''))
      else if key = ''include_episodes'' then Inr (PyBool (py_lower raw \<in> {''1'', ''true'', ''yes''}))
      else Inr (PyStr raw))"

definition graph_params :: "string list" where
  "graph_params =
     [''seed_entities'', ''max_hops'', ''min_cosine'', ''mmr_lambda'', ''limit'', ''edge_types'', ''include_episodes'', ''query'']"

fun params_payload :: "(string \<Rightarrow> string option) \<Rightarrow> string list \<Rightarrow> string + pydict" where
  "params_payload params [] = Inr []"
| "params_payload params (key # keys) =
     (case params key of
        None \<Rightarrow> params_payload params keys
      | Some raw \<Rightarrow>
          (case param_value key raw of
             Inl message \<Rightarrow> Inl message
           | Inr v \<Rightarrow> map_sum id (Cons (key, v)) (params_payload params keys)))"

definition with_query :: "pydict \<Rightarrow> pydict" where
  "with_query d =
     (if dict_has d ''query'' then d
      else case dict_get d ''seed_entities'' of
          Some (PyList (x # xs)) \<Rightarrow> dict_set ''query'' x d
        | _ \<Rightarrow> d)"

text \<open>A refusal by its status and code; the message texts are not modelled.\<close>

datatype graph_reply = GraphFound graph_response | GraphRefused int string

definition graph_status :: "graph_reply \<Rightarrow> int" where
  "graph_status r = (case r of GraphFound g \<Rightarrow> 200 | GraphRefused n code \<Rightarrow> n)"

fun error_code :: "graph_error \<Rightarrow> string" where
  "error_code InvalidBody = ''INVALID_BODY''"
| "error_code InvalidSeed = ''INVALID_SEED''"
| "error_code InvalidHops = ''INVALID_HOPS''"
| "error_code MinCosineOutOfRange = ''MIN_COSINE_OUT_OF_RANGE''"
| "error_code InvalidGraphLimit = ''INVALID_LIMIT''"
| "error_code InvalidEdgeTypes = ''INVALID_EDGE_TYPES''"
| "error_code FalkorDown = ''FALKOR_DOWN''"
| "error_code SeedNotFound = ''SEED_NOT_FOUND''"
| "error_code TraversalTimeout = ''TRAVERSAL_TIMEOUT''"
| "error_code InvalidCypher = ''INVALID_CYPHER''"

definition error_status :: "graph_error \<Rightarrow> int" where
  "error_status e =
     (if e \<in> {InvalidBody, InvalidSeed, InvalidHops, MinCosineOutOfRange, InvalidGraphLimit, InvalidEdgeTypes}
      then (if error_code e = ''MIN_COSINE_OUT_OF_RANGE'' then 422 else 400)
      else if error_code e = ''SEED_NOT_FOUND'' then 404
      else if error_code e = ''TRAVERSAL_TIMEOUT'' then 504
      else if error_code e = ''INVALID_CYPHER'' then 400
      else 503)"

definition graph_reply_of :: "graph_error + graph_response \<Rightarrow> graph_reply" where
  "graph_reply_of r =
     (case r of Inr g \<Rightarrow> GraphFound g | Inl e \<Rightarrow> GraphRefused (error_status e) (error_code e))"

definition payload_query :: "pydict \<Rightarrow> string option" where
  "payload_query d = (case dict_get d ''query'' of Some (PyStr q) \<Rightarrow> Some q | _ \<Rightarrow> None)"

definition search_graph_handler ::
  "bool \<Rightarrow> bool \<Rightarrow> (string \<Rightarrow> string option) \<Rightarrow> graph_env \<Rightarrow> graph_settings \<Rightarrow> real list embedding_client \<Rightarrow>
     graph_reply \<times> real list embedding_client" where
  "search_graph_handler initialized enabled params env c client =
     (if \<not> initialized then (GraphRefused 503 ''NOT_READY'', client)
      else if \<not> enabled then (GraphRefused 503 ''DISABLED'', client)
      else case params_payload params graph_params of
          Inl message \<Rightarrow> (GraphRefused 400 ''INVALID_BODY'', client)
        | Inr d \<Rightarrow>
            (case graph_search env c (PyDict (with_query d)) (payload_query (with_query d)) client of
               (r, client') \<Rightarrow> (graph_reply_of r, client')))"

subsection \<open>What the routes promise\<close>

definition is_invalid_body :: "http_reply \<Rightarrow> bool" where
  "is_invalid_body r \<longleftrightarrow> fst r = 422 \<and> reply_code r = Some ''INVALID_BODY''"

lemma invalid_body_is [simp]: "is_invalid_body (invalid_body m)"
  by (simp add: is_invalid_body_def invalid_body_def error_reply_def reply_code_def)

lemma body_parts_Inl:
  "body_content d = Inl r \<Longrightarrow> is_invalid_body r" "body_name d = Inl r \<Longrightarrow> is_invalid_body r"
  "body_group d = Inl r \<Longrightarrow> is_invalid_body r" "body_source d = Inl r \<Longrightarrow> is_invalid_body r"
proof -
  show "body_content d = Inl r \<Longrightarrow> is_invalid_body r"
    unfolding body_content_def by (auto split: pyval.splits option.splits if_splits)
  show "body_name d = Inl r \<Longrightarrow> is_invalid_body r"
    unfolding body_name_def by (auto split: pyval.splits option.splits)
  show "body_group d = Inl r \<Longrightarrow> is_invalid_body r"
    unfolding body_group_def by (auto split: pyval.splits option.splits list.splits)
  show "body_source d = Inl r \<Longrightarrow> is_invalid_body r"
    unfolding body_source_def by (auto split: pyval.splits option.splits)
qed

lemma body_content_Inr: "body_content d = Inr t \<Longrightarrow> dict_get d ''content'' = Some (PyStr t) \<and> py_strip t \<noteq> []"
  by (auto simp: body_content_def split: pyval.splits option.splits if_splits)

lemma episode_request_Inl: "episode_request body = Inl r \<Longrightarrow> is_invalid_body r"
proof (cases "\<exists>d. body = Inr (PyDict d)")
  case True
  then obtain d where "body = Inr (PyDict d)" by blast
  then show "episode_request body = Inl r \<Longrightarrow> ?thesis"
    using body_parts_Inl [of d] by (auto simp: episode_request_def split: sum.splits)
next
  case False
  then show "episode_request body = Inl r \<Longrightarrow> ?thesis"
    by (auto simp: episode_request_def split: sum.splits pyval.splits)
qed

lemma episode_request_Inr:
  "episode_request body = Inr a \<Longrightarrow>
    \<exists>d. body = Inr (PyDict d) \<and> dict_get d ''content'' = Some (PyStr (ea_content a)) \<and> py_strip (ea_content a) \<noteq> []"
proof (cases "\<exists>d. body = Inr (PyDict d)")
  case True
  then obtain d where "body = Inr (PyDict d)" by blast
  then show "episode_request body = Inr a \<Longrightarrow> ?thesis"
    using body_content_Inr [of d] by (auto simp: episode_request_def split: sum.splits)
next
  case False
  then show "episode_request body = Inr a \<Longrightarrow> ?thesis"
    by (auto simp: episode_request_def split: sum.splits pyval.splits)
qed

lemma guarded_insert_cases:
  "guarded_insert env ad a mode s =
     (Accepted (de_fresh env) (Some (ad_instance ad)), s\<lparr>st_episodes := st_episodes s @ [guarded_row env ad a mode]\<rparr>) \<or>
   (\<exists>i. guarded_insert env ad a mode s = (DuplicateError i, s) \<and> find_active_duplicate s (guarded_hash env a) = Some i) \<or>
   guarded_insert env ad a mode s = (GuardedRaised IntegrityError, s)"
  by (auto simp: guarded_insert_def insert_episode_def split: option.splits list.splits)

lemma find_active_frame: "st_episodes s = st_episodes s' \<Longrightarrow> find_active_duplicate s h = find_active_duplicate s' h"
  by (simp add: find_active_duplicate_def newest_id_def)

lemma guarded_commit_cases:
  assumes "guarded_commit env ad a mode existing s = (r, s')"
    and "\<And>i. existing = Some i \<Longrightarrow> find_active_duplicate s (guarded_hash env a) = Some i"
  shows "r = Accepted (de_fresh env) (Some (ad_instance ad)) \<and> st_episodes s' = st_episodes s @ [guarded_row env ad a mode] \<or>
    (\<exists>i. r = DuplicateError i \<and> find_active_duplicate s (guarded_hash env a) = Some i) \<and> st_episodes s' = st_episodes s \<or>
    r = GuardedRaised IntegrityError \<and> st_episodes s' = st_episodes s"
proof (cases existing)
  case None
  then show ?thesis using assms(1) guarded_insert_cases [of env ad a mode s] by (auto simp: guarded_commit_def)
next
  case (Some i)
  let ?s = "guarded_ledger env a mode Detected i s"
  have "find_active_duplicate ?s h = find_active_duplicate s h" for h
    by (rule find_active_frame) (simp add: store_simps)
  with Some show ?thesis using assms guarded_insert_cases [of env ad a mode ?s]
    by (auto simp: guarded_commit_def store_simps split: if_splits)
qed

lemma enqueue_guarded_cases:
  assumes "enqueue_guarded env ad a q = (r, q')"
  shows "ad_lock ad = McpOnly \<and> r = LockModeError \<and> q' = q \<or>
    ad_lock ad \<noteq> McpOnly \<and> r = Accepted (de_fresh env) (Some (ad_instance ad)) \<and>
      (\<exists>mode. st_episodes (q_store q') = st_episodes (q_store q) @ [guarded_row env ad a mode]) \<or>
    ad_lock ad \<noteq> McpOnly \<and> st_episodes (q_store q') = st_episodes (q_store q) \<and>
      ((\<exists>i. r = DuplicateError i \<and> find_active_duplicate (q_store q) (guarded_hash env a) = Some i) \<or> r = GuardedRaised IntegrityError)"
proof (cases "ad_lock ad = McpOnly")
  case False
  obtain mode existing s' where c: "guarded_commit env ad a mode existing (q_store q) = (r, s')" "q_store q' = s'"
    and e: "\<And>i. existing = Some i \<Longrightarrow> find_active_duplicate (q_store q) (guarded_hash env a) = Some i"
    using assms False by (fastforce simp: enqueue_guarded_def Let_def split: prod.splits if_splits)
  show ?thesis using guarded_commit_cases [OF c(1) e] c(2) False by blast
qed (use assms in \<open>simp add: enqueue_guarded_def\<close>)

text \<open>C33: the contract of \<open>POST /episodes\<close>: it answers 202 exactly when it has appended one queued row that carries the content
  of the body, the daemon's tag and the id in the reply; any other answer leaves the rows as they were; 422 is the answer to exactly
  the bodies that are not an object with text, not blank, in the right places; and a duplicate that is reported is an active episode with
  the same content address.\<close>

theorem episode_post_contract:
  assumes "episodes_handler version shown env (Some ad) body q = (reply, q')"
  shows "fst reply \<in> {202, 409, 422, 503} \<and>
    (fst reply = 422 \<longleftrightarrow> (\<exists>r. episode_request body = Inl r)) \<and>
    (if fst reply = 202 then
       \<exists>a d e. episode_request body = Inr a \<and> body = Inr (PyDict d) \<and> dict_get d ''content'' = Some (PyStr (ea_content a)) \<and>
         py_strip (ea_content a) \<noteq> [] \<and> st_episodes (q_store q') = st_episodes (q_store q) @ [e] \<and> ep_status e = Queued \<and>
         ep_payload e = JsonText (enqueue_payload (ep_id e) a) \<and> ep_claimed_by e = Some (ad_instance ad) \<and>
         dict_get (snd reply) ''episode_id'' = Some (PyStr (ep_id e))
     else st_episodes (q_store q') = st_episodes (q_store q)) \<and>
    (reply_code reply = Some ''DUPLICATE_EPISODE'' \<longrightarrow>
       (\<exists>a. episode_request body = Inr a \<and> (\<exists>e \<in> set (st_episodes (q_store q)). is_active e \<and> holds_hash (guarded_hash env a) e \<and>
          dict_get (snd reply) ''existing_episode_id'' = Some (PyStr (ep_id e)))))"
proof (cases "episode_request body")
  case (Inl r)
  then show ?thesis using assms episode_request_Inl [OF Inl] by (auto simp: episodes_handler_def is_invalid_body_def)
next
  case (Inr a)
  obtain r where run: "enqueue_guarded env ad a q = (r, q')" and reply: "reply = guarded_reply version shown r"
    using assms Inr by (auto simp: episodes_handler_def split: prod.splits)
  have row: "ep_status e = Queued \<and> ep_payload e = JsonText (enqueue_payload (ep_id e) a) \<and> ep_claimed_by e = Some (ad_instance ad) \<and>
      ep_id e = de_fresh env" if "e = guarded_row env ad a mode" for e mode
    by (simp add: that guarded_row_def queued_row_def Let_def)
  obtain d where "body = Inr (PyDict d)" "dict_get d ''content'' = Some (PyStr (ea_content a))" "py_strip (ea_content a) \<noteq> []"
    using episode_request_Inr [OF Inr] by blast
  with enqueue_guarded_cases [OF run] row Inr show ?thesis
    by (elim disjE) (auto simp: reply guarded_reply_def error_reply_def reply_code_def dest!: find_active_duplicate_Some)
qed

definition sample_body :: "string + pyval" where
  "sample_body = Inr (PyDict [(''content'', PyStr ''hi''), (''group_id'', PyStr ''g'')])"

theorem episode_post_contract_witness:
  "\<exists>e. st_episodes (q_store (snd (episodes_handler ''v'' (\<lambda>e. []) (sample_denv ''b'') (Some sample_adapter) sample_body fresh_queue))) = [e] \<and>
     ep_status e = Queued \<and> ep_payload e = JsonText (enqueue_payload (ep_id e)
       \<lparr>ea_content = ''hi'', ea_group = ''g'', ea_name = None, ea_source = ''daemon_http'', ea_episode_id = None, ea_mode = None\<rparr>)"
proof -
  let ?run = "episodes_handler ''v'' (\<lambda>e. []) (sample_denv ''b'') (Some sample_adapter) sample_body fresh_queue"
  have "fst (fst ?run) = 202 \<and> st_episodes (q_store fresh_queue) = [] \<and> episode_request sample_body = Inr
       \<lparr>ea_content = ''hi'', ea_group = ''g'', ea_name = None, ea_source = ''daemon_http'', ea_episode_id = None, ea_mode = None\<rparr>"
    by code_simp
  with episode_post_contract [OF prod.collapse [symmetric], of "''v''" "\<lambda>e. []" "sample_denv ''b''" sample_adapter sample_body fresh_queue]
  show ?thesis by auto
qed

text \<open>Any number of requests keeps the invariant of the table, and with it the uniqueness of enforced active content.\<close>

lemma episodes_handler_ok: "store_ok (q_store q) \<Longrightarrow> store_ok (q_store (snd (episodes_handler version shown env adapter body q)))"
  using enqueue_guarded_ok [of q] by (auto simp: episodes_handler_def split: option.splits sum.splits prod.splits) (metis snd_conv)

text \<open>What a query string delivers is never a Boolean number or limit, so those checks of the engine concern other callers only.\<close>

lemma params_payload_typed:
  "params_payload params keys = Inr d \<Longrightarrow> dict_get d key = Some v \<Longrightarrow>
    \<exists>raw. params key = Some raw \<and> param_value key raw = Inr v"
proof (induction keys arbitrary: d)
  case (Cons k ks)
  then show ?case by (auto split: option.splits sum.splits if_splits)
qed simp

lemma params_payload_numbers:
  assumes "params_payload params keys = Inr d"
  shows "key \<in> {''max_hops'', ''limit''} \<Longrightarrow> dict_get d key = Some v \<Longrightarrow> \<exists>n. v = PyInt n"
    and "key \<in> {''min_cosine'', ''mmr_lambda''} \<Longrightarrow> dict_get d key = Some v \<Longrightarrow> \<exists>f. v = PyFloat f"
  using params_payload_typed [OF assms] by (fastforce simp: param_value_def split: option.splits)+

lemma error_status_range: "error_status e \<in> {400, 404, 422, 503, 504}"
  by (cases e) (simp_all add: error_status_def)

lemma validation_status:
  "validate_request c payload = Inl e \<Longrightarrow> error_status e = (if e = MinCosineOutOfRange then 422 else 400)"
  using validate_errors [of c payload e] by (auto simp: error_status_def)

lemma graph_search_valid:
  assumes "validate_request c payload = Inr q" "fst (graph_search env c payload query client) = Inl e"
  shows "e \<in> {FalkorDown, SeedNotFound, TraversalTimeout, InvalidCypher}"
  using assms probe_seeds_error [of env "gq_seeds q"]
  by (auto simp: graph_search_def cypher_bfs_def classify_cypher_error_def split: sum.splits if_splits prod.splits)

text \<open>The request as the engine sees it.\<close>

definition handler_request :: "graph_settings \<Rightarrow> (string \<Rightarrow> string option) \<Rightarrow> graph_error + graph_request" where
  "handler_request c params =
     (case params_payload params graph_params of
        Inl message \<Rightarrow> Inl InvalidBody
      | Inr d \<Rightarrow> validate_request c (PyDict (with_query d)))"

text \<open>C34: the status of a graph search.  A request that is not valid is answered 400 or 422, the same whatever the database would
  say, and costs no embedding.  A valid one is answered 200, 404, 503 or 504, or 400 when the engine rejects a generated query.
  It is answered 404 exactly when the database is connected and has answered the probe of every seed without a row; a probe that
  raises makes it 503 or, for a rejected query, 400.\<close>

theorem graph_handler_contract:
  assumes "search_graph_handler True True params env c client = (r, client')"
  shows "case handler_request c params of
      Inl e \<Rightarrow> r = GraphRefused (error_status e) (error_code e) \<and> graph_status r \<in> {400, 422} \<and> client' = client
    | Inr q \<Rightarrow>
        ((\<exists>g. r = GraphFound g) \<or>
          r \<in> {GraphRefused 404 ''SEED_NOT_FOUND'', GraphRefused 503 ''FALKOR_DOWN'', GraphRefused 504 ''TRAVERSAL_TIMEOUT'',
            GraphRefused 400 ''INVALID_CYPHER''}) \<and>
        (r = GraphRefused 404 ''SEED_NOT_FOUND'' \<longleftrightarrow> ge_connected env \<and> (\<forall>name \<in> set (gq_seeds q). answered_absent env name)) \<and>
        ((\<exists>name \<in> set (gq_seeds q). \<exists>m. ge_ask env (exists_query (ge_py env) (ge_float_repr env) name) = Inl m) \<longrightarrow>
          r \<in> {GraphRefused 503 ''FALKOR_DOWN'', GraphRefused 400 ''INVALID_CYPHER''})"
proof (cases "params_payload params graph_params")
  case (Inl m)
  then show ?thesis using assms by (auto simp: search_graph_handler_def handler_request_def error_status_def graph_status_def)
next
  case (Inr d)
  let ?p = "PyDict (with_query d)"
  obtain res where run: "graph_search env c ?p (payload_query (with_query d)) client = (res, client')" and r: "r = graph_reply_of res"
    using assms Inr by (auto simp: search_graph_handler_def split: prod.splits)
  show ?thesis
  proof (cases "validate_request c ?p")
    case (Inl e)
    then have "res = Inl e \<and> client' = client" using run by (simp add: graph_search_def)
    with Inl Inr validation_status [OF Inl] show ?thesis by (simp add: handler_request_def r graph_reply_of_def graph_status_def)
  next
    case valid: (Inr q)
    have "res = Inl SeedNotFound \<longleftrightarrow> ge_connected env \<and> probe_seeds env (gq_seeds q) = Inr []"
      using run valid probe_seeds_error [of env "gq_seeds q"]
      by (auto simp: graph_search_def cypher_bfs_def classify_cypher_error_def split: sum.splits if_splits prod.splits)
    then have missing: "res = Inl SeedNotFound \<longleftrightarrow> ge_connected env \<and> (\<forall>name \<in> set (gq_seeds q). answered_absent env name)"
      by (simp add: probe_seeds_empty)
    have raised: "res \<in> {Inl FalkorDown, Inl InvalidCypher}"
      if probe: "name \<in> set (gq_seeds q)" "ge_ask env (exists_query (ge_py env) (ge_float_repr env) name) = Inl m" for name m
    proof -
      obtain e where "probe_seeds env (gq_seeds q) = Inl e" using failed_probe_raises [OF probe] by blast
      then show ?thesis using run valid probe_seeds_error by (auto simp: graph_search_def split: if_splits)
    qed
    have errors: "e \<in> {FalkorDown, SeedNotFound, TraversalTimeout, InvalidCypher}" if "res = Inl e" for e
      using graph_search_valid [OF valid, of env "payload_query (with_query d)" client e] run that by simp
    have status: "graph_reply_of (Inl SeedNotFound) = GraphRefused 404 ''SEED_NOT_FOUND''"
      "graph_reply_of (Inl FalkorDown) = GraphRefused 503 ''FALKOR_DOWN''"
      "graph_reply_of (Inl TraversalTimeout) = GraphRefused 504 ''TRAVERSAL_TIMEOUT''"
      "graph_reply_of (Inl InvalidCypher) = GraphRefused 400 ''INVALID_CYPHER''"
      by (simp_all add: graph_reply_of_def error_status_def)
    have reply: "r = GraphRefused 404 ''SEED_NOT_FOUND'' \<longleftrightarrow> res = Inl SeedNotFound"
      using errors status unfolding r by (cases res) (auto simp: graph_reply_of_def)
    have kinds: "(\<exists>g. r = GraphFound g) \<or>
        r \<in> {GraphRefused 404 ''SEED_NOT_FOUND'', GraphRefused 503 ''FALKOR_DOWN'', GraphRefused 504 ''TRAVERSAL_TIMEOUT'', GraphRefused 400 ''INVALID_CYPHER''}"
      using errors status unfolding r by (cases res) (auto simp: graph_reply_of_def)
    have probed: "r \<in> {GraphRefused 503 ''FALKOR_DOWN'', GraphRefused 400 ''INVALID_CYPHER''}"
      if "\<exists>name \<in> set (gq_seeds q). \<exists>m. ge_ask env (exists_query (ge_py env) (ge_float_repr env) name) = Inl m"
      using raised that status unfolding r by auto
    have "handler_request c params = Inr q" using Inr valid by (simp add: handler_request_def)
    then show ?thesis using kinds reply missing probed by simp
  qed
qed

definition sample_params :: "string \<Rightarrow> string option" where
  "sample_params = [''seed_entities'' \<mapsto> '' a,, '', ''min_cosine'' \<mapsto> ''0.25'', ''limit'' \<mapsto> ''100'']"

lemma sample_handler_request:
  "handler_request default_graph_settings sample_params = Inr
     \<lparr>gq_seeds = [''a''], gq_max_hops = 2, gq_min_cosine = 1 / 4, gq_mmr_lambda = 7 / 10, gq_limit = 50, gq_edge_types = [], gq_episodes = False\<rparr>"
  by code_simp

theorem graph_handler_contract_witness:
  "\<exists>client'. search_graph_handler True True sample_params empty_graph default_graph_settings (new_embedding_client 10) =
     (GraphRefused 404 ''SEED_NOT_FOUND'', client')"
proof -
  let ?r = "search_graph_handler True True sample_params empty_graph default_graph_settings (new_embedding_client 10)"
  obtain r client' where run: "?r = (r, client')" by fastforce
  have "probe_seeds empty_graph [''a''] = Inr []" by (simp add: probe_seeds.simps empty_graph_def)
  moreover have "ge_connected empty_graph" by (simp add: empty_graph_def sample_graph_def)
  ultimately have "r = GraphRefused 404 ''SEED_NOT_FOUND''"
    using run sample_handler_request
    by (auto simp: search_graph_handler_def handler_request_def graph_search_def graph_reply_of_def error_status_def split: sum.splits)
  with graph_handler_contract [OF run] sample_handler_request run show ?thesis by simp
qed

subsection \<open>What health reports\<close>

lemma health_matches_probe:
  assumes "health_handler ob now now' queue cron sv = ((status, rep), sv')"
  shows "(status = 200 \<longleftrightarrow> he_falkor_ok rep) \<and> (status = 503 \<longleftrightarrow> \<not> he_falkor_ok rep) \<and>
    he_falkor_ok rep = snd (snd (sv_probe sv ob)) \<and> sv_breaker sv' = sv_breaker (fst (sv_probe sv ob)) \<and>
    he_circuit rep = breaker_snapshot (sv_breaker sv)"
  using assms by (auto simp: health_handler_def Let_def sv_snapshot_def split: prod.splits if_splits)

lemma restart_payload_policy: "restart_policy_payload p now now' = (q, h) \<Longrightarrow> q = prune_window now p"
  by (auto simp: restart_policy_payload_def policy_snapshot_of_def Let_def)

lemma round2_near: "\<bar>round2 x - x\<bar> \<le> 1 / 200"
proof -
  let ?n = "\<lfloor>100 * x\<rfloor>"
  have "0 \<le> 100 * x - of_int ?n" "100 * x - of_int ?n < 1" by linarith+
  then show ?thesis by (auto simp: round2_def Let_def abs_le_iff field_simps)
qed

text \<open>The circuit in the answer is the one from before the probe: with a threshold of one, a poll that finds the engine dead opens
  the circuit and reports it closed and without failures.\<close>

definition one_failure :: circuit_settings where
  "one_failure = default_circuit_settings\<lparr>failure_threshold := 1\<rparr>"

definition dead_engine :: observation where
  "dead_engine = \<lparr>ob_now = 1, ob_trans = 1, ob_ping = Some DEAD, ob_pid = Some False, ob_record = 1, ob_retry = 1,
     ob_restart = \<lparr>t_prune = 1, t_elapsed = 1, t_started = 1, t_snap_prune = 1, t_snap_now = 1\<rparr>, ob_outcome = Started False\<rparr>"

lemma health_reports_stale_circuit:
  "fst (fst (health_handler dead_engine 2 2 None (None :: unit cron_loop option) (new_supervisor (Some one_failure) None 0 0))) = 503"
  "snap_state (he_circuit (snd (fst (health_handler dead_engine 2 2 None (None :: unit cron_loop option) (new_supervisor (Some one_failure) None 0 0))))) = CLOSED"
  "cb_state (sv_breaker (snd (health_handler dead_engine 2 2 None (None :: unit cron_loop option) (new_supervisor (Some one_failure) None 0 0)))) = OPEN"
  by code_simp+

end
