(* ===== verification/Lifespan.thy ===== *)
theory Lifespan
  imports HttpServer
begin

text \<open>
  \<open>daemon/lifespan.py\<close>: the boot sequence of the daemon, its context and the graceful shutdown.  The answers of the engine,
  which steps raise and which clean-up calls run into their time limit are inputs.
\<close>

subsection \<open>The engine at boot\<close>

datatype binary_check = ResolveRaised | BinaryMissing | BinaryPresent

definition check_falkordb_binary :: "binary_check \<Rightarrow> supervisor \<Rightarrow> supervisor" where
  "check_falkordb_binary b sv =
     (case b of BinaryPresent \<Rightarrow> sv | _ \<Rightarrow> sv\<lparr>sv_policy := disable (sv_policy sv)\<rparr>)"

text \<open>The strict probes before and after the start, the observations of \<open>start()\<close> and of the report to the breaker.\<close>

record engine_boot =
  eb_first :: probe_state
  eb_start :: observation
  eb_direct :: start_outcome
  eb_second :: probe_state
  eb_report :: observation

text \<open>The supervisor, whether \<open>start()\<close> was called, and the restarts the policy made.\<close>

definition boot_engine :: "engine_boot \<Rightarrow> supervisor \<Rightarrow> supervisor \<times> bool \<times> nat" where
  "boot_engine eb sv =
     (if eb_first eb = ALIVE then (case sv_success sv (eb_report eb) of (sv', n) \<Rightarrow> (sv', False, n))
      else case sv_start sv (eb_start eb) (eb_direct eb) of (sv1, n1, started) \<Rightarrow>
        (case (if started \<and> eb_second eb = ALIVE then sv_success sv1 (eb_report eb) else sv_failure sv1 (eb_report eb)) of
           (sv2, n2) \<Rightarrow> (sv2, True, n1 + n2)))"

subsection \<open>The context\<close>

record 'r daemon_context =
  cx_supervisor :: supervisor
  cx_queue :: "queue option"
  cx_adapter :: "adapter option"
  cx_embedding :: "real list embedding_client option"
  cx_session :: bool
  cx_search :: "bool option"
  cx_graphiti :: bool
  cx_cron :: "'r cron_loop option"
  cx_runner :: bool
  cx_site :: bool
  cx_shutdown :: bool

definition new_context :: "supervisor \<Rightarrow> 'r daemon_context" where
  "new_context sv =
     \<lparr>cx_supervisor = sv, cx_queue = None, cx_adapter = None, cx_embedding = None, cx_session = False, cx_search = None,
      cx_graphiti = False, cx_cron = None, cx_runner = False, cx_site = False, cx_shutdown = False\<rparr>"

definition request_shutdown :: "'r daemon_context \<Rightarrow> 'r daemon_context" where
  "request_shutdown c = c\<lparr>cx_shutdown := True\<rparr>"

datatype warm_outcome = Warmed | WarmTimeout | WarmRaised

definition warm_graphiti_singleton :: "warm_outcome \<Rightarrow> bool" where
  "warm_graphiti_singleton w = (case w of Warmed \<Rightarrow> True | WarmTimeout \<Rightarrow> False | WarmRaised \<Rightarrow> False)"

text \<open>The steps that may raise.\<close>

datatype boot_step = OpenQueue | MigrateTable | OpenSession | SetupRunner | StartSite

record boot_env =
  be_binary :: binary_check
  be_engine :: engine_boot
  be_raises :: "boot_step \<Rightarrow> bool"
  be_queue :: queue
  be_adapter :: adapter
  be_cache_size :: int
  be_redis :: bool
  be_warm :: warm_outcome
  be_cron_enabled :: bool
  be_cron_interval :: int

text \<open>The context as the steps leave it, and whether they all ended.\<close>

definition build_components :: "boot_env \<Rightarrow> 'r daemon_context \<Rightarrow> 'r daemon_context \<times> bool" where
  "build_components env c =
     (if be_raises env OpenQueue then (c, False)
      else let c1 = c\<lparr>cx_queue := Some (be_queue env), cx_adapter := Some (be_adapter env)\<rparr> in
        if be_raises env MigrateTable then (c1, False)
        else let c2 = c1\<lparr>cx_embedding := Some (new_embedding_client (be_cache_size env))\<rparr> in
          if be_raises env OpenSession then (c2, False)
          else (c2\<lparr>cx_session := True, cx_search := Some (be_redis env), cx_graphiti := warm_graphiti_singleton (be_warm env)\<rparr>, True))"

definition boot :: "boot_env \<Rightarrow> 'r daemon_context \<Rightarrow> 'r daemon_context \<times> bool" where
  "boot env c0 =
     (let c1 = c0\<lparr>cx_supervisor := fst (boot_engine (be_engine env) (check_falkordb_binary (be_binary env) (cx_supervisor c0)))\<rparr> in
      case build_components env c1 of
        (c2, False) \<Rightarrow> (c2, False)
      | (c2, True) \<Rightarrow>
          let c3 = c2\<lparr>cx_cron := Some (start_cron (new_cron_loop (be_cron_enabled env) (be_cron_interval env))), cx_runner := True\<rparr> in
          if be_raises env SetupRunner then (c3, False)
          else if be_raises env StartSite then (c3\<lparr>cx_site := True\<rparr>, False)
          else (c3\<lparr>cx_site := True\<rparr>, True))"

subsection \<open>Shutdown\<close>

text \<open>Which clean-up ran into its time limit; \<open>SearchHung\<close>, \<open>SessionHung\<close>: the call at which the second one did.\<close>

datatype components_end = AllClosed | SearchHung | SessionHung

record teardown =
  td_cron_late :: bool
  td_components :: components_end
  td_site_late :: bool
  td_runner_late :: bool

text \<open>A stop that is cancelled while it waits for its tasks has set the event and cancelled them.\<close>

definition stop_cron_within :: "bool \<Rightarrow> 'r cron_loop \<Rightarrow> 'r cron_loop" where
  "stop_cron_within late l = (if late \<and> cl_running l then l\<lparr>cl_shutdown := True\<rparr> else stop_cron l)"

definition shutdown_components :: "components_end \<Rightarrow> 'r daemon_context \<Rightarrow> 'r daemon_context" where
  "shutdown_components e c =
     (let c1 = c\<lparr>cx_graphiti := False\<rparr> in
      case e of
        SearchHung \<Rightarrow> if cx_search c1 = None then c1\<lparr>cx_session := False\<rparr> else c1
      | SessionHung \<Rightarrow>
          if cx_embedding c1 = None then c1\<lparr>cx_search := map_option (\<lambda>_. False) (cx_search c1)\<rparr>
          else c1\<lparr>cx_search := map_option (\<lambda>_. False) (cx_search c1)\<rparr>
      | AllClosed \<Rightarrow> c1\<lparr>cx_search := map_option (\<lambda>_. False) (cx_search c1), cx_session := False\<rparr>)"

text \<open>The clean-up steps in the order in which they are called; a late one leaves its part open.\<close>

datatype cleanup = StopCron | CloseComponents | StopSite | CleanRunner

definition cleanup_step :: "teardown \<Rightarrow> cleanup \<Rightarrow> 'r daemon_context \<Rightarrow> 'r daemon_context" where
  "cleanup_step td k c =
     (case k of
        StopCron \<Rightarrow> c\<lparr>cx_cron := map_option (stop_cron_within (td_cron_late td)) (cx_cron c)\<rparr>
      | CloseComponents \<Rightarrow> shutdown_components (td_components td) c
      | StopSite \<Rightarrow> if td_site_late td then c else c\<lparr>cx_site := False\<rparr>
      | CleanRunner \<Rightarrow> if td_runner_late td then c else c\<lparr>cx_runner := False\<rparr>)"

definition cleanups :: "'r daemon_context \<Rightarrow> cleanup list" where
  "cleanups c =
     (if cx_cron c \<noteq> None then [StopCron] else []) @ [CloseComponents] @
     (if cx_site c then [StopSite] else []) @ (if cx_runner c then [CleanRunner] else [])"

text \<open>A clean-up that raises anything but a timeout leaves the \<open>finally\<close> block: \<open>raised\<close> gives what it left behind.\<close>

fun run_cleanups ::
  "(cleanup \<Rightarrow> ('r daemon_context \<Rightarrow> 'r daemon_context) option) \<Rightarrow> teardown \<Rightarrow> cleanup list \<Rightarrow> 'r daemon_context \<Rightarrow>
     'r daemon_context \<times> bool" where
  "run_cleanups raised td [] c = (c, True)"
| "run_cleanups raised td (k # ks) c =
     (case raised k of
        Some f \<Rightarrow> (f c, False)
      | None \<Rightarrow> run_cleanups raised td ks (cleanup_step td k c))"

text \<open>The settings \<open>run\<close> hands on: of the supervisor's, those of the circuit only.\<close>

record daemon_settings =
  ds_circuit :: circuit_settings
  ds_restart_policy :: policy_settings

definition daemon_supervisor :: "daemon_settings \<Rightarrow> nat \<Rightarrow> real \<Rightarrow> supervisor" where
  "daemon_supervisor ds manager now = new_supervisor (Some (ds_circuit ds)) None manager now"

text \<open>The context at the end, the clean-ups in order, the exit code or \<open>None\<close> for the exception of a boot step.\<close>

definition run_daemon ::
  "daemon_settings \<Rightarrow> nat \<Rightarrow> real \<Rightarrow> boot_env \<Rightarrow> teardown \<Rightarrow> 'r daemon_context \<times> cleanup list \<times> int option" where
  "run_daemon ds manager now env td =
     (case boot env (new_context (daemon_supervisor ds manager now)) of
        (c, ok) \<Rightarrow>
          let c1 = (if ok then request_shutdown c else c) in
          (fst (run_cleanups (\<lambda>k. None) td (cleanups c1) c1), cleanups c1, if ok then Some 0 else None))"

lemma run_cleanups_all [simp]: "run_cleanups (\<lambda>k. None) td ks c = (fold (cleanup_step td) ks c, True)"
  by (induction ks arbitrary: c) simp_all

text \<open>The clean-ups after one that raises are skipped.\<close>

lemma raising_cleanup_skips_rest:
  "k \<in> set ks \<Longrightarrow> raised k = Some f \<Longrightarrow> (\<And>j. j \<noteq> k \<Longrightarrow> raised j = None) \<Longrightarrow>
    run_cleanups raised td ks c = (f (fold (cleanup_step td) (takeWhile (\<lambda>j. j \<noteq> k) ks) c), False)"
  by (induction ks arbitrary: c) auto

subsection \<open>Boot\<close>

lemma cron_started: "cl_running (start_cron (new_cron_loop e n)) = e" "cl_shutdown (start_cron (new_cron_loop e n)) = False"
  by (simp_all add: start_cron_def new_cron_loop_def)

text \<open>What a boot leaves behind, however far it came.\<close>

lemma boot_context:
  assumes "boot env (new_context sv) = (c, ok)"
  shows "(cx_site c \<longrightarrow> cx_runner c) \<and> (cx_runner c \<longleftrightarrow> cx_cron c \<noteq> None) \<and> (cx_runner c \<longrightarrow> cx_search c \<noteq> None) \<and>
    (cx_search c \<noteq> None \<longleftrightarrow> cx_session c) \<and> (cx_session c \<longrightarrow> cx_embedding c \<noteq> None) \<and>
    (ok \<longleftrightarrow> (\<forall>k. \<not> be_raises env k)) \<and> (ok \<longrightarrow> cx_site c)"
proof -
  have all: "(\<forall>k. \<not> be_raises env k) \<longleftrightarrow> \<not> be_raises env OpenQueue \<and> \<not> be_raises env MigrateTable \<and>
      \<not> be_raises env OpenSession \<and> \<not> be_raises env SetupRunner \<and> \<not> be_raises env StartSite"
    by (metis boot_step.exhaust)
  show ?thesis
    using assms unfolding all
    by (auto simp: boot_def build_components_def new_context_def Let_def split: prod.splits bool.splits if_splits)
qed

lemma disabled_no_attempt: "rp_disabled p \<Longrightarrow> attempt_restart p c out = (p, False, False)"
  by (simp add: attempt_restart_def)

text \<open>A reported failure, starting from a breaker that is not half open.\<close>

lemma boot_failure:
  assumes inv: "sv_inv sv" and notry: "cb_state (sv_breaker sv) \<noteq> HALF_OPEN"
    and run: "sv_failure sv ob = (sv', n)"
  shows "sv_inv sv'" "cb_settings (sv_breaker sv') = cb_settings (sv_breaker sv)"
    "cb_failure_count (sv_breaker sv') = cb_failure_count (sv_breaker sv) + 1"
    "cb_state (sv_breaker sv') =
       (if cb_state (sv_breaker sv) = OPEN \<or> failure_threshold (cb_settings (sv_breaker sv)) \<le> cb_failure_count (sv_breaker sv) + 1
        then OPEN else CLOSED)"
    "rp_disabled (sv_policy sv) \<Longrightarrow> sv_policy sv' = sv_policy sv \<and> n = 0"
    "n \<le> (if cb_state (sv_breaker sv) = CLOSED \<and> cb_state (sv_breaker sv') = OPEN then 1 else 0)"
proof -
  note eff = sv_failure_effect [OF inv, of ob, unfolded run fst_conv snd_conv]
  show "cb_settings (sv_breaker sv') = cb_settings (sv_breaker sv)"
    "cb_failure_count (sv_breaker sv') = cb_failure_count (sv_breaker sv) + 1"
    "cb_state (sv_breaker sv') =
       (if cb_state (sv_breaker sv) = OPEN \<or> failure_threshold (cb_settings (sv_breaker sv)) \<le> cb_failure_count (sv_breaker sv) + 1
        then OPEN else CLOSED)"
    using notry unfolding eff(3) by (cases "cb_state (sv_breaker sv)"; simp add: breaker_defs)+
  show "sv_inv sv'" using inv unfolding sv_inv_def eff(1,3,4) by (simp add: record_frame attempt_frame)
  show "rp_disabled (sv_policy sv) \<Longrightarrow> sv_policy sv' = sv_policy sv \<and> n = 0"
    using eff(1,2) by (simp add: disabled_no_attempt)
  show "n \<le> (if cb_state (sv_breaker sv) = CLOSED \<and> cb_state (sv_breaker sv') = OPEN then 1 else 0)"
    using eff(2) by simp
qed

text \<open>The supervisor when the engine is booted.\<close>

definition fresh_supervisor :: "daemon_settings \<Rightarrow> nat \<Rightarrow> real \<Rightarrow> binary_check \<Rightarrow> supervisor" where
  "fresh_supervisor ds m now b = check_falkordb_binary b (daemon_supervisor ds m now)"

lemma fresh_supervisor_state:
  "sv_inv (fresh_supervisor ds m now b)" "cb_state (sv_breaker (fresh_supervisor ds m now b)) = CLOSED"
  "cb_failure_count (sv_breaker (fresh_supervisor ds m now b)) = 0"
  "cb_settings (sv_breaker (fresh_supervisor ds m now b)) = ds_circuit ds"
  "rp_disabled (sv_policy (fresh_supervisor ds m now b)) \<longleftrightarrow> b \<noteq> BinaryPresent"
  by (cases b; simp add: fresh_supervisor_def check_falkordb_binary_def daemon_supervisor_def new_supervisor_def sv_inv_def disable_def
      on_open_def new_policy_def new_breaker_def)+

lemma sv_start_closed:
  "cb_state (sv_breaker sv) = CLOSED \<Longrightarrow>
    sv_start sv ob direct = (case direct of Started ok \<Rightarrow> (sv, 0, ok) | StartRaised \<Rightarrow> (case sv_failure sv ob of (sv', n) \<Rightarrow> (sv', n, False)))"
  by (simp add: sv_start_def allow_probe_def)

lemma sv_success_closed:
  "cb_state (sv_breaker sv) = CLOSED \<Longrightarrow> sv_success sv ob = (sv', n) \<Longrightarrow>
    n = 0 \<and> cb_state (sv_breaker sv') = CLOSED \<and> cb_failure_count (sv_breaker sv') = 0"
  using sv_success_effect [of sv ob] by (simp add: breaker_defs)

text \<open>the boot starts the engine itself exactly when the strict probe does not find it alive, and at most one restart of the
  policy comes on top, none when the binary is missing.  Afterwards the breaker is closed with a count of zero if the engine
  answered, and otherwise it has counted one failure, two when the start raised.\<close>

theorem boot_engine_outcome:
  "case boot_engine eb (fresh_supervisor ds m now b) of (sv, started, restarts) \<Rightarrow>
     started = (eb_first eb \<noteq> ALIVE) \<and> restarts \<le> (if b = BinaryPresent then 1 else 0) \<and>
     (if eb_first eb = ALIVE \<or> eb_direct eb = Started True \<and> eb_second eb = ALIVE
      then cb_state (sv_breaker sv) = CLOSED \<and> cb_failure_count (sv_breaker sv) = 0 \<and> restarts = 0
      else cb_failure_count (sv_breaker sv) = (if eb_direct eb = StartRaised then 2 else 1) \<and>
        (cb_state (sv_breaker sv) = OPEN \<longleftrightarrow> failure_threshold (ds_circuit ds) \<le> cb_failure_count (sv_breaker sv)))"
proof -
  let ?sv = "fresh_supervisor ds m now b"
  note fresh = fresh_supervisor_state [of ds m now b]
  have none: "cb_state (sv_breaker ?sv) \<noteq> HALF_OPEN" by (simp add: fresh)
  obtain f n where fail: "sv_failure ?sv (eb_report eb) = (f, n)" by (metis prod.exhaust)
  obtain g k where raised: "sv_failure ?sv (eb_start eb) = (g, k)" by (metis prod.exhaust)
  note one = boot_failure [OF fresh(1) none fail, unfolded fresh] and first = boot_failure [OF fresh(1) none raised, unfolded fresh]
  have half: "cb_state (sv_breaker g) \<noteq> HALF_OPEN" using first(4) by (auto split: if_splits)
  obtain h l where again: "sv_failure g (eb_report eb) = (h, l)" by (metis prod.exhaust)
  note second = boot_failure [OF first(1) half again, unfolded first(2,3)]
  show ?thesis
  proof (cases "eb_first eb = ALIVE \<or> eb_direct eb = Started True \<and> eb_second eb = ALIVE")
    case True
    then show ?thesis
      using sv_success_closed [of ?sv "eb_report eb"] by (auto simp: boot_engine_def sv_start_closed fresh split: prod.splits)
  next
    case False
    show ?thesis
    proof (cases "eb_direct eb")
      case (Started ok)
      with False one fail show ?thesis by (auto simp: boot_engine_def sv_start_closed fresh split: if_splits)
    next
      case StartRaised
      with False first second again raised show ?thesis
        by (auto simp: boot_engine_def sv_start_closed fresh split: if_splits)
    qed
  qed
qed

text \<open>One failed start at boot opens a circuit with a threshold of two, and an engine that is still loading is counted as a failure,
  which \<open>probe\<close> never does.\<close>

definition loading_boot :: "start_outcome \<Rightarrow> engine_boot" where
  "loading_boot direct =
     \<lparr>eb_first = WARMING_UP, eb_start = dead_engine, eb_direct = direct, eb_second = WARMING_UP, eb_report = dead_engine\<rparr>"

definition two_failures :: daemon_settings where
  "two_failures = \<lparr>ds_circuit = default_circuit_settings\<lparr>failure_threshold := 2\<rparr>, ds_restart_policy = default_policy_settings\<rparr>"

lemma boot_counts_failure_twice:
  "cb_state (sv_breaker (fst (boot_engine (loading_boot StartRaised) (fresh_supervisor two_failures 7 0 BinaryPresent)))) = OPEN"
  by code_simp

lemma boot_counts_loading_engine:
  "cb_failure_count (sv_breaker (fst (boot_engine (loading_boot (Started True)) (fresh_supervisor two_failures 7 0 BinaryPresent)))) = 1"
  by code_simp

text \<open>The configured restart policy does not reach the supervisor: its limits are always the defaults.\<close>

lemma configured_restart_policy_ignored:
  "rp_settings (sv_policy (daemon_supervisor (ds\<lparr>ds_restart_policy := ps\<rparr>) m now)) = default_policy_settings"
  by (simp add: daemon_supervisor_def new_supervisor_def new_policy_def)

subsection \<open>Shutdown leaves nothing running\<close>

definition in_time :: "teardown \<Rightarrow> bool" where
  "in_time td \<longleftrightarrow> \<not> td_cron_late td \<and> td_components td = AllClosed \<and> \<not> td_site_late td \<and> \<not> td_runner_late td"

lemma stop_cron_within_stops: "\<not> cl_running (stop_cron_within late l) \<or> cl_shutdown (stop_cron_within late l)"
  by (simp add: stop_cron_within_def stop_cron_def)

lemma shutdown_components_frame [simp]:
  "cx_graphiti (shutdown_components e c) = False" "cx_cron (shutdown_components e c) = cx_cron c"
  "cx_site (shutdown_components e c) = cx_site c" "cx_runner (shutdown_components e c) = cx_runner c"
  by (cases e; simp add: shutdown_components_def Let_def)+

lemma shutdown_components_all:
  "\<not> cx_session (shutdown_components AllClosed c)" "cx_search (shutdown_components AllClosed c) \<noteq> Some True"
  by (simp_all add: shutdown_components_def Let_def)

lemma stopped_cron:
  "cl_running (stop_cron (start_cron (new_cron_loop e n))) = False" "cl_tasks (stop_cron (start_cron (new_cron_loop e n))) = 0"
  by (simp_all add: stop_cron_def start_cron_def new_cron_loop_def)

lemma boot_cron:
  "boot env c0 = (c, ok) \<Longrightarrow> cx_cron c0 = None \<Longrightarrow>
    cx_cron c \<in> {None, Some (start_cron (new_cron_loop (be_cron_enabled env) (be_cron_interval env)))}"
  by (auto simp: boot_def build_components_def Let_def split: prod.splits bool.splits if_splits)

text \<open>C38: whichever step of the boot raises and whichever clean-up runs late, the daemon ends with the cron loop told to stop, before
  anything else is closed, and the graph instance released; the exit code is 0 exactly when no step raised; and if the clean-ups
  are in time then no task, connection, session or socket is left.\<close>

theorem shutdown_leaves_nothing_running:
  fixes c :: "'r daemon_context"
  assumes "run_daemon ds m now env td = (c, steps, code)"
  shows "\<not> cx_graphiti c \<and> pred_option (\<lambda>l. \<not> cl_running l \<or> cl_shutdown l) (cx_cron c) \<and>
    (code = Some 0 \<longleftrightarrow> (\<forall>k. \<not> be_raises env k)) \<and> (code \<noteq> Some 0 \<longleftrightarrow> code = None) \<and>
    subseq steps [StopCron, CloseComponents, StopSite, CleanRunner] \<and> CloseComponents \<in> set steps \<and>
    (in_time td \<longrightarrow> pred_option (\<lambda>l. \<not> cl_running l \<and> cl_tasks l = 0) (cx_cron c) \<and>
       \<not> cx_session c \<and> cx_search c \<noteq> Some True \<and> \<not> cx_site c \<and> \<not> cx_runner c)"
proof -
  obtain c0 :: "'r daemon_context" and ok where boot: "boot env (new_context (daemon_supervisor ds m now)) = (c0, ok)" by (metis prod.exhaust)
  let ?c = "if ok then request_shutdown c0 else c0"
  have c: "c = fold (cleanup_step td) (cleanups ?c) ?c" and steps: "steps = cleanups ?c" and code: "code = (if ok then Some 0 else None)"
    using assms boot by (cases ok; auto simp: run_daemon_def Let_def)+
  have cron0: "cx_cron c0 \<in> {None, Some (start_cron (new_cron_loop (be_cron_enabled env) (be_cron_interval env)))}"
    using boot_cron [OF boot] by (simp add: new_context_def)
  note ctx = boot_context [OF boot]
  have frame: "cx_cron ?c = cx_cron c0" "cx_site ?c = cx_site c0" "cx_runner ?c = cx_runner c0"
    by (simp_all add: request_shutdown_def)
  have "\<not> cx_graphiti c \<and> cx_cron c = map_option (stop_cron_within (td_cron_late td)) (cx_cron c0) \<and>
      (in_time td \<longrightarrow> \<not> cx_session c \<and> cx_search c \<noteq> Some True \<and> \<not> cx_site c \<and> \<not> cx_runner c)"
    unfolding c cleanups_def frame
    using frame by (cases "cx_cron c0") (auto simp: cleanup_step_def in_time_def shutdown_components_all)
  moreover have "subseq steps [StopCron, CloseComponents, StopSite, CleanRunner]" "CloseComponents \<in> set steps"
    by (simp_all add: steps cleanups_def)
  moreover have "pred_option (\<lambda>l. \<not> cl_running l \<or> cl_shutdown l) (map_option (stop_cron_within late) x)" for late and x :: "'r cron_loop option"
    using stop_cron_within_stops by (cases x) auto
  moreover have "in_time td \<Longrightarrow> pred_option (\<lambda>l. \<not> cl_running l \<and> cl_tasks l = 0) (map_option (stop_cron_within (td_cron_late td)) (cx_cron c0))"
    using cron0 by (auto simp: in_time_def stop_cron_within_def stopped_cron)
  ultimately show ?thesis using ctx by (auto simp: code)
qed

definition sample_boot :: boot_env where
  "sample_boot =
     \<lparr>be_binary = BinaryPresent, be_engine = loading_boot StartRaised, be_raises = (\<lambda>k. k = StartSite), be_queue = fresh_queue,
      be_adapter = sample_adapter, be_cache_size = 10, be_redis = True, be_warm = Warmed, be_cron_enabled = True, be_cron_interval = 10\<rparr>"

definition sample_teardown :: teardown where
  "sample_teardown = \<lparr>td_cron_late = False, td_components = AllClosed, td_site_late = False, td_runner_late = False\<rparr>"

theorem shutdown_leaves_nothing_running_witness:
  "\<exists>c steps. run_daemon two_failures 7 0 sample_boot sample_teardown = (c :: unit daemon_context, steps, None) \<and>
     steps = [StopCron, CloseComponents, StopSite, CleanRunner] \<and>
     \<not> cx_graphiti c \<and> \<not> cx_session c \<and> \<not> cx_site c \<and> \<not> cx_runner c"
proof -
  obtain c :: "unit daemon_context" and steps code where run: "run_daemon two_failures 7 0 sample_boot sample_teardown = (c, steps, code)"
    by (metis prod.exhaust)
  have "be_raises sample_boot StartSite" "in_time sample_teardown"
    by (simp_all add: sample_boot_def in_time_def sample_teardown_def)
  moreover have "fst (snd (run_daemon two_failures 7 0 sample_boot sample_teardown :: unit daemon_context \<times> cleanup list \<times> int option)) =
      [StopCron, CloseComponents, StopSite, CleanRunner]" by code_simp
  ultimately show ?thesis using shutdown_leaves_nothing_running [OF run] run by auto
qed

end
