(* ===== verification/McpServer.thy ===== *)
theory McpServer
  imports QueueRuns Dream
begin

text \<open>
  \<open>mcp/server.py\<close>: the tools of the MCP server as functions of the queue, the configuration and the answers of the graph.
\<close>

subsection \<open>The read-only guard\<close>

definition blocked_cypher_keywords :: "string list" where
  "blocked_cypher_keywords =
     [''CREATE'', ''DELETE'', ''SET'', ''DROP'', ''REMOVE'', ''MERGE'', ''DETACH'', ''FOREACH'', ''CALL'', ''LOAD CSV'']"

text \<open>
  The expression is matched on characters, not on bytes: \<open>code_points\<close> reads the UTF-8 text.  \<open>uni\<close> is the table of the letters and
  digits outside ASCII that \<open>str.isalnum\<close> consults; the four of them that fold to an ASCII letter are fixed here.
\<close>

definition add_byte :: "int list \<Rightarrow> char \<Rightarrow> int list" where
  "add_byte points c =
     (let b = of_char c in
      if b < 128 then points @ [b]
      else if b < 192 then (case points of [] \<Rightarrow> [b - 128] | _ \<Rightarrow> butlast points @ [last points * 64 + (b - 128)])
      else if b < 224 then points @ [b - 192]
      else if b < 240 then points @ [b - 224]
      else points @ [b - 240])"

definition code_points :: "string \<Rightarrow> int list" where
  "code_points t = foldl add_byte [] t"

text \<open>The lower case of a literal under \<open>re.IGNORECASE\<close>: dotted and dotless I, long s and the Kelvin sign match ASCII letters.\<close>

definition fold_point :: "int \<Rightarrow> int" where
  "fold_point n =
     (if 65 \<le> n \<and> n \<le> 90 then n + 32
      else if n = 304 \<or> n = 305 then 105
      else if n = 383 then 115
      else if n = 8490 then 107
      else n)"

text \<open>\<open>\w\<close>.\<close>

definition word_point :: "(int \<Rightarrow> bool) \<Rightarrow> int \<Rightarrow> bool" where
  "word_point uni n \<longleftrightarrow>
     (48 \<le> n \<and> n \<le> 57) \<or> (65 \<le> n \<and> n \<le> 90) \<or> (97 \<le> n \<and> n \<le> 122) \<or> n = 95 \<or> n \<in> {304, 305, 383, 8490} \<or> 128 \<le> n \<and> uni n"

text \<open>\<open>\b\<close> between the character before and the rest of the text.\<close>

definition boundary :: "(int \<Rightarrow> bool) \<Rightarrow> int option \<Rightarrow> int list \<Rightarrow> bool" where
  "boundary uni prev rest \<longleftrightarrow>
     ((case prev of Some c \<Rightarrow> word_point uni c | None \<Rightarrow> False) \<noteq> (case rest of c # cs \<Rightarrow> word_point uni c | [] \<Rightarrow> False))"

definition match_here :: "(int \<Rightarrow> bool) \<Rightarrow> int list \<Rightarrow> int option \<Rightarrow> int list \<Rightarrow> bool" where
  "match_here uni kw prev t \<longleftrightarrow>
     boundary uni prev t \<and> prefix kw (map fold_point t) \<and>
     boundary uni (case take (length kw) t of [] \<Rightarrow> prev | m \<Rightarrow> Some (last m)) (drop (length kw) t)"

fun search_word :: "(int \<Rightarrow> bool) \<Rightarrow> int list \<Rightarrow> int option \<Rightarrow> int list \<Rightarrow> bool" where
  "search_word uni kw prev [] = match_here uni kw prev []"
| "search_word uni kw prev (c # cs) = (match_here uni kw prev (c # cs) \<or> search_word uni kw (Some c) cs)"

definition has_word :: "(int \<Rightarrow> bool) \<Rightarrow> string \<Rightarrow> string \<Rightarrow> bool" where
  "has_word uni kw query = search_word uni (map fold_point (code_points kw)) None (code_points query)"

definition is_read_only_cypher :: "(int \<Rightarrow> bool) \<Rightarrow> string \<Rightarrow> bool \<times> string option" where
  "is_read_only_cypher uni query =
     (case find (\<lambda>kw. has_word uni kw query) blocked_cypher_keywords of
        Some kw \<Rightarrow> (False, Some kw)
      | None \<Rightarrow> (True, None))"

subsection \<open>Episodes\<close>

record mcp_config =
  mc_group :: string
  mc_dedup_mode :: string
  mc_max_attempts :: int
  mc_policy :: "pipeline_attrs option"
  mc_classes :: "string list option"
  mc_backstop :: "bool option"

datatype add_reply =
    Accepted_Episode string string
  | Rejected_Duplicate "string option" string

text \<open>\<open>clock\<close>: the text of the time that names an episode without a name.\<close>

definition add_args :: "mcp_config \<Rightarrow> string \<Rightarrow> string \<Rightarrow> string option \<Rightarrow> string option \<Rightarrow> enqueue_args" where
  "add_args c clock text name source =
     \<lparr>ea_content = text, ea_group = mc_group c,
      ea_name = Some (case name of Some (x # xs) \<Rightarrow> x # xs | _ \<Rightarrow> ''Episode '' @ clock),
      ea_source = (case source of Some (x # xs) \<Rightarrow> x # xs | _ \<Rightarrow> ''user_conversation''),
      ea_episode_id = None, ea_mode = Some (mc_dedup_mode c)\<rparr>"

definition add_episode ::
  "mcp_config \<Rightarrow> enqueue_env \<Rightarrow> string \<Rightarrow> string \<Rightarrow> string option \<Rightarrow> string option \<Rightarrow> queue \<Rightarrow>
     (py_exception + add_reply) \<times> queue" where
  "add_episode c env clock text name source q =
     (case enqueue env (add_args c clock text name source) q of
        (Enqueued i, q') \<Rightarrow> (Inr (Accepted_Episode i (mc_group c)), q')
      | (DuplicateEpisode existing h, q') \<Rightarrow> (Inr (Rejected_Duplicate existing (mc_group c)), q')
      | (EnqueueRaised x, q') \<Rightarrow> (Inl x, q'))"

subsection \<open>Status and replay\<close>

datatype status_view = OneEpisode "episode_record option" | DeadLetters "dead_letter list"

record status_reply =
  sr_stats :: "(ep_status \<times> int) list \<times> int"
  sr_max_attempts :: int
  sr_view :: status_view

text \<open>\<open>between\<close>: what other writers do between the two reads.\<close>

definition queue_status ::
  "mcp_config \<Rightarrow> string option \<Rightarrow> int \<Rightarrow> string list option \<Rightarrow> int option \<Rightarrow> (store \<Rightarrow> store) \<Rightarrow> store \<Rightarrow> status_reply" where
  "queue_status c episode_id limit classes error_chars between s =
     \<lparr>sr_stats = get_stats s, sr_max_attempts = mc_max_attempts c,
      sr_view = (case episode_id of
         Some (x # xs) \<Rightarrow> OneEpisode (get_record (x # xs) (between s))
       | _ \<Rightarrow> DeadLetters (get_dlq_records limit classes error_chars (Some True) (between s)))\<rparr>"

datatype retry_reply = Requeued | RefusedByPolicy "string \<times> string" | NotInDlq

definition retry_dlq_episode :: "mcp_config \<Rightarrow> string \<Rightarrow> int \<Rightarrow> (store \<Rightarrow> store) \<Rightarrow> store \<Rightarrow> retry_reply \<times> store" where
  "retry_dlq_episode c i now between s =
     (let policy = Some (from_settings (mc_policy c)) in
      case replay_dlq_episode i policy now s of
        (True, s') \<Rightarrow> (Requeued, s')
      | (False, s') \<Rightarrow>
          ((case dlq_refusal_reason i policy (between s') of Some r \<Rightarrow> RefusedByPolicy r | None \<Rightarrow> NotInDlq), between s'))"

subsection \<open>Health\<close>

record breakdown =
  bd_open :: int
  bd_by_class :: "(string \<times> int) list option"
  bd_unclassified :: "int option"

definition dlq_breakdown :: "string list option \<Rightarrow> int \<Rightarrow> store \<Rightarrow> breakdown" where
  "dlq_breakdown classes dlq s =
     (if classes_given classes = [] then \<lparr>bd_open = dlq, bd_by_class = None, bd_unclassified = None\<rparr>
      else \<lparr>bd_open = dlq, bd_by_class = Some (dlq_class_counts classes s),
            bd_unclassified = Some (max (dlq - dlq_class_union_count classes s) 0)\<rparr>)"

record health_reply =
  hl_ok :: bool
  hl_version :: string
  hl_engine :: bool
  hl_stats :: "(ep_status \<times> int) list \<times> int"
  hl_dlq :: breakdown

definition graphiti_health :: "mcp_config \<Rightarrow> string \<Rightarrow> bool \<Rightarrow> (store \<Rightarrow> store) \<Rightarrow> store \<Rightarrow> health_reply" where
  "graphiti_health c version ping between s =
     (let stats = get_stats s in
      \<lparr>hl_ok = (ping \<and> snd stats = 0), hl_version = version, hl_engine = ping, hl_stats = stats,
       hl_dlq = dlq_breakdown (mc_classes c) (snd stats) (between s)\<rparr>)"

record gate_reply =
  gr_mode :: dedup_mode
  gr_counters :: "int list"
  gr_backstop :: bool
  gr_recent :: "dedup_event list"

definition mcp_dedup_stats :: "mcp_config \<Rightarrow> string option \<Rightarrow> int \<Rightarrow> (store \<Rightarrow> store) \<Rightarrow> queue \<Rightarrow> gate_reply \<times> queue" where
  "mcp_dedup_stats c configured limit between q =
     (case get_dedup_stats configured q of
        (d, q') \<Rightarrow>
          (\<lparr>gr_mode = ds_mode d,
            gr_counters = [ds_observed_hits d, ds_hashed_rows d, ds_canonical_rows d, ds_active_duplicates d, ds_backstop_skips d],
            gr_backstop = (mc_backstop c = Some True), gr_recent = recent_dedup_events limit (between (q_store q'))\<rparr>, q'))"

subsection \<open>Queries\<close>

text \<open>The answer of the graph: a message, or the header and the rows.\<close>

type_synonym graph_rows = "string + (pyval list option \<times> pyval list list)"

datatype query_reply =
    Blocked string
  | QueryFailed string
  | QueryRows string "pyval list" nat "pyval list list"

text \<open>\<open>h[1]\<close> of a header cell.\<close>

fun header_name :: "pyval \<Rightarrow> pyval option" where
  "header_name (PyList (t # n # rest)) = Some n"
| "header_name (PyTuple (t # n # rest)) = Some n"
| "header_name (PyStr (a # b # rest)) = Some (PyStr [b])"
| "header_name v = None"

definition cypher_query :: "(int \<Rightarrow> bool) \<Rightarrow> mcp_config \<Rightarrow> string \<Rightarrow> (string \<Rightarrow> graph_rows) \<Rightarrow> query_reply" where
  "cypher_query uni c query run =
     (case is_read_only_cypher uni query of
        (False, Some kw) \<Rightarrow> Blocked kw
      | _ \<Rightarrow>
          (case run query of
             Inl e \<Rightarrow> QueryFailed e
           | Inr (header, rows) \<Rightarrow>
               (let cells = (case header of Some hs \<Rightarrow> hs | None \<Rightarrow> []) in
                if list_all (\<lambda>h. header_name h \<noteq> None) cells
                then QueryRows (mc_group c) (map (the \<circ> header_name) cells) (length rows) rows
                else QueryFailed ''index out of range'')))"

definition query_lines :: "string list \<Rightarrow> string" where
  "query_lines ls = CHR 0x0A # concat (map (\<lambda>l. replicate 12 (CHR 0x20) @ l @ [CHR 0x0A]) ls) @ replicate 12 (CHR 0x20)"

definition entity_query :: string where
  "entity_query = query_lines
     [''MATCH (e:Entity)'', ''WHERE toLower(e.name) CONTAINS toLower($name)'', ''OPTIONAL MATCH (e)-[r]-(other:Entity)'',
      ''RETURN e.name, labels(e), collect(DISTINCT {rel: type(r), other: other.name}) LIMIT 50'']"

definition listing_query :: "bool \<Rightarrow> string" where
  "listing_query filtered =
     (let pad = (\<lambda>ls. CHR 0x0A # concat (map (\<lambda>l. replicate 16 (CHR 0x20) @ l @ [CHR 0x0A]) ls) @ replicate 16 (CHR 0x20)) in
      pad ([''MATCH (e:Entity)''] @ (if filtered then [''WHERE toLower(e.name) CONTAINS toLower($filter)''] else []) @
        [''OPTIONAL MATCH (e)-[r]-()'', ''RETURN e.name, count(r) AS degree'', ''ORDER BY degree DESC LIMIT $limit'']))"

datatype entity_reply = EntityFailed string | EntityRows string "pyval list list"

text \<open>The first \<open>n\<close> cells of every row.\<close>

definition columns :: "nat \<Rightarrow> string \<Rightarrow> string + pyval list list \<Rightarrow> entity_reply" where
  "columns n group_id answer =
     (case answer of
        Inl e \<Rightarrow> EntityFailed e
      | Inr rows \<Rightarrow>
          if list_all (\<lambda>row. n \<le> length row) rows then EntityRows group_id (map (take n) rows)
          else EntityFailed ''list index out of range'')"

definition get_entity :: "mcp_config \<Rightarrow> string \<Rightarrow> (string \<Rightarrow> pydict \<Rightarrow> string + pyval list list) \<Rightarrow> entity_reply" where
  "get_entity c name run = columns 3 (mc_group c) (run entity_query [(''name'', PyStr name)])"

definition list_entities ::
  "mcp_config \<Rightarrow> int \<Rightarrow> string option \<Rightarrow> (string \<Rightarrow> pydict \<Rightarrow> string + pyval list list) \<Rightarrow> entity_reply" where
  "list_entities c limit filter_query run =
     (case filter_query of
        Some (x # xs) \<Rightarrow>
          columns 2 (mc_group c) (run (listing_query True) [(''filter'', PyStr (x # xs)), (''limit'', PyInt limit)])
      | _ \<Rightarrow> columns 2 (mc_group c) (run (listing_query False) [(''limit'', PyInt limit)]))"

subsection \<open>Reports\<close>

text \<open>\<open>xs[-limit:]\<close>.\<close>

definition last_items :: "int \<Rightarrow> 'a list \<Rightarrow> 'a list" where
  "last_items limit xs =
     (if 0 < limit then drop (length xs - nat limit) xs else drop (nat (- limit)) xs)"

text \<open>The lines of the log; a line that is no JSON is skipped.  With a \<open>kind\<close>, an item that is not an object raises.\<close>

fun matching_reports :: "(string \<Rightarrow> pyval option) \<Rightarrow> string option \<Rightarrow> string list \<Rightarrow> pyval list option" where
  "matching_reports loads kind [] = Some []"
| "matching_reports loads kind (l # ls) =
     (let line = py_strip l in
      if line = [] then matching_reports loads kind ls
      else case loads line of
          None \<Rightarrow> matching_reports loads kind ls
        | Some item \<Rightarrow>
            if kind \<in> {None, Some []} then map_option (Cons item) (matching_reports loads kind ls)
            else case item of
                PyDict d \<Rightarrow>
                  if dict_get d ''kind'' = map_option PyStr kind
                  then map_option (Cons item) (matching_reports loads kind ls) else matching_reports loads kind ls
              | _ \<Rightarrow> None)"

definition report_stats :: "(string \<Rightarrow> pyval option) \<Rightarrow> int \<Rightarrow> string option \<Rightarrow> string list option \<Rightarrow> py_exception + pydict" where
  "report_stats loads limit kind file =
     (case file of
        None \<Rightarrow> Inr [(''reports'', PyList []), (''total'', PyInt 0)]
      | Some ls \<Rightarrow>
          (case matching_reports loads kind ls of
             None \<Rightarrow> Inl AttributeError
           | Some reports \<Rightarrow>
               let shown = last_items limit reports in
               Inr [(''reports'', PyList shown), (''count'', PyInt (int (length shown)))]))"

definition run_dream_maintenance :: "dream_env \<Rightarrow> dream_config \<Rightarrow> bool \<Rightarrow> session \<times> store \<Rightarrow> bool \<times> dream_state" where
  "run_dream_maintenance env cfg force x = (True, run_dream_consolidation env cfg force None x)"

subsection \<open>What the guard lets through\<close>

lemma match_here_iff:
  assumes "kw \<noteq> []"
  shows "match_here uni kw prev t \<longleftrightarrow>
    (\<exists>mid post. t = mid @ post \<and> map fold_point mid = kw \<and> boundary uni prev (mid @ post) \<and> boundary uni (Some (last mid)) post)"
proof
  assume m: "match_here uni kw prev t"
  then have fold: "map fold_point (take (length kw) t) = kw"
    by (auto simp: match_here_def prefix_def append_eq_conv_conj simp flip: take_map)
  with assms have "take (length kw) t \<noteq> []" by auto
  with m fold show "\<exists>mid post. t = mid @ post \<and> map fold_point mid = kw \<and> boundary uni prev (mid @ post) \<and> boundary uni (Some (last mid)) post"
    by (intro exI [of _ "take (length kw) t"] exI [of _ "drop (length kw) t"]) (auto simp: match_here_def split: list.splits)
next
  assume "\<exists>mid post. t = mid @ post \<and> map fold_point mid = kw \<and> boundary uni prev (mid @ post) \<and> boundary uni (Some (last mid)) post"
  then obtain mid post where t: "t = mid @ post" "map fold_point mid = kw" "boundary uni prev (mid @ post)" "boundary uni (Some (last mid)) post"
    by blast
  then have "length kw = length mid" "mid \<noteq> []" using assms by auto
  with t show "match_here uni kw prev t" by (auto simp: match_here_def split: list.splits)
qed

lemma search_word_iff:
  assumes "kw \<noteq> []"
  shows "search_word uni kw prev t \<longleftrightarrow>
    (\<exists>pre mid post. t = pre @ mid @ post \<and> map fold_point mid = kw \<and>
       boundary uni (if pre = [] then prev else Some (last pre)) (mid @ post) \<and> boundary uni (Some (last mid)) post)"
proof (induction t arbitrary: prev)
  case Nil
  show ?case by (auto simp: match_here_iff [OF assms])
next
  case (Cons c cs)
  let ?occ = "\<lambda>prev t pre. \<exists>mid post. t = pre @ mid @ post \<and> map fold_point mid = kw \<and>
      boundary uni (if pre = [] then prev else Some (last pre)) (mid @ post) \<and> boundary uni (Some (last mid)) post"
  have here: "match_here uni kw prev (c # cs) \<longleftrightarrow> ?occ prev (c # cs) []"
    by (simp add: match_here_iff [OF assms])
  have step: "?occ prev (c # cs) (x # pre) \<longleftrightarrow> x = c \<and> ?occ (Some c) cs pre" for x pre
    by (cases "pre = []") auto
  have split: "(\<exists>pre. Q pre) \<longleftrightarrow> Q [] \<or> (\<exists>x pre. Q (x # pre))" for Q :: "int list \<Rightarrow> bool"
    by (metis list.exhaust)
  have "(\<exists>pre. ?occ prev (c # cs) pre) \<longleftrightarrow> ?occ prev (c # cs) [] \<or> (\<exists>pre. ?occ (Some c) cs pre)"
    unfolding split [of "?occ prev (c # cs)"] step by blast
  then show ?case unfolding search_word.simps here Cons.IH by blast
qed

text \<open>Every keyword begins and ends with a letter, and so does whatever folds to it.\<close>

lemma letter_is_word: "97 \<le> fold_point n \<Longrightarrow> fold_point n \<le> 122 \<Longrightarrow> word_point uni n"
  by (auto simp: fold_point_def word_point_def split: if_splits)

lemma keyword_letters:
  assumes "kw \<in> set blocked_cypher_keywords"
  shows "(case map fold_point (code_points kw) of [] \<Rightarrow> False | p # ps \<Rightarrow> 97 \<le> p \<and> p \<le> 122 \<and> 97 \<le> last (p # ps) \<and> last (p # ps) \<le> 122)"
proof -
  have "list_all (\<lambda>kw. case map fold_point (code_points kw) of [] \<Rightarrow> False
      | p # ps \<Rightarrow> 97 \<le> p \<and> p \<le> 122 \<and> 97 \<le> last (p # ps) \<and> last (p # ps) \<le> 122) blocked_cypher_keywords"
    by code_simp
  then show ?thesis using assms by (simp only: list_all_iff)
qed

lemma matched_keyword:
  assumes "kw \<in> set blocked_cypher_keywords" and "map fold_point mid = map fold_point (code_points kw)"
  shows "mid \<noteq> [] \<and> word_point uni (hd mid) \<and> word_point uni (last mid)"
proof -
  have l: "case map fold_point mid of [] \<Rightarrow> False | p # ps \<Rightarrow> 97 \<le> p \<and> p \<le> 122 \<and> 97 \<le> last (p # ps) \<and> last (p # ps) \<le> 122"
    using keyword_letters [OF assms(1)] by (simp only: assms(2))
  then have ne: "mid \<noteq> []" by (cases mid) auto
  with l have "97 \<le> fold_point (hd mid)" "fold_point (hd mid) \<le> 122" "97 \<le> fold_point (last mid)" "fold_point (last mid) \<le> 122"
    by (auto simp: neq_Nil_conv last_map split: if_splits)
  with ne show ?thesis by (simp add: letter_is_word)
qed

text \<open>The keyword stands in the query as a word of its own: between characters that are no letters, digits or underscores.\<close>

definition stands_alone :: "(int \<Rightarrow> bool) \<Rightarrow> string \<Rightarrow> string \<Rightarrow> bool" where
  "stands_alone uni kw query \<longleftrightarrow>
     (\<exists>pre mid post. code_points query = pre @ mid @ post \<and> map fold_point mid = map fold_point (code_points kw) \<and>
        (pre = [] \<or> \<not> word_point uni (last pre)) \<and> (post = [] \<or> \<not> word_point uni (hd post)))"

lemma has_word_iff:
  assumes "kw \<in> set blocked_cypher_keywords"
  shows "has_word uni kw query \<longleftrightarrow> stands_alone uni kw query"
proof -
  have ne: "map fold_point (code_points kw) \<noteq> []" using keyword_letters [OF assms] by (auto split: list.splits)
  have "boundary uni (if pre = [] then None else Some (last pre)) (mid @ post) \<and> boundary uni (Some (last mid)) post \<longleftrightarrow>
      (pre = [] \<or> \<not> word_point uni (last pre)) \<and> (post = [] \<or> \<not> word_point uni (hd post))"
    if "map fold_point mid = map fold_point (code_points kw)" for pre mid post :: "int list"
    using matched_keyword [OF assms that, of uni] by (cases mid; cases post) (auto simp: boundary_def)
  then show ?thesis
    unfolding has_word_def stands_alone_def search_word_iff [OF ne] by blast
qed

text \<open>C39: the guard refuses a query exactly when one of the keywords stands in it as a word of its own, in any case of any
  alphabet, and names the first such keyword of the list; a refused query is not sent to the graph.\<close>

theorem guard_refuses_keywords:
  "is_read_only_cypher uni query =
     (case find (\<lambda>kw. stands_alone uni kw query) blocked_cypher_keywords of Some kw \<Rightarrow> (False, Some kw) | None \<Rightarrow> (True, None)) \<and>
   ((\<exists>kw \<in> set blocked_cypher_keywords. stands_alone uni kw query) \<longleftrightarrow> (\<exists>kw. cypher_query uni c query run = Blocked kw))"
proof -
  have same: "find (\<lambda>kw. has_word uni kw query) blocked_cypher_keywords = find (\<lambda>kw. stands_alone uni kw query) blocked_cypher_keywords"
    by (rule find_cong) (simp_all add: has_word_iff)
  moreover have "(\<exists>kw \<in> set blocked_cypher_keywords. stands_alone uni kw query) \<longleftrightarrow> find (\<lambda>kw. stands_alone uni kw query) blocked_cypher_keywords \<noteq> None"
    by (auto simp: find_None_iff)
  ultimately show ?thesis
    by (auto simp: is_read_only_cypher_def cypher_query_def Let_def split: option.splits sum.splits)
qed

text \<open>The keyword of two words is matched with exactly one space.\<close>

lemma spaced_load_passes:
  "is_read_only_cypher (\<lambda>n. False) ''LOAD  CSV FROM 'file:///x' AS row RETURN row'' = (True, None)"
  by code_simp

text \<open>A dash or a blank outside ASCII before the keyword, and a long s in it, do not hide it.\<close>

lemma unicode_does_not_hide:
  "is_read_only_cypher (\<lambda>n. False) (''RETURN 1 '' @ map char_of [226, 128, 148 :: nat] @ ''SET x'') = (False, Some ''SET'')"
  "is_read_only_cypher (\<lambda>n. False) (''RETURN 1'' @ map char_of [194, 160 :: nat] @ ''SET x'') = (False, Some ''SET'')"
  "is_read_only_cypher (\<lambda>n. False) (''MATCH (n) '' @ map char_of [197, 191 :: nat] @ ''et n.x = 1'') = (False, Some ''SET'')"
  by code_simp+

subsection \<open>What the tools report\<close>

lemma add_args_group: "dict_get (case enqueue_payload i (add_args c clock text name source) of PyDict d \<Rightarrow> d) ''group_id'' = Some (PyStr (mc_group c))"
  by (simp add: enqueue_payload_def add_args_def)

lemma rejected_keeps_rows:
  "enqueue env a q = (DuplicateEpisode existing h, q') \<Longrightarrow>
    st_episodes (q_store q') = st_episodes (q_store q) \<and> enqueue_mode env a q = Enforce"
  by (auto simp: enqueue_unfold enqueue_commit_def enqueue_mode_def Let_def record_hit_def store_simps
      split: if_splits insert_result.splits)

lemma failed_enqueue_keeps_rows:
  "enqueue env a q = (EnqueueRaised x, q') \<Longrightarrow> st_episodes (q_store q') = st_episodes (q_store q)"
  by (auto simp: enqueue_unfold enqueue_commit_def Let_def split: if_splits insert_result.splits)

lemma insert_clash: "i \<in> ep_id ` set (st_episodes s) \<Longrightarrow> insert_sync i p now l g c w s \<noteq> Inserted t"
  by (simp add: insert_sync_def insert_episode_def queued_row_def split: option.splits)

lemma clash_acknowledged_in_observe:
  assumes "enqueue env a q = (Enqueued i, q')" "chosen_id env a \<in> ep_id ` set (st_episodes (q_store q))"
  shows "enqueue_mode env a q = Observe \<and> st_episodes (q_store q') = st_episodes (q_store q)"
  using assms
  by (cases "enqueue_mode env a q")
     (auto simp: enqueue_unfold enqueue_mode_def enqueue_commit_def Let_def record_hit_def store_simps insert_clash
        split: if_splits insert_result.splits)

text \<open>C40: \<open>add_episode\<close> appends one queued row, under the fresh id it reports as accepted, with the text it was given and in the one
  configured group, whatever the caller passes; in every other outcome the rows are as they were: when it raises, when it reports a
  duplicate, which it does in \<open>enforce\<close> mode only, and when the fresh id is already taken, which \<open>observe\<close> mode alone acknowledges.\<close>

theorem add_episode_contract:
  assumes "add_episode c env clock text name source q = (result, q')" and "store_ok (q_store q)"
  shows "case result of
      Inl x \<Rightarrow> st_episodes (q_store q') = st_episodes (q_store q)
    | Inr (Rejected_Duplicate x g) \<Rightarrow> g = mc_group c \<and> st_episodes (q_store q') = st_episodes (q_store q) \<and>
        enqueue_mode env (add_args c clock text name source) q = Enforce
    | Inr (Accepted_Episode i g) \<Rightarrow> g = mc_group c \<and> i = en_fresh env \<and>
        (if i \<in> ep_id ` set (st_episodes (q_store q))
         then st_episodes (q_store q') = st_episodes (q_store q) \<and> enqueue_mode env (add_args c clock text name source) q = Observe
         else \<exists>e d. st_episodes (q_store q') = st_episodes (q_store q) @ [e] \<and> ep_id e = i \<and> ep_status e = Queued \<and>
           ep_payload e = JsonText (PyDict d) \<and> dict_get d ''content'' = Some (PyStr text) \<and>
           dict_get d ''group_id'' = Some (PyStr (mc_group c)))"
proof -
  let ?a = "add_args c clock text name source"
  have id: "chosen_id env ?a = en_fresh env" by (simp add: chosen_id_def add_args_def)
  obtain r where run: "enqueue env ?a q = (r, q')" and r: "result = (case r of Enqueued i \<Rightarrow> Inr (Accepted_Episode i (mc_group c))
      | DuplicateEpisode existing h \<Rightarrow> Inr (Rejected_Duplicate existing (mc_group c)) | EnqueueRaised x \<Rightarrow> Inl x)"
    using assms(1) by (auto simp: add_episode_def split: prod.splits enqueue_result.splits)
  show ?thesis
  proof (cases r)
    case (Enqueued i)
    then have i: "i = en_fresh env"
      using run id by (auto simp: enqueue_unfold enqueue_commit_def Let_def split: if_splits insert_result.splits)
    show ?thesis
    proof (cases "i \<in> ep_id ` set (st_episodes (q_store q))")
      case True
      then show ?thesis using clash_acknowledged_in_observe [OF run [unfolded Enqueued]] r Enqueued i id by simp
    next
      case False
      then obtain e where "st_episodes (q_store q') = st_episodes (q_store q) @ [e]" "ep_id e = i" "ep_status e = Queued"
        "ep_payload e = JsonText (enqueue_payload i ?a)"
        using accepted_episode_is_stored [OF run [unfolded Enqueued]] assms(2) by auto
      then show ?thesis using r Enqueued i False by (auto simp: enqueue_payload_def add_args_def)
    qed
  next
    case (DuplicateEpisode existing h)
    then show ?thesis using r rejected_keeps_rows [of env ?a q existing h q'] run by auto
  next
    case (EnqueueRaised x)
    then show ?thesis using r failed_enqueue_keeps_rows run by auto
  qed
qed

definition sample_mcp :: mcp_config where
  "sample_mcp = \<lparr>mc_group = ''g'', mc_dedup_mode = ''enforce'', mc_max_attempts = 3, mc_policy = None, mc_classes = Some [''time''], mc_backstop = None\<rparr>"

theorem add_episode_contract_witness:
  "\<exists>e d. st_episodes (q_store (snd (add_episode sample_mcp (sample_env ''b'') ''now'' ''hi'' None None fresh_queue))) = [e] \<and>
     ep_id e = ''b'' \<and> ep_payload e = JsonText (PyDict d) \<and> dict_get d ''group_id'' = Some (PyStr ''g'')"
proof -
  let ?run = "add_episode sample_mcp (sample_env ''b'') ''now'' ''hi'' None None fresh_queue"
  have h: "fst ?run = Inr (Accepted_Episode ''b'' ''g'') \<and> store_ok (q_store fresh_queue) \<and> st_episodes (q_store fresh_queue) = [] \<and>
      en_fresh (sample_env ''b'') = ''b'' \<and> mc_group sample_mcp = ''g''" by code_simp
  then have "?run = (Inr (Accepted_Episode ''b'' ''g''), snd ?run)" by (metis prod.collapse)
  from add_episode_contract [OF this] h show ?thesis by simp blast
qed

text \<open>If no one writes between the reads, the rows that match no class are exactly the open ones left over.\<close>

lemma breakdown_exact:
  assumes "cs \<noteq> []"
  shows "bd_unclassified (dlq_breakdown (Some cs) (snd (get_stats s)) s) =
      Some (count_rows (\<lambda>d. dl_recovered_at d = None \<and> \<not> dlq_class_predicate cs d) (st_dead s))"
proof -
  have "count_rows (\<lambda>d. dl_recovered_at d = None) xs = count_rows (\<lambda>d. dl_recovered_at d = None \<and> dlq_class_predicate cs d) xs +
      count_rows (\<lambda>d. dl_recovered_at d = None \<and> \<not> dlq_class_predicate cs d) xs" for xs
    unfolding count_rows_def by (induction xs) auto
  then show ?thesis using assms
    by (simp add: dlq_breakdown_def classes_given_def dlq_class_union_count_def get_stats_def)
qed

text \<open>A manual retry never requeues what the policy refuses; a refusal names the code.\<close>

lemma retry_respects_policy:
  assumes "retry_dlq_episode c i now between s = (Requeued, s')"
  shows "\<exists>d. find_dead i s = Some d \<and> policy_admits (from_settings (mc_policy c)) (Some (dl_last_error d))"
  using assms by (auto simp: retry_dlq_episode_def replay_dlq_episode_def effective_policy_def Let_def split: option.splits if_splits prod.splits bool.splits)

text \<open>\<open>report_stats\<close> with a limit of zero shows the whole log.\<close>

lemma last_items_zero: "last_items 0 xs = xs"
  by (simp add: last_items_def)

end
