(* ===== verification/Migration.thy ===== *)
theory Migration
  imports QueueReads PyNumber
begin

text \<open>
  \<open>migrate.py\<close>: conversion of a legacy configuration, snapshot and rollback of the queue's database.  The content of a
  database file is a \<open>store\<close>, a checkpoint directory has the type \<open>'c\<close>; the digest of a file is an argument.
\<close>

subsection \<open>Platform\<close>

record artifact =
  af_system :: string
  af_machine :: string
  af_arch :: string
  af_id :: string
  af_supported :: bool

definition detect_artifact :: "string \<Rightarrow> string \<Rightarrow> artifact" where
  "detect_artifact system machine =
     (let s = py_lower system; m = py_lower machine;
          arch = (if m \<in> {''aarch64'', ''arm64''} then ''arm64'' else if m \<in> {''x86_64'', ''amd64''} then ''x86_64'' else m)
      in \<lparr>af_system = s, af_machine = m, af_arch = arch, af_id = ''falkordb-'' @ s @ ''-'' @ arch,
          af_supported = (s \<in> {''linux'', ''darwin''} \<and> arch \<in> {''arm64'', ''x86_64''})\<rparr>)"

subsection \<open>Legacy configuration\<close>

text \<open>\<open>key in v\<close> and \<open>v[key]\<close> for a value read from JSON.\<close>

definition has_key :: "string \<Rightarrow> pyval \<Rightarrow> py_exception + bool" where
  "has_key k v =
     (case v of
        PyDict d \<Rightarrow> Inr (dict_has d k)
      | PyStr s \<Rightarrow> Inr (py_in k s)
      | PyList xs \<Rightarrow> Inr (PyStr k \<in> set xs)
      | _ \<Rightarrow> Inl TypeError)"

definition item_at :: "string \<Rightarrow> pyval \<Rightarrow> py_exception + pyval" where
  "item_at k v =
     (case v of
        PyDict d \<Rightarrow> (case dict_get d k of Some x \<Rightarrow> Inr x | None \<Rightarrow> Inl KeyError)
      | _ \<Rightarrow> Inl TypeError)"

text \<open>\<open>if key in v: out[name] = convert(v[key])\<close>; the flag says whether the key was there.\<close>

definition carry ::
  "(pyval \<Rightarrow> py_exception + pyval) \<Rightarrow> string \<Rightarrow> string \<Rightarrow> pyval \<Rightarrow> pydict \<Rightarrow> py_exception + (bool \<times> pydict)" where
  "carry convert k name v out =
     (case has_key k v of
        Inl e \<Rightarrow> Inl e
      | Inr False \<Rightarrow> Inr (False, out)
      | Inr True \<Rightarrow>
          (case item_at k v of
             Inl e \<Rightarrow> Inl e
           | Inr x \<Rightarrow> (case convert x of Inl e \<Rightarrow> Inl e | Inr y \<Rightarrow> Inr (True, dict_set name y out))))"

text \<open>A section is a list of entries, each with the keys that are tried in turn.\<close>

type_synonym entry = "string list \<times> string \<times> (pyval \<Rightarrow> py_exception + pyval)"

fun carry_first :: "string list \<Rightarrow> string \<Rightarrow> (pyval \<Rightarrow> py_exception + pyval) \<Rightarrow> pyval \<Rightarrow> pydict \<Rightarrow> py_exception + pydict" where
  "carry_first [] name convert v out = Inr out"
| "carry_first (k # ks) name convert v out =
     (case carry convert k name v out of
        Inl e \<Rightarrow> Inl e
      | Inr (True, out') \<Rightarrow> Inr out'
      | Inr (False, out') \<Rightarrow> carry_first ks name convert v out')"

fun carry_section :: "entry list \<Rightarrow> pyval \<Rightarrow> pydict \<Rightarrow> py_exception + pydict" where
  "carry_section [] v out = Inr out"
| "carry_section ((ks, name, convert) # es) v out =
     (case carry_first ks name convert v out of Inl e \<Rightarrow> Inl e | Inr out' \<Rightarrow> carry_section es v out')"

definition as_int :: "pyval \<Rightarrow> py_exception + pyval" where
  "as_int v = map_sum id PyInt (py_int v)"

definition as_float :: "pyval \<Rightarrow> py_exception + pyval" where
  "as_float v = map_sum id PyFloat (py_float v)"

definition engine_entries :: "entry list" where
  "engine_entries = [([''host''], ''host'', Inr), ([''port''], ''port'', as_int)]"

definition group_entries :: "entry list" where
  "group_entries = [([''database''], ''group_id'', Inr)]"

definition llm_entries :: "entry list" where
  "llm_entries =
     [([''api_base'', ''base_url''], ''base_url'', Inr), ([''model''], ''model'', Inr), ([''api_key''], ''api_key'', Inr),
      ([''temperature''], ''temperature'', as_float), ([''max_tokens''], ''max_tokens'', as_int)]"

definition embedding_entries :: "entry list" where
  "embedding_entries =
     [([''api_base'', ''base_url''], ''base_url'', Inr), ([''model''], ''model'', Inr), ([''api_key''], ''api_key'', Inr),
      ([''embedding_dim'', ''dim''], ''dim'', as_int)]"

definition fixed_sections :: pydict where
  "fixed_sections =
     [(''pipeline'', PyDict [(''queue_db_path'', PyStr ''./data/episodes.db''), (''worker_concurrency'', PyInt 6),
         (''max_attempts'', PyInt 3), (''cron_interval_min'', PyInt 10)]),
      (''heuristics'', PyDict [(''auto_repair'', PyBool True),
         (''active_rules'', PyList (map PyStr [''edge_duplicate'', ''extracted_edges'', ''node_resolutions'', ''extracted_entities'']))]),
      (''cache'', PyDict [(''embed'', PyDict [(''enabled'', PyBool True), (''max_size'', PyInt 10000), (''eviction'', PyStr ''lru'')])]),
      (''report'', PyDict [(''min_severity'', PyStr ''info''),
         (''sinks'', PyDict [(''file'', PyDict [(''enabled'', PyBool True), (''path'', PyStr ''./data/logs/janus_report.jsonl'')]),
            (''cli'', PyDict [(''enabled'', PyBool True), (''format'', PyStr ''pretty''), (''min_severity'', PyStr ''warning'')])])])]"

definition section_of :: "pydict \<Rightarrow> string \<Rightarrow> pyval" where
  "section_of d k = (case dict_get d k of Some v \<Rightarrow> v | None \<Rightarrow> PyDict [])"

text \<open>The entries of a section in the order of the code: those of the engine before the group, both read from \<open>database\<close>.\<close>

definition convert_legacy_dict :: "pydict \<Rightarrow> py_exception + pydict" where
  "convert_legacy_dict d =
     (let db = section_of d ''database''; llm = section_of d ''llm''; emb = section_of d ''embedding'' in
      case carry_section engine_entries db [] of
        Inl e \<Rightarrow> Inl e
      | Inr engine \<Rightarrow>
          (case carry_section group_entries db [(''llm'', PyDict []), (''embedding'', PyDict [])] of
             Inl e \<Rightarrow> Inl e
           | Inr graphiti \<Rightarrow>
               (case carry_section llm_entries llm [] of
                  Inl e \<Rightarrow> Inl e
                | Inr new_llm \<Rightarrow>
                    map_sum id (\<lambda>new_emb.
                      [(''engine'', PyDict engine),
                       (''graphiti'', PyDict (dict_set ''embedding'' (PyDict new_emb) (dict_set ''llm'' (PyDict new_llm) graphiti)))] @
                      fixed_sections) (carry_section embedding_entries emb []))))"

text \<open>\<open>json_to_yaml\<close>: the legacy file if there is one; what is written is what is returned.\<close>

datatype conversion = SourceMissing | Unreadable | ConversionRaised py_exception | Converted pydict

definition json_to_yaml :: "(pyval option) option \<Rightarrow> conversion" where
  "json_to_yaml file =
     (case file of
        None \<Rightarrow> SourceMissing
      | Some None \<Rightarrow> Unreadable
      | Some (Some (PyDict d)) \<Rightarrow> (case convert_legacy_dict d of Inl e \<Rightarrow> ConversionRaised e | Inr out \<Rightarrow> Converted out)
      | Some (Some v) \<Rightarrow> ConversionRaised AttributeError)"

subsection \<open>Snapshots\<close>

record snapshot_counts =
  sn_total :: int
  sn_queued :: int
  sn_done :: int
  sn_failed :: int
  sn_dlq :: int

definition counts_of :: "store \<Rightarrow> snapshot_counts" where
  "counts_of s =
     (let n = (\<lambda>p. count_rows p (st_episodes s)) in
      \<lparr>sn_total = n (\<lambda>e. True), sn_queued = n (\<lambda>e. ep_status e = Queued), sn_done = n (\<lambda>e. ep_status e = Done),
       sn_failed = n (\<lambda>e. ep_status e = Failed), sn_dlq = n (\<lambda>e. ep_status e \<in> {Failed, Aborted})\<rparr>)"

text \<open>A directory with a snapshot: \<open>sd_latest\<close> is its subdirectory \<open>latest\<close>.\<close>

record 'c snapshot_dir =
  sd_db :: "store option"
  sd_checkpoints :: "'c option"
  sd_latest :: "(store option \<times> 'c option) option"
  sd_metadata :: "(string \<times> snapshot_counts) option"

record 'c data_dir =
  dd_db :: "store option"
  dd_wal :: bool
  dd_shm :: bool
  dd_queue :: "store option"
  dd_checkpoints :: "'c option"

text \<open>\<open>source\<close>: the database if its file exists and the checkpoints beside it; \<open>target\<close> as it is before.\<close>

definition snapshot_database ::
  "(store \<Rightarrow> string) \<Rightarrow> bool \<Rightarrow> store option \<Rightarrow> 'c option \<Rightarrow> 'c snapshot_dir \<Rightarrow> ((string \<times> snapshot_counts) \<times> 'c snapshot_dir) option" where
  "snapshot_database digest include_checkpoints source checkpoints target =
     (case source of
        None \<Rightarrow> None
      | Some s \<Rightarrow>
          let meta = (digest s, counts_of s);
              chk = (if include_checkpoints \<and> checkpoints \<noteq> None then checkpoints else sd_checkpoints target)
          in Some (meta, target\<lparr>sd_db := Some s, sd_checkpoints := chk, sd_metadata := Some meta\<rparr>))"

definition rollback_database :: "'c snapshot_dir option \<Rightarrow> 'c data_dir \<Rightarrow> 'c data_dir option" where
  "rollback_database snapshot target =
     (case snapshot of
        None \<Rightarrow> None
      | Some sd \<Rightarrow>
          (case (case sd_db sd of Some s \<Rightarrow> Some s | None \<Rightarrow> (case sd_latest sd of Some (db, chk) \<Rightarrow> db | None \<Rightarrow> None)) of
             None \<Rightarrow> None
           | Some s \<Rightarrow>
               let chk = (case sd_checkpoints sd of Some c \<Rightarrow> Some c
                          | None \<Rightarrow> (case sd_latest sd of Some (db, c) \<Rightarrow> c | None \<Rightarrow> None))
               in Some (target\<lparr>dd_db := Some s, dd_wal := False, dd_shm := False, dd_queue := Some s,
                    dd_checkpoints := (if chk = None then dd_checkpoints target else chk)\<rparr>)))"

subsection \<open>What is carried over\<close>

text \<open>The value under the first of the keys that is present.\<close>

fun first_of :: "string list \<Rightarrow> pydict \<Rightarrow> pyval option" where
  "first_of [] d = None"
| "first_of (k # ks) d = (case dict_get d k of Some v \<Rightarrow> Some v | None \<Rightarrow> first_of ks d)"

definition carried_as :: "(pyval \<Rightarrow> py_exception + pyval) \<Rightarrow> pyval option \<Rightarrow> pyval option \<Rightarrow> bool" where
  "carried_as convert old new \<longleftrightarrow> (case old of None \<Rightarrow> new = None | Some x \<Rightarrow> \<exists>y. convert x = Inr y \<and> new = Some y)"

lemma carried_plain [simp]: "carried_as Inr old new \<longleftrightarrow> new = old"
  by (auto simp: carried_as_def split: option.splits)

lemma carry_first_dict:
  "carry_first ks name convert (PyDict d) out =
     (case first_of ks d of None \<Rightarrow> Inr out | Some x \<Rightarrow> map_sum id (\<lambda>y. dict_set name y out) (convert x))"
  by (induction ks) (auto simp: carry_def has_key_def item_at_def dict_has_get id_def split: option.splits sum.splits)

lemma carry_section_other:
  "carry_section es (PyDict d) out = Inr out' \<Longrightarrow> name \<notin> (fst \<circ> snd) ` set es \<Longrightarrow> dict_get out' name = dict_get out name"
proof (induction es arbitrary: out)
  case (Cons e es)
  obtain ks n conv where e: "e = (ks, n, conv)" by (cases e) auto
  obtain mid where mid: "carry_first ks n conv (PyDict d) out = Inr mid" and rest: "carry_section es (PyDict d) mid = Inr out'"
    using Cons.prems(1) by (auto simp: e split: sum.splits)
  have "dict_get mid name = dict_get out name"
    using mid Cons.prems(2) by (cases "first_of ks d"; cases "conv (the (first_of ks d))") (auto simp: carry_first_dict e)
  with Cons.IH [OF rest] Cons.prems(2) show ?case by simp
qed simp

lemma carry_section_get:
  "carry_section es (PyDict d) out = Inr out' \<Longrightarrow> distinct (map (fst \<circ> snd) es) \<Longrightarrow> (ks, name, convert) \<in> set es \<Longrightarrow>
    dict_get out name = None \<Longrightarrow> carried_as convert (first_of ks d) (dict_get out' name)"
proof (induction es arbitrary: out)
  case (Cons e es)
  obtain ks' n conv where e: "e = (ks', n, conv)" by (cases e) auto
  obtain mid where mid: "carry_first ks' n conv (PyDict d) out = Inr mid" and rest: "carry_section es (PyDict d) mid = Inr out'"
    using Cons.prems(1) by (auto simp: e split: sum.splits)
  show ?case
  proof (cases "(ks, name, convert) = e")
    case True
    then have "name \<notin> (fst \<circ> snd) ` set es" using Cons.prems(2) by (simp add: e)
    from carry_section_other [OF rest this] mid True Cons.prems(4) show ?thesis
      by (cases "first_of ks d"; cases "conv (the (first_of ks d))") (auto simp: carry_first_dict carried_as_def e)
  next
    case False
    then have rest_mem: "(ks, name, convert) \<in> set es" using Cons.prems(3) by auto
    then have "name \<noteq> n" using Cons.prems(2) by (force simp: e)
    then have "dict_get mid name = None"
      using mid Cons.prems(4) by (cases "first_of ks' d"; cases "conv (the (first_of ks' d))") (auto simp: carry_first_dict)
    with Cons.IH [OF rest _ rest_mem] Cons.prems(2) show ?thesis by simp
  qed
qed simp

lemma entry_names:
  "distinct (map (fst \<circ> snd) engine_entries)" "distinct (map (fst \<circ> snd) group_entries)"
  "distinct (map (fst \<circ> snd) llm_entries)" "distinct (map (fst \<circ> snd) embedding_entries)"
  by (simp_all add: engine_entries_def group_entries_def llm_entries_def embedding_entries_def)

text \<open>in a converted configuration every setting the legacy file has is found at its new place, numbers as numbers, the newer of
  two legacy names winning; a setting it does not have is left out.\<close>

theorem legacy_settings_carried:
  assumes "convert_legacy_dict d = Inr out"
    and "section_of d ''database'' = PyDict db" "section_of d ''llm'' = PyDict llm" "section_of d ''embedding'' = PyDict emb"
  shows "\<exists>engine graphiti new_llm new_emb.
    dict_get out ''engine'' = Some (PyDict engine) \<and> dict_get out ''graphiti'' = Some (PyDict graphiti) \<and>
    dict_get graphiti ''llm'' = Some (PyDict new_llm) \<and> dict_get graphiti ''embedding'' = Some (PyDict new_emb) \<and>
    dict_get engine ''host'' = dict_get db ''host'' \<and> carried_as as_int (dict_get db ''port'') (dict_get engine ''port'') \<and>
    dict_get graphiti ''group_id'' = dict_get db ''database'' \<and>
    dict_get new_llm ''base_url'' = first_of [''api_base'', ''base_url''] llm \<and>
    carried_as as_float (dict_get llm ''temperature'') (dict_get new_llm ''temperature'') \<and>
    carried_as as_int (first_of [''embedding_dim'', ''dim''] emb) (dict_get new_emb ''dim'')"
proof -
  let ?start = "[(''llm'', PyDict []), (''embedding'', PyDict [])]"
  obtain engine graphiti new_llm new_emb where
    e: "carry_section engine_entries (PyDict db) [] = Inr engine" and g: "carry_section group_entries (PyDict db) ?start = Inr graphiti" and
    l: "carry_section llm_entries (PyDict llm) [] = Inr new_llm" and m: "carry_section embedding_entries (PyDict emb) [] = Inr new_emb" and
    out: "out = [(''engine'', PyDict engine),
       (''graphiti'', PyDict (dict_set ''embedding'' (PyDict new_emb) (dict_set ''llm'' (PyDict new_llm) graphiti)))] @ fixed_sections"
    using assms(1) unfolding convert_legacy_dict_def Let_def assms(2-4) map_sum_def
    by (auto split: sum.splits)
  have one: "first_of [k] sec = dict_get sec k" for k sec by (simp split: option.splits)
  note gets = carry_section_get [OF e entry_names(1), of "[''host'']" "''host''" Inr] carry_section_get [OF e entry_names(1), of "[''port'']" "''port''" as_int]
    carry_section_get [OF g entry_names(2), of "[''database'']" "''group_id''" Inr]
    carry_section_get [OF l entry_names(3), of "[''api_base'', ''base_url'']" "''base_url''" Inr]
    carry_section_get [OF l entry_names(3), of "[''temperature'']" "''temperature''" as_float]
    carry_section_get [OF m entry_names(4), of "[''embedding_dim'', ''dim'']" "''dim''" as_int]
  note gets' = gets [unfolded engine_entries_def group_entries_def llm_entries_def embedding_entries_def one, simplified]
  show ?thesis
    using gets' unfolding out
    by (intro exI [of _ engine] exI [of _ "dict_set ''embedding'' (PyDict new_emb) (dict_set ''llm'' (PyDict new_llm) graphiti)"]
        exI [of _ new_llm] exI [of _ new_emb]) simp
qed

definition legacy_sample :: pydict where
  "legacy_sample =
     [(''database'', PyDict [(''host'', PyStr ''h''), (''port'', PyStr '' 6380 ''), (''database'', PyStr ''g'')]),
      (''llm'', PyDict [(''base_url'', PyStr ''old''), (''api_base'', PyStr ''new''), (''temperature'', PyInt 0)])]"

theorem legacy_settings_carried_witness:
  "\<exists>out engine graphiti new_llm. convert_legacy_dict legacy_sample = Inr out \<and> dict_get out ''engine'' = Some (PyDict engine) \<and>
     dict_get engine ''host'' = Some (PyStr ''h'') \<and> dict_get out ''graphiti'' = Some (PyDict graphiti) \<and>
     dict_get graphiti ''llm'' = Some (PyDict new_llm) \<and> dict_get new_llm ''base_url'' = Some (PyStr ''new'')"
proof -
  have "\<not> (case convert_legacy_dict legacy_sample of Inl e \<Rightarrow> True | Inr out \<Rightarrow> False)" by code_simp
  then obtain out where run: "convert_legacy_dict legacy_sample = Inr out" by (auto split: sum.splits)
  have h: "section_of legacy_sample ''database'' = PyDict [(''host'', PyStr ''h''), (''port'', PyStr '' 6380 ''), (''database'', PyStr ''g'')]"
    "section_of legacy_sample ''llm'' = PyDict [(''base_url'', PyStr ''old''), (''api_base'', PyStr ''new''), (''temperature'', PyInt 0)]"
    "section_of legacy_sample ''embedding'' = PyDict []"
    by (simp_all add: section_of_def legacy_sample_def)
  from legacy_settings_carried [OF run h] run show ?thesis by auto
qed

text \<open>what is restored from a snapshot is the database that was taken, as the queue's file and its copy and without a journal, and
  the checkpoints that lay beside it if they were included; the metadata count its rows.\<close>

theorem rollback_restores_snapshot:
  assumes "snapshot_database digest include_checkpoints (Some s) chk target = Some (meta, sd)"
  shows "\<exists>restored. rollback_database (Some sd) data = Some restored \<and> dd_db restored = Some s \<and> dd_queue restored = Some s \<and>
    \<not> dd_wal restored \<and> \<not> dd_shm restored \<and>
    (include_checkpoints \<and> chk \<noteq> None \<longrightarrow> dd_checkpoints restored = chk) \<and>
    sn_total (snd meta) = int (length (st_episodes s)) \<and> sn_queued (snd meta) + sn_done (snd meta) + sn_failed (snd meta) \<le> sn_total (snd meta)"
proof -
  have "count_rows (\<lambda>e. ep_status e = Queued) es + count_rows (\<lambda>e. ep_status e = Done) es + count_rows (\<lambda>e. ep_status e = Failed) es \<le> int (length es)" for es
    unfolding count_rows_def by (induction es) auto
  moreover have "count_rows (\<lambda>e. True) es = int (length es)" for es :: "episode list" by (simp add: count_rows_def)
  ultimately show ?thesis using assms by (auto simp: snapshot_database_def rollback_database_def counts_of_def Let_def)
qed

theorem rollback_restores_snapshot_witness:
  "\<exists>restored. rollback_database (Some (snd (the (snapshot_database (\<lambda>s. ''d'') True (Some orphan_letter) (Some (1::nat))
      \<lparr>sd_db = None, sd_checkpoints = None, sd_latest = None, sd_metadata = None\<rparr>))))
      \<lparr>dd_db = None, dd_wal = True, dd_shm = True, dd_queue = None, dd_checkpoints = Some 2\<rparr> = Some restored \<and>
     dd_db restored = Some orphan_letter \<and> dd_checkpoints restored = Some 1"
proof -
  let ?snap = "snapshot_database (\<lambda>s. ''d'') True (Some orphan_letter) (Some (1::nat))
      \<lparr>sd_db = None, sd_checkpoints = None, sd_latest = None, sd_metadata = None\<rparr>"
  obtain meta sd where run: "?snap = Some (meta, sd)" by (auto simp: snapshot_database_def Let_def)
  from rollback_restores_snapshot [OF run] run show ?thesis by auto
qed

text \<open>Checkpoints that a directory holds from an earlier snapshot stay and are restored with the newer database, even if there were
  none beside it.\<close>

lemma old_checkpoints_restored:
  assumes "snapshot_database digest True (Some s) None target = Some (meta, sd)" "sd_checkpoints target = Some c"
  shows "\<exists>restored. rollback_database (Some sd) data = Some restored \<and> dd_db restored = Some s \<and> dd_checkpoints restored = Some c"
  using assms by (auto simp: snapshot_database_def rollback_database_def Let_def)

text \<open>The count named after the dead letters counts rows that failed; the dead letters themselves are in a table of their own.\<close>

lemma snapshot_dlq_is_not_the_dlq: "sn_dlq (counts_of orphan_letter) = 0 \<and> snd (get_stats orphan_letter) = 1"
  by code_simp

end
