(* ===== verification/Reports.thy ===== *)
theory Reports
  imports MemoryHandler
begin

text \<open>
  \<open>report/models.py\<close>, \<open>report/dispatcher.py\<close> and \<open>report/sinks/\<close>: events, the sinks a configuration yields and what each sink
  sends for an event.  JSON texts and the keyed digest are arguments.
\<close>

subsection \<open>Severities\<close>

datatype severity = SevDebug | SevInfo | SevWarning | SevError | SevCritical

fun level :: "severity \<Rightarrow> int" where
  "level SevDebug = 10"
| "level SevInfo = 20"
| "level SevWarning = 30"
| "level SevError = 40"
| "level SevCritical = 50"

fun severity_value :: "severity \<Rightarrow> string" where
  "severity_value SevDebug = ''debug''"
| "severity_value SevInfo = ''info''"
| "severity_value SevWarning = ''warning''"
| "severity_value SevError = ''error''"
| "severity_value SevCritical = ''critical''"

lemma level_inj: "level s = level t \<longleftrightarrow> s = t"
  by (cases s; cases t) simp_all

instantiation severity :: linorder
begin

definition less_eq_severity :: "severity \<Rightarrow> severity \<Rightarrow> bool" where
  "less_eq_severity s t \<longleftrightarrow> level s \<le> level t"

definition less_severity :: "severity \<Rightarrow> severity \<Rightarrow> bool" where
  "less_severity s t \<longleftrightarrow> level s < level t"

instance
  by standard (auto simp: less_eq_severity_def less_severity_def level_inj)

end

definition all_severities :: "severity list" where
  "all_severities = [SevDebug, SevInfo, SevWarning, SevError, SevCritical]"

definition parse_severity :: "string \<Rightarrow> severity option" where
  "parse_severity v = find (\<lambda>s. severity_value s = v) all_severities"

text \<open>A minimum is a text in every sink; one that names no severity lets everything through.\<close>

definition is_at_least :: "severity \<Rightarrow> string \<Rightarrow> bool" where
  "is_at_least s minimum = (case parse_severity (py_lower minimum) of None \<Rightarrow> True | Some m \<Rightarrow> m \<le> s)"

record report_event =
  rv_kind :: string
  rv_severity :: severity
  rv_summary :: string
  rv_details :: pydict
  rv_timestamp :: string

definition event_dict :: "report_event \<Rightarrow> pydict" where
  "event_dict e =
     [(''kind'', PyStr (rv_kind e)), (''severity'', PyStr (severity_value (rv_severity e))), (''summary'', PyStr (rv_summary e)),
      (''details'', PyDict (rv_details e)), (''timestamp'', PyStr (rv_timestamp e))]"

subsection \<open>Sinks\<close>

record pipe_sink =
  pi_command :: "string list"
  pi_extra :: "string list"
  pi_stdin :: bool
  pi_timeout :: rat
  pi_min :: string
  pi_cwd :: "string option"
  pi_env :: "(string \<times> string) list option"

datatype sink =
    FileSink string int
  | CliSink string string
  | TelegramSink "string option" "string option" string
  | PipeSink pipe_sink
  | WebhookSink "string option" "string option" string rat string

datatype sink_error = NoCommand | CommandNotFound string | MethodRefused string

text \<open>\<open>a or os.environ.get(name)\<close>.\<close>

definition or_environ :: "(string \<Rightarrow> string option) \<Rightarrow> string \<Rightarrow> string \<Rightarrow> string option" where
  "or_environ environ name v = (if v \<noteq> [] then Some v else environ name)"

definition new_pipe_sink :: "(string \<Rightarrow> bool) \<Rightarrow> pipe_sink \<Rightarrow> sink_error + sink" where
  "new_pipe_sink on_disk p =
     (case pi_command p of
        [] \<Rightarrow> Inl NoCommand
      | c # cs \<Rightarrow> if pi_stdin p \<and> \<not> on_disk c then Inl (CommandNotFound c) else Inr (PipeSink p))"

text \<open>The JSON text of a value, the same with indentation, and the keyed digest.\<close>

record render_env =
  re_dumps :: "pyval \<Rightarrow> string"
  re_indented :: "pyval \<Rightarrow> string"
  re_hmac :: "string \<Rightarrow> string \<Rightarrow> string"

definition py_upper :: "string \<Rightarrow> string" where
  "py_upper s = map (\<lambda>c. let n = (of_char c :: nat) in if 97 \<le> n \<and> n \<le> 122 then char_of (n - 32) else c) s"

definition padded :: "nat \<Rightarrow> string \<Rightarrow> string" where
  "padded n s = s @ replicate (n - py_len s) (CHR 0x20)"

definition ansi_param :: "char \<Rightarrow> bool" where
  "ansi_param c \<longleftrightarrow> (let n = (of_char c :: nat) in (48 \<le> n \<and> n \<le> 57) \<or> n = 59)"

function strip_ansi :: "string \<Rightarrow> string" where
  "strip_ansi [] = []"
| "strip_ansi (c # cs) =
     (if c = CHR 0x1B \<and> prefix ''['' cs \<and> prefix ''m'' (dropWhile ansi_param (tl cs))
      then strip_ansi (tl (dropWhile ansi_param (tl cs))) else c # strip_ansi cs)"
  by pat_completeness auto

termination
proof (relation "measure length")
  fix c :: char and cs :: string
  have "length (tl (dropWhile ansi_param (tl cs))) \<le> length cs"
    by (metis diff_le_self le_trans length_dropWhile_le length_tl)
  then show "(tl (dropWhile ansi_param (tl cs)), c # cs) \<in> measure length" by simp
qed simp_all

definition cli_render :: "render_env \<Rightarrow> string \<Rightarrow> report_event \<Rightarrow> string" where
  "cli_render env format_type e =
     (let sev = severity_value (rv_severity e) in
      strip_ansi
        (if format_type = ''json'' then re_dumps env (PyDict (event_dict e))
         else if format_type = ''raw'' then rv_timestamp e @ '' ['' @ sev @ ''] '' @ rv_summary e
         else if format_type = ''summary'' then ''['' @ py_upper sev @ ''] '' @ rv_kind e @ '': '' @ rv_summary e
         else ''['' @ padded 8 (py_upper sev) @ ''] ['' @ padded 15 (rv_kind e) @ ''] '' @ rv_summary e))"

definition bytes :: "nat list \<Rightarrow> string" where
  "bytes ns = map char_of ns"

fun icon :: "severity \<Rightarrow> string" where
  "icon SevDebug = bytes [240, 159, 148, 141]"
| "icon SevInfo = bytes [226, 132, 185, 239, 184, 143]"
| "icon SevWarning = bytes [226, 154, 160, 239, 184, 143]"
| "icon SevError = bytes [226, 157, 140]"
| "icon SevCritical = bytes [240, 159, 154, 168]"

fun lines_joined :: "string list \<Rightarrow> string" where
  "lines_joined [] = []"
| "lines_joined [l] = l"
| "lines_joined (l # ls) = l @ [CHR 0x0A] @ lines_joined ls"

definition pipe_render :: "render_env \<Rightarrow> report_event \<Rightarrow> string" where
  "pipe_render env e =
     lines_joined
       ([icon (rv_severity e) @ '' *Janus-Graph ['' @ py_upper (severity_value (rv_severity e)) @ '']* `'' @ rv_kind e @ ''`'',
         ''_'' @ rv_summary e @ ''_''] @
        (if rv_details e = [] then []
         else [''```json'' @ [CHR 0x0A] @ take 3500 (re_indented env (PyDict (rv_details e))) @ [CHR 0x0A] @ ''```'']))"

definition telegram_message :: "render_env \<Rightarrow> report_event \<Rightarrow> string" where
  "telegram_message env e =
     lines_joined
       ([icon (rv_severity e) @ '' <b>Janus-Graph Alert</b> ['' @ py_upper (severity_value (rv_severity e)) @ '']'',
         ''<b>Kind:</b> <code>'' @ rv_kind e @ ''</code>'', ''<b>Summary:</b> '' @ rv_summary e] @
        (if rv_details e = [] then [] else [''<pre>'' @ take 1000 (re_indented env (PyDict (rv_details e))) @ ''</pre>'']))"

text \<open>What a sink hands out for an event, if anything.\<close>

datatype delivery =
    Line string string
  | Printed bool string
  | TelegramPost string pydict
  | Spawned "string list" "string option" rat "string option" "(string \<times> string) list option"
  | WebhookPost string "(string \<times> string) list" string rat

definition given :: "string option \<Rightarrow> bool" where
  "given v = (case v of Some (c # cs) \<Rightarrow> True | _ \<Rightarrow> False)"

definition deliver :: "render_env \<Rightarrow> report_event \<Rightarrow> sink \<Rightarrow> delivery option" where
  "deliver env e k =
     (case k of
        FileSink path max_bytes \<Rightarrow> Some (Line path (re_dumps env (PyDict (event_dict e))))
      | CliSink format_type minimum \<Rightarrow>
          if is_at_least (rv_severity e) minimum
          then Some (Printed (severity_value (rv_severity e) \<in> {''error'', ''critical''}) (cli_render env format_type e)) else None
      | TelegramSink token chat minimum \<Rightarrow>
          if \<not> is_at_least (rv_severity e) minimum then None
          else if \<not> given token \<or> \<not> given chat then None
          else Some (TelegramPost (''https://api.telegram.org/bot'' @ the token @ ''/sendMessage'')
            [(''chat_id'', PyStr (the chat)), (''text'', PyStr (telegram_message env e)), (''parse_mode'', PyStr ''HTML'')])
      | PipeSink p \<Rightarrow>
          if \<not> is_at_least (rv_severity e) (pi_min p) then None
          else let t = pipe_render env e in
            Some (if pi_stdin p then Spawned (pi_command p @ pi_extra p) (Some t) (pi_timeout p) (pi_cwd p) (pi_env p)
                  else Spawned (pi_command p @ [t] @ pi_extra p) None (pi_timeout p) (pi_cwd p) (pi_env p))
      | WebhookSink url secret header timeout minimum \<Rightarrow>
          if \<not> given url \<or> \<not> is_at_least (rv_severity e) minimum then None
          else let body = re_dumps env (PyDict (event_dict e)) in
            Some (WebhookPost (the url)
              ([(''Content-Type'', ''application/json''), (''User-Agent'', ''Janus-Graph-Reporter/1.0'')] @
               (if given secret then [(header, ''sha256='' @ re_hmac env (the secret) body)] else [])) body timeout))"

subsection \<open>The dispatcher\<close>

record sinks_config =
  fc_enabled :: bool
  fc_path :: string
  fc_max_bytes :: int
  fc_backups :: int
  cc_enabled :: bool
  cc_format :: string
  cc_min :: string
  tc_enabled :: bool
  tc_token :: string
  tc_chat :: string
  tc_rate :: int
  tc_min :: string
  pc_enabled :: bool
  pc_sink :: pipe_sink
  wc_enabled :: bool
  wc_url :: string
  wc_secret :: string
  wc_header :: string
  wc_timeout :: rat
  wc_min :: string

text \<open>\<open>anchor\<close> resolves a relative path, \<open>environ\<close> are the environment variables, \<open>on_disk\<close> the files.\<close>

record dispatch_env =
  dp_anchor :: "string \<Rightarrow> string"
  dp_environ :: "string \<Rightarrow> string option"
  dp_on_disk :: "string \<Rightarrow> bool"

definition optional_sink :: "bool \<Rightarrow> sink \<Rightarrow> sink list" where
  "optional_sink enabled k = (if enabled then [k] else [])"

text \<open>An empty text or list counts as absent.\<close>

definition configured_pipe :: "sinks_config \<Rightarrow> pipe_sink" where
  "configured_pipe c =
     (let p = pc_sink c in
      p\<lparr>pi_cwd := (case pi_cwd p of Some (x # xs) \<Rightarrow> Some (x # xs) | _ \<Rightarrow> None),
        pi_env := (case pi_env p of Some (x # xs) \<Rightarrow> Some (x # xs) | _ \<Rightarrow> None)\<rparr>)"

definition dispatcher_from_settings :: "dispatch_env \<Rightarrow> sinks_config \<Rightarrow> sink_error + sink list" where
  "dispatcher_from_settings env c =
     (let before =
        optional_sink (fc_enabled c) (FileSink (dp_anchor env (fc_path c)) (fc_max_bytes c)) @
        optional_sink (cc_enabled c) (CliSink (cc_format c) (cc_min c)) @
        optional_sink (tc_enabled c)
          (TelegramSink (or_environ (dp_environ env) ''TELEGRAM_BOT_TOKEN'' (tc_token c))
            (or_environ (dp_environ env) ''TELEGRAM_CHAT_ID'' (tc_chat c)) (tc_min c));
        after = optional_sink (wc_enabled c)
          (WebhookSink (or_environ (dp_environ env) ''WEBHOOK_URL'' (wc_url c))
            (or_environ (dp_environ env) ''WEBHOOK_SECRET'' (wc_secret c)) (wc_header c) 10 (wc_min c))
      in if pc_enabled c \<and> pi_command (pc_sink c) \<noteq> []
         then map_sum id (\<lambda>k. before @ [k] @ after) (new_pipe_sink (dp_on_disk env) (configured_pipe c))
         else Inr (before @ after))"

text \<open>The defaults of the configuration classes.\<close>

definition default_sinks_config :: sinks_config where
  "default_sinks_config =
     \<lparr>fc_enabled = True, fc_path = ''./data/logs/janus_report.jsonl'', fc_max_bytes = 10485760, fc_backups = 5,
      cc_enabled = True, cc_format = ''pretty'', cc_min = ''warning'',
      tc_enabled = False, tc_token = [], tc_chat = [], tc_rate = 10, tc_min = ''info'',
      pc_enabled = False,
      pc_sink = \<lparr>pi_command = [], pi_extra = [], pi_stdin = True, pi_timeout = 15, pi_min = ''info'', pi_cwd = None, pi_env = None\<rparr>,
      wc_enabled = False, wc_url = [], wc_secret = [], wc_header = ''X-Janus-Signature'', wc_timeout = 5, wc_min = ''info''\<rparr>"

text \<open>The frozen settings of \<open>core/contracts.py\<close>: sinks are named in a list.\<close>

record frozen_report =
  fr_sinks :: "string list"
  fr_file :: string
  fr_method :: string
  fr_telegram :: bool
  fr_token :: "string option"
  fr_chat :: "string option"
  fr_webhook :: bool
  fr_url :: "string option"
  fr_secret :: "string option"

definition default_frozen_report :: frozen_report where
  "default_frozen_report =
     \<lparr>fr_sinks = [''file'', ''cli''], fr_file = ''data/logs/reports.jsonl'', fr_method = ''sudo'',
      fr_telegram = False, fr_token = None, fr_chat = None, fr_webhook = False, fr_url = None, fr_secret = None\<rparr>"

definition text_of :: "string option \<Rightarrow> string" where
  "text_of v = (case v of None \<Rightarrow> [] | Some t \<Rightarrow> t)"

definition dispatcher_from_frozen :: "dispatch_env \<Rightarrow> frozen_report \<Rightarrow> sink_error + sink list" where
  "dispatcher_from_frozen env c =
     (if ''cli'' \<in> set (fr_sinks c) \<and> fr_method c \<noteq> ''sudo'' then Inl (MethodRefused (fr_method c))
      else Inr
        (optional_sink (''file'' \<in> set (fr_sinks c)) (FileSink (dp_anchor env (fr_file c)) 10485760) @
         optional_sink (''cli'' \<in> set (fr_sinks c)) (CliSink ''pretty'' ''info'') @
         optional_sink (fr_telegram c \<or> ''telegram'' \<in> set (fr_sinks c))
           (TelegramSink (or_environ (dp_environ env) ''TELEGRAM_BOT_TOKEN'' (text_of (fr_token c)))
             (or_environ (dp_environ env) ''TELEGRAM_CHAT_ID'' (text_of (fr_chat c))) ''info'') @
         optional_sink (fr_webhook c \<or> ''webhook'' \<in> set (fr_sinks c))
           (WebhookSink (or_environ (dp_environ env) ''WEBHOOK_URL'' (text_of (fr_url c)))
             (or_environ (dp_environ env) ''WEBHOOK_SECRET'' (text_of (fr_secret c))) ''X-Janus-Signature'' 10 ''info'')))"

definition quick_event :: "string \<Rightarrow> string \<Rightarrow> string \<Rightarrow> severity \<Rightarrow> pydict option \<Rightarrow> report_event" where
  "quick_event now kind summary severity details =
     \<lparr>rv_kind = kind, rv_severity = severity, rv_summary = summary, rv_details = (case details of None \<Rightarrow> [] | Some d \<Rightarrow> d), rv_timestamp = now\<rparr>"

text \<open>The sinks run concurrently and apart; what each hands out does not depend on the others.\<close>

definition emit_event :: "render_env \<Rightarrow> report_event \<Rightarrow> sink list \<Rightarrow> delivery list" where
  "emit_event env e sinks = List.map_filter (deliver env e) sinks"

subsection \<open>The report file\<close>

text \<open>The file and its predecessor, as bytes.  \<open>renamed\<close>: the rename succeeds; \<open>writable\<close>: the file can be written.\<close>

record report_file =
  rf_file :: "string option"
  rf_rotated :: "string option"

definition rotate_if_needed :: "int \<Rightarrow> bool \<Rightarrow> report_file \<Rightarrow> report_file" where
  "rotate_if_needed max_bytes renamed f =
     (case rf_file f of
        None \<Rightarrow> f
      | Some t \<Rightarrow>
          if max_bytes \<le> int (length t)
          then (if renamed then f\<lparr>rf_file := None, rf_rotated := Some t\<rparr> else f\<lparr>rf_rotated := None\<rparr>)
          else f)"

definition file_emit :: "int \<Rightarrow> bool \<Rightarrow> bool \<Rightarrow> string \<Rightarrow> report_file \<Rightarrow> report_file" where
  "file_emit max_bytes renamed writable line f =
     (let f1 = rotate_if_needed max_bytes renamed f in
      if writable then f1\<lparr>rf_file := Some ((case rf_file f1 of Some t \<Rightarrow> t | None \<Rightarrow> []) @ line @ [CHR 0x0A])\<rparr> else f1)"

fun file_emits :: "int \<Rightarrow> string list \<Rightarrow> report_file \<Rightarrow> report_file" where
  "file_emits max_bytes [] f = f"
| "file_emits max_bytes (l # ls) f = file_emits max_bytes ls (file_emit max_bytes True True l f)"

subsection \<open>Properties\<close>

lemma parse_severity_value [simp]: "parse_severity (severity_value s) = Some s"
  by (cases s) (simp_all add: parse_severity_def all_severities_def)

lemma is_at_least_mono: "s \<le> t \<Longrightarrow> is_at_least s m \<Longrightarrow> is_at_least t m"
  by (auto simp: is_at_least_def split: option.splits)

lemma is_at_least_iff: "is_at_least s (severity_value m) \<longleftrightarrow> m \<le> s"
proof -
  have "py_lower (severity_value m) = severity_value m"
    by (cases m) (simp_all add: py_lower_def lower_char_def)
  then show ?thesis by (simp add: is_at_least_def)
qed

text \<open>The sink of a delivery.\<close>

lemma deliver_mono:
  "rv_severity e \<le> rv_severity e' \<Longrightarrow> deliver env e k \<noteq> None \<Longrightarrow> deliver env e' k \<noteq> None"
  by (cases k) (auto simp: deliver_def Let_def dest: is_at_least_mono split: if_splits)

text \<open>a more severe event reaches every sink that a less severe one reaches; a sink with a minimum hands out nothing below
  it; and the report file takes every event, whatever its severity.\<close>

theorem dispatch_respects_severity:
  assumes "rv_severity e \<le> rv_severity e'"
  shows "length (emit_event env e sinks) \<le> length (emit_event env e' sinks) \<and>
    (\<forall>k \<in> set sinks. case k of
        FileSink path n \<Rightarrow> deliver env e k \<noteq> None
      | CliSink f m \<Rightarrow> deliver env e k \<noteq> None \<longleftrightarrow> is_at_least (rv_severity e) m
      | TelegramSink t c m \<Rightarrow> deliver env e k \<noteq> None \<longrightarrow> is_at_least (rv_severity e) m
      | PipeSink p \<Rightarrow> deliver env e k \<noteq> None \<longleftrightarrow> is_at_least (rv_severity e) (pi_min p)
      | WebhookSink u s h t m \<Rightarrow> deliver env e k \<noteq> None \<longrightarrow> is_at_least (rv_severity e) m)"
proof
  show "length (emit_event env e sinks) \<le> length (emit_event env e' sinks)"
    using deliver_mono [OF assms, of env] by (induction sinks) (force simp: emit_event_def List.map_filter_simps split: option.splits)+
qed (auto simp: deliver_def Let_def split: sink.splits)

lemma file_emit_size:
  "0 < max_bytes \<Longrightarrow> \<exists>t. rf_file (file_emit max_bytes True True l f) = Some t \<and> int (length t) \<le> max_bytes + int (length l)"
  by (auto simp: file_emit_def rotate_if_needed_def Let_def split: option.splits)

text \<open>however many records are written, the report file stays within \<open>rotation_max_bytes\<close> plus one record, it ends with the last
  record, and only one older file is kept.\<close>

theorem report_file_bounded:
  assumes "0 < max_bytes" "ls \<noteq> []"
  shows "\<exists>t. rf_file (file_emits max_bytes ls f) = Some (t @ last ls @ [CHR 0x0A]) \<and>
    int (length (t @ last ls @ [CHR 0x0A])) \<le> max_bytes + int (length (last ls))"
  using assms
proof (induction ls arbitrary: f)
  case (Cons l ls)
  show ?case
  proof (cases "ls = []")
    case True
    obtain t where t: "rf_file (file_emit max_bytes True True l f) = Some t" "int (length t) \<le> max_bytes + int (length l)"
      using file_emit_size [OF Cons.prems(1)] by blast
    moreover obtain u where "t = u @ l @ [CHR 0x0A]" using t(1) by (auto simp: file_emit_def Let_def)
    ultimately show ?thesis using True by auto
  qed (use Cons in simp)
qed simp

lemma dispatch_respects_severity_witness:
  "length (emit_event \<lparr>re_dumps = (\<lambda>v. []), re_indented = (\<lambda>v. []), re_hmac = (\<lambda>k b. [])\<rparr>
      (quick_event [] ''sweep'' ''ok'' SevInfo None) [FileSink ''f'' 10, CliSink ''pretty'' ''warning''])
   \<le> length (emit_event \<lparr>re_dumps = (\<lambda>v. []), re_indented = (\<lambda>v. []), re_hmac = (\<lambda>k b. [])\<rparr>
      (quick_event [] ''sweep'' ''bad'' SevError None) [FileSink ''f'' 10, CliSink ''pretty'' ''warning''])"
proof -
  have "rv_severity (quick_event [] ''sweep'' ''ok'' SevInfo None) \<le> rv_severity (quick_event [] ''sweep'' ''bad'' SevError None)"
    by (simp add: quick_event_def less_eq_severity_def)
  from dispatch_respects_severity [OF this, THEN conjunct1] show ?thesis .
qed

lemma report_file_bounded_witness:
  "\<exists>t. rf_file (file_emits 4 [''aa'', ''bb'', ''cc''] \<lparr>rf_file = None, rf_rotated = None\<rparr>) = Some (t @ ''cc'' @ [CHR 0x0A])
    \<and> int (length (t @ ''cc'' @ [CHR 0x0A])) \<le> 4 + 2"
  using report_file_bounded [of 4 "[''aa'', ''bb'', ''cc'']" "\<lparr>rf_file = None, rf_rotated = None\<rparr>"] by simp

text \<open>Settings that are read and not used: the report-wide minimum is no argument at all, the time allowed to a webhook and the
  number of older files are not looked at.\<close>

lemma webhook_timeout_ignored:
  "dispatcher_from_settings env (c\<lparr>wc_timeout := t, fc_backups := n, tc_rate := k\<rparr>) = dispatcher_from_settings env c"
  by (simp add: dispatcher_from_settings_def configured_pipe_def Let_def)

text \<open>The documented example \<open>command: ["jq", ...]\<close>: with the default \<open>use_stdin\<close> the name has to be a file, so no
  dispatcher is built and the other sinks are lost too.\<close>

lemma command_off_disk_breaks_all:
  assumes "pc_enabled c" "pi_command (pc_sink c) = cmd # args" "pi_stdin (pc_sink c)" "\<not> dp_on_disk env cmd"
  shows "dispatcher_from_settings env c = Inl (CommandNotFound cmd)"
  using assms by (simp add: dispatcher_from_settings_def configured_pipe_def new_pipe_sink_def Let_def)

text \<open>A signed event: the signature is over the very body that is posted.\<close>

lemma webhook_signs_its_body:
  "deliver env e (WebhookSink (Some url) (Some secret) header timeout m) = Some d \<Longrightarrow> secret \<noteq> [] \<Longrightarrow>
    \<exists>body hs. d = WebhookPost url (hs @ [(header, ''sha256='' @ re_hmac env secret body)]) body timeout"
  by (auto simp: deliver_def Let_def given_def split: if_splits list.splits)

text \<open>The console gets no escape sequence.\<close>

lemma strip_ansi_plain: "CHR 0x1B \<notin> set s \<Longrightarrow> strip_ansi s = s"
  by (induction s rule: strip_ansi.induct) auto

end
