(* ===== verification/RunReports.thy ===== *)
theory RunReports
  imports Reports Worker Dream
begin

text \<open>
  The dispatcher inside \<open>run_cron_sweep\<close> and \<open>run_dream_consolidation\<close>: it is built after the queue is opened and before
  anything else, and gets one event at the end.  \<open>rest_of_run\<close> is the run of the coroutines a sweep has launched, any sequence of
  \<open>sweep_step\<close>s that leaves none of them.
\<close>

subsection \<open>The sweep\<close>

record sweep_clock =
  sl_now :: int
  sl_elapsed :: "episode_record \<Rightarrow> real"
  sl_duration :: string
  sl_duration_value :: pyval
  sl_timestamp :: string
  sl_event_time :: string

definition sweep_summary_dict :: "sweep_clock \<Rightarrow> sweep_summary \<Rightarrow> pydict" where
  "sweep_summary_dict clk x =
     [(''processed'', PyInt (ss_processed x)), (''succeeded'', PyInt (ss_succeeded x)), (''failed'', PyInt (ss_failed x)),
      (''reaped'', PyInt (ss_reaped x)), (''duration_ms'', sl_duration_value clk),
      (''queued_remaining'', PyInt (ss_queued_remaining x)), (''dlq_count'', PyInt (ss_dlq_count x)),
      (''total_episodes'', PyInt (ss_total_episodes x)), (''timestamp'', PyStr (sl_timestamp clk))]"

definition sweep_text :: "sweep_clock \<Rightarrow> sweep_summary \<Rightarrow> string" where
  "sweep_text clk x =
     ''Sweep completed: '' @ show_int (ss_succeeded x) @ ''/'' @ show_int (ss_processed x) @ '' ok, '' @ show_int (ss_failed x) @
     '' fail, '' @ show_int (ss_queued_remaining x) @ '' left ('' @ sl_duration clk @ ''ms)''"

definition sweep_event :: "sweep_clock \<Rightarrow> sweep_summary \<Rightarrow> report_event" where
  "sweep_event clk x =
     quick_event (sl_event_time clk) ''cron_sweep'' (sweep_text clk x) (if ss_is_error x then SevError else SevInfo)
       (Some (sweep_summary_dict clk x))"

datatype run_problem = QueueRaised py_exception | SinkRaised sink_error

text \<open>The store is returned in any case.\<close>

definition run_cron_sweep ::
  "dispatch_env \<Rightarrow> sinks_config \<Rightarrow> render_env \<Rightarrow> (string \<Rightarrow> string) \<Rightarrow> (string \<Rightarrow> int) \<Rightarrow> sweep_settings \<Rightarrow> sweep_clock \<Rightarrow>
   (sweep \<Rightarrow> sweep) \<Rightarrow> store \<Rightarrow> (run_problem + (sweep_summary \<times> delivery list)) \<times> store" where
  "run_cron_sweep denv sinks_cfg renv sha rd cfg clk rest_of_run s =
     (case open_queue sha s of
        Inl e \<Rightarrow> (Inl (QueueRaised e), s)
      | Inr q \<Rightarrow>
          (case dispatcher_from_settings denv sinks_cfg of
             Inl e \<Rightarrow> (Inl (SinkRaised e), q_store q)
           | Inr sinks \<Rightarrow>
               (case launch_sweep cfg rd (sl_elapsed clk) (sl_now clk) (q_store q) of
                  Inl e \<Rightarrow>
                    (Inl (QueueRaised e), snd (reap_stuck_processing rd (sw_reap_timeout cfg) 3 (sl_now clk) (q_store q)))
                | Inr (n_reaped, records, w) \<Rightarrow>
                    let w' = rest_of_run w; x = sweep_summary_of n_reaped records w'
                    in (Inr (x, emit_event renv (sweep_event clk x) sinks), sp_store w'))))"

subsection \<open>The dream\<close>

record dream_report_text =
  dt_duration :: string
  dt_event_time :: string
  dt_details :: "dream_results \<Rightarrow> pydict"

definition dream_event :: "dream_report_text \<Rightarrow> string \<Rightarrow> dream_results \<Rightarrow> report_event" where
  "dream_event dt run_id r =
     quick_event (dt_event_time dt) ''dream_consolidation''
       (''Dream Mode completed in '' @ dt_duration dt @ ''ms (run_id='' @ take 8 run_id @ '')'') SevInfo (Some (dt_details dt r))"

definition run_dream ::
  "dispatch_env \<Rightarrow> sinks_config \<Rightarrow> render_env \<Rightarrow> (string \<Rightarrow> string) \<Rightarrow> dream_env \<Rightarrow> dream_config \<Rightarrow> dream_report_text \<Rightarrow> bool \<Rightarrow>
   string option \<Rightarrow> session \<times> store \<Rightarrow> (run_problem + (dream_results \<times> delivery list)) \<times> session \<times> store" where
  "run_dream denv sinks_cfg renv sha env cfg dt force group_id x =
     (case open_queue sha (snd x) of
        Inl e \<Rightarrow> (Inl (QueueRaised e), x)
      | Inr q \<Rightarrow>
          (case dispatcher_from_settings denv sinks_cfg of
             Inl e \<Rightarrow> (Inl (SinkRaised e), fst x, q_store q)
           | Inr sinks \<Rightarrow>
               (case run_dream_consolidation env cfg force group_id (fst x, q_store q) of
                  (r, ss, s) \<Rightarrow> (Inr (r, emit_event renv (dream_event dt (ev_run_id env) r) sinks), ss, s))))"

subsection \<open>Properties\<close>

lemma emitted_iff: "d \<in> set (emit_event renv e sinks) \<longleftrightarrow> (\<exists>k \<in> set sinks. deliver renv e k = Some d)"
  by (auto simp: emit_event_def List.map_filter_def image_iff)

lemma emit_silent: "(\<And>k. k \<in> set sinks \<Longrightarrow> deliver renv e k = None) \<Longrightarrow> emit_event renv e sinks = []"
  by (induction sinks) (auto simp: emit_event_def List.map_filter_simps)

text \<open>as long as the command of the pipe sink is not a file on disk, no sweep claims a row and no dream runs: both raise when they
  build the dispatcher, and the only thing they have done to the store is to open it.\<close>

theorem missing_command_stops_pipeline:
  assumes "pc_enabled c" "pi_command (pc_sink c) = cmd # args" "pi_stdin (pc_sink c)" "\<not> dp_on_disk denv cmd"
    and "open_queue sha s = Inr q"
  shows "run_cron_sweep denv c renv sha rd cfg clk rest_of_run s = (Inl (SinkRaised (CommandNotFound cmd)), q_store q) \<and>
    run_dream denv c renv sha env dcfg dt force group_id (ss, s) = (Inl (SinkRaised (CommandNotFound cmd)), ss, q_store q)"
  using command_off_disk_breaks_all [OF assms(1-4)] assms(5) by (simp add: run_cron_sweep_def run_dream_def)

text \<open>The sweep's event is an error exactly when a record failed; the dream's never is one, whatever failed.\<close>

lemma sweep_event_severity: "rv_severity (sweep_event clk x) = (if ss_is_error x then SevError else SevInfo)"
  by (simp add: sweep_event_def quick_event_def)

lemma dream_event_severity: "rv_severity (dream_event dt i r) = SevInfo"
  by (simp add: dream_event_def quick_event_def)

definition sink_minimum :: "sink \<Rightarrow> string option" where
  "sink_minimum k =
     (case k of FileSink p n \<Rightarrow> None | CliSink f m \<Rightarrow> Some m | TelegramSink t c m \<Rightarrow> Some m | PipeSink p \<Rightarrow> Some (pi_min p)
      | WebhookSink u x h t m \<Rightarrow> Some m)"

lemma deliver_below: "sink_minimum k = Some m \<Longrightarrow> \<not> is_at_least (rv_severity e) m \<Longrightarrow> deliver renv e k = None"
  by (cases k) (auto simp: sink_minimum_def deliver_def)

text \<open>what a sweep reports: it says an error exactly when a record of the batch failed, and the counts it gives are those of the
  batch and of the tables it leaves.\<close>

theorem sweep_report_contract:
  assumes "run_cron_sweep denv c renv sha rd cfg clk rest_of_run s = (Inr (x, out), s')"
  shows "\<exists>q sinks n_reaped records w. open_queue sha s = Inr q \<and> dispatcher_from_settings denv c = Inr sinks \<and>
    launch_sweep cfg rd (sl_elapsed clk) (sl_now clk) (q_store q) = Inr (n_reaped, records, w) \<and>
    s' = sp_store (rest_of_run w) \<and> out = emit_event renv (sweep_event clk x) sinks \<and>
    ss_processed x = int (length records) \<and> ss_failed x = int (sp_failed (rest_of_run w)) \<and>
    ss_total_episodes x = int (length (st_episodes s')) \<and>
    (rv_severity (sweep_event clk x) = SevError \<longleftrightarrow> 0 < ss_failed x)"
  using assms
  by (auto simp: run_cron_sweep_def sweep_summary_of_def sweep_event_severity count_total_def Let_def split: sum.splits prod.splits)

text \<open>A dream whose phases failed is reported as an information: a sink that asks for warnings gets nothing.\<close>

lemma failed_dream_is_silent:
  assumes "\<And>k. k \<in> set sinks \<Longrightarrow> \<exists>m. sink_minimum k = Some (severity_value m) \<and> SevInfo < m"
  shows "emit_event renv (dream_event dt i r) sinks = []"
proof (rule emit_silent)
  fix k assume "k \<in> set sinks"
  then obtain m where "sink_minimum k = Some (severity_value m)" "SevInfo < m" using assms by blast
  then show "deliver renv (dream_event dt i r) k = None"
    using is_at_least_iff [of SevInfo m] by (intro deliver_below) (auto simp: dream_event_severity)
qed

definition sample_sinks :: sinks_config where
  "sample_sinks = default_sinks_config\<lparr>pc_enabled := True, pc_sink := (pc_sink default_sinks_config)\<lparr>pi_command := [''jq'', ''-r'']\<rparr>\<rparr>"

definition bare_env :: dispatch_env where
  "bare_env = \<lparr>dp_anchor = id, dp_environ = (\<lambda>n. None), dp_on_disk = (\<lambda>f. False)\<rparr>"

definition bare_render :: render_env where
  "bare_render = \<lparr>re_dumps = (\<lambda>v. []), re_indented = (\<lambda>v. []), re_hmac = (\<lambda>k b. [])\<rparr>"

definition sample_clock :: sweep_clock where
  "sample_clock = \<lparr>sl_now = 0, sl_elapsed = (\<lambda>r. 0), sl_duration = ''1.0'', sl_duration_value = PyInt 1, sl_timestamp = [], sl_event_time = []\<rparr>"

abbreviation opened_empty :: store where
  "opened_empty \<equiv> empty_store\<lparr>st_unique := True\<rparr>"

lemma empty_opens: "open_queue (\<lambda>t. t) empty_store = Inr \<lparr>q_store = opened_empty, q_hits = 0, q_mode_cache = None\<rparr>"
  by code_simp

definition plain_sweep :: sweep_settings where
  "plain_sweep = \<lparr>sw_batch = 50, sw_concurrency = 2, sw_record_timeout = 900, sw_sweep_timeout = 900, sw_reap_timeout = 900\<rparr>"

lemma empty_launches:
  "launch_sweep plain_sweep (\<lambda>t. 0) el 0 opened_empty = Inr (0, [], start_sweep el 900 0 [] opened_empty)"
proof -
  have "reap_stuck_processing (\<lambda>t. 0) 900 3 0 opened_empty = (0, opened_empty)" "claim_next_batch (Some 50) 0 opened_empty = Inr ([], opened_empty)"
    by code_simp+
  then show ?thesis by (simp add: launch_sweep_def plain_sweep_def)
qed

lemma missing_command_stops_pipeline_witness:
  "\<exists>t. run_cron_sweep bare_env sample_sinks bare_render (\<lambda>t. t) (\<lambda>t. 0) plain_sweep sample_clock id empty_store =
    (Inl (SinkRaised (CommandNotFound ''jq'')), t)"
proof -
  from missing_command_stops_pipeline [OF _ _ _ _ empty_opens, of sample_sinks "''jq''" "[''-r'']" bare_env] show ?thesis
    by (auto simp: sample_sinks_def default_sinks_config_def bare_env_def)
qed

lemma sweep_report_contract_witness:
  "\<exists>x out s'. run_cron_sweep bare_env default_sinks_config bare_render (\<lambda>t. t) (\<lambda>t. 0) plain_sweep sample_clock id empty_store =
      (Inr (x, out), s') \<and> ss_total_episodes x = int (length (st_episodes s'))"
proof -
  have "\<exists>sinks. dispatcher_from_settings bare_env default_sinks_config = Inr sinks"
    by (simp add: dispatcher_from_settings_def default_sinks_config_def)
  then obtain x out s' where run: "run_cron_sweep bare_env default_sinks_config bare_render (\<lambda>t. t) (\<lambda>t. 0) plain_sweep sample_clock id empty_store =
      (Inr (x, out), s')"
    by (auto simp: run_cron_sweep_def empty_opens empty_launches sample_clock_def Let_def)
  moreover have "ss_total_episodes x = int (length (st_episodes s'))" using sweep_report_contract [OF run] by blast
  ultimately show ?thesis by blast
qed

end
