(* ===== verification/VendorPatch.thy ===== *)
theory VendorPatch
  imports GraphSearch
begin

text \<open>
  \<open>heuristics/vendor_patches/falkor_edge_search.py\<close>: the runtime patch of three functions of the graph library.  A site is a module
  with the function bound in it (or in a class of it) and the original remembered on it.  \<open>build\<close> is what dedenting, compiling
  and executing a text gives, if it succeeds.
\<close>

definition unpatched_edge_match :: string where
  "unpatched_edge_match = ''MATCH (n:Entity)-[e:RELATES_TO {uuid: rel.uuid}]->(m:Entity)''"

definition patched_edge_match :: string where
  "patched_edge_match = ''MATCH (n)-[e:RELATES_TO {uuid: rel.uuid}]->(m)''"

text \<open>\<open>vf_text\<close>: the source, empty when it cannot be read.\<close>

record vendor_fn =
  vf_text :: string
  vf_marked :: bool

record vendor_site =
  vs_importable :: bool
  vs_fn :: "vendor_fn option"
  vs_original :: "vendor_fn option"

datatype patch_problem = ImportFailed | FunctionMissing | AnchorMissing | RebuildFailed

record patch_report =
  pr_applied :: bool
  pr_patched :: "string list"
  pr_skipped :: "string list"
  pr_already :: bool
  pr_fixed :: bool
  pr_version :: string
  pr_errors :: "(string \<times> patch_problem) list"

definition new_report :: "string \<Rightarrow> patch_report" where
  "new_report version =
     \<lparr>pr_applied = False, pr_patched = [], pr_skipped = [], pr_already = False, pr_fixed = False, pr_version = version, pr_errors = []\<rparr>"

definition rebuild_from_source :: "(string \<Rightarrow> string option) \<Rightarrow> vendor_fn \<Rightarrow> vendor_fn option" where
  "rebuild_from_source build f =
     (if \<not> py_in unpatched_edge_match (vf_text f) then None
      else map_option (\<lambda>t. \<lparr>vf_text = t, vf_marked = False\<rparr>)
        (build (py_replace unpatched_edge_match patched_edge_match (vf_text f))))"

definition add_problem :: "string \<Rightarrow> patch_problem \<Rightarrow> patch_report \<Rightarrow> patch_report" where
  "add_problem name p r = r\<lparr>pr_errors := pr_errors r @ [(name, p)]\<rparr>"

definition patch_one ::
  "(string \<Rightarrow> string option) \<Rightarrow> string \<Rightarrow> vendor_site \<Rightarrow> patch_report \<Rightarrow> vendor_site \<times> patch_report" where
  "patch_one build name s r =
     (if \<not> vs_importable s then (s, add_problem name ImportFailed r)
      else case vs_fn s of
          None \<Rightarrow> (s, add_problem name FunctionMissing r)
        | Some f \<Rightarrow>
            let src = vf_text f in
            if vf_marked f then (s, r\<lparr>pr_skipped := pr_skipped r @ [name @ ''(already)'']\<rparr>)
            else if py_in patched_edge_match src \<and> \<not> py_in unpatched_edge_match src
              then (s, r\<lparr>pr_skipped := pr_skipped r @ [name @ ''(upstream)''], pr_fixed := True\<rparr>)
            else if src \<noteq> [] \<and> \<not> py_in unpatched_edge_match src then (s, add_problem name AnchorMissing r)
            else case rebuild_from_source build f of
                None \<Rightarrow> (s, add_problem name RebuildFailed r)
              | Some g \<Rightarrow>
                  (s\<lparr>vs_original := Some f, vs_fn := Some (g\<lparr>vf_marked := True\<rparr>)\<rparr>, r\<lparr>pr_patched := pr_patched r @ [name]\<rparr>))"

record vendor =
  ve_utils :: vendor_site
  ve_ops :: vendor_site
  ve_search :: vendor_site

text \<open>The report is \<open>None\<close> when the call raises: the module or class of a site is fetched before the site is patched.\<close>

definition apply_falkor_edge_search_patch ::
  "(string \<Rightarrow> string option) \<Rightarrow> string \<Rightarrow> vendor \<Rightarrow> patch_report option \<times> vendor" where
  "apply_falkor_edge_search_patch build version v =
     (if \<not> vs_importable (ve_utils v) then (None, v)
      else case patch_one build ''search_utils'' (ve_utils v) (new_report version) of
        (utils, r1) \<Rightarrow>
          let v1 = v\<lparr>ve_utils := utils\<rparr> in
          if \<not> vs_importable (ve_ops v) then (None, v1)
          else case patch_one build ''search_ops'' (ve_ops v) r1 of
            (ops, r2) \<Rightarrow>
              let v2 = v1\<lparr>ve_ops := ops\<rparr> in
              if \<not> vs_importable (ve_search v) then (None, v2)
              else case patch_one build ''search'' (ve_search v) r2 of
                (search, r3) \<Rightarrow>
                  (Some (r3\<lparr>pr_applied := pr_patched r3 \<noteq> [], pr_already := (pr_patched r3 = [] \<and> pr_errors r3 = [])\<rparr>),
                   v2\<lparr>ve_search := search\<rparr>))"

definition uninstall_site :: "vendor_site \<Rightarrow> bool \<times> vendor_site" where
  "uninstall_site s =
     (if \<not> vs_importable s then (False, s)
      else case vs_original s of
          None \<Rightarrow> (False, s)
        | Some f \<Rightarrow> (True, s\<lparr>vs_fn := Some f, vs_original := None\<rparr>))"

definition uninstall_falkor_edge_search_patch :: "vendor \<Rightarrow> bool \<times> vendor" where
  "uninstall_falkor_edge_search_patch v =
     (let (a, utils) = uninstall_site (ve_utils v); (b, ops) = uninstall_site (ve_ops v); (c, search) = uninstall_site (ve_search v)
      in (a \<or> b \<or> c, v\<lparr>ve_utils := utils, ve_ops := ops, ve_search := search\<rparr>))"

subsection \<open>Properties\<close>

lemma patch_one_cases:
  "patch_one build name s r = (s', r') \<Longrightarrow>
    s' = s \<and> pr_patched r' = pr_patched r \<or>
    (\<exists>f g. vs_importable s \<and> vs_fn s = Some f \<and> s' = s\<lparr>vs_original := Some f, vs_fn := Some (g\<lparr>vf_marked := True\<rparr>)\<rparr> \<and> pr_patched r' = pr_patched r @ [name])"
  by (auto simp: patch_one_def add_problem_def Let_def split: if_splits option.splits)

lemma patch_one_importable: "vs_importable (fst (patch_one build name s r)) = vs_importable s"
  by (auto simp: patch_one_def Let_def split: option.splits)

lemma patch_one_undone:
  assumes "vs_original s = None"
  shows "snd (uninstall_site (fst (patch_one build name s r))) = s"
proof -
  obtain s' r' where run: "patch_one build name s r = (s', r')" by (metis prod.exhaust)
  from patch_one_cases [OF run] assms show ?thesis
    by (auto simp: run uninstall_site_def)
qed

lemma uninstall_untouched: "vs_original s = None \<Longrightarrow> uninstall_site s = (False, s)"
  by (simp add: uninstall_site_def)

text \<open>A second attempt on a site changes nothing.\<close>

lemma patch_one_again:
  "fst (patch_one build name (fst (patch_one build name s r)) r2) = fst (patch_one build name s r) \<and>
   pr_patched (snd (patch_one build name (fst (patch_one build name s r)) r2)) = pr_patched r2"
  by (auto simp: patch_one_def add_problem_def Let_def split: option.splits)

text \<open>C17: removing the patch restores every function as it was before, also when applying it raised half way; applying it again after
  a success changes no function.\<close>

theorem patch_is_reversible:
  assumes "vs_original (ve_utils v) = None" "vs_original (ve_ops v) = None" "vs_original (ve_search v) = None"
    and "apply_falkor_edge_search_patch build version v = (result, v')"
  shows "snd (uninstall_falkor_edge_search_patch v') = v \<and>
    (case result of None \<Rightarrow> True
     | Some r \<Rightarrow> \<exists>r2. apply_falkor_edge_search_patch build version v' = (Some r2, v') \<and> \<not> pr_applied r2)"
proof -
  obtain u r1 where u: "patch_one build ''search_utils'' (ve_utils v) (new_report version) = (u, r1)" by (metis prod.exhaust)
  obtain w r2 where w: "patch_one build ''search_ops'' (ve_ops v) r1 = (w, r2)" by (metis prod.exhaust)
  obtain x r3 where x: "patch_one build ''search'' (ve_search v) r2 = (x, r3)" by (metis prod.exhaust)
  note undone = patch_one_undone [OF assms(1), of build "''search_utils''" "new_report version", unfolded u fst_conv]
    patch_one_undone [OF assms(2), of build "''search_ops''" r1, unfolded w fst_conv]
    patch_one_undone [OF assms(3), of build "''search''" r2, unfolded x fst_conv]
  note same = uninstall_untouched [OF assms(2)] uninstall_untouched [OF assms(3)] uninstall_untouched [OF assms(1)]
  note importable = patch_one_importable [of build "''search_utils''" "ve_utils v" "new_report version", unfolded u fst_conv]
    patch_one_importable [of build "''search_ops''" "ve_ops v" r1, unfolded w fst_conv]
    patch_one_importable [of build "''search''" "ve_search v" r2, unfolded x fst_conv]
  have runs: "(result = None \<and> (v' = v \<or> v' = v\<lparr>ve_utils := u\<rparr> \<or> v' = v\<lparr>ve_utils := u, ve_ops := w\<rparr>)) \<or>
      (result \<noteq> None \<and> v' = v\<lparr>ve_utils := u, ve_ops := w, ve_search := x\<rparr> \<and> vs_importable (ve_utils v) \<and> vs_importable (ve_ops v) \<and> vs_importable (ve_search v))"
    using assms(4) by (auto simp: apply_falkor_edge_search_patch_def u w x Let_def split: if_splits)
  have "snd (uninstall_falkor_edge_search_patch v') = v"
    using runs undone same by (auto simp: uninstall_falkor_edge_search_patch_def Let_def split: prod.splits)
  moreover have "\<exists>r2. apply_falkor_edge_search_patch build version v' = (Some r2, v') \<and> \<not> pr_applied r2" if "result \<noteq> None"
  proof -
    have v': "v' = v\<lparr>ve_utils := u, ve_ops := w, ve_search := x\<rparr>" and imp: "vs_importable u" "vs_importable w" "vs_importable x"
      using runs that importable by auto
    obtain q1 where q1: "patch_one build ''search_utils'' u (new_report version) = (u, q1)" "pr_patched q1 = []"
      using patch_one_again [of build "''search_utils''" "ve_utils v" "new_report version" "new_report version", unfolded u fst_conv]
      by (metis new_report_def patch_report.select_convs(2) prod.collapse)
    obtain q2 where q2: "patch_one build ''search_ops'' w q1 = (w, q2)" "pr_patched q2 = []"
      using patch_one_again [of build "''search_ops''" "ve_ops v" r1 q1, unfolded w fst_conv] q1(2) by (metis prod.collapse)
    obtain q3 where q3: "patch_one build ''search'' x q2 = (x, q3)" "pr_patched q3 = []"
      using patch_one_again [of build "''search''" "ve_search v" r2 q2, unfolded x fst_conv] q2(2) by (metis prod.collapse)
    show ?thesis using imp by (simp add: apply_falkor_edge_search_patch_def v' q1 q2 q3 Let_def)
  qed
  ultimately show ?thesis by (cases result) auto
qed

definition sample_site :: vendor_site where
  "sample_site = \<lparr>vs_importable = True, vs_fn = Some \<lparr>vf_text = ''q = '' @ unpatched_edge_match, vf_marked = False\<rparr>, vs_original = None\<rparr>"

definition sample_vendor :: vendor where
  "sample_vendor = \<lparr>ve_utils = sample_site, ve_ops = sample_site\<lparr>vs_importable := False\<rparr>, ve_search = sample_site\<rparr>"

lemma patch_is_reversible_witness:
  "snd (uninstall_falkor_edge_search_patch (snd (apply_falkor_edge_search_patch Some ''0.30.1'' sample_vendor))) = sample_vendor"
  using patch_is_reversible [of sample_vendor Some "''0.30.1''" "fst (apply_falkor_edge_search_patch Some ''0.30.1'' sample_vendor)"
      "snd (apply_falkor_edge_search_patch Some ''0.30.1'' sample_vendor)"]
  by (simp add: sample_vendor_def sample_site_def)

text \<open>The module says that it never raises; a site whose module cannot be imported raises, and the sites before it stay patched.\<close>

lemma missing_module_raises:
  "fst (apply_falkor_edge_search_patch Some ''0.30.1'' sample_vendor) = None \<and>
   ve_utils (snd (apply_falkor_edge_search_patch Some ''0.30.1'' sample_vendor)) \<noteq> sample_site"
  by code_simp

end
