(* ===== verification/EngineServer.thy ===== *)
theory EngineServer
  imports Lifespan PyNumber
begin

text \<open>
  \<open>engine/server.py\<close>: the manager of the engine's process, whose \<open>start()\<close> the boot sequence, the supervisor and the restart
  policy call.  A host is what the manager reads: its pid file, which process numbers accept signal 0, and the files of
  \<open>bin_dir\<close>.
\<close>

subsection \<open>Configuration and host\<close>

record engine_config =
  ec_host :: string
  ec_port :: int
  ec_bin_dir :: string
  ec_data_dir :: string
  ec_pid_file :: string
  ec_log_file :: string
  ec_save_interval :: int
  ec_max_memory :: int

definition default_engine_config :: engine_config where
  "default_engine_config =
     \<lparr>ec_host = ''127.0.0.1'', ec_port = 6379, ec_bin_dir = ''./bin'', ec_data_dir = ''./data/falkordb'',
      ec_pid_file = ''./data/falkordb/falkordb.pid'', ec_log_file = ''./data/logs/falkordb.log'',
      ec_save_interval = 900, ec_max_memory = 1024\<rparr>"

record engine_host =
  eh_pid_file :: "string option"
  eh_live :: "int \<Rightarrow> bool"
  eh_files :: "string \<Rightarrow> bool"

text \<open>The process number in the pid file; \<open>int()\<close> strips the text itself too.\<close>

definition host_pid :: "engine_host \<Rightarrow> int option" where
  "host_pid h = Option.bind (eh_pid_file h) (\<lambda>t. parse_int (py_strip t))"

text \<open>\<open>os.kill\<close> takes a 32-bit number; another one is an \<open>OverflowError\<close>, which nobody catches.\<close>

definition fits_pid :: "int \<Rightarrow> bool" where
  "fits_pid p \<longleftrightarrow> - (2 ^ 31) \<le> p \<and> p < 2 ^ 31"

subsection \<open>Operations\<close>

definition resolve_binary_paths :: "string \<Rightarrow> engine_host \<Rightarrow> string \<times> string" where
  "resolve_binary_paths arch h =
     (if eh_files h ''redis-server-8'' then ''redis-server-8'' else ''redis-server'',
      if eh_files h ''falkordb.so'' then ''falkordb.so'' else ''falkordb.'' @ arch @ ''.so'')"

text \<open>\<open>None\<close>: the call raises.\<close>

definition manager_is_running :: "engine_host \<Rightarrow> bool option" where
  "manager_is_running h =
     (case host_pid h of
        None \<Rightarrow> Some False
      | Some p \<Rightarrow> if fits_pid p then Some (eh_live h p) else None)"

text \<open>What becomes of the command: the host half a second after it returned, or of when it was given up or failed.\<close>

datatype launch = LaunchDone engine_host | LaunchTimeout engine_host | LaunchFailed engine_host

definition start_command :: "(string \<Rightarrow> string) \<Rightarrow> engine_config \<Rightarrow> string \<times> string \<Rightarrow> string list" where
  "start_command show_path c bins =
     [show_path (ec_bin_dir c) @ ''/'' @ fst bins, ''--port'', show_int (ec_port c), ''--bind'', ec_host c,
      ''--dir'', show_path (ec_data_dir c), ''--loadmodule'', show_path (ec_bin_dir c) @ ''/'' @ snd bins,
      ''--daemonize'', ''yes'', ''--pidfile'', show_path (ec_pid_file c), ''--logfile'', show_path (ec_log_file c)]"

text \<open>The host afterwards, the outcome and the command that was run, if one was.\<close>

definition manager_start ::
  "(string \<Rightarrow> string) \<Rightarrow> string \<Rightarrow> engine_config \<Rightarrow> launch \<Rightarrow> engine_host \<Rightarrow> engine_host \<times> start_outcome \<times> string list option" where
  "manager_start show_path arch c launch h =
     (case manager_is_running h of
        None \<Rightarrow> (h, StartRaised, None)
      | Some True \<Rightarrow> (h, Started True, None)
      | Some False \<Rightarrow>
          (case resolve_binary_paths arch h of (redis, so) \<Rightarrow>
             if \<not> eh_files h redis \<or> \<not> eh_files h so then (h, StartRaised, None)
             else let cmd = Some (start_command show_path c (redis, so)) in
               case launch of
                 LaunchFailed h' \<Rightarrow> (h', StartRaised, cmd)
               | LaunchTimeout h' \<Rightarrow> (h', Started False, cmd)
               | LaunchDone h' \<Rightarrow>
                   (h', (case manager_is_running h' of None \<Rightarrow> StartRaised | Some r \<Rightarrow> Started r), cmd)))"

text \<open>\<open>after\<close>: the host half a second after the signal, \<open>None\<close> when the signal was refused.  The last component is the
  process the signal went to.\<close>

definition manager_stop :: "engine_host option \<Rightarrow> engine_host \<Rightarrow> engine_host \<times> bool option \<times> int option" where
  "manager_stop after h =
     (case manager_is_running h of
        None \<Rightarrow> (h, None, None)
      | Some False \<Rightarrow> (h, Some True, None)
      | Some True \<Rightarrow>
          (case after of
             None \<Rightarrow> (h, Some False, None)
           | Some h' \<Rightarrow> (h'\<lparr>eh_pid_file := None\<rparr>, Some True, host_pid h)))"

text \<open>The command line's \<open>engine restart\<close>: the answer of \<open>stop()\<close> is not looked at, unless it raises.\<close>

definition manager_restart ::
  "(string \<Rightarrow> string) \<Rightarrow> string \<Rightarrow> engine_config \<Rightarrow> engine_host option \<Rightarrow> launch \<Rightarrow> engine_host \<Rightarrow>
   engine_host \<times> start_outcome \<times> string list option" where
  "manager_restart show_path arch c after launch h =
     (case manager_stop after h of
        (h1, None, _) \<Rightarrow> (h1, StartRaised, None)
      | (h1, Some r, _) \<Rightarrow> manager_start show_path arch c launch h1)"

text \<open>What the boot sequence's check of the binary sees.\<close>

definition module_check :: "string \<Rightarrow> engine_host \<Rightarrow> binary_check" where
  "module_check arch h =
     (if eh_files h (snd (resolve_binary_paths arch h)) then BinaryPresent else BinaryMissing)"

subsection \<open>Properties\<close>

lemma running_has_pid: "manager_is_running h = Some True \<longleftrightarrow> (\<exists>p. host_pid h = Some p \<and> fits_pid p \<and> eh_live h p)"
  by (auto simp: manager_is_running_def split: option.splits if_splits)

lemma no_pid_file_not_running: "eh_pid_file h = None \<Longrightarrow> manager_is_running h = Some False"
  by (simp add: manager_is_running_def host_pid_def)

text \<open>\<open>start()\<close> runs a command only when no live process is on record and both binaries exist; it answers true only when a live
  process is on record afterwards; it raises without a command exactly for a bad process number or a missing binary.\<close>

theorem engine_start_contract:
  "(case manager_start show_path arch c launch h of (h', outcome, cmd) \<Rightarrow>
     (cmd \<noteq> None \<longleftrightarrow> manager_is_running h = Some False \<and> eh_files h (fst (resolve_binary_paths arch h)) \<and>
        eh_files h (snd (resolve_binary_paths arch h))) \<and>
     (cmd = None \<longrightarrow> h' = h \<and> (outcome = Started True \<or> outcome = StartRaised) \<and>
        (outcome = Started True \<longleftrightarrow> manager_is_running h = Some True)) \<and>
     (outcome = Started True \<longrightarrow> manager_is_running h' = Some True))"
  by (auto simp: manager_start_def resolve_binary_paths_def Let_def split: option.splits bool.splits launch.splits)

lemma start_after_running: "manager_is_running h = Some True \<Longrightarrow> manager_start show_path arch c launch h = (h, Started True, None)"
  by (simp add: manager_start_def)

text \<open>a stop that answers true leaves no process on record, and signals at most the process that was on record.\<close>

theorem engine_stop_contract:
  "(case manager_stop after h of (h', answer, signalled) \<Rightarrow>
     (answer = Some True \<longrightarrow> manager_is_running h' = Some False) \<and>
     (answer \<noteq> Some True \<longrightarrow> h' = h) \<and>
     (signalled \<noteq> None \<longrightarrow> answer = Some True \<and> signalled = host_pid h \<and> (\<exists>p. host_pid h = Some p \<and> eh_live h p)))"
proof -
  have "manager_is_running (x\<lparr>eh_pid_file := None\<rparr>) = Some False" for x
    by (rule no_pid_file_not_running) simp
  then show ?thesis by (auto simp: manager_stop_def running_has_pid split: option.splits bool.splits)
qed

text \<open>A pid file that names the process number of anything alive keeps the engine from ever being started again: the supervisor's
  probe counts a dead engine as alive, and a start does nothing and answers true.\<close>

theorem stale_pid_hides_dead_engine:
  assumes "manager_is_running h = Some True"
  shows "probe_reading (Some DEAD) (manager_is_running h) = (True, False) \<and>
    manager_start show_path arch c launch h = (h, Started True, None)"
  using assms by (simp add: start_after_running probe_reading_def)

text \<open>The boot sequence's check looks at the module only: without the server binary the policy stays enabled, and the start it
  allows raises, so that the first restart is fatal.\<close>

theorem boot_check_misses_server:
  assumes "manager_is_running h = Some False" "eh_files h ''falkordb.so''"
    and "\<not> eh_files h ''redis-server''" "\<not> eh_files h ''redis-server-8''"
  shows "check_falkordb_binary (module_check arch h) sv = sv \<and> manager_start show_path arch c launch h = (h, StartRaised, None)"
  using assms by (simp add: check_falkordb_binary_def module_check_def resolve_binary_paths_def manager_start_def)

lemma stale_pid_hides_dead_engine_witness:
  "probe_reading (Some DEAD) (manager_is_running \<lparr>eh_pid_file = Some ''77'', eh_live = (\<lambda>p. p = 77), eh_files = (\<lambda>n. True)\<rparr>) = (True, False)"
proof -
  have "manager_is_running \<lparr>eh_pid_file = Some ''77'', eh_live = (\<lambda>p. p = 77), eh_files = (\<lambda>n. True)\<rparr> = Some True" by code_simp
  from stale_pid_hides_dead_engine [OF this] show ?thesis by simp
qed

lemma boot_check_misses_server_witness:
  "snd (manager_start id ''aarch64'' default_engine_config (LaunchFailed h)
      \<lparr>eh_pid_file = None, eh_live = (\<lambda>p. False), eh_files = (\<lambda>n. n = ''falkordb.so'')\<rparr>) = (StartRaised, None)" for h
  using boot_check_misses_server [of "\<lparr>eh_pid_file = None, eh_live = (\<lambda>p. False), eh_files = (\<lambda>n. n = ''falkordb.so'')\<rparr>"
      "''aarch64''" _ id default_engine_config "LaunchFailed h"]
  by (simp add: no_pid_file_not_running)

text \<open>A stop does not wait for the process: half a second later its pid file is removed, so a restart runs a second server while the
  first one may still be writing its data.\<close>

lemma restart_beside_dying_server:
  assumes "host_pid h = Some p" "fits_pid p" "eh_live h p" "eh_live h1 p"
    and "eh_files h1 (fst (resolve_binary_paths arch h1))" "eh_files h1 (snd (resolve_binary_paths arch h1))"
  shows "snd (snd (manager_restart show_path arch c (Some h1) launch h)) = Some (start_command show_path c (resolve_binary_paths arch h1))"
proof -
  have running: "manager_is_running h = Some True" using assms(1,2,3) by (simp add: running_has_pid)
  have stopped: "manager_is_running (h1\<lparr>eh_pid_file := None\<rparr>) = Some False" by (rule no_pid_file_not_running) simp
  have same: "resolve_binary_paths arch (h1\<lparr>eh_pid_file := None\<rparr>) = resolve_binary_paths arch h1"
    by (simp add: resolve_binary_paths_def)
  show ?thesis
    using assms(5,6) by (simp add: manager_restart_def manager_stop_def running manager_start_def stopped same Let_def case_prod_beta split: launch.splits)
qed

text \<open>A pid file of \<open>0\<close> is a running engine as soon as signal 0 may be sent to the daemon's own process group, and a stop then
  terminates that group.\<close>

lemma zero_pid_signals_own_group:
  "eh_pid_file h = Some ''0'' \<Longrightarrow> eh_live h 0 \<Longrightarrow> manager_stop (Some h') h = (h'\<lparr>eh_pid_file := None\<rparr>, Some True, Some 0)"
proof -
  assume h: "eh_pid_file h = Some ''0''" "eh_live h 0"
  have "parse_int (py_strip ''0'') = Some 0" by code_simp
  then show ?thesis using h by (simp add: manager_stop_def manager_is_running_def host_pid_def fits_pid_def)
qed

lemma huge_pid_raises:
  "eh_pid_file h = Some ''4294967296'' \<Longrightarrow> manager_is_running h = None"
proof -
  have "parse_int (py_strip ''4294967296'') = Some 4294967296" by code_simp
  then show "eh_pid_file h = Some ''4294967296'' \<Longrightarrow> manager_is_running h = None"
    by (simp add: manager_is_running_def host_pid_def fits_pid_def)
qed

text \<open>Neither the save interval nor the memory limit reaches the engine.\<close>

lemma engine_limits_ignored:
  "manager_start show_path arch (c\<lparr>ec_save_interval := n, ec_max_memory := m\<rparr>) launch h = manager_start show_path arch c launch h"
proof -
  have "start_command show_path (c\<lparr>ec_save_interval := n, ec_max_memory := m\<rparr>) bins = start_command show_path c bins" for bins
    by (simp add: start_command_def)
  then show ?thesis unfolding manager_start_def by (simp only:)
qed

end
