(* ===== verification/ConfigLoad.thy ===== *)
theory ConfigLoad
  imports Migration Settings VendorPatch EmbedCache EngineServer
begin

text \<open>
  \<open>config.py\<close>, where the settings come from: the home directory, the default file, the sources of the settings object and
  \<open>load_config\<close>; and \<open>core/instance.py\<close>, what is built from them.  The settings library, which combines the sources, is a
  parameter: a function from the sources, the first of which counts most, to the value of a setting.
\<close>

subsection \<open>Home directory and default file\<close>

text \<open>\<open>expand\<close> resolves a path after expanding \<open>~\<close>, \<open>user_home\<close> is the home directory of the user.\<close>

definition resolve_home :: "environ \<Rightarrow> (string \<Rightarrow> string) \<Rightarrow> string \<Rightarrow> string" where
  "resolve_home env expand user_home =
     (case env ''JANUS_GRAPH_HOME'' of
        Some (c # cs) \<Rightarrow> expand (c # cs)
      | _ \<Rightarrow> expand (user_home @ ''/.janus-graph''))"

text \<open>\<open>expanduser\<close> is given apart from \<open>resolve\<close>: an absolute path is only expanded.\<close>

definition resolve_home_relative :: "(string \<Rightarrow> string) \<Rightarrow> (string \<Rightarrow> string) \<Rightarrow> string \<Rightarrow> string \<Rightarrow> string" where
  "resolve_home_relative expanduser resolve home raw =
     (let path = expanduser raw in if absolute_path path then path else resolve (home @ ''/'' @ path))"

definition resolve_default_yaml_file :: "environ \<Rightarrow> (string \<Rightarrow> bool) \<Rightarrow> string \<Rightarrow> string option" where
  "resolve_default_yaml_file env exists home =
     (let given_path = (case env ''JANUS_CONFIG_PATH'' of Some (c # cs) \<Rightarrow> [c # cs] | _ \<Rightarrow> [])
      in find exists (given_path @ [home @ ''/config.yaml'', ''config.yaml'', ''config.example.yaml'']))"

subsection \<open>Sources\<close>

datatype settings_source = FromInit | FromEnvironment | FromYaml string | FromDotenv | FromSecrets

definition settings_sources :: "(string \<Rightarrow> bool) \<Rightarrow> string option \<Rightarrow> settings_source list" where
  "settings_sources exists yaml_file =
     (case yaml_file of
        Some f \<Rightarrow> if exists f then [FromInit, FromEnvironment, FromYaml f, FromSecrets]
                  else [FromInit, FromEnvironment, FromDotenv, FromSecrets]
      | None \<Rightarrow> [FromInit, FromEnvironment, FromDotenv, FromSecrets])"

text \<open>\<open>Path.suffix\<close>.\<close>

definition path_name :: "string \<Rightarrow> string" where
  "path_name p = rev (takeWhile (\<lambda>c. c \<noteq> CHR ''/'') (rev p))"

definition path_suffix :: "string \<Rightarrow> string" where
  "path_suffix p =
     (let name = path_name p; ext = rev (takeWhile (\<lambda>c. c \<noteq> CHR ''.'') (rev name)) in
      if ext \<noteq> [] \<and> length ext + 1 < length name then ''.'' @ ext else [])"

text \<open>What the file gives the settings object.  The inner option of a file is \<open>None\<close> when reading or parsing it raises.\<close>

datatype load_problem = FileRaised | ConvertRaised py_exception

definition has_legacy_shape :: "pydict \<Rightarrow> bool" where
  "has_legacy_shape d \<longleftrightarrow> \<not> dict_has d ''graphiti'' \<and> (dict_has d ''llm'' \<or> dict_has d ''server'' \<or> dict_has d ''database'')"

definition load_config_init :: "(string \<times> pyval option option) option \<Rightarrow> load_problem + pydict" where
  "load_config_init path =
     (case path of
        None \<Rightarrow> Inr []
      | Some (p, None) \<Rightarrow> Inr []
      | Some (p, Some file) \<Rightarrow>
          if path_suffix p \<in> {''.yaml'', ''.yml''} then
            (case file of
               None \<Rightarrow> Inl FileRaised
             | Some (PyDict d) \<Rightarrow> if has_legacy_shape d then map_sum ConvertRaised id (convert_legacy_dict d) else Inr d
             | Some v \<Rightarrow> Inr [])
          else if path_suffix p = ''.json'' then
            (case file of
               None \<Rightarrow> Inl FileRaised
             | Some (PyDict d) \<Rightarrow> map_sum ConvertRaised id (convert_legacy_dict d)
             | Some v \<Rightarrow> Inl (ConvertRaised AttributeError))
          else Inr [])"

text \<open>The content of a source; \<open>settle\<close> is the settings library.\<close>

type_synonym 'a settle = "pydict list \<Rightarrow> string list \<Rightarrow> 'a"

definition load_config ::
  "'a settle \<Rightarrow> (settings_source \<Rightarrow> pydict) \<Rightarrow> settings_source list \<Rightarrow> (string \<times> pyval option option) option \<Rightarrow>
   load_problem + (string list \<Rightarrow> 'a)" where
  "load_config settle content sources path =
     map_sum id (\<lambda>init. settle (map (\<lambda>s. if s = FromInit then init else content s) sources)) (load_config_init path)"

fun dict_path :: "string list \<Rightarrow> pydict \<Rightarrow> pyval option" where
  "dict_path [] d = None"
| "dict_path [k] d = dict_get d k"
| "dict_path (k # ks) d = (case dict_get d k of Some (PyDict d') \<Rightarrow> dict_path ks d' | _ \<Rightarrow> None)"

text \<open>What the settings library documents: the first source that gives a setting decides its value, and a source without the
  section is passed over.\<close>

definition earlier_source_wins :: "pyval option settle \<Rightarrow> bool" where
  "earlier_source_wins settle \<longleftrightarrow>
     (\<forall>d ds ks v. dict_path ks d = Some v \<and> (\<forall>d'. v \<noteq> PyDict d') \<longrightarrow> settle (d # ds) ks = Some v) \<and>
     (\<forall>d ds k ks. \<not> dict_has d k \<longrightarrow> settle (d # ds) (k # ks) = settle ds (k # ks))"

subsection \<open>The instance\<close>

record instance_settings =
  in_llm_model :: string
  in_llm_key :: string
  in_llm_url :: string
  in_temperature :: rat
  in_max_tokens :: int
  in_auto_repair :: bool
  in_active_rules :: "string list"
  in_quirks_path :: string
  in_embed_model :: string
  in_embed_key :: string
  in_embed_url :: string
  in_embed_dim :: int
  in_cache_enabled :: bool
  in_cache_size :: int
  in_cache_eviction :: string
  in_engine :: engine_config

record graph_instance =
  gi_llm :: "string \<times> string \<times> string \<times> rat \<times> int"
  gi_output_mode :: string
  gi_registry :: registry
  gi_quirks_path :: string
  gi_embedder :: "string \<times> string \<times> string \<times> int"
  gi_cache :: "real list embed_cache option"
  gi_driver :: "string \<times> int \<times> string"
  gi_reranker :: "string \<times> string"

text \<open>\<open>None\<close>: the patch raises, and so does the call.  The settings object has no section \<open>database\<close>.\<close>

definition create_graphiti_instance ::
  "(string \<Rightarrow> string option) \<Rightarrow> string \<Rightarrow> py_env \<Rightarrow> instance_settings \<Rightarrow> vendor \<Rightarrow> graph_instance option \<times> vendor" where
  "create_graphiti_instance build version env c v =
     (case apply_falkor_edge_search_patch build version v of
        (None, v') \<Rightarrow> (None, v')
      | (Some report, v') \<Rightarrow>
          (Some \<lparr>gi_llm = (in_llm_key c, in_llm_model c, in_llm_url c, in_temperature c, in_max_tokens c),
             gi_output_mode = ''json_schema'',
             gi_registry = new_registry env (Some (if in_auto_repair c then in_active_rules c else [])),
             gi_quirks_path = in_quirks_path c,
             gi_embedder = (in_embed_key c, in_embed_url c, in_embed_model c, in_embed_dim c),
             gi_cache = (if in_cache_enabled c then Some (new_embed_cache (in_cache_size c)) else None),
             gi_driver = (ec_host (in_engine c), ec_port (in_engine c), ''graphiti_memory''),
             gi_reranker = (in_llm_key c, in_llm_url c)\<rparr>, v'))"

subsection \<open>Properties\<close>

text \<open>a legacy configuration gives the same settings when it is loaded directly and when the file that the migration writes from it is
  loaded.\<close>

lemma converted_has_graphiti: "convert_legacy_dict d = Inr out \<Longrightarrow> dict_has out ''graphiti''"
  by (auto simp: convert_legacy_dict_def Let_def dict_has_def split: sum.splits)

theorem migrated_config_loads_same:
  assumes "json_to_yaml (Some (Some v)) = Converted out"
    and "path_suffix q = ''.json''" "path_suffix p \<in> {''.yaml'', ''.yml''}"
  shows "load_config settle content sources (Some (p, Some (Some (PyDict out)))) =
    load_config settle content sources (Some (q, Some (Some v)))"
proof -
  obtain d where d: "v = PyDict d" "convert_legacy_dict d = Inr out"
    using assms(1) by (cases v) (auto simp: json_to_yaml_def split: sum.splits)
  then have "\<not> has_legacy_shape out" by (simp add: has_legacy_shape_def converted_has_graphiti)
  then show ?thesis using d assms(2,3) by (auto simp: load_config_def load_config_init_def)
qed

text \<open>A setting of the file that is named on the command line cannot be overridden by the environment.\<close>

theorem explicit_file_beats_environment:
  assumes "earlier_source_wins settle"
    and "load_config_init path = Inr d" "dict_path ks d = Some v" "\<And>v'. v \<noteq> PyDict v'"
    and "load_config settle content (settings_sources exists yaml_file) path = Inr cfg"
  shows "cfg ks = Some v"
proof -
  let ?c = "\<lambda>s. if s = FromInit then d else content s"
  obtain rest where rest: "settings_sources exists yaml_file = FromInit # rest"
    by (cases yaml_file; cases "exists (the yaml_file)") (simp_all add: settings_sources_def)
  have "cfg = settle (map ?c (settings_sources exists yaml_file))"
    using assms(2,5) by (simp add: load_config_def)
  moreover have "settle (d # map ?c rest) ks = Some v"
    using assms(1,3,4) by (simp add: earlier_source_wins_def)
  ultimately show ?thesis by (simp add: rest)
qed

text \<open>A file that is named but missing, or has another suffix, is silently replaced by the defaults.\<close>

lemma missing_file_ignored: "load_config_init (Some (p, None)) = load_config_init None"
  by (simp add: load_config_init_def)

lemma other_suffix_ignored:
  "path_suffix p \<notin> {''.yaml'', ''.yml'', ''.json''} \<Longrightarrow> load_config_init (Some (p, Some file)) = load_config_init None"
  by (auto simp: load_config_init_def)

text \<open>A JSON file in the present shape goes through the conversion of legacy files, which drops every section it has.\<close>

lemma present_json_lost:
  "load_config_init (Some (''config.json'', Some (Some (PyDict
      [(''engine'', PyDict [(''port'', PyInt 7000)]), (''pipeline'', PyDict [(''max_attempts'', PyInt 9)])])))) =
   Inr ([(''engine'', PyDict []), (''graphiti'', PyDict [(''llm'', PyDict []), (''embedding'', PyDict [])])] @ fixed_sections)"
  by code_simp

text \<open>With \<open>auto_repair\<close> off no response is repaired; and the eviction setting of the cache has no effect.\<close>

lemma no_rule_without_repair: "find_rule n (new_registry env (Some [])) = None"
proof -
  have "rg_active (fold register_rule rs g) = rg_active g" for rs g
    by (induction rs arbitrary: g) (simp_all add: register_rule_def)
  then show ?thesis by (simp add: find_rule_def get_rules_def new_registry_def)
qed

theorem instance_contract:
  "(case create_graphiti_instance build version env c v of (made, v') \<Rightarrow>
     v' = snd (apply_falkor_edge_search_patch build version v) \<and>
     (made = None \<longleftrightarrow> fst (apply_falkor_edge_search_patch build version v) = None) \<and>
     (case made of None \<Rightarrow> True
      | Some g \<Rightarrow> (\<not> in_auto_repair c \<longrightarrow> find_rule n (gi_registry g) = None) \<and> (gi_cache g \<noteq> None \<longleftrightarrow> in_cache_enabled c) \<and>
          snd (snd (gi_driver g)) = ''graphiti_memory'')) \<and>
   create_graphiti_instance build version env (c\<lparr>in_cache_eviction := e\<rparr>) v = create_graphiti_instance build version env c v"
  by (auto simp: create_graphiti_instance_def no_rule_without_repair split: prod.splits option.splits)

definition legacy_config :: pyval where
  "legacy_config = PyDict [(''database'', PyDict [(''host'', PyStr ''db''), (''port'', PyStr ''6380'')]), (''llm'', PyDict [(''model'', PyStr ''m'')])]"

lemma migrated_config_loads_same_witness:
  "\<exists>out. load_config (\<lambda>ds ks. dict_path ks (hd ds)) (\<lambda>s. []) [FromInit] (Some (''config.yaml'', Some (Some (PyDict out)))) =
    load_config (\<lambda>ds ks. dict_path ks (hd ds)) (\<lambda>s. []) [FromInit] (Some (''old.json'', Some (Some legacy_config)))"
proof -
  obtain out where "json_to_yaml (Some (Some legacy_config)) = Converted out"
  proof -
    have "(case json_to_yaml (Some (Some legacy_config)) of Converted out \<Rightarrow> True | _ \<Rightarrow> False)" by code_simp
    then show ?thesis using that by (auto split: conversion.splits)
  qed
  moreover have "path_suffix ''old.json'' = ''.json''" "path_suffix ''config.yaml'' \<in> {''.yaml'', ''.yml''}" by code_simp+
  ultimately show ?thesis
    using migrated_config_loads_same [of legacy_config out "''old.json''" "''config.yaml''"] by blast
qed

fun first_given :: "pyval option settle" where
  "first_given [] ks = None"
| "first_given (d # ds) ks = (case dict_path ks d of None \<Rightarrow> first_given ds ks | Some v \<Rightarrow> Some v)"

lemma first_given_wins: "earlier_source_wins first_given"
proof -
  have "dict_path (k # ks) d = None" if "\<not> dict_has d k" for d k ks
    using that by (cases ks) (auto simp: dict_has_get)
  then show ?thesis by (auto simp: earlier_source_wins_def)
qed

lemma explicit_file_beats_environment_witness:
  "\<exists>cfg. load_config first_given (\<lambda>s. if s = FromEnvironment then [(''engine'', PyDict [(''port'', PyInt 1)])] else [])
      (settings_sources (\<lambda>f. False) None) (Some (''c.yaml'', Some (Some (PyDict [(''engine'', PyDict [(''port'', PyInt 7000)])])))) = Inr cfg \<and>
    cfg [''engine'', ''port''] = Some (PyInt 7000)"
proof -
  let ?path = "Some (''c.yaml'', Some (Some (PyDict [(''engine'', PyDict [(''port'', PyInt 7000)])])))"
  let ?content = "\<lambda>s. if s = FromEnvironment then [(''engine'', PyDict [(''port'', PyInt 1)])] else []"
  have init: "load_config_init ?path = Inr [(''engine'', PyDict [(''port'', PyInt 7000)])]" by code_simp
  then obtain cfg where "load_config first_given ?content (settings_sources (\<lambda>f. False) None) ?path = Inr cfg"
    by (simp add: load_config_def)
  with explicit_file_beats_environment [OF first_given_wins init _ _ this, of "[''engine'', ''port'']" "PyInt 7000"] show ?thesis
    by auto
qed

end
