(* ===== verification/CommandLine.thy ===== *)
theory CommandLine
  imports RunReports ConfigLoad McpServer
begin

text \<open>
  \<open>cli/main.py\<close>: the subcommands, each with its exit code, what it prints and what it leaves.  The data directory is the one
  of the default layout: the queue's database is its \<open>episodes.db\<close>.  Parsing the arguments is the library's.
\<close>

subsection \<open>Commands\<close>

datatype cli_command =
    NoSubcommand
  | Doctor
  | EngineStart
  | EngineStop
  | EngineStatus
  | EngineRestart
  | SweepQueue "int option"
  | DreamNow bool "string option"
  | QueueStatus
  | QueueRetry string
  | QueueReap
  | CacheStats
  | ReportStats int "string option"
  | TestReport string pydict
  | MigrateConfig
  | SnapshotData
  | RollbackData
  | ServeMcp

text \<open>What is printed, as far as it depends on the state.\<close>

datatype cli_output =
    Quiet
  | Requeued string
  | Refused string "string \<times> string"
  | NotInDeadLetters string
  | ReapedRows int int
  | QueueShown "(ep_status \<times> int) list \<times> int" "(string \<times> int \<times> string) list"
  | QueueBroken
  | ReportLines "(pyval \<times> string \<times> pyval \<times> pyval) list"
  | NoReports
  | Dispatched "delivery list"
  | SweepDone sweep_summary "delivery list"
  | DreamDone dream_results "delivery list"
  | EngineAnswer bool
  | SnapshotTaken int string
  | FailureShown

datatype cli_end = ExitCode int | Uncaught

record 'c cli_world =
  cw_data :: "'c data_dir"
  cw_graph :: session
  cw_host :: engine_host
  cw_yaml :: "pydict option"
  cw_target :: "'c snapshot_dir option"

record cli_env =
  ce_now :: int
  ce_sha :: "string \<Rightarrow> string"
  ce_rd :: "string \<Rightarrow> int"
  ce_dispatch :: dispatch_env
  ce_sinks :: sinks_config
  ce_render :: render_env
  ce_pipeline :: pipeline_attrs
  ce_section :: pipeline_section
  ce_attempt_timeout :: int
  ce_max_attempts :: int
  ce_clock :: sweep_clock
  ce_rest :: "sweep \<Rightarrow> sweep"
  ce_dream :: dream_env
  ce_dream_config :: dream_config
  ce_dream_text :: dream_report_text
  ce_show_path :: "string \<Rightarrow> string"
  ce_arch :: string
  ce_engine :: engine_config
  ce_after_stop :: "engine_host option"
  ce_launch :: launch
  ce_loads :: "string \<Rightarrow> pyval option"
  ce_log :: "string list option"
  ce_legacy :: "pyval option option"
  ce_digest :: "store \<Rightarrow> string"

subsection \<open>The queue\<close>

text \<open>The queue is created when its file is missing.\<close>

definition stored :: "'c cli_world \<Rightarrow> store" where
  "stored w = (case dd_db (cw_data w) of None \<Rightarrow> empty_store | Some s \<Rightarrow> s)"

definition put_store :: "store \<Rightarrow> 'c cli_world \<Rightarrow> 'c cli_world" where
  "put_store s w = w\<lparr>cw_data := (cw_data w)\<lparr>dd_db := Some s\<rparr>\<rparr>"

definition with_queue ::
  "cli_env \<Rightarrow> (store \<Rightarrow> cli_end \<times> cli_output \<times> store) \<Rightarrow> 'c cli_world \<Rightarrow> cli_end \<times> cli_output \<times> 'c cli_world" where
  "with_queue env act w =
     (case open_queue (ce_sha env) (stored w) of
        Inl e \<Rightarrow> (Uncaught, Quiet, w)
      | Inr q \<Rightarrow> (case act (q_store q) of (code, out, s) \<Rightarrow> (code, out, put_store s w)))"

definition cli_queue_status :: "store \<Rightarrow> cli_end \<times> cli_output \<times> store" where
  "cli_queue_status s =
     (ExitCode 0, QueueShown (get_stats s) (map (\<lambda>d. (dl_id d, dl_attempts d, dl_last_error d)) (get_dlq_records 5 None None None s)), s)"

definition cli_queue_retry :: "cli_env \<Rightarrow> string \<Rightarrow> store \<Rightarrow> cli_end \<times> cli_output \<times> store" where
  "cli_queue_retry env i s =
     (let policy = Some (from_settings (Some (ce_pipeline env))) in
      case replay_dlq_episode i policy (ce_now env) s of
        (True, t) \<Rightarrow> (ExitCode 0, Requeued i, t)
      | (False, t) \<Rightarrow>
          (case dlq_refusal_reason i policy t of
             Some why \<Rightarrow> (ExitCode 1, Refused i why, t)
           | None \<Rightarrow> (ExitCode 1, NotInDeadLetters i, t)))"

definition cli_queue_reap :: "cli_env \<Rightarrow> store \<Rightarrow> cli_end \<times> cli_output \<times> store" where
  "cli_queue_reap env s =
     (case reap_stuck_processing (ce_rd env) (ce_attempt_timeout env) (ce_max_attempts env) (ce_now env) s of
        (stuck, s1) \<Rightarrow>
          (case reap_failed_or_aborted None (Some (from_settings (Some (ce_pipeline env)))) (ce_now env) s1 of
             (n_reaped, s2) \<Rightarrow> (ExitCode 0, ReapedRows stuck n_reaped, s2)))"

text \<open>\<open>cli_doctor\<close> catches what the queue raises.\<close>

definition cli_doctor :: "cli_env \<Rightarrow> 'c cli_world \<Rightarrow> cli_end \<times> cli_output \<times> 'c cli_world" where
  "cli_doctor env w =
     (case open_queue (ce_sha env) (stored w) of
        Inl e \<Rightarrow> (ExitCode 0, QueueBroken, w)
      | Inr q \<Rightarrow> (ExitCode 0, QueueShown (get_stats (q_store q)) [], put_store (q_store q) w))"

subsection \<open>Sweep and dream\<close>

definition cli_sweep :: "cli_env \<Rightarrow> int option \<Rightarrow> 'c cli_world \<Rightarrow> cli_end \<times> cli_output \<times> 'c cli_world" where
  "cli_sweep env batch_size w =
     (case run_cron_sweep (ce_dispatch env) (ce_sinks env) (ce_render env) (ce_sha env) (ce_rd env)
         (resolve_sweep batch_size worker_concurrency 900 900 (Some (ce_section env))) (ce_clock env) (ce_rest env) (stored w) of
        (Inl e, s) \<Rightarrow> (Uncaught, Quiet, put_store s w)
      | (Inr (x, out), s) \<Rightarrow> (ExitCode 0, SweepDone x out, put_store s w))"

definition cli_dream :: "cli_env \<Rightarrow> bool \<Rightarrow> string option \<Rightarrow> 'c cli_world \<Rightarrow> cli_end \<times> cli_output \<times> 'c cli_world" where
  "cli_dream env force group_id w =
     (case run_dream (ce_dispatch env) (ce_sinks env) (ce_render env) (ce_sha env) (ce_dream env) (ce_dream_config env)
         (ce_dream_text env) force group_id (cw_graph w, stored w) of
        (Inl e, ss, s) \<Rightarrow> (Uncaught, Quiet, put_store s (w\<lparr>cw_graph := ss\<rparr>))
      | (Inr (r, out), ss, s) \<Rightarrow> (ExitCode 0, DreamDone r out, put_store s (w\<lparr>cw_graph := ss\<rparr>)))"

subsection \<open>The engine\<close>

definition exit_of :: "bool \<Rightarrow> cli_end" where
  "exit_of ok = ExitCode (if ok then 0 else 1)"

definition started_end :: "start_outcome \<Rightarrow> cli_end \<times> cli_output" where
  "started_end o1 = (case o1 of Started r \<Rightarrow> (exit_of r, EngineAnswer r) | StartRaised \<Rightarrow> (Uncaught, Quiet))"

definition cli_engine :: "cli_env \<Rightarrow> cli_command \<Rightarrow> 'c cli_world \<Rightarrow> cli_end \<times> cli_output \<times> 'c cli_world" where
  "cli_engine env cmd w =
     (if cmd = EngineStart then
        (case manager_start (ce_show_path env) (ce_arch env) (ce_engine env) (ce_launch env) (cw_host w) of
           (h, o1, _) \<Rightarrow> (case started_end o1 of (code, out) \<Rightarrow> (code, out, w\<lparr>cw_host := h\<rparr>)))
      else if cmd = EngineStop then
        (case manager_stop (ce_after_stop env) (cw_host w) of
           (h, None, _) \<Rightarrow> (Uncaught, Quiet, w\<lparr>cw_host := h\<rparr>)
         | (h, Some r, _) \<Rightarrow> (exit_of r, EngineAnswer r, w\<lparr>cw_host := h\<rparr>))
      else if cmd = EngineStatus then
        (case manager_is_running (cw_host w) of None \<Rightarrow> (Uncaught, Quiet, w) | Some r \<Rightarrow> (ExitCode 0, EngineAnswer r, w))
      else
        (case manager_restart (ce_show_path env) (ce_arch env) (ce_engine env) (ce_after_stop env) (ce_launch env) (cw_host w) of
           (h, o1, _) \<Rightarrow> (case started_end o1 of (code, out) \<Rightarrow> (code, out, w\<lparr>cw_host := h\<rparr>))))"

subsection \<open>Reports\<close>

definition field_or_empty :: "string \<Rightarrow> pydict \<Rightarrow> pyval" where
  "field_or_empty k d = (case dict_get d k of None \<Rightarrow> PyStr [] | Some v \<Rightarrow> v)"

definition report_line :: "pyval \<Rightarrow> (pyval \<times> string \<times> pyval \<times> pyval) option" where
  "report_line item =
     (case item of
        PyDict d \<Rightarrow>
          (case field_or_empty ''severity'' d of
             PyStr sev \<Rightarrow> Some (field_or_empty ''timestamp'' d, py_upper sev, field_or_empty ''kind'' d, field_or_empty ''summary'' d)
           | _ \<Rightarrow> None)
      | _ \<Rightarrow> None)"

text \<open>The lines printed before an item that raises, and whether one does.\<close>

fun print_lines :: "pyval list \<Rightarrow> (pyval \<times> string \<times> pyval \<times> pyval) list \<times> bool" where
  "print_lines [] = ([], True)"
| "print_lines (x # xs) =
     (case report_line x of None \<Rightarrow> ([], False) | Some l \<Rightarrow> (case print_lines xs of (ls, ok) \<Rightarrow> (l # ls, ok)))"

definition cli_report_stats :: "cli_env \<Rightarrow> int \<Rightarrow> string option \<Rightarrow> cli_end \<times> cli_output" where
  "cli_report_stats env limit kind =
     (case ce_log env of
        None \<Rightarrow> (ExitCode 0, NoReports)
      | Some ls \<Rightarrow>
          (case matching_reports (ce_loads env) kind ls of
             None \<Rightarrow> (Uncaught, Quiet)
           | Some items \<Rightarrow>
               (case print_lines (last_items limit items) of
                  (printed, ok) \<Rightarrow> (if ok then ExitCode 0 else Uncaught, ReportLines printed))))"

text \<open>Both test commands send the same kind of event to every configured sink.\<close>

definition cli_test_report :: "cli_env \<Rightarrow> string \<Rightarrow> pydict \<Rightarrow> cli_end \<times> cli_output" where
  "cli_test_report env summary details =
     (case dispatcher_from_settings (ce_dispatch env) (ce_sinks env) of
        Inl e \<Rightarrow> (Uncaught, Quiet)
      | Inr sinks \<Rightarrow>
          (ExitCode 0, Dispatched (emit_event (ce_render env)
            (quick_event (sl_event_time (ce_clock env)) ''test_alert'' summary SevInfo (Some details)) sinks)))"

subsection \<open>Migration\<close>

definition cli_migrate :: "cli_env \<Rightarrow> 'c cli_world \<Rightarrow> cli_end \<times> cli_output \<times> 'c cli_world" where
  "cli_migrate env w =
     (case json_to_yaml (ce_legacy env) of
        Converted out \<Rightarrow> (ExitCode 0, Quiet, w\<lparr>cw_yaml := Some out\<rparr>)
      | _ \<Rightarrow> (ExitCode 1, FailureShown, w))"

definition new_snapshot_dir :: "'c snapshot_dir" where
  "new_snapshot_dir = \<lparr>sd_db = None, sd_checkpoints = None, sd_latest = None, sd_metadata = None\<rparr>"

definition cli_snapshot :: "cli_env \<Rightarrow> 'c cli_world \<Rightarrow> cli_end \<times> cli_output \<times> 'c cli_world" where
  "cli_snapshot env w =
     (case snapshot_database (ce_digest env) True (dd_db (cw_data w)) (dd_checkpoints (cw_data w))
         (case cw_target w of None \<Rightarrow> new_snapshot_dir | Some t \<Rightarrow> t) of
        None \<Rightarrow> (ExitCode 1, FailureShown, w)
      | Some (meta, t) \<Rightarrow> (ExitCode 0, SnapshotTaken (sn_total (snd meta)) (take 12 (fst meta)), w\<lparr>cw_target := Some t\<rparr>))"

definition cli_rollback :: "'c cli_world \<Rightarrow> cli_end \<times> cli_output \<times> 'c cli_world" where
  "cli_rollback w =
     (case rollback_database (cw_target w) (cw_data w) of
        None \<Rightarrow> (ExitCode 1, FailureShown, w)
      | Some d \<Rightarrow> (ExitCode 0, Quiet, w\<lparr>cw_data := d\<rparr>))"

subsection \<open>\<open>run_cli\<close>\<close>

definition run_cli :: "cli_env \<Rightarrow> cli_command \<Rightarrow> 'c cli_world \<Rightarrow> cli_end \<times> cli_output \<times> 'c cli_world" where
  "run_cli env cmd w =
     (case cmd of
        NoSubcommand \<Rightarrow> (ExitCode 0, Quiet, w)
      | Doctor \<Rightarrow> cli_doctor env w
      | SweepQueue n \<Rightarrow> cli_sweep env n w
      | DreamNow force g \<Rightarrow> cli_dream env force g w
      | QueueStatus \<Rightarrow> with_queue env cli_queue_status w
      | QueueRetry i \<Rightarrow> with_queue env (cli_queue_retry env i) w
      | QueueReap \<Rightarrow> with_queue env (cli_queue_reap env) w
      | CacheStats \<Rightarrow> (ExitCode 0, Quiet, w)
      | ReportStats limit kind \<Rightarrow> (case cli_report_stats env limit kind of (code, out) \<Rightarrow> (code, out, w))
      | TestReport summary details \<Rightarrow> (case cli_test_report env summary details of (code, out) \<Rightarrow> (code, out, w))
      | MigrateConfig \<Rightarrow> cli_migrate env w
      | SnapshotData \<Rightarrow> cli_snapshot env w
      | RollbackData \<Rightarrow> cli_rollback w
      | ServeMcp \<Rightarrow> (ExitCode 0, Quiet, w)
      | _ \<Rightarrow> cli_engine env cmd w)"

text \<open>A session: commands one after the other, each in an environment of its own.\<close>

fun run_commands :: "(cli_env \<times> cli_command) list \<Rightarrow> 'c cli_world \<Rightarrow> 'c cli_world" where
  "run_commands [] w = w"
| "run_commands ((env, cmd) # cs) w = run_commands cs (snd (snd (run_cli env cmd w)))"

subsection \<open>Properties\<close>

lemma put_store_simps [simp]:
  "cw_target (put_store s w) = cw_target w" "dd_db (cw_data (put_store s w)) = Some s"
  by (simp_all add: put_store_def)

lemma with_queue_target: "cw_target (snd (snd (with_queue env act w))) = cw_target w"
  by (simp add: with_queue_def split: sum.splits prod.splits)

lemma snapshot_kept:
  assumes "cmd \<noteq> SnapshotData"
  shows "cw_target (snd (snd (run_cli env cmd w))) = cw_target w"
proof (cases cmd)
  case (SweepQueue n)
  then show ?thesis by (simp add: run_cli_def cli_sweep_def split: prod.splits sum.splits)
next
  case (DreamNow f g)
  then show ?thesis by (simp add: run_cli_def cli_dream_def split: prod.splits sum.splits)
next
  case (ReportStats n k)
  then show ?thesis by (simp add: run_cli_def split: prod.splits)
next
  case (TestReport x d)
  then show ?thesis by (simp add: run_cli_def split: prod.splits)
qed (use assms in \<open>auto simp: run_cli_def with_queue_target cli_doctor_def cli_engine_def cli_migrate_def cli_rollback_def
    split: prod.splits sum.splits option.splits conversion.splits\<close>)

lemma commands_keep_snapshot:
  "SnapshotData \<notin> snd ` set cs \<Longrightarrow> cw_target (run_commands cs w) = cw_target w"
proof (induction cs arbitrary: w)
  case (Cons c cs)
  obtain env cmd where c: "c = (env, cmd)" by (cases c)
  then show ?case using Cons snapshot_kept [of cmd env w] by auto
qed simp

text \<open>after a successful snapshot, whatever commands are run except another snapshot - sweeps, dreams, replays, migrations,
  rollbacks - a rollback succeeds and brings back the very database of the moment of the snapshot, and its checkpoints if there
  were some.\<close>

theorem rollback_undoes_session:
  assumes "run_cli env SnapshotData w = (ExitCode 0, out, w1)"
    and "SnapshotData \<notin> snd ` set cs"
  shows "\<exists>w2. run_cli env' RollbackData (run_commands cs w1) = (ExitCode 0, Quiet, w2) \<and> dd_db (cw_data w2) = dd_db (cw_data w) \<and>
    dd_db (cw_data w) \<noteq> None \<and> (dd_checkpoints (cw_data w) \<noteq> None \<longrightarrow> dd_checkpoints (cw_data w2) = dd_checkpoints (cw_data w))"
proof -
  obtain s meta t where snap: "dd_db (cw_data w) = Some s"
      "snapshot_database (ce_digest env) True (Some s) (dd_checkpoints (cw_data w))
         (case cw_target w of None \<Rightarrow> new_snapshot_dir | Some t \<Rightarrow> t) = Some (meta, t)" and w1: "cw_target w1 = Some t"
    using assms(1) by (cases "dd_db (cw_data w)")
      (auto simp: run_cli_def cli_snapshot_def snapshot_database_def Let_def split: option.splits)
  have target: "cw_target (run_commands cs w1) = Some t" using commands_keep_snapshot [OF assms(2), of w1] w1 by simp
  have sd: "sd_db t = Some s" "dd_checkpoints (cw_data w) \<noteq> None \<longrightarrow> sd_checkpoints t = dd_checkpoints (cw_data w)"
    using snap(2) by (auto simp: snapshot_database_def Let_def split: if_splits)
  show ?thesis
    using sd by (auto simp: run_cli_def cli_rollback_def target rollback_database_def snap(1) Let_def split: option.splits)
qed

text \<open>The commands that only look: they leave the database as opening it does.\<close>

theorem inspection_changes_nothing:
  assumes "cmd \<in> {Doctor, QueueStatus, CacheStats, ReportStats n k, TestReport x d, EngineStatus, SnapshotData, ServeMcp, NoSubcommand, MigrateConfig}"
  shows "dd_db (cw_data (snd (snd (run_cli env cmd w)))) = dd_db (cw_data w) \<or>
    (\<exists>q. open_queue (ce_sha env) (stored w) = Inr q \<and> dd_db (cw_data (snd (snd (run_cli env cmd w)))) = Some (q_store q))"
  using assms
  by (auto simp: run_cli_def cli_doctor_def with_queue_def cli_queue_status_def cli_engine_def cli_migrate_def cli_snapshot_def
      split: prod.splits sum.splits option.splits conversion.splits)

text \<open>a manual replay: exit code 0 exactly when the queue took the episode back; otherwise code 1 and no change, and the refusal that is
  printed is the policy's for the recorded error.\<close>

theorem queue_retry_contract:
  assumes "cli_queue_retry env i s = (code, out, t)"
  shows "(code = ExitCode 0 \<longleftrightarrow> fst (replay_dlq_episode i (Some (from_settings (Some (ce_pipeline env)))) (ce_now env) s)) \<and>
    (code \<noteq> ExitCode 0 \<longrightarrow> code = ExitCode 1 \<and> t = s) \<and>
    (\<forall>why. out = Refused i why \<longrightarrow>
       (\<exists>d. find_dead i s = Some d \<and> refusal_of (effective_policy (Some (from_settings (Some (ce_pipeline env))))) (dl_last_error d) = Some why)) \<and>
    (out = NotInDeadLetters i \<longrightarrow>
       find_dead i s = None \<or> (\<exists>d. find_dead i s = Some d \<and> refusal_of (effective_policy (Some (from_settings (Some (ce_pipeline env))))) (dl_last_error d) = None))"
proof -
  let ?p = "Some (from_settings (Some (ce_pipeline env)))"
  have unchanged: "replay_dlq_episode i ?p (ce_now env) s = (False, t') \<Longrightarrow> t' = s" for t'
    by (auto simp: replay_dlq_episode_def split: option.splits if_splits prod.splits)
  obtain ok t' where run: "replay_dlq_episode i ?p (ce_now env) s = (ok, t')" by (metis prod.exhaust)
  show ?thesis
    using assms unchanged [of t'] run
    by (cases ok) (auto simp: cli_queue_retry_def dlq_refusal_reason_def Let_def split: option.splits)
qed

text \<open>Exit codes that say nothing: a sweep exits with 0 however many records failed, a dream whatever phases failed, and a test of a
  sink that is not configured reports a dispatched message.\<close>

lemma sweep_exit_ignores_failures: "fst (run_cli env (SweepQueue n) w) \<in> {ExitCode 0, Uncaught}"
  by (auto simp: run_cli_def cli_sweep_def split: prod.splits sum.splits)

lemma dream_exit_ignores_failures: "fst (run_cli env (DreamNow f g) w) \<in> {ExitCode 0, Uncaught}"
  by (auto simp: run_cli_def cli_dream_def split: prod.splits sum.splits)

lemma test_without_sink_succeeds:
  assumes "\<not> fc_enabled (ce_sinks env)" "\<not> cc_enabled (ce_sinks env)" "\<not> tc_enabled (ce_sinks env)" "\<not> pc_enabled (ce_sinks env)"
    "\<not> wc_enabled (ce_sinks env)"
  shows "cli_test_report env x d = (ExitCode 0, Dispatched [])"
  using assms by (simp add: cli_test_report_def dispatcher_from_settings_def optional_sink_def emit_event_def List.map_filter_simps Let_def)

text \<open>A log line that is JSON but no object stops the listing.\<close>

lemma odd_line_raises:
  assumes "ce_log env = Some [''[]'']" "ce_loads env = (\<lambda>l. Some (PyList []))"
  shows "cli_report_stats env 10 None = (Uncaught, ReportLines [])"
proof -
  have "py_strip ''[]'' = ''[]''" by code_simp
  then show ?thesis using assms by (simp add: cli_report_stats_def last_items_def report_line_def)
qed

end
