(* ===== verification/Spec2Isabelle.thy ===== *)
theory Spec2Isabelle
  imports Supervisor Worker RateLimiter CronLoop DreamRun EmbedCache MemoryHandler Lifespan McpServer Migration CommandLine
begin

text \<open>
  Janus-Graph keeps a knowledge graph of what an assistant was told.  Text arrives as episodes: the MCP server and a daemon write
  them to an SQLite queue, a cron sweep hands them to the graph library, whose language-model answers are repaired on the way,
  and a nightly run (the dream) folds duplicates and removes orphans in the FalkorDB graph.  A supervisor probes the
  database engine and restarts it.  Clients search through the MCP server or the daemon's HTTP routes; sweeps and dreams send a
  report to the configured sinks.  Source paths are relative to \<open>src/janus_graph/\<close>.

  \<^bold>\<open>Theories.\<close>

  \<^item> \<open>Prelude\<close>, \<open>PyValue\<close>, \<open>PyNumber\<close>: collections of facts, Python strings, dictionaries and dynamically typed
    values, \<open>int\<close> and \<open>float\<close> with the exceptions they raise.

  \<^item> Engine supervision.  \<open>SlidingWindow\<close>: the locale of a limiter that counts admissions in a moving window.
    \<open>CircuitBreaker\<close> (\<open>daemon/circuit_breaker.py\<close>): record \<open>breaker\<close>, one function per method.  \<open>RestartPolicy\<close>
    (\<open>daemon/falkordb_restart_policy.py\<close>): record \<open>policy\<close>.  \<open>Supervisor\<close> (\<open>daemon/falkordb_supervisor.py\<close>): both
    of them and the hook between them.  \<open>RateLimiter\<close>: the token bucket of
    \<open>daemon/http_search_memory_handler.py\<close>.  The three limiters interpret the window locale.

  \<^item> Episodes.  \<open>PayloadHash\<close> (\<open>core/payload_hash.py\<close>): the text whose SHA-256 is the content address.
    \<open>EpisodeStore\<close> (the tables of \<open>pipeline/queue.py\<close> and the vocabulary of \<open>core/dedup.py\<close>): the record \<open>store\<close>, statements
    as functions on it, the partial unique index, locales for row updates.  \<open>EpisodeQueue\<close>, \<open>QueueRequeue\<close>, \<open>QueueReads\<close>:
    the methods of the queue, a transaction being one step.  \<open>QueueAdapter\<close> (\<open>daemon/episode_queue_adapter.py\<close>):
    the daemon's writer.  \<open>QueueRuns\<close>: all histories of the tables under any interleaving of these writers.
    \<open>RetryPolicy\<close> (with \<open>pipeline/retry.py\<close>), \<open>Worker\<close> (\<open>pipeline/worker.py\<close>, \<open>pipeline/cron.py\<close>) and
    \<open>CronLoop\<close> (\<open>daemon/cron_loop.py\<close>).

  \<^item> The dream.  \<open>GraphStore\<close>: the property graph as the Cypher statements read and write it; a statement
    may fail at any time.  \<open>DedupPlan\<close> (\<open>pipeline/dedup.py\<close>); \<open>DedupApply\<close>, \<open>DedupDone\<close>, \<open>EpisodicFold\<close>,
    \<open>DedupRun\<close> (\<open>pipeline/dedup_apply.py\<close>); \<open>DreamCluster\<close>, \<open>DreamPrune\<close> (\<open>pipeline/dream_phases.py\<close>,
    \<open>pipeline/dream_apply.py\<close>); \<open>Dream\<close>, \<open>DreamRun\<close> (\<open>pipeline/dream.py\<close>).

  \<^item> \<open>LruCache\<close> (\<open>cache/lru.py\<close>, \<open>cache/stats.py\<close>) and its users in \<open>EmbedCache\<close> (\<open>daemon/embedding_client.py\<close>,
    \<open>cache/embed_cache.py\<close>).

  \<^item> \<open>Repair\<close> (\<open>heuristics/rules/\<close>) and \<open>RepairClient\<close> (\<open>heuristics/registry.py\<close>, \<open>quirks_logger.py\<close>,
    \<open>repairing_client.py\<close>).  \<open>VendorPatch\<close> (\<open>heuristics/vendor_patches/\<close>): the patch of three functions of the graph library.

  \<^item> Search.  \<open>Settings\<close> (\<open>config.py\<close>): search settings and their environment variables.  \<open>SearchMemory\<close>
    (\<open>engine/search_memory.py\<close>): the search with its cosine gate.  \<open>MemoryHandler\<close>
    (\<open>daemon/http_search_memory_handler.py\<close>): its route.  \<open>GraphSearch\<close> (\<open>daemon/search_engine.py\<close>): request validation, query
    texts, traversal rows, ranking.  \<open>HttpServer\<close> (\<open>daemon/http_server.py\<close>): the other routes.

  \<^item> Processes and tools.  \<open>Lifespan\<close> (\<open>daemon/lifespan.py\<close>): boot and shutdown, record \<open>daemon_context\<close>.  \<open>McpServer\<close>
    (\<open>mcp/server.py\<close>): one function per tool, the read-only guard over Unicode code points.  \<open>EngineServer\<close>
    (\<open>engine/server.py\<close>): the manager of the server process over record \<open>engine_host\<close>.  \<open>ConfigLoad\<close> (\<open>config.py\<close>,
    \<open>core/instance.py\<close>): which file and which source a setting comes from, how the instance is put together.
    \<open>Migration\<close> (\<open>migrate.py\<close>).  \<open>Reports\<close> (\<open>report/\<close>) and \<open>RunReports\<close>: sinks, dispatcher, and the sweep and the
    dream with their dispatcher.  \<open>CommandLine\<close> (\<open>cli/main.py\<close>): every subcommand over record \<open>cli_world\<close>.

  \<^bold>\<open>What is shown.\<close>

  \<^item> Supervision: rate limits over every window of any run, one hook per outage, the thresholds at which the breaker trips.

  \<^item> Queue: in every history at most one active episode per enforced content address, no row lost or altered, the races
    between the two writers, the order of claims, what reaping and replay may touch; a sweep under any interleaving
    settles each claimed episode once and can always make progress.  A claim takes exactly the oldest queued rows.  The
    daemon's writer and the MCP writer agree wherever their inputs do.

  \<^item> Graph: deduplication loses no mention and no fact, deletes planned victims only, and with an answering driver all of them;
    folding keeps the knowledge of each group and writes undo rows first; clustering does not depend on iteration order;
    pruning touches only blank, unreferenced entities; an unforced dream changes the graph through phase 2 alone; the audit
    row tells what the run did.

  \<^item> Caches and repair: which keys the cache holds, which service answer a vector comes from, the shape of
    repaired payloads and what the repairing client returns; the vendor patch can be taken back.

  \<^item> Search and routes: scores stay with their edges, results are rows of the traversal above the floor and in ranking order,
    written literals read back, each route's status says what happened (a 404 only when every seed was looked up and is absent), no
    address exceeds its rate.

  \<^item> Processes and tools: the daemon shuts down in order whatever boot step raised; the guard refuses exactly the queries with a
    keyword as a word; a stale pid file hides a dead engine; a named configuration file beats the environment; a rollback restores
    the tables of the snapshot; a pipe command that is not on disk stops sweeps and dreams.

  A lemma whose name or text speaks of a loss, a race or a divergence proves a behaviour that a comment of the source denies.

  \<^bold>\<open>Conventions.\<close>  A lock-protected method or an SQLite transaction is one step.  Where the code awaits, another
  call may come between: lookups and commits are separate functions, and theorems about runs quantify over all interleavings.
  Clocks, fresh identifiers, digests, environment values, answers of services and failures of statements are
  arguments.  Exceptions are values of a sum type, absent values \<open>None\<close>.  No definition uses fuel: the loops of the code
  run over finite lists or are bounded by the code itself (rounds of label propagation, batch sizes), and the
  functions that are not structurally recursive (replacement in texts, escape sequences, the traversals of finite graphs) have
  termination proofs.  Probes and starts of the supervisor are also split at their awaits (\<open>Admit\<close>, \<open>Succeed\<close>, \<open>Fail\<close>), so its
  rate limit holds for calls that overlap.  One step of a worker comprises the backstop look-up, the skip and the checkpoint of a
  record, which the code separates by awaits.

  \<^bold>\<open>Assumptions that a theorem needs and the code does not enforce\<close> are stated in it: a mention of its own uuid for
  each MENTIONS edge (an interrupted fold can break it, see \<open>interrupted_fold_loses_mention\<close>), a driver that answers where a number
  is predicted, a fresh identifier that is free where two writers are compared.

  \<^bold>\<open>Not modelled.\<close>  The graph library, the database, the services and the settings library, which are parameters;
  \<open>engine/client.py\<close> and the entry point of the daemon (calls into them); field classes of \<open>config.py\<close> without logic, which appear
  as records of the components that read them; log texts.  Queue statements of the worker that fail, and its cancellation.  A
  clean-up at shutdown that raises anything but a timeout is modelled on its own (\<open>run_cleanups\<close>); the theorem about
  \<open>run_daemon\<close> is about clean-ups that end or run late.  A database is its tables: write-ahead logs left by a crash are not
  modelled.  Rounding of floating-point numbers is not modelled, nor is text outside ASCII in \<open>strip\<close>, \<open>lower\<close> and
  \<open>upper\<close>; the guard of the MCP server reads code points and takes the table of other letters as a parameter.
\<close>

end
